(* ===== verification/BleFsm.thy ===== *)
theory BleFsm
  imports Prelude
begin

text \<open>
  \<open>nimble_ble::BleConnectionFsm\<close> (components/nimble_ble/ble_connection_fsm.h and .cpp): one
  connection slot's outer state machine, its deadline and its failure counter. Time is the
  32-bit millisecond clock \<open>millis()\<close>, which wraps; \<open>deadline_ms = 0\<close> is the code's
  "no deadline". The second half runs the machine the way \<open>NimbleGattEngine::loop\<close> does,
  events first and then \<open>poll_timeout\<close>, and proves the bound on the time spent in
  \<open>Connecting\<close> and \<open>Discovering\<close>.
\<close>

section \<open>States, events, the machine\<close>

datatype ble_conn_state =
  IDLE | SCANNING | CONNECTING | DISCOVERING | READY | DISCONNECTING | BACKOFF

datatype ble_conn_event =
  SCAN_START | ADV_MATCHED | CONNECT_REQUEST | GAP_CONNECT_OK | GAP_CONNECT_FAIL
| CONNECT_TIMEOUT | DISCOVER_START | DISCOVER_DONE | DISCOVER_TIMEOUT | DISCONNECT_REQUEST
| GAP_DISCONNECT_EVT | BACKOFF_ELAPSED | DROP_UNSOLICITED_PAIRING

definition ble_conn_state_name :: "ble_conn_state \<Rightarrow> string" where
  "ble_conn_state_name s = (case s of
     IDLE \<Rightarrow> ''Idle'' | SCANNING \<Rightarrow> ''Scanning'' | CONNECTING \<Rightarrow> ''Connecting''
   | DISCOVERING \<Rightarrow> ''Discovering'' | READY \<Rightarrow> ''Ready'' | DISCONNECTING \<Rightarrow> ''Disconnecting''
   | BACKOFF \<Rightarrow> ''Backoff'')"

definition ble_conn_event_name :: "ble_conn_event \<Rightarrow> string" where
  "ble_conn_event_name e = (case e of
     SCAN_START \<Rightarrow> ''scan_start'' | ADV_MATCHED \<Rightarrow> ''adv_matched''
   | CONNECT_REQUEST \<Rightarrow> ''connect_request'' | GAP_CONNECT_OK \<Rightarrow> ''gap_connect_ok''
   | GAP_CONNECT_FAIL \<Rightarrow> ''gap_connect_fail'' | CONNECT_TIMEOUT \<Rightarrow> ''connect_timeout''
   | DISCOVER_START \<Rightarrow> ''discover_start'' | DISCOVER_DONE \<Rightarrow> ''discover_done''
   | DISCOVER_TIMEOUT \<Rightarrow> ''discover_timeout'' | DISCONNECT_REQUEST \<Rightarrow> ''disconnect_request''
   | GAP_DISCONNECT_EVT \<Rightarrow> ''gap_disconnect_evt'' | BACKOFF_ELAPSED \<Rightarrow> ''backoff_elapsed''
   | DROP_UNSOLICITED_PAIRING \<Rightarrow> ''drop_unsolicited_pairing'')"

record ble_fsm =
  fsm_state :: ble_conn_state
  deadline_ms :: u32
  backoff_count :: u16

definition fsm_init :: ble_fsm where
  "fsm_init = \<lparr>fsm_state = IDLE, deadline_ms = 0, backoff_count = 0\<rparr>"

definition has_deadline :: "ble_fsm \<Rightarrow> bool" where
  "has_deadline f \<longleftrightarrow> fsm_state f = CONNECTING \<or> fsm_state f = DISCOVERING"

definition enter :: "ble_conn_state \<Rightarrow> u32 \<Rightarrow> u32 \<Rightarrow> ble_fsm \<Rightarrow> ble_fsm" where
  "enter s now dl f =
     (let f = (if s = BACKOFF then f\<lparr>backoff_count := backoff_count f + 1\<rparr>
               else if s = READY then f\<lparr>backoff_count := 0\<rparr>
               else f)
      in f\<lparr>fsm_state := s, deadline_ms := (if dl = 0 then 0 else now + dl)\<rparr>)"

definition handle_event :: "ble_conn_event \<Rightarrow> u32 \<Rightarrow> ble_fsm \<Rightarrow> ble_fsm \<times> bool" where
  "handle_event e now f =
     (case fsm_state f of
        IDLE \<Rightarrow>
          (case e of
             SCAN_START \<Rightarrow> (enter SCANNING now 0 f, True)
           | CONNECT_REQUEST \<Rightarrow> (enter CONNECTING now 5000 f, True)
           | _ \<Rightarrow> (f, False))
      | SCANNING \<Rightarrow>
          (case e of
             ADV_MATCHED \<Rightarrow> (enter IDLE now 0 f, True)
           | _ \<Rightarrow> (f, False))
      | CONNECTING \<Rightarrow>
          (case e of
             GAP_CONNECT_OK \<Rightarrow> (enter DISCOVERING now 8000 f, True)
           | GAP_CONNECT_FAIL \<Rightarrow> (enter BACKOFF now 0 f, True)
           | CONNECT_TIMEOUT \<Rightarrow> (enter BACKOFF now 0 f, True)
           | DROP_UNSOLICITED_PAIRING \<Rightarrow> (enter BACKOFF now 0 f, True)
           | _ \<Rightarrow> (f, False))
      | DISCOVERING \<Rightarrow>
          (case e of
             DISCOVER_DONE \<Rightarrow> (enter READY now 0 f, True)
           | DISCOVER_TIMEOUT \<Rightarrow> (enter BACKOFF now 0 f, True)
           | GAP_DISCONNECT_EVT \<Rightarrow> (enter BACKOFF now 0 f, True)
           | _ \<Rightarrow> (f, False))
      | READY \<Rightarrow>
          (case e of
             DISCONNECT_REQUEST \<Rightarrow> (enter DISCONNECTING now 0 f, True)
           | GAP_DISCONNECT_EVT \<Rightarrow> (enter BACKOFF now 0 f, True)
           | _ \<Rightarrow> (f, False))
      | DISCONNECTING \<Rightarrow>
          (case e of
             GAP_DISCONNECT_EVT \<Rightarrow> (enter IDLE now 0 f, True)
           | _ \<Rightarrow> (f, False))
      | BACKOFF \<Rightarrow>
          (case e of
             BACKOFF_ELAPSED \<Rightarrow> (enter IDLE now 0 f, True)
           | _ \<Rightarrow> (f, False)))"

definition poll_timeout :: "u32 \<Rightarrow> ble_fsm \<Rightarrow> ble_fsm \<times> bool" where
  "poll_timeout now f =
     (if \<not> has_deadline f \<or> deadline_ms f = 0 \<or> now < deadline_ms f then (f, False)
      else handle_event
             (if fsm_state f = CONNECTING then CONNECT_TIMEOUT else DISCOVER_TIMEOUT) now f)"

lemmas fsm_defs [step_simps] =
  handle_event_def poll_timeout_def enter_def has_deadline_def fsm_init_def


section \<open>Running the machine as the engine's loop does\<close>

text \<open>
  \<open>NimbleGattEngine::loop\<close> first drains the queued events and then calls
  \<open>poll_timeout(millis())\<close>; a tick is a time and the events handled at it. \<open>paced P t ticks\<close>:
  the ticks follow time \<open>t\<close>, are at most \<open>P\<close> ms apart, and the clock stays 8 s away from
  its wrap-around.
\<close>

definition fsm_events :: "u32 \<Rightarrow> ble_conn_event list \<Rightarrow> ble_fsm \<Rightarrow> ble_fsm" where
  "fsm_events now es f = fold (\<lambda>e g. fst (handle_event e now g)) es f"

definition fsm_tick :: "u32 \<times> ble_conn_event list \<Rightarrow> ble_fsm \<Rightarrow> ble_fsm" where
  "fsm_tick tk f = fst (poll_timeout (fst tk) (fsm_events (fst tk) (snd tk) f))"

definition fsm_run :: "(u32 \<times> ble_conn_event list) list \<Rightarrow> ble_fsm \<Rightarrow> ble_fsm" where
  "fsm_run ticks f = fold fsm_tick ticks f"

fun paced :: "nat \<Rightarrow> nat \<Rightarrow> (u32 \<times> 'a list) list \<Rightarrow> bool" where
  "paced P t [] \<longleftrightarrow> True"
| "paced P t ((now, es) # rest) \<longleftrightarrow>
     t \<le> unat now \<and> unat now \<le> t + P \<and> unat now + 8000 < 2 ^ 32 \<and> paced P (unat now) rest"

text \<open>A non-deadline state carries no deadline: whatever the clock does.\<close>

definition fsm_wf :: "ble_fsm \<Rightarrow> bool" where
  "fsm_wf f \<longleftrightarrow> (\<not> has_deadline f \<longrightarrow> deadline_ms f = 0)"

text \<open>
  The attempt that started at \<open>t0\<close>, seen at time \<open>t\<close>: \<open>mid\<close> while the events of a tick are
  being handled, \<open>settled\<close> after its \<open>poll_timeout\<close>.
\<close>

definition mid :: "nat \<Rightarrow> nat \<Rightarrow> nat \<Rightarrow> ble_fsm \<Rightarrow> bool" where
  "mid P t0 t f \<longleftrightarrow>
     (fsm_state f = CONNECTING \<longrightarrow> unat (deadline_ms f) = t0 + 5000 \<and> t < t0 + 5000 + P) \<and>
     (fsm_state f = DISCOVERING \<longrightarrow>
        0 < unat (deadline_ms f) \<and> unat (deadline_ms f) < t0 + 13000 + P)"

definition settled :: "nat \<Rightarrow> nat \<Rightarrow> nat \<Rightarrow> ble_fsm \<Rightarrow> bool" where
  "settled P t0 t f \<longleftrightarrow>
     (fsm_state f = CONNECTING \<longrightarrow> unat (deadline_ms f) = t0 + 5000) \<and>
     (fsm_state f = DISCOVERING \<longrightarrow> unat (deadline_ms f) < t0 + 13000 + P) \<and>
     (has_deadline f \<longrightarrow> t < unat (deadline_ms f))"

section \<open>Single events\<close>

lemma fsm_wf_init: "fsm_wf fsm_init"
  by (simp add: fsm_wf_def step_simps)

lemma handle_event_wf [inv_intros]: "fsm_wf f \<Longrightarrow> fsm_wf (fst (handle_event e now f))"
  by (auto simp: fsm_wf_def step_simps split: ble_conn_state.splits ble_conn_event.splits)

lemma poll_timeout_wf [inv_intros]: "fsm_wf f \<Longrightarrow> fsm_wf (fst (poll_timeout now f))"
  by (simp add: poll_timeout_def handle_event_wf)

lemma unat_deadline_add:
  "unat (now :: u32) + n < 2 ^ 32 \<Longrightarrow> unat (now + of_nat n) = unat now + n"
  by (simp add: unat_word_ariths unat_of_nat)

lemmas unat_add_5000 = unat_deadline_add [of _ 5000, simplified]
lemmas unat_add_8000 = unat_deadline_add [of _ 8000, simplified]

lemma deadline_nonzero:
  "unat (now :: u32) + n < 2 ^ 32 \<Longrightarrow> 0 < n \<Longrightarrow> now + of_nat n \<noteq> 0"
  using unat_deadline_add [of now n] by (metis add_gr_0 less_numeral_extra(3) unat_0)

lemma handle_event_mid [inv_intros]:
  assumes "mid P t0 (unat now) f" and "e \<noteq> CONNECT_REQUEST" and "unat now + 8000 < 2 ^ 32"
  shows "mid P t0 (unat now) (fst (handle_event e now f))"
  using assms
  by (auto simp: mid_def handle_event_def enter_def unat_add_8000
           split: ble_conn_state.splits ble_conn_event.splits)

lemma fsm_events_mid [inv_intros]:
  assumes "mid P t0 (unat now) f" and "CONNECT_REQUEST \<notin> set es" and "unat now + 8000 < 2 ^ 32"
  shows "mid P t0 (unat now) (fsm_events now es f)"
  using assms
proof (induction es arbitrary: f)
  case (Cons e es)
  then have "mid P t0 (unat now) (fst (handle_event e now f))"
    by (intro handle_event_mid) auto
  with Cons show ?case by (simp add: fsm_events_def)
qed (simp add: fsm_events_def)

lemma poll_timeout_settled:
  assumes "mid P t0 (unat now) f"
  shows "settled P t0 (unat now) (fst (poll_timeout now f))"
proof (cases "\<not> has_deadline f \<or> now < deadline_ms f")
  case True
  with assms show ?thesis
    by (auto simp: settled_def mid_def poll_timeout_def has_deadline_def word_less_nat_alt)
next
  case False
  with assms have "deadline_ms f \<noteq> 0"
    by (auto simp: mid_def has_deadline_def)
  with False show ?thesis
    by (auto simp: settled_def step_simps)
qed

lemma fsm_tick_settled:
  assumes "settled P t0 t f" and "t \<le> unat now" and "unat now \<le> t + P"
    and "CONNECT_REQUEST \<notin> set es" and "unat now + 8000 < 2 ^ 32"
  shows "settled P t0 (unat now) (fsm_tick (now, es) f)"
proof -
  from assms(1,3) have "mid P t0 (unat now) f"
    by (auto simp: settled_def mid_def has_deadline_def)
  with assms(4,5) show ?thesis
    by (simp add: fsm_tick_def poll_timeout_settled fsm_events_mid)
qed

lemma fsm_run_settled:
  assumes "settled P t0 t f" and "paced P t ticks"
    and "\<forall>tk \<in> set ticks. CONNECT_REQUEST \<notin> set (snd tk)"
  shows "settled P t0 (last (t # map (\<lambda>tk. unat (fst tk)) ticks)) (fsm_run ticks f)"
  using assms
proof (induction ticks arbitrary: t f)
  case Nil
  then show ?case by (simp add: fsm_run_def)
next
  case (Cons tk ticks)
  obtain now es where tk: "tk = (now, es)" by (cases tk)
  with Cons.prems have "settled P t0 (unat now) (fsm_tick (now, es) f)"
    by (intro fsm_tick_settled) auto
  from Cons.IH [OF this] Cons.prems tk show ?case
    by (simp add: fsm_run_def)
qed

lemma attempt_leaves_deadline_states:
  assumes "handle_event CONNECT_REQUEST t0 f0 = (f, True)"
    and "paced P (unat t0) ticks" and "unat t0 + 8000 < 2 ^ 32"
    and "\<forall>tk \<in> set ticks. CONNECT_REQUEST \<notin> set (snd tk)"
    and "ticks \<noteq> []" and "unat t0 + 13000 + P \<le> unat (fst (last ticks))"
  shows "\<not> has_deadline (fsm_run ticks f)"
proof
  assume dl: "has_deadline (fsm_run ticks f)"
  have "settled P (unat t0) (unat t0) f"
    using assms(1,3)
    by (auto simp: settled_def has_deadline_def handle_event_def enter_def unat_add_5000
             split: ble_conn_state.splits)
  from fsm_run_settled [OF this assms(2,4)]
  have "settled P (unat t0) (unat (fst (last ticks))) (fsm_run ticks f)"
    using assms(5) by (simp add: last_map)
  with dl assms(6) show False
    by (auto simp: settled_def has_deadline_def)
qed

section \<open>Properties\<close>

text \<open>
  Bounded wait. A connection attempt accepted at time \<open>t0\<close>, driven by a loop that runs at
  least every \<open>P\<close> ms with whatever events the stack delivers (except a new connect request),
  has left \<open>Connecting\<close> and \<open>Discovering\<close> by \<open>t0 + 13000 + P\<close> ms, as long as the 32-bit
  clock does not wrap: the guarantee the component exists for.
\<close>

theorem connect_attempt_bounded:
  assumes "handle_event CONNECT_REQUEST t0 f0 = (f, True)"
    and "paced P (unat t0) ticks" and "unat t0 + 8000 < 2 ^ 32"
    and "\<forall>tk \<in> set ticks. CONNECT_REQUEST \<notin> set (snd tk)"
    and "ticks \<noteq> []" and "unat t0 + 13000 + P \<le> unat (fst (last ticks))"
  shows "\<not> has_deadline (fsm_run ticks f)"
  by (rule attempt_leaves_deadline_states [OF assms])

theorem connect_attempt_bounded_witness:
  "\<not> has_deadline (fsm_run [(1000, [GAP_CONNECT_OK]), (9000, []), (15000, []), (21500, [])]
      (fst (handle_event CONNECT_REQUEST 500 fsm_init)))"
proof (rule connect_attempt_bounded [where P = 8000 and ?t0.0 = 500 and ?f0.0 = fsm_init])
  show "handle_event CONNECT_REQUEST 500 fsm_init
      = (fst (handle_event CONNECT_REQUEST 500 fsm_init), True)"
    by (simp add: step_simps)
qed simp_all

end
