(* ===== verification/BleFsmSpec.thy ===== *)
theory BleFsmSpec
  imports BleFsm
begin

text \<open>
  The TLA+ module spec/ble_state_machine.tla as a step relation, its invariants proved for
  every value of its constants (TLC checks small ones), and the simulation between it and the
  C++ engine of \<open>BleFsm\<close>: both are generated from spec/transitions.json, and here the two are
  related by proof. The 32-bit wrap-around of the engine's deadline, which the model's natural
  clock has not, is treated at the end.
\<close>

section \<open>The TLA+ module\<close>

record tla_state =
  t_state :: ble_conn_state
  t_clock :: nat
  t_deadline :: nat
  t_backoff :: nat
  t_last :: "ble_conn_event option"

record tla_consts =
  MaxClock :: nat
  MaxBackoff :: nat
  Deadline_CONNECT_REQUEST :: nat
  Deadline_GAP_CONNECT_OK :: nat

definition tla_init :: tla_state where
  "tla_init = \<lparr>t_state = IDLE, t_clock = 0, t_deadline = 0, t_backoff = 0, t_last = None\<rparr>"

definition in_deadline_states :: "ble_conn_state \<Rightarrow> bool" where
  "in_deadline_states s \<longleftrightarrow> s = CONNECTING \<or> s = DISCOVERING"

inductive tla_step :: "tla_consts \<Rightarrow> tla_state \<Rightarrow> tla_state \<Rightarrow> bool" for K where
  ScanStartFromIdle: "t_state s = IDLE \<Longrightarrow>
    tla_step K s (s\<lparr>t_state := SCANNING, t_deadline := 0, t_last := Some SCAN_START\<rparr>)"
| AdvMatchedFromScanning: "t_state s = SCANNING \<Longrightarrow>
    tla_step K s (s\<lparr>t_state := IDLE, t_deadline := 0, t_last := Some ADV_MATCHED\<rparr>)"
| ConnectRequestFromIdle: "t_state s = IDLE \<Longrightarrow>
    tla_step K s (s\<lparr>t_state := CONNECTING,
      t_deadline := t_clock s + Deadline_CONNECT_REQUEST K, t_last := Some CONNECT_REQUEST\<rparr>)"
| GapConnectOkFromConnecting: "t_state s = CONNECTING \<Longrightarrow>
    tla_step K s (s\<lparr>t_state := DISCOVERING,
      t_deadline := t_clock s + Deadline_GAP_CONNECT_OK K, t_last := Some GAP_CONNECT_OK\<rparr>)"
| GapConnectFailFromConnecting: "t_state s = CONNECTING \<Longrightarrow> t_backoff s < MaxBackoff K \<Longrightarrow>
    tla_step K s (s\<lparr>t_state := BACKOFF, t_deadline := 0, t_backoff := t_backoff s + 1,
      t_last := Some GAP_CONNECT_FAIL\<rparr>)"
| ConnectTimeoutFromConnecting: "t_state s = CONNECTING \<Longrightarrow> t_deadline s \<le> t_clock s \<Longrightarrow>
    t_backoff s < MaxBackoff K \<Longrightarrow>
    tla_step K s (s\<lparr>t_state := BACKOFF, t_deadline := 0, t_backoff := t_backoff s + 1,
      t_last := Some CONNECT_TIMEOUT\<rparr>)"
| DiscoverDoneFromDiscovering: "t_state s = DISCOVERING \<Longrightarrow>
    tla_step K s (s\<lparr>t_state := READY, t_deadline := 0, t_backoff := 0,
      t_last := Some DISCOVER_DONE\<rparr>)"
| DiscoverTimeoutFromDiscovering: "t_state s = DISCOVERING \<Longrightarrow> t_deadline s \<le> t_clock s \<Longrightarrow>
    t_backoff s < MaxBackoff K \<Longrightarrow>
    tla_step K s (s\<lparr>t_state := BACKOFF, t_deadline := 0, t_backoff := t_backoff s + 1,
      t_last := Some DISCOVER_TIMEOUT\<rparr>)"
| GapDisconnectEvtFromDiscovering: "t_state s = DISCOVERING \<Longrightarrow> t_backoff s < MaxBackoff K \<Longrightarrow>
    tla_step K s (s\<lparr>t_state := BACKOFF, t_deadline := 0, t_backoff := t_backoff s + 1,
      t_last := Some GAP_DISCONNECT_EVT\<rparr>)"
| DisconnectRequestFromReady: "t_state s = READY \<Longrightarrow>
    tla_step K s (s\<lparr>t_state := DISCONNECTING, t_deadline := 0,
      t_last := Some DISCONNECT_REQUEST\<rparr>)"
| GapDisconnectEvtFromReady: "t_state s = READY \<Longrightarrow> t_backoff s < MaxBackoff K \<Longrightarrow>
    tla_step K s (s\<lparr>t_state := BACKOFF, t_deadline := 0, t_backoff := t_backoff s + 1,
      t_last := Some GAP_DISCONNECT_EVT\<rparr>)"
| GapDisconnectEvtFromDisconnecting: "t_state s = DISCONNECTING \<Longrightarrow>
    tla_step K s (s\<lparr>t_state := IDLE, t_deadline := 0, t_last := Some GAP_DISCONNECT_EVT\<rparr>)"
| BackoffElapsedFromBackoff: "t_state s = BACKOFF \<Longrightarrow>
    tla_step K s (s\<lparr>t_state := IDLE, t_deadline := 0, t_last := Some BACKOFF_ELAPSED\<rparr>)"
| DropUnsolicitedPairingFromConnecting: "t_state s = CONNECTING \<Longrightarrow>
    t_backoff s < MaxBackoff K \<Longrightarrow>
    tla_step K s (s\<lparr>t_state := BACKOFF, t_deadline := 0, t_backoff := t_backoff s + 1,
      t_last := Some DROP_UNSOLICITED_PAIRING\<rparr>)"
| Tick: "t_clock s < MaxClock K \<Longrightarrow>
    \<not> in_deadline_states (t_state s) \<or> t_clock s < t_deadline s \<Longrightarrow>
    tla_step K s (s\<lparr>t_clock := t_clock s + 1\<rparr>)"

inductive tla_reachable :: "tla_consts \<Rightarrow> tla_state \<Rightarrow> bool" for K where
  start: "tla_reachable K tla_init"
| step: "tla_reachable K s \<Longrightarrow> tla_step K s t \<Longrightarrow> tla_reachable K t"

text \<open>The engine's state as a state of the module, at clock \<open>c\<close> after event \<open>l\<close>.\<close>

definition tla_abs :: "nat \<Rightarrow> ble_conn_event option \<Rightarrow> ble_fsm \<Rightarrow> tla_state" where
  "tla_abs c l f = \<lparr>t_state = fsm_state f, t_clock = c, t_deadline = unat (deadline_ms f),
                    t_backoff = unat (backoff_count f), t_last = l\<rparr>"

definition engine_consts :: "nat \<Rightarrow> nat \<Rightarrow> tla_consts" where
  "engine_consts mc mb = \<lparr>MaxClock = mc, MaxBackoff = mb,
     Deadline_CONNECT_REQUEST = 5000, Deadline_GAP_CONNECT_OK = 8000\<rparr>"

section \<open>Invariants of the module\<close>

definition tla_inv :: "tla_consts \<Rightarrow> tla_state \<Rightarrow> bool" where
  "tla_inv K s \<longleftrightarrow>
     (in_deadline_states (t_state s) \<longrightarrow> t_clock s \<le> t_deadline s) \<and>
     (t_state s = READY \<longrightarrow> t_last s = Some DISCOVER_DONE) \<and>
     t_clock s \<le> MaxClock K \<and> t_backoff s \<le> MaxBackoff K"

lemma tla_inv_init: "tla_inv K tla_init"
  by (simp add: tla_inv_def tla_init_def in_deadline_states_def)

lemma tla_step_inv [inv_intros]: "tla_step K s t \<Longrightarrow> tla_inv K s \<Longrightarrow> tla_inv K t"
  by (induction rule: tla_step.induct) (auto simp: tla_inv_def in_deadline_states_def)

lemma tla_reachable_inv: "tla_reachable K s \<Longrightarrow> tla_inv K s"
  by (induction rule: tla_reachable.induct) (auto intro: tla_inv_init tla_step_inv)

section \<open>Simulation\<close>

lemma unat_inc_count:
  "unat (w :: u16) < m \<Longrightarrow> m \<le> 65535 \<Longrightarrow> unat (w + 1) = unat w + 1"
  by (simp add: unat_word_ariths)

text \<open>The events whose TLA+ action waits for the deadline.\<close>

definition timeout_ok :: "ble_conn_event \<Rightarrow> u32 \<Rightarrow> ble_fsm \<Rightarrow> bool" where
  "timeout_ok e now f \<longleftrightarrow>
     (e = CONNECT_TIMEOUT \<or> e = DISCOVER_TIMEOUT \<longrightarrow> deadline_ms f \<le> now)"

lemma unat_now_neq_0: "now + of_nat n = (0 :: u32) \<Longrightarrow> unat now + n < 2 ^ 32 \<Longrightarrow> n = 0"
  using deadline_nonzero [of now n] by auto

lemmas tla_abs_simps = tla_abs_def engine_consts_def timeout_ok_def in_deadline_states_def

lemmas event_simps = handle_event_def enter_def unat_add_5000 unat_add_8000

text \<open>An accepted event of the engine is the action of the module with that event.\<close>

lemma engine_event_is_tla_step:
  assumes "handle_event e now f = (f', True)" and "timeout_ok e now f"
    and "unat now + 8000 < 2 ^ 32" and "unat (backoff_count f) < mb" and "mb \<le> 65535"
  shows "tla_step (engine_consts mc mb) (tla_abs (unat now) l f) (tla_abs (unat now) (Some e) f')"
proof -
  have cnt: "unat (backoff_count f + 1) = unat (backoff_count f) + 1"
    using assms(4,5) by (rule unat_inc_count)
  show ?thesis
    using assms
    by (auto simp: tla_abs_simps event_simps cnt tla_step.simps word_le_nat_alt
             split: ble_conn_state.splits ble_conn_event.splits)
qed

text \<open>And every action of the module other than the clock's is an accepted event.\<close>

lemma tla_step_is_engine_event:
  assumes "tla_step (engine_consts mc mb) (tla_abs (unat now) l f) t" and "t_clock t = unat now"
    and "unat now + 8000 < 2 ^ 32" and "mb \<le> 65535"
  shows "\<exists>e f'. handle_event e now f = (f', True) \<and> timeout_ok e now f \<and>
    t = tla_abs (unat now) (Some e) f'"
proof -
  have cnt: "unat (backoff_count f) < mb \<Longrightarrow>
      unat (backoff_count f + 1) = unat (backoff_count f) + 1"
    using assms(4) unat_inc_count by blast
  define e where "e = the (t_last t)"
  define f' where "f' = fst (handle_event e now f)"
  have "handle_event e now f = (f', True) \<and> timeout_ok e now f \<and>
      t = tla_abs (unat now) (Some e) f'"
    using assms
    by (cases rule: tla_step.cases)
       (auto simp: tla_abs_simps event_simps cnt e_def f'_def word_le_nat_alt)
  then show ?thesis by blast
qed

text \<open>
  The engine in its loop: accepted events at the current time, and the passing of one
  millisecond whenever the loop's \<open>poll_timeout\<close> at the current time has nothing to do.
\<close>

inductive engine_reach :: "nat \<Rightarrow> nat \<Rightarrow> u32 \<Rightarrow> ble_conn_event option \<Rightarrow> ble_fsm \<Rightarrow> bool"
  for mc mb where
  boot: "engine_reach mc mb 0 None fsm_init"
| event: "engine_reach mc mb now l f \<Longrightarrow> handle_event e now f = (f', True) \<Longrightarrow>
    timeout_ok e now f \<Longrightarrow> unat (backoff_count f) < mb \<Longrightarrow> engine_reach mc mb now (Some e) f'"
| ms: "engine_reach mc mb now l f \<Longrightarrow> \<not> snd (poll_timeout now f) \<Longrightarrow> unat now < mc \<Longrightarrow>
    engine_reach mc mb (now + 1) l f"

text \<open>Inside \<open>mc\<close> milliseconds a deadline state's deadline is a real one, never the code's 0.\<close>

definition armed :: "ble_fsm \<Rightarrow> bool" where
  "armed f \<longleftrightarrow> (has_deadline f \<longrightarrow> deadline_ms f \<noteq> 0)"

lemma handle_event_armed [inv_intros]:
  assumes "armed f" and "unat now + 8000 < 2 ^ 32"
  shows "armed (fst (handle_event e now f))"
proof -
  have "now + 5000 \<noteq> 0" and "now + 8000 \<noteq> 0"
    using assms(2) deadline_nonzero [of now 5000] deadline_nonzero [of now 8000] by auto
  with assms(1) show ?thesis
    by (auto simp: armed_def has_deadline_def event_simps
             split: ble_conn_state.splits ble_conn_event.splits)
qed

lemma quiet_poll:
  assumes "\<not> snd (poll_timeout now f)" and "armed f"
  shows "has_deadline f \<Longrightarrow> now < deadline_ms f"
  using assms
  by (auto simp: armed_def step_simps split: if_splits)

lemma unat_next_ms: "unat (now :: u32) < mc \<Longrightarrow> mc + 8000 < 2 ^ 32 \<Longrightarrow> unat (now + 1) = unat now + 1"
  by (simp add: unat_word_ariths)

lemma engine_reach_sim:
  assumes "engine_reach mc mb now l f" and "mc + 8000 < 2 ^ 32" and "mb \<le> 65535"
  shows "armed f \<and> unat now \<le> mc \<and> tla_reachable (engine_consts mc mb) (tla_abs (unat now) l f)"
  using assms
proof (induction rule: engine_reach.induct)
  case boot
  have "tla_abs 0 None fsm_init = tla_init"
    by (simp add: tla_abs_def tla_init_def fsm_init_def)
  then show ?case
    using tla_reachable.start by (simp add: armed_def step_simps)
next
  case (event now l f e f')
  then have "unat now + 8000 < 2 ^ 32" by linarith
  with event engine_event_is_tla_step [of e now f f' mb mc l] handle_event_armed [of f now e]
  show ?case by (auto intro: tla_reachable.step)
next
  case (ms now l f)
  then have u: "unat (now + 1) = unat now + 1"
    using unat_next_ms by blast
  have "tla_step (engine_consts mc mb) (tla_abs (unat now) l f)
      ((tla_abs (unat now) l f)\<lparr>t_clock := t_clock (tla_abs (unat now) l f) + 1\<rparr>)"
  proof (rule tla_step.Tick)
    show "t_clock (tla_abs (unat now) l f) < MaxClock (engine_consts mc mb)"
      using ms.hyps by (simp add: tla_abs_simps)
    show "\<not> in_deadline_states (t_state (tla_abs (unat now) l f)) \<or>
        t_clock (tla_abs (unat now) l f) < t_deadline (tla_abs (unat now) l f)"
      using quiet_poll [of now f] ms
      by (auto simp: tla_abs_simps has_deadline_def word_less_nat_alt)
  qed
  with ms u show ?case
    by (auto simp: tla_abs_def intro: tla_reachable.step)
qed

section \<open>Properties\<close>

lemma handle_event_refused: "handle_event e now f = (f', False) \<Longrightarrow> f' = f"
  by (auto simp: handle_event_def split: ble_conn_state.splits ble_conn_event.splits)

lemma tla_steps_are_events:
  assumes "unat now + 8000 < 2 ^ 32" and "unat (backoff_count f) < mb" and "mb \<le> 65535"
  shows "(tla_step (engine_consts mc mb) (tla_abs (unat now) l f) t \<and> t_clock t = unat now) \<longleftrightarrow>
    (\<exists>e f'. handle_event e now f = (f', True) \<and> timeout_ok e now f \<and> t = tla_abs (unat now) (Some e) f')"
    (is "?L \<longleftrightarrow> ?R")
proof
  assume ?L
  then show ?R using assms by (blast intro: tla_step_is_engine_event)
next
  assume ?R
  then show ?L using assms engine_event_is_tla_step [of _ now f _ mb mc l] by (force simp: tla_abs_def)
qed

text \<open>
  C33. The engine and the verified TLA+ module have the same steps, but for one kind. From any engine
  state, with the clock 8 s clear of its wrap-around and the failure count below the module's bound,
  the module's non-clock actions are exactly the events \<open>handle_event\<close> accepts that are not a timeout
  fired before its deadline, with the same successor. So each event is refused and leaves the machine as
  it was, or is accepted and an action of the module, or is an early timeout, which the machine
  accepts and the module has no action for.
\<close>

theorem engine_steps_are_tla_steps:
  assumes "unat now + 8000 < 2 ^ 32" and "unat (backoff_count f) < mb" and "mb \<le> 65535"
  shows "((tla_step (engine_consts mc mb) (tla_abs (unat now) l f) t \<and> t_clock t = unat now) \<longleftrightarrow>
      (\<exists>e f'. handle_event e now f = (f', True) \<and>
         \<not> (e \<in> {CONNECT_TIMEOUT, DISCOVER_TIMEOUT} \<and> now < deadline_ms f) \<and> t = tla_abs (unat now) (Some e) f'))
    \<and> (case handle_event e now f of (f', accepted) \<Rightarrow>
         if accepted
         then tla_step (engine_consts mc mb) (tla_abs (unat now) l f) (tla_abs (unat now) (Some e) f') =
              (\<not> (e \<in> {CONNECT_TIMEOUT, DISCOVER_TIMEOUT} \<and> now < deadline_ms f))
         else f' = f)"
proof -
  have ok: "timeout_ok e now f \<longleftrightarrow> \<not> (e \<in> {CONNECT_TIMEOUT, DISCOVER_TIMEOUT} \<and> now < deadline_ms f)" for e
    by (auto simp: timeout_ok_def)
  obtain f' r where h: "handle_event e now f = (f', r)" by fastforce
  have "t_last (tla_abs (unat now) (Some e) f') = Some e" "t_clock (tla_abs (unat now) (Some e) f') = unat now"
    for e f' by (simp_all add: tla_abs_def)
  then have "tla_step (engine_consts mc mb) (tla_abs (unat now) l f) (tla_abs (unat now) (Some e) f') = timeout_ok e now f"
    if r
    using tla_steps_are_events [OF assms, of mc l "tla_abs (unat now) (Some e) f'"] h that by (metis option.inject)
  then show ?thesis
    using tla_steps_are_events [OF assms, of mc l t] handle_event_refused [of e now f f'] h unfolding ok by (cases r) auto
qed

theorem engine_steps_are_tla_steps_witness:
  "tla_step (engine_consts 100 3) (tla_abs 7 None fsm_init)
     (tla_abs 7 (Some CONNECT_REQUEST) (fst (handle_event CONNECT_REQUEST 7 fsm_init)))
   \<and> \<not> tla_step (engine_consts 100 3) (tla_abs 7 None \<lparr>fsm_state = DISCOVERING, deadline_ms = 9, backoff_count = 0\<rparr>)
     (tla_abs 7 (Some DISCOVER_TIMEOUT) \<lparr>fsm_state = BACKOFF, deadline_ms = 0, backoff_count = 1\<rparr>)"
  using engine_steps_are_tla_steps [of 7 fsm_init 3 100 None t CONNECT_REQUEST]
    engine_steps_are_tla_steps [of 7 "\<lparr>fsm_state = DISCOVERING, deadline_ms = 9, backoff_count = 0\<rparr>" 3 100 None t DISCOVER_TIMEOUT]
  by (simp add: step_simps)

text \<open>
  Whatever the loop does within \<open>mc\<close> ms of boot: a connection in \<open>Connecting\<close> or
  \<open>Discovering\<close> is never past its deadline when the loop goes on (the module's BoundedWait),
  and \<open>Ready\<close> is only ever entered by a completed discovery, never by a dropped unsolicited
  pairing (NoUnauthorizedPairing).
\<close>

theorem engine_reach_safe:
  assumes "engine_reach mc mb now l f" and "mc + 8000 < 2 ^ 32" and "mb \<le> 65535"
  shows "(has_deadline f \<longrightarrow> now \<le> deadline_ms f) \<and>
    (fsm_state f = READY \<longrightarrow> l = Some DISCOVER_DONE)"
  using tla_reachable_inv engine_reach_sim [OF assms]
  by (fastforce simp: tla_inv_def tla_abs_simps has_deadline_def word_le_nat_alt)

theorem engine_reach_safe_witness:
  "(0 :: u32) \<le> deadline_ms (fst (handle_event CONNECT_REQUEST 0 fsm_init))"
proof -
  have "engine_reach 100 3 0 (Some CONNECT_REQUEST) (fst (handle_event CONNECT_REQUEST 0 fsm_init))"
    by (rule engine_reach.event [OF engine_reach.boot, of CONNECT_REQUEST])
       (auto simp: step_simps timeout_ok_def)
  from engine_reach_safe [OF this] show ?thesis
    by (simp add: step_simps)
qed

text \<open>
  The bound does not survive the wrap of the 32-bit clock. A connect request whose absolute
  deadline \<open>now + 5000\<close> is exactly 0 is stored as the "no deadline" value, and no later
  \<open>poll_timeout\<close>, at any time, ever ends that attempt; and one whose deadline wraps past 0 is
  timed out by a poll in the very millisecond it was made.
\<close>

theorem deadline_wrap:
  "has_deadline (fst (handle_event CONNECT_REQUEST (- 5000) fsm_init)) \<and>
   (\<forall>now. poll_timeout now (fst (handle_event CONNECT_REQUEST (- 5000) fsm_init))
      = (fst (handle_event CONNECT_REQUEST (- 5000) fsm_init), False)) \<and>
   snd (poll_timeout (- 1) (fst (handle_event CONNECT_REQUEST (- 1) fsm_init)))"
  by (simp add: step_simps)

end
