(* ===== verification/ConnectBackoff.thy ===== *)
theory ConnectBackoff
  imports Prelude "HOL-Library.Signed_Division"
begin

text \<open>
  \<open>nimble_ble::compute_connect_backoff_delay_ms\<close> (components/nimble_ble/connect_backoff.h and
  .cpp): the exponential, capped and jittered delay before a reconnect attempt. The shift count
  is the \<open>uint8_t\<close> of the code, the jitter a signed percentage applied with C's truncating
  division (\<open>sdiv\<close>); the signed intermediate values stay far inside \<open>int32_t\<close>
  (\<open>backoff_offset_bounds\<close>), so they are integers.
\<close>

definition CONNECT_BACKOFF_BASE_MS :: u32 where "CONNECT_BACKOFF_BASE_MS = 5000"
definition CONNECT_BACKOFF_MAX_MS :: u32 where "CONNECT_BACKOFF_MAX_MS = 60000"
definition CONNECT_BACKOFF_JITTER_PERCENT :: u8 where "CONNECT_BACKOFF_JITTER_PERCENT = 20"

definition backoff_shift :: "u16 \<Rightarrow> u8" where
  "backoff_shift count =
     (let MAX_SHIFT = (5 :: u8);
          shift = (if count = 0 then 0 else ucast (count - 1))
      in if MAX_SHIFT < shift then MAX_SHIFT else shift)"

definition backoff_capped :: "u16 \<Rightarrow> u32" where
  "backoff_capped count =
     (let base = push_bit (unat (backoff_shift count)) CONNECT_BACKOFF_BASE_MS
      in if CONNECT_BACKOFF_MAX_MS < base then CONNECT_BACKOFF_MAX_MS else base)"

definition backoff_percent :: "u32 \<Rightarrow> int" where
  "backoff_percent jitter =
     uint (jitter mod (2 * ucast CONNECT_BACKOFF_JITTER_PERCENT + 1))
     - uint CONNECT_BACKOFF_JITTER_PERCENT"

definition compute_connect_backoff_delay_ms :: "u16 \<Rightarrow> u32 \<Rightarrow> u32" where
  "compute_connect_backoff_delay_ms count jitter =
     (let delay = backoff_capped count;
          signed_percent = backoff_percent jitter;
          offset = (sint delay * signed_percent) sdiv 100
      in word_of_int (sint delay + offset))"

lemmas backoff_consts =
  CONNECT_BACKOFF_BASE_MS_def CONNECT_BACKOFF_MAX_MS_def CONNECT_BACKOFF_JITTER_PERCENT_def

section \<open>The unjittered curve\<close>

text \<open>What the header promises: \<open>base * 2^(count - 1)\<close> capped, the count 0 read as 1.\<close>

definition backoff_curve :: "nat \<Rightarrow> nat" where
  "backoff_curve n = min (5000 * 2 ^ (n - 1)) 60000"

lemma backoff_shift_nat:
  "unat (backoff_shift c) = (if c = 0 then 0 else min ((unat c - 1) mod 256) 5)"
proof (cases "c = 0")
  case False
  then have "unat (c - 1) = unat c - 1"
    by (simp add: unat_minus_one)
  with False show ?thesis
    by (auto simp: backoff_shift_def Let_def unat_ucast_mod word_less_nat_alt)
qed (simp add: backoff_shift_def)

lemma backoff_shift_le: "unat (backoff_shift c) \<le> 5"
  by (simp add: backoff_shift_nat)

lemma backoff_capped_shift:
  "unat (backoff_capped c) = min (5000 * 2 ^ unat (backoff_shift c)) 60000"
proof -
  have "unat (backoff_shift c) \<in> {0, 1, 2, 3, 4, 5}"
    using backoff_shift_le [of c] by auto
  then show ?thesis
    by (auto simp: backoff_capped_def backoff_consts Let_def push_bit_eq_mult)
qed

lemma backoff_curve_min5: "backoff_curve (Suc n) = min (5000 * 2 ^ min n 5) 60000"
proof (cases "n \<le> 5")
  case False
  then have "(2::nat) ^ 5 \<le> 2 ^ n"
    by (intro power_increasing) auto
  with False show ?thesis by (simp add: backoff_curve_def)
qed (simp add: backoff_curve_def)

lemma backoff_capped_curve:
  "unat (backoff_capped c) = backoff_curve (if c = 0 then 1 else Suc ((unat c - 1) mod 256))"
  by (simp add: backoff_capped_shift backoff_shift_nat backoff_curve_min5)

lemma backoff_curve_bounds: "5000 \<le> backoff_curve n" "backoff_curve n \<le> 60000"
  by (simp_all add: backoff_curve_def)

lemma backoff_curve_mono: "m \<le> n \<Longrightarrow> backoff_curve m \<le> backoff_curve n"
  by (auto simp: backoff_curve_def intro: min.coboundedI1 min.mono)

section \<open>The jitter\<close>

lemma sint_backoff_capped: "sint (backoff_capped c) = int (unat (backoff_capped c))"
  by (rule sint_small) (simp add: backoff_capped_shift min_def)

lemma backoff_percent_nat: "backoff_percent j = int (unat j mod 41) - 20"
  by (simp add: backoff_percent_def backoff_consts uint_nat unat_mod_distrib)

lemma backoff_percent_abs: "\<bar>backoff_percent j\<bar> \<le> 20"
proof -
  have "unat j mod 41 < 41" by simp
  then have "int (unat j mod 41) \<le> 40" by linarith
  then show ?thesis
    by (simp add: backoff_percent_nat abs_le_iff del: of_nat_unat)
qed

lemma backoff_offset_bounds:
  fixes d p :: int
  assumes "0 \<le> d" and "\<bar>p\<bar> \<le> 20"
  shows "\<bar>(d * p) sdiv 100\<bar> \<le> d div 5"
proof -
  have "\<bar>d * p\<bar> \<le> d * 20"
    using assms by (simp add: abs_mult mult_left_mono)
  then have le: "\<bar>d * p\<bar> div 100 \<le> d div 5"
    by linarith
  have "\<bar>(d * p) sdiv 100\<bar> = \<bar>sgn (d * p)\<bar> * (\<bar>d * p\<bar> div 100)"
    by (simp add: signed_divide_int_def abs_mult pos_imp_zdiv_nonneg_iff)
  also have "\<dots> \<le> \<bar>d * p\<bar> div 100"
    by (simp add: abs_sgn_eq)
  finally show ?thesis using le by linarith
qed

text \<open>The count that enters the exponent, and the delay over the integers.\<close>

definition eff_count :: "u16 \<Rightarrow> nat" where
  "eff_count c = (if c = 0 then 1 else Suc ((unat c - 1) mod 256))"

definition delay_int :: "nat \<Rightarrow> nat \<Rightarrow> int" where
  "delay_int d r = int d + (int d * (int r - 20)) sdiv 100"

lemma delay_int_bounds:
  assumes "r < 41"
  shows "4 * int d \<le> 5 * delay_int d r" and "5 * delay_int d r \<le> 6 * int d"
proof -
  have "\<bar>(int d * (int r - 20)) sdiv 100\<bar> \<le> int d div 5"
    using assms by (intro backoff_offset_bounds) auto
  then show "4 * int d \<le> 5 * delay_int d r" and "5 * delay_int d r \<le> 6 * int d"
    unfolding delay_int_def by arith+
qed

lemma compute_delay_nat:
  "unat (compute_connect_backoff_delay_ms c j)
     = nat (delay_int (backoff_curve (eff_count c)) (unat j mod 41))"
proof -
  let ?D = "backoff_curve (eff_count c)"
  have s: "sint (backoff_capped c) = int ?D"
    unfolding sint_backoff_capped backoff_capped_curve eff_count_def ..
  have d: "5000 \<le> int ?D" "int ?D \<le> 60000"
    using backoff_curve_bounds [of "eff_count c"] by linarith+
  have "0 \<le> delay_int ?D (unat j mod 41)" "delay_int ?D (unat j mod 41) < 2 ^ LENGTH(32)"
    using d delay_int_bounds [of "unat j mod 41" ?D] by auto
  then show ?thesis
    unfolding compute_connect_backoff_delay_ms_def Let_def s backoff_percent_nat
    unfolding delay_int_def by (rule unat_word_of_int)
qed

section \<open>Properties\<close>

text \<open>
  The reconnect delay is bounded for every failure count and every random draw: it is within
  20% of the capped exponential curve of the header (whose exponent the code takes modulo 256),
  hence always between 4 s and 72 s; no retry loop can hammer the radio.
\<close>

theorem backoff_delay_bounds:
  "let d = unat (compute_connect_backoff_delay_ms c j);
       b = backoff_curve (if c = 0 then 1 else Suc ((unat c - 1) mod 256))
   in 4 * b \<le> 5 * d \<and> 5 * d \<le> 6 * b \<and> 4000 \<le> d \<and> d \<le> 72000"
proof -
  have "unat j mod 41 < 41" by simp
  from delay_int_bounds [OF this, of "backoff_curve (eff_count c)"]
    backoff_curve_bounds [of "eff_count c"] compute_delay_nat [of c j]
  show ?thesis
    unfolding eff_count_def Let_def by (intro conjI; linarith)
qed

text \<open>
  With the jitter drawn at its midpoint the delay is exactly \<open>5 s * 2^(n-1)\<close> capped at
  60 s for the first 256 consecutive failures.
\<close>

theorem backoff_delay_curve:
  assumes "1 \<le> unat c" and "unat c \<le> 256" and "unat j mod 41 = 20"
  shows "unat (compute_connect_backoff_delay_ms c j) = min (5000 * 2 ^ (unat c - 1)) 60000"
proof -
  have "c \<noteq> 0" using assms(1) by auto
  then have "eff_count c = unat c"
    using assms(1,2) by (simp add: eff_count_def)
  with assms(3) show ?thesis
    by (simp add: compute_delay_nat delay_int_def backoff_curve_def)
qed

theorem backoff_delay_curve_witness: "unat (compute_connect_backoff_delay_ms 4 61) = 40000"
  using backoff_delay_curve [of 4 61] by simp

text \<open>
  The cap does not hold for large counts, although the code comments that capping the shift
  guards a "pathologically large" count: the count is narrowed to 8 bits before it is capped, so
  the 257th consecutive failure is retried after the 5 s base delay again, like the first.
\<close>

theorem backoff_shift_truncated:
  "unat (compute_connect_backoff_delay_ms 256 20) = 60000 \<and>
   compute_connect_backoff_delay_ms 257 20 = compute_connect_backoff_delay_ms 1 20 \<and>
   unat (compute_connect_backoff_delay_ms 257 20) = 5000"
  by (simp add: word_unat_eq_iff compute_delay_nat delay_int_def backoff_curve_def eff_count_def)

end
