(* ===== verification/BleUuid.thy ===== *)
theory BleUuid
  imports Prelude
begin

text \<open>
  \<open>ble_device_base::ESPBTUUID\<close> (components/ble_device_base/ble_device.h and .cpp), its wire
  packing for the API (components/bluetooth_connection/bluetooth_connection.h) and its NimBLE
  conversions (components/nimble_ble/nimble_uuid.h). The class is a type tag and a 16-byte
  union; the tag and the member it selects are one datatype. Text is a list of character codes;
  ESPHome's \<open>parse_hex\<close> and \<open>format_hex_pretty_char\<close>, which are not in this repository, are
  arguments. A byte written or read outside its buffer is the value \<open>None\<close>.
\<close>

section \<open>The type\<close>

datatype espbtuuid = UUID_UNSET | UUID16 u16 | UUID32 u32 | UUID128 bytes

fun uuid_wf :: "espbtuuid \<Rightarrow> bool" where
  "uuid_wf (UUID128 bs) \<longleftrightarrow> length bs = 16"
| "uuid_wf _ \<longleftrightarrow> True"

definition is_set :: "espbtuuid \<Rightarrow> bool" where
  "is_set u \<longleftrightarrow> u \<noteq> UUID_UNSET"

definition from_uint16 :: "u16 \<Rightarrow> espbtuuid" where
  "from_uint16 w = UUID16 w"

definition from_uint32 :: "u32 \<Rightarrow> espbtuuid" where
  "from_uint32 w = UUID32 w"

definition from_raw :: "bytes \<Rightarrow> espbtuuid option" where
  "from_raw data = map_option UUID128 (rd_slice data 0 16)"

definition from_raw_reversed :: "bytes \<Rightarrow> espbtuuid option" where
  "from_raw_reversed data = map_option (\<lambda>bs. UUID128 (rev bs)) (rd_slice data 0 16)"

section \<open>Parsing text\<close>

text \<open>A read of NUL-terminated text: the terminator is readable, nothing after it.\<close>

definition rd_text :: "bytes \<Rightarrow> nat \<Rightarrow> u8 option" where
  "rd_text data i = (if i = length data then Some 0 else rd data i)"

definition hex_nibble :: "u8 \<Rightarrow> u8" where
  "hex_nibble c = (if 57 < c then c - 7 else c) AND 15"

text \<open>
  The loop over the 36-character form: \<open>i\<close> reads, \<open>n\<close> counts the bytes written downwards from
  \<open>uuid128[15]\<close>. The code does not bound \<open>n\<close>.
\<close>

function dashed_loop :: "bytes \<Rightarrow> nat \<Rightarrow> nat \<Rightarrow> bytes \<Rightarrow> bytes option" where
  "dashed_loop data i n out =
     (if i < length data then
        let i = (if data ! i = 45 then i + 1 else i) in
        case (rd_text data i, rd_text data (i + 1)) of
          (Some msb, Some lsb) \<Rightarrow>
            if n \<le> 15 then
              dashed_loop data (i + 2) (n + 1)
                (out[15 - n := push_bit 4 (hex_nibble msb) OR hex_nibble lsb])
            else None
        | _ \<Rightarrow> None
      else Some out)"
  by pat_completeness auto
termination
  by (relation "measure (\<lambda>(data, i, n, out). length data - i)") (auto simp: Let_def)

declare dashed_loop.simps [simp del]

definition from_raw_text ::
  "(bytes \<Rightarrow> u16 option) \<Rightarrow> (bytes \<Rightarrow> u32 option) \<Rightarrow> bytes \<Rightarrow> espbtuuid option" where
  "from_raw_text parse_hex16 parse_hex32 data =
     (if length data = 4 then
        Some (case parse_hex16 data of Some w \<Rightarrow> UUID16 w | None \<Rightarrow> UUID_UNSET)
      else if length data = 8 then
        Some (case parse_hex32 data of Some w \<Rightarrow> UUID32 w | None \<Rightarrow> UUID_UNSET)
      else if length data = 16 then Some (UUID128 data)
      else if length data = 36 then
        map_option UUID128 (dashed_loop data 0 0 (replicate 16 0))
      else Some UUID_UNSET)"

section \<open>Printing\<close>

definition hex_byte :: "(u8 \<Rightarrow> u8) \<Rightarrow> u8 \<Rightarrow> bytes" where
  "hex_byte format_hex_pretty_char b =
     [format_hex_pretty_char (drop_bit 4 b), format_hex_pretty_char (b AND 15)]"

fun to_str :: "(u8 \<Rightarrow> u8) \<Rightarrow> espbtuuid \<Rightarrow> bytes" where
  "to_str fmt UUID_UNSET = [78, 111, 110, 101]"
| "to_str fmt (UUID16 w) =
     [48, 120, fmt (ucast (drop_bit 12 w)), fmt (ucast (drop_bit 8 w AND 15)),
      fmt (ucast (drop_bit 4 w AND 15)), fmt (ucast (w AND 15))]"
| "to_str fmt (UUID32 w) =
     [48, 120] @ map (\<lambda>k. fmt (ucast (drop_bit (28 - 4 * k) w AND 15))) [0..<8]"
| "to_str fmt (UUID128 bs) =
     concat (map (\<lambda>k. let i = 15 - k in
       hex_byte fmt (bs ! i) @ (if i = 12 \<or> i = 10 \<or> i = 8 \<or> i = 6 then [45] else [])) [0..<16])"

section \<open>128-bit expansion, comparison, search\<close>

definition BASE_UUID :: bytes where
  "BASE_UUID = [0xFB, 0x34, 0x9B, 0x5F, 0x80, 0x00, 0x00, 0x80,
                0x00, 0x10, 0x00, 0x00, 0x00, 0x00, 0x00, 0x00]"

fun to_128bit :: "espbtuuid \<Rightarrow> bytes" where
  "to_128bit (UUID128 bs) = bs"
| "to_128bit (UUID32 w) =
     fold (\<lambda>i out. out[12 + i := ucast (drop_bit (i * 8) w AND 0xFF)]) [0..<4] BASE_UUID"
| "to_128bit (UUID16 w) =
     fold (\<lambda>i out. out[12 + i := ucast (drop_bit (i * 8) (ucast w :: u32) AND 0xFF)]) [0..<2] BASE_UUID"
| "to_128bit UUID_UNSET =
     fold (\<lambda>i out. out[12 + i := 0]) [0..<2] BASE_UUID"

definition as_128bit :: "espbtuuid \<Rightarrow> espbtuuid" where
  "as_128bit u = (case u of UUID_UNSET \<Rightarrow> u | UUID128 _ \<Rightarrow> u | _ \<Rightarrow> UUID128 (to_128bit u))"

fun uuid_eq :: "espbtuuid \<Rightarrow> espbtuuid \<Rightarrow> bool" where
  "uuid_eq UUID_UNSET UUID_UNSET \<longleftrightarrow> True"
| "uuid_eq (UUID16 a) (UUID16 b) \<longleftrightarrow> a = b"
| "uuid_eq (UUID32 a) (UUID32 b) \<longleftrightarrow> a = b"
| "uuid_eq (UUID128 a) (UUID128 b) \<longleftrightarrow> take 16 a = take 16 b"
| "uuid_eq u v \<longleftrightarrow>
     (if u = UUID_UNSET \<or> v = UUID_UNSET then False else to_128bit u = to_128bit v)"

fun uuid_contains :: "espbtuuid \<Rightarrow> u8 \<Rightarrow> u8 \<Rightarrow> bool" where
  "uuid_contains UUID_UNSET d1 d2 \<longleftrightarrow> False"
| "uuid_contains (UUID16 w) d1 d2 \<longleftrightarrow> drop_bit 8 w = ucast d2 \<and> w AND 0xFF = ucast d1"
| "uuid_contains (UUID32 w) d1 d2 \<longleftrightarrow>
     (\<exists>i \<in> set [0..<3]. drop_bit (i * 8) w AND 0xFF = ucast d1 \<and>
        drop_bit ((i + 1) * 8) w AND 0xFF = ucast d2)"
| "uuid_contains (UUID128 bs) d1 d2 \<longleftrightarrow>
     (\<exists>i \<in> set [0..<15]. bs ! i = d1 \<and> bs ! (i + 1) = d2)"

section \<open>The historical esp_bt_uuid_t\<close>

text \<open>
  A length and a 16-byte union, written little-endian; \<open>junk\<close> is the uninitialised storage of
  the returned structure.
\<close>

record esp_bt_uuid =
  bt_len :: u8
  bt_union :: bytes

definition get_uuid :: "bytes \<Rightarrow> espbtuuid \<Rightarrow> esp_bt_uuid" where
  "get_uuid junk u = (case u of
     UUID_UNSET \<Rightarrow> \<lparr>bt_len = 0, bt_union = replicate 16 0\<rparr>
   | UUID16 w \<Rightarrow> \<lparr>bt_len = 2, bt_union = le_bytes 2 w @ drop 2 junk\<rparr>
   | UUID32 w \<Rightarrow> \<lparr>bt_len = 4, bt_union = le_bytes 4 w @ drop 4 junk\<rparr>
   | UUID128 bs \<Rightarrow> \<lparr>bt_len = 16, bt_union = take 16 bs\<rparr>)"

definition from_uuid :: "esp_bt_uuid \<Rightarrow> espbtuuid" where
  "from_uuid x =
     (if bt_len x = 0 then UUID_UNSET
      else if bt_len x = 2 then from_uint16 (le_word (take 2 (bt_union x)))
      else if bt_len x = 4 then from_uint32 (le_word (take 4 (bt_union x)))
      else UUID128 (take 16 (bt_union x)))"

section \<open>Wire packing for the API\<close>

definition uuid16_of :: "espbtuuid \<Rightarrow> u16" where
  "uuid16_of u = (case u of UUID16 w \<Rightarrow> w | UUID32 w \<Rightarrow> ucast w
     | UUID128 bs \<Rightarrow> le_word (take 2 bs) | UUID_UNSET \<Rightarrow> 0)"

definition uuid32_of :: "espbtuuid \<Rightarrow> u32" where
  "uuid32_of u = (case u of UUID16 w \<Rightarrow> ucast w | UUID32 w \<Rightarrow> w
     | UUID128 bs \<Rightarrow> le_word (take 4 bs) | UUID_UNSET \<Rightarrow> 0)"

definition be64 :: "u8 \<Rightarrow> u8 \<Rightarrow> u8 \<Rightarrow> u8 \<Rightarrow> u8 \<Rightarrow> u8 \<Rightarrow> u8 \<Rightarrow> u8 \<Rightarrow> u64" where
  "be64 b7 b6 b5 b4 b3 b2 b1 b0 =
     push_bit 56 (ucast b7) OR push_bit 48 (ucast b6) OR push_bit 40 (ucast b5)
     OR push_bit 32 (ucast b4) OR push_bit 24 (ucast b3) OR push_bit 16 (ucast b2)
     OR push_bit 8 (ucast b1) OR ucast b0"

definition fill_128bit_uuid_array :: "espbtuuid \<Rightarrow> u64 \<times> u64" where
  "fill_128bit_uuid_array u =
     (case u of
        UUID128 b \<Rightarrow>
          (be64 (b ! 15) (b ! 14) (b ! 13) (b ! 12) (b ! 11) (b ! 10) (b ! 9) (b ! 8),
           be64 (b ! 7) (b ! 6) (b ! 5) (b ! 4) (b ! 3) (b ! 2) (b ! 1) (b ! 0))
      | _ \<Rightarrow>
          (let value = (case u of UUID16 w \<Rightarrow> ucast w | _ \<Rightarrow> uuid32_of u) :: u32
           in (push_bit 32 (ucast value) OR 0x00001000, 0x800000805F9B34FB)))"

text \<open>The two output fields start as the caller left them (\<open>uuid\<close>, \<open>short_uuid\<close>).\<close>

definition fill_gatt_uuid ::
  "(u64 \<times> u64) \<times> u32 \<Rightarrow> espbtuuid \<Rightarrow> bool \<Rightarrow> (u64 \<times> u64) \<times> u32" where
  "fill_gatt_uuid out u use_efficient_uuids =
     (case u of
        UUID128 _ \<Rightarrow> (fill_128bit_uuid_array u, snd out)
      | _ \<Rightarrow>
          if \<not> use_efficient_uuids then (fill_128bit_uuid_array u, snd out)
          else (fst out, (case u of UUID16 w \<Rightarrow> ucast w | _ \<Rightarrow> uuid32_of u)))"

section \<open>NimBLE conversions\<close>

text \<open>The UUID type tags of NimBLE's host/ble_uuid.h, and \<open>ble_uuid_any_t\<close>.\<close>

definition BLE_UUID_TYPE_16 :: u8 where "BLE_UUID_TYPE_16 = 16"
definition BLE_UUID_TYPE_32 :: u8 where "BLE_UUID_TYPE_32 = 32"
definition BLE_UUID_TYPE_128 :: u8 where "BLE_UUID_TYPE_128 = 128"

lemmas ble_uuid_types = BLE_UUID_TYPE_16_def BLE_UUID_TYPE_32_def BLE_UUID_TYPE_128_def

definition nimble_raw_uuid_to_espbtuuid :: "u8 \<Rightarrow> bytes \<Rightarrow> espbtuuid" where
  "nimble_raw_uuid_to_espbtuuid ty raw =
     (if ty = BLE_UUID_TYPE_16 then from_uint16 (le_word (take 2 raw))
      else if ty = BLE_UUID_TYPE_32 then from_uint32 (le_word (take 4 raw))
      else UUID128 (take 16 raw))"

text \<open>
  A NimBLE UUID as its tag and the value bytes of the member it selects, and the copy of it into
  an event's zero-initialised 16-byte field (\<open>copy_uuid_\<close> in nimble_gattc.cpp).
\<close>

definition espbtuuid_to_nimble_uuid :: "espbtuuid \<Rightarrow> u8 \<times> bytes" where
  "espbtuuid_to_nimble_uuid u = (case u of
     UUID16 w \<Rightarrow> (BLE_UUID_TYPE_16, le_bytes 2 w)
   | UUID32 w \<Rightarrow> (BLE_UUID_TYPE_32, le_bytes 4 w)
   | UUID128 bs \<Rightarrow> (BLE_UUID_TYPE_128, take 16 bs)
   | UUID_UNSET \<Rightarrow> (BLE_UUID_TYPE_128, replicate 16 0))"

definition copy_uuid :: "u8 \<times> bytes \<Rightarrow> u8 \<times> bytes" where
  "copy_uuid uuid =
     (let n = (if fst uuid = BLE_UUID_TYPE_16 then 2
               else if fst uuid = BLE_UUID_TYPE_32 then 4 else 16)
      in (fst uuid, take n (snd uuid) @ replicate (16 - n) 0))"

section \<open>Expansion and comparison\<close>

lemma ucast_and_255:
  fixes w :: "'a::len word"
  assumes "8 \<le> LENGTH('a)"
  shows "(ucast (w AND 0xFF) :: u8) = ucast w"
proof (rule bit_word_eqI)
  fix n assume n: "n < LENGTH(8)"
  have m: "(0xFF :: 'a word) = mask 8" by (simp add: mask_eq_exp_minus_1)
  from n assms show "bit (ucast (w AND 0xFF) :: u8) n = bit (ucast w :: u8) n"
    unfolding m by (simp add: bit_ucast_iff bit_and_iff bit_mask_iff)
qed

lemma upt_0_2: "[0..<2] = [0, Suc 0]" by (simp add: upt_rec)
lemma upt_0_4: "[0..<4] = [0, 1, 2, 3]" by (simp add: upt_rec)
lemma upt_0_8: "[0..<8] = [0, 1, 2, 3, 4, 5, 6, 7]" by (simp add: upt_rec)
lemma upt_0_16: "[0..<16] = [0, 1, 2, 3, 4, 5, 6, 7, 8, 9, 10, 11, 12, 13, 14, 15]"
  by (simp add: upt_rec)

lemma to_128bit_uuid32: "to_128bit (UUID32 w) = take 12 BASE_UUID @ le_bytes 4 w"
  by (simp add: BASE_UUID_def le_bytes_def upt_0_4 ucast_and_255)

lemma to_128bit_uuid16: "to_128bit (UUID16 w) = take 12 BASE_UUID @ le_bytes 4 (ucast w :: u32)"
proof -
  have "(ucast (drop_bit k (ucast w :: u32)) :: u8) = 0" if "16 \<le> k" for k
    using that by (intro bit_word_eqI) (auto simp: bit_ucast_iff bit_drop_bit_eq dest: bit_imp_le_length)
  then show ?thesis
    by (simp add: BASE_UUID_def le_bytes_def upt_0_2 upt_0_4 ucast_and_255)
qed

lemma to_128bit_inj16: "to_128bit (UUID16 a) = to_128bit (UUID16 b) \<longleftrightarrow> a = b"
proof
  assume "to_128bit (UUID16 a) = to_128bit (UUID16 b)"
  then have "le_bytes 4 (ucast a :: u32) = le_bytes 4 (ucast b :: u32)"
    unfolding to_128bit_uuid16 by simp
  then have "(le_word (le_bytes 4 (ucast a :: u32)) :: u32) = le_word (le_bytes 4 (ucast b :: u32))"
    by simp
  then have "(ucast a :: u32) = ucast b" by (simp add: le_word_le_bytes)
  then have "(ucast (ucast a :: u32) :: u16) = ucast (ucast b :: u32)" by simp
  then show "a = b" by (simp add: ucast_up_ucast_id is_up)
qed simp

lemma to_128bit_inj32: "to_128bit (UUID32 a) = to_128bit (UUID32 b) \<longleftrightarrow> a = b"
proof
  assume "to_128bit (UUID32 a) = to_128bit (UUID32 b)"
  then have "(le_word (le_bytes 4 a) :: u32) = le_word (le_bytes 4 b)"
    unfolding to_128bit_uuid32 by simp
  then show "a = b" by (simp add: le_word_le_bytes)
qed simp

lemma length_to_128bit: "uuid_wf u \<Longrightarrow> length (to_128bit u) = 16"
  by (cases u) (simp_all add: to_128bit_uuid32 to_128bit_uuid16 BASE_UUID_def upt_0_2
      del: to_128bit.simps(2,3))

lemma uuid_eq_iff:
  assumes "uuid_wf u" "uuid_wf v"
  shows "uuid_eq u v \<longleftrightarrow> (is_set u \<longleftrightarrow> is_set v) \<and> (is_set u \<longrightarrow> to_128bit u = to_128bit v)"
  using assms
  by (cases u; cases v)
    (simp_all add: is_set_def to_128bit_inj16 to_128bit_inj32 del: to_128bit.simps(2-4))

lemma as_128bit_simps:
  "uuid_wf u \<Longrightarrow> uuid_wf (as_128bit u)"
  "is_set (as_128bit u) \<longleftrightarrow> is_set u"
  "to_128bit (as_128bit u) = to_128bit u"
  using length_to_128bit [of u]
  by (cases u; simp add: as_128bit_def is_set_def del: to_128bit.simps(2-4); fail)+

text \<open>
  C37. Comparison of UUIDs: two are equal exactly if both are unset, or both are set and denote
  the same 128-bit UUID, whatever width each is stored at; a UUID and its 128-bit widening
  (\<open>as_128bit\<close>) compare equal to the same UUIDs, and an unset one equals no set one.
\<close>
theorem uuid_eq_is_expansion_equality:
  assumes "uuid_wf u" "uuid_wf v"
  shows "(uuid_eq u v \<longleftrightarrow>
            (\<not> is_set u \<and> \<not> is_set v) \<or> (is_set u \<and> is_set v \<and> to_128bit u = to_128bit v))
       \<and> uuid_eq (as_128bit u) v = uuid_eq u v \<and> uuid_eq u (as_128bit u)"
  using assms by (auto simp: uuid_eq_iff as_128bit_simps)

theorem uuid_eq_is_expansion_equality_witness:
  "uuid_eq (UUID16 0x180F)
     (UUID128 [0xFB, 0x34, 0x9B, 0x5F, 0x80, 0, 0, 0x80, 0, 0x10, 0, 0, 0x0F, 0x18, 0, 0])
   \<and> \<not> uuid_eq (UUID16 0x180F) UUID_UNSET"
proof -
  have b: "uuid_wf (UUID16 0x180F)"
    "uuid_wf (UUID128 [0xFB, 0x34, 0x9B, 0x5F, 0x80, 0, 0, 0x80, 0, 0x10, 0, 0, 0x0F, 0x18, 0, 0])"
    "uuid_wf UUID_UNSET"
    by simp_all
  have e: "to_128bit (UUID16 0x180F)
     = [0xFB, 0x34, 0x9B, 0x5F, 0x80, 0, 0, 0x80, 0, 0x10, 0, 0, 0x0F, 0x18, 0, 0]"
    by code_simp
  show ?thesis
    using uuid_eq_is_expansion_equality [OF b(1) b(2)] uuid_eq_is_expansion_equality [OF b(1) b(3)] e
    by (simp add: is_set_def)
qed

section \<open>Text form\<close>

text \<open>What ESPHome's \<open>format_hex_pretty_char\<close> does to a nibble: an upper-case hex digit.\<close>

definition hex_pretty_spec :: "(u8 \<Rightarrow> u8) \<Rightarrow> bool" where
  "hex_pretty_spec fmt \<longleftrightarrow> (\<forall>n < 16. fmt n = (if n < 10 then 48 + n else 55 + n))"

lemma u8_lt_16_cases:
  assumes "(n :: u8) < 16"
  obtains "n = 0" | "n = 1" | "n = 2" | "n = 3" | "n = 4" | "n = 5" | "n = 6" | "n = 7"
    | "n = 8" | "n = 9" | "n = 10" | "n = 11" | "n = 12" | "n = 13" | "n = 14" | "n = 15"
proof -
  have "unat n < 16" using assms by (simp add: word_less_nat_alt)
  then have "unat n \<in> set [0..<16]" by simp
  then have "unat n \<in> {0, 1, 2, 3, 4, 5, 6, 7, 8, 9, 10, 11, 12, 13, 14, 15}"
    unfolding upt_0_16 by simp
  moreover have "k \<in> {0, 1, 2, 3, 4, 5, 6, 7, 8, 9, 10, 11, 12, 13, 14, 15} \<Longrightarrow>
      (of_nat k :: u8) \<in> {0, 1, 2, 3, 4, 5, 6, 7, 8, 9, 10, 11, 12, 13, 14, 15}" for k :: nat
    by (elim insertE) simp_all
  ultimately have "(of_nat (unat n) :: u8) \<in> {0, 1, 2, 3, 4, 5, 6, 7, 8, 9, 10, 11, 12, 13, 14, 15}"
    by blast
  then have "n \<in> {0, 1, 2, 3, 4, 5, 6, 7, 8, 9, 10, 11, 12, 13, 14, 15}" by simp
  then show ?thesis using that by auto
qed

lemma hex_nibble_fmt:
  assumes "hex_pretty_spec fmt" "n < 16"
  shows "hex_nibble (fmt n) = n" "fmt n \<noteq> 45"
proof -
  have f: "fmt n = (if n < 10 then 48 + n else 55 + n)"
    using assms by (simp add: hex_pretty_spec_def)
  show "hex_nibble (fmt n) = n" "fmt n \<noteq> 45"
    unfolding f using assms(2) by (cases rule: u8_lt_16_cases; simp add: hex_nibble_def)+
qed

lemma byte_nibbles:
  "drop_bit 4 (b :: u8) < 16" "b AND 15 < 16" "push_bit 4 (drop_bit 4 b) OR (b AND 15) = b"
proof -
  have "unat (drop_bit 4 b) < 16"
    using unat_u8_lt [of b] by (simp add: unat_drop_bit_eq drop_bit_eq_div)
    (simp add: less_mult_imp_div_less unat_div)
  then show "drop_bit 4 b < 16" by (simp add: word_less_nat_alt)
  have m: "(15 :: u8) = mask 4" by (simp add: mask_eq_exp_minus_1)
  show "b AND 15 < 16"
    unfolding m using word_and_le1 [of b "mask 4"] by (simp add: mask_eq_exp_minus_1 order_le_less_trans)
  show "push_bit 4 (drop_bit 4 b) OR (b AND 15) = b"
    unfolding m by (rule bit_word_eqI)
      (auto simp: bit_or_iff bit_and_iff bit_push_bit_iff bit_drop_bit_eq bit_mask_iff)
qed

lemma hex_byte_nth:
  assumes "hex_pretty_spec fmt"
  shows "hex_byte fmt b ! 0 \<noteq> 45"
    "push_bit 4 (hex_nibble (hex_byte fmt b ! 0)) OR hex_nibble (hex_byte fmt b ! 1) = b"
  using assms by (simp_all add: hex_byte_def hex_nibble_fmt byte_nibbles)


lemma dashed_loop_step:
  assumes "i < length data" "data ! i \<noteq> 45" "i + 1 < length data" "n \<le> 15"
  shows "dashed_loop data i n out = dashed_loop data (i + 2) (n + 1)
    (out[15 - n := push_bit 4 (hex_nibble (data ! i)) OR hex_nibble (data ! (i + 1))])"
  using assms by (subst dashed_loop.simps) (simp add: rd_text_def rd_def)

lemma dashed_loop_dash:
  assumes "i + 2 < length data" "data ! i = 45" "n \<le> 15"
  shows "dashed_loop data i n out = dashed_loop data (i + 3) (n + 1)
    (out[15 - n := push_bit 4 (hex_nibble (data ! (i + 1))) OR hex_nibble (data ! (i + 2))])"
  using assms by (subst dashed_loop.simps) (simp add: rd_text_def rd_def numeral_3_eq_3)

lemma dashed_loop_end: "length data \<le> i \<Longrightarrow> dashed_loop data i n out = Some out"
  by (subst dashed_loop.simps) simp

lemma replicate_16: "replicate 16 x = [x, x, x, x, x, x, x, x, x, x, x, x, x, x, x, x]"
  by (simp add: numeral_eq_Suc)

lemma dashed_loop_to_str:
  assumes "hex_pretty_spec fmt"
  shows "dashed_loop (to_str fmt (UUID128 [b0,b1,b2,b3,b4,b5,b6,b7,b8,b9,ba,bb,bc,bd,be,bf])) 0 0
     (replicate 16 0) = Some [b0,b1,b2,b3,b4,b5,b6,b7,b8,b9,ba,bb,bc,bd,be,bf]"
proof -
  have e: "to_str fmt (UUID128 [b0,b1,b2,b3,b4,b5,b6,b7,b8,b9,ba,bb,bc,bd,be,bf]) =
    hex_byte fmt bf @ hex_byte fmt be @ hex_byte fmt bd @ hex_byte fmt bc @ 45 #
    hex_byte fmt bb @ hex_byte fmt ba @ 45 # hex_byte fmt b9 @ hex_byte fmt b8 @ 45 #
    hex_byte fmt b7 @ hex_byte fmt b6 @ 45 # hex_byte fmt b5 @ hex_byte fmt b4 @
    hex_byte fmt b3 @ hex_byte fmt b2 @ hex_byte fmt b1 @ hex_byte fmt b0"
    by (simp add: upt_0_16)
  note n = hex_nibble_fmt [OF assms byte_nibbles(1)] hex_nibble_fmt [OF assms byte_nibbles(2)]
  show ?thesis
    unfolding e hex_byte_def
    by (simp add: n byte_nibbles dashed_loop_step dashed_loop_dash dashed_loop_end
        replicate_16)
qed

lemma list_16: "length xs = 16 \<Longrightarrow> xs = map ((!) xs) [0, 1, 2, 3, 4, 5, 6, 7, 8, 9, 10, 11, 12, 13, 14, 15]"
  by (metis map_nth upt_0_16)

lemma length_to_str: "uuid_wf u \<Longrightarrow> length (to_str fmt u) + 1 \<le> 37"
  by (cases u) (simp_all add: upt_0_16 hex_byte_def)

lemma length_to_str128: "length (to_str fmt (UUID128 bs)) = 36"
  by (simp add: upt_0_16 hex_byte_def)

text \<open>
  C38. Printing a 128-bit UUID and parsing the text back gives the same UUID, with every read and
  write of the parser inside its buffers; and whatever is printed fits, with its terminator, in
  the \<open>UUID_STR_LEN\<close> = 37 bytes callers pass.
\<close>
theorem uuid_text_roundtrip:
  assumes "hex_pretty_spec fmt" "uuid_wf u"
  shows "(u = UUID128 bs \<longrightarrow> from_raw_text parse_hex16 parse_hex32 (to_str fmt u) = Some u)
       \<and> length (to_str fmt u) + 1 \<le> 37"
proof -
  have "from_raw_text parse_hex16 parse_hex32 (to_str fmt u) = Some u" if u: "u = UUID128 bs"
  proof -
    have "length bs = 16" using assms(2) u by simp
    note bs = list_16 [OF this]
    have "dashed_loop (to_str fmt (UUID128 bs)) 0 0 (replicate 16 0) = Some bs"
      by (subst (1 2) bs) (simp only: list.map dashed_loop_to_str [OF assms(1)])
    then show ?thesis
      unfolding from_raw_text_def u length_to_str128 by simp
  qed
  then show ?thesis using length_to_str [OF assms(2)] by blast
qed

theorem uuid_text_roundtrip_witness:
  "from_raw_text (\<lambda>_. None) (\<lambda>_. None)
     (to_str (\<lambda>n. if n < 10 then 48 + n else 55 + n) (UUID128 (map of_nat [1..<17])))
   = Some (UUID128 (map of_nat [1..<17]))"
proof -
  have "hex_pretty_spec (\<lambda>n. if n < 10 then 48 + n else 55 + n)"
    by (simp add: hex_pretty_spec_def)
  moreover have "uuid_wf (UUID128 (map of_nat [1..<17]))" by simp
  ultimately show ?thesis
    using uuid_text_roundtrip by blast
qed

text \<open>
  The parser of the 36-character form does not check that the text has its four dashes:
  eighteen pairs of hex digits write two bytes below the 16-byte UUID (\<open>uuid128[-1]\<close>, then
  \<open>uuid128[-2]\<close>), whatever the digits are.
\<close>
theorem from_raw_36_without_dashes:
  "from_raw_text parse_hex16 parse_hex32 (replicate 36 48) = None"
proof -
  have s: "dashed_loop (replicate 36 48) i n out = dashed_loop (replicate 36 48) (i + 2) (n + 1)
      (out[15 - n := 0])" if "i < 35" "n \<le> 15" for i n out
    using that by (subst dashed_loop_step) (simp_all add: hex_nibble_def)
  have e: "dashed_loop (replicate 36 48) i n out = None" if "i = 32" "n = 16" for i n out
    using that by (subst dashed_loop.simps) (simp add: rd_text_def rd_def)
  have "dashed_loop (replicate 36 48) 0 0 (replicate 16 0) = None"
    by (simp add: s e)
  then show ?thesis by (simp add: from_raw_text_def)
qed

section \<open>Binary forms\<close>

lemma be64_le_word: "be64 b7 b6 b5 b4 b3 b2 b1 b0 = le_word [b0, b1, b2, b3, b4, b5, b6, b7]"
  by (simp add: be64_def ac_simps)

lemma le_word_le_bytes_ucast:
  "(le_word (le_bytes 4 (v :: u32)) :: u64) = ucast v"
proof (rule bit_word_eqI)
  fix k :: nat assume "k < LENGTH(64)"
  then show "bit (le_word (le_bytes 4 v) :: u64) k = bit (ucast v :: u64) k"
    by (cases "k < 32") (auto simp: bit_le_word bit_ucast_iff bit_drop_bit_eq dest: bit_imp_le_length)
qed

lemma base_uuid_halves:
  "drop 8 (take 12 BASE_UUID @ xs) = [0x00, 0x10, 0x00, 0x00] @ xs"
  "take 8 (take 12 BASE_UUID @ xs) = [0xFB, 0x34, 0x9B, 0x5F, 0x80, 0x00, 0x00, 0x80]"
  by (simp_all add: BASE_UUID_def)

lemma le_word_base_high: "(le_word ([0x00, 0x10, 0x00, 0x00] @ xs) :: u64) = push_bit 32 (le_word xs) OR 0x1000"
proof (rule bit_word_eqI)
  fix k :: nat assume k: "k < LENGTH(64)"
  have "(le_word ([0x00, 0x10, 0x00, 0x00] @ xs) :: u64)
      = push_bit 8 0x10 OR push_bit 8 (push_bit 8 (push_bit 8 (push_bit 8 (le_word xs))))"
    by (simp del: push_bit_push_bit push_bit_numeral)
  then show "bit (le_word ([0x00, 0x10, 0x00, 0x00] @ xs) :: u64) k
      = bit (push_bit 32 (le_word xs) OR 0x1000 :: u64) k"
    by (simp only: push_bit_push_bit) (simp add: or.commute)
qed

lemma fill_128bit_short:
  "(push_bit 32 (ucast (v :: u32)) OR 0x1000 :: u64, 0x800000805F9B34FB :: u64)
   = (le_word (drop 8 (take 12 BASE_UUID @ le_bytes 4 v)), le_word (take 8 (take 12 BASE_UUID @ le_bytes 4 v)))"
proof -
  have "(le_word [0xFB, 0x34, 0x9B, 0x5F, 0x80, 0x00, 0x00, 0x80] :: u64) = 0x800000805F9B34FB"
    by code_simp
  then show ?thesis
    by (simp only: base_uuid_halves le_word_base_high le_word_le_bytes_ucast)
qed

text \<open>
  The two routines that expand a UUID to 128 bits agree: the API's pair of 64-bit halves
  (\<open>fill_128bit_uuid_array\<close>) is the high and the low half of the little-endian expansion that
  comparison uses (\<open>to_128bit_\<close>), for every set UUID.
\<close>
theorem fill_128bit_uuid_array_is_expansion:
  assumes "uuid_wf u" "is_set u"
  shows "fill_128bit_uuid_array u = (le_word (drop 8 (to_128bit u)), le_word (take 8 (to_128bit u)))"
proof (cases u)
  case (UUID128 bs)
  then have l: "length bs = 16" using assms by simp
  show ?thesis
    unfolding UUID128 fill_128bit_uuid_array_def
    by (simp only: espbtuuid.case be64_le_word to_128bit.simps)
      (subst (17 18) list_16 [OF l], simp)
next
  case (UUID16 w)
  then show ?thesis
    by (simp only: fill_128bit_uuid_array_def to_128bit_uuid16 espbtuuid.case Let_def fill_128bit_short)
next
  case (UUID32 w)
  then show ?thesis
    by (simp only: fill_128bit_uuid_array_def to_128bit_uuid32 espbtuuid.case Let_def uuid32_of_def
        fill_128bit_short)
qed (use assms in \<open>simp add: is_set_def\<close>)

theorem fill_128bit_uuid_array_is_expansion_witness:
  "fill_128bit_uuid_array (UUID16 0x180F) = (0x0000180F00001000, 0x800000805F9B34FB)"
proof -
  have "uuid_wf (UUID16 0x180F)" "is_set (UUID16 0x180F)" by (simp_all add: is_set_def)
  note t = fill_128bit_uuid_array_is_expansion [OF this]
  show ?thesis unfolding t by code_simp
qed

lemma ble_uuid_types_distinct [simp]:
  "BLE_UUID_TYPE_16 \<noteq> BLE_UUID_TYPE_32" "BLE_UUID_TYPE_32 \<noteq> BLE_UUID_TYPE_16"
  "BLE_UUID_TYPE_16 \<noteq> BLE_UUID_TYPE_128" "BLE_UUID_TYPE_128 \<noteq> BLE_UUID_TYPE_16"
  "BLE_UUID_TYPE_32 \<noteq> BLE_UUID_TYPE_128" "BLE_UUID_TYPE_128 \<noteq> BLE_UUID_TYPE_32"
  by (simp_all add: ble_uuid_types)

text \<open>
  The three conversions of a UUID to a foreign structure lose nothing: through the
  \<open>esp_bt_uuid_t\<close> of the historical API (whatever its uninitialised bytes held), and, for a set
  UUID, through a NimBLE \<open>ble_uuid_any_t\<close> and the 16-byte field of a discovery event.
\<close>
theorem uuid_conversions_roundtrip:
  assumes "uuid_wf u"
  shows "from_uuid (get_uuid junk u) = u
       \<and> (is_set u \<longrightarrow>
            (case copy_uuid (espbtuuid_to_nimble_uuid u) of (ty, raw) \<Rightarrow>
               length raw = 16 \<and> nimble_raw_uuid_to_espbtuuid ty raw = u))"
  using assms
  by (cases u) (simp_all add: from_uuid_def get_uuid_def from_uint16_def from_uint32_def is_set_def
      le_word_le_bytes copy_uuid_def espbtuuid_to_nimble_uuid_def nimble_raw_uuid_to_espbtuuid_def)

theorem uuid_conversions_roundtrip_witness:
  "from_uuid (get_uuid (replicate 16 0xAA) (UUID16 0x2902)) = UUID16 0x2902
   \<and> nimble_raw_uuid_to_espbtuuid BLE_UUID_TYPE_16 (snd (copy_uuid (espbtuuid_to_nimble_uuid (UUID16 0x2902))))
     = UUID16 0x2902"
proof -
  have "uuid_wf (UUID16 0x2902)" "is_set (UUID16 0x2902)" by (simp_all add: is_set_def)
  moreover have "fst (copy_uuid (espbtuuid_to_nimble_uuid (UUID16 0x2902))) = BLE_UUID_TYPE_16"
    by (simp add: copy_uuid_def espbtuuid_to_nimble_uuid_def)
  ultimately show ?thesis
    using uuid_conversions_roundtrip [of "UUID16 0x2902" "replicate 16 0xAA"]
    by (simp add: case_prod_beta)
qed

end
