(* ===== verification/BleAddress.thy ===== *)
theory BleAddress
  imports Prelude
begin

text \<open>
  The byte orders of a BLE address: the controller's (least significant octet first), the
  printable one (most significant first, as \<open>ESPBTDevice\<close> stores it) and the 64-bit integer of the
  API. \<open>components/ble_device_base/ble_device.h\<close> and \<open>.cpp\<close>, and the helper of
  \<open>components/nimble_ble/nimble_gattc.cpp\<close>.
\<close>

definition mac_lsb_first_to_uint64 :: "bytes \<Rightarrow> u64" where
  "mac_lsb_first_to_uint64 mac =
     fold (\<lambda>i addr. addr OR push_bit (i * 8) (ucast (mac ! i))) [0..<6] 0"

definition uint64_to_mac_msb_first :: "u64 \<Rightarrow> bytes" where
  "uint64_to_mac_msb_first address = map (\<lambda>i. ucast (drop_bit ((5 - i) * 8) address AND 0xFF)) [0..<6]"

definition uint64_to_mac_lsb_first :: "u64 \<Rightarrow> bytes" where
  "uint64_to_mac_lsb_first address = map (\<lambda>i. ucast (drop_bit (i * 8) address AND 0xFF)) [0..<6]"

text \<open>The loop at the head of \<open>from_scan_result\<close>, and the accessor of the stored address.\<close>

definition store_address :: "bytes \<Rightarrow> bytes" where
  "store_address mac = map (\<lambda>i. mac ! (5 - i)) [0..<6]"

definition address_uint64 :: "bytes \<Rightarrow> u64" where
  "address_uint64 address =
     fold (\<lambda>i addr. addr OR push_bit ((5 - i) * 8) (ucast (address ! i))) [0..<6] 0"

lemma upt_0_6: "[0..<6] = [0, 1, 2, 3, 4, 5]" by (simp add: upt_rec)

lemma list_6: "length xs = 6 \<Longrightarrow> xs = [xs ! 0, xs ! 1, xs ! 2, xs ! 3, xs ! 4, xs ! 5]"
  using map_nth [of xs] by (simp add: upt_0_6)

lemma ucast_and_FF: "(ucast ((w :: u64) AND 0xFF) :: u8) = ucast w"
proof (rule bit_word_eqI)
  have m: "(0xFF :: u64) = mask 8" by (simp add: mask_eq_exp_minus_1)
  fix n :: nat assume "n < LENGTH(8)"
  then show "bit (ucast (w AND 0xFF) :: u8) n = bit (ucast w :: u8) n"
    unfolding m by (simp add: bit_ucast_iff bit_and_iff bit_mask_iff)
qed

lemma mac_lsb_first_le_word: "length mac = 6 \<Longrightarrow> mac_lsb_first_to_uint64 mac = le_word mac"
  by (subst (2) list_6) (simp_all add: mac_lsb_first_to_uint64_def upt_0_6 ac_simps)

lemma uint64_to_mac_lsb_first_le_bytes: "uint64_to_mac_lsb_first a = le_bytes 6 a"
  by (simp add: uint64_to_mac_lsb_first_def le_bytes_def ucast_and_FF ac_simps)

lemma uint64_to_mac_msb_first_rev: "uint64_to_mac_msb_first a = rev (le_bytes 6 a)"
  by (simp add: uint64_to_mac_msb_first_def le_bytes_def ucast_and_FF upt_0_6)

lemma store_address_rev: "length mac = 6 \<Longrightarrow> store_address mac = rev mac"
  by (subst (2) list_6) (simp_all add: store_address_def upt_0_6)

lemma length_store_address [simp]: "length (store_address mac) = 6"
  by (simp add: store_address_def)

lemma address_uint64_store: "length mac = 6 \<Longrightarrow> address_uint64 (store_address mac) = le_word mac"
  by (subst (2) list_6) (simp_all add: address_uint64_def store_address_def upt_0_6 ac_simps)

lemma address_uint64_rev: "length mac = 6 \<Longrightarrow> address_uint64 (rev mac) = le_word mac"
  using address_uint64_store by (simp add: store_address_rev)

lemma le_word_mac_of_uint64:
  assumes "a < 2 ^ 48"
  shows "(le_word (le_bytes 6 (a :: u64)) :: u64) = a"
proof (rule bit_word_eqI)
  fix k :: nat assume "k < LENGTH(64)"
  have "a = take_bit 48 a"
    using assms
    by (intro word_unat_eq_iff [THEN iffD2])
      (simp add: unsigned_take_bit_eq take_bit_nat_def word_less_nat_alt)
  then have "bit a k \<Longrightarrow> k < 48" by (metis bit_take_bit_iff)
  moreover have "k < 48 \<Longrightarrow> k div 8 < 6" by linarith
  ultimately show "bit (le_word (le_bytes 6 a) :: u64) k = bit a k"
    using \<open>k < LENGTH(64)\<close>
    by (cases "k < 48") (auto simp: bit_le_word bit_ucast_iff bit_drop_bit_eq)
qed

text \<open>
  The conversions between the byte orders of an address are mutually inverse: the address a
  device stores from the controller's bytes packs to the same integer as the bytes themselves,
  and unpacking that integer gives the bytes back in either order; an integer of 48 bits
  survives being unpacked and packed.
\<close>
theorem address_byte_orders_agree:
  assumes "length mac = 6" "a < 2 ^ 48"
  shows "address_uint64 (store_address mac) = mac_lsb_first_to_uint64 mac
       \<and> uint64_to_mac_lsb_first (mac_lsb_first_to_uint64 mac) = mac
       \<and> uint64_to_mac_msb_first (address_uint64 (store_address mac)) = store_address mac
       \<and> mac_lsb_first_to_uint64 (uint64_to_mac_lsb_first a) = a
       \<and> address_uint64 (uint64_to_mac_msb_first a) = a"
proof -
  have l: "le_bytes 6 (le_word mac :: u64) = mac"
    using le_bytes_le_word [of mac, where 'a = 64] assms(1) by simp
  show ?thesis
    using assms
    by (simp add: uint64_to_mac_msb_first_rev address_uint64_rev mac_lsb_first_le_word
        uint64_to_mac_lsb_first_le_bytes store_address_rev l le_word_mac_of_uint64)
qed

theorem address_byte_orders_agree_witness:
  "address_uint64 (store_address [1, 2, 3, 4, 5, 6]) = 0x060504030201
   \<and> address_uint64 (uint64_to_mac_msb_first 0xAABBCCDDEEFF) = 0xAABBCCDDEEFF"
proof -
  have "length [1 :: u8, 2, 3, 4, 5, 6] = 6" "(0xAABBCCDDEEFF :: u64) < 2 ^ 48" by simp_all
  note t = address_byte_orders_agree [OF this]
  have "mac_lsb_first_to_uint64 [1, 2, 3, 4, 5, 6] = 0x060504030201" by code_simp
  then show ?thesis using t by simp
qed

end
