(* ===== verification/NimbleGattc.thy ===== *)
theory NimbleGattc
  imports BleFsm BleUuid BleAddress
begin

text \<open>
  \<open>nimble_ble::NimbleGattEngine\<close> (components/nimble_ble/nimble_gattc.h and .cpp): one GATT client
  connection. Its state is the record \<open>engine\<close>; an operation returns the new state, its return
  code where it has one, and the list of the calls it makes, to the NimBLE host (\<open>Stack\<close>) and to
  the listener (\<open>Listener\<close>), in the order of the code. Every listener call is the last thing an
  operation does, so what a listener does in it is a further operation on the returned state.

  NimBLE is not in this repository: \<open>stk\<close> gives the return code of each host call, and its
  constants are those of its public headers. \<open>now\<close> is the value of \<open>millis()\<close>. A vector indexed
  outside its size is the value \<open>None\<close> of \<open>handle_gatt_event\<close>.
\<close>

section \<open>Constants\<close>

definition BLE_HS_CONN_HANDLE_NONE :: u16 where "BLE_HS_CONN_HANDLE_NONE = 0xffff"
definition BLE_HS_EALREADY :: int where "BLE_HS_EALREADY = 2"
definition BLE_HS_ETIMEOUT :: int where "BLE_HS_ETIMEOUT = 13"
definition BLE_HS_EBUSY :: int where "BLE_HS_EBUSY = 15"
definition HCI_ERR_REM_USER_CONN_TERM :: u8 where "HCI_ERR_REM_USER_CONN_TERM = 0x13"
definition BLE_OWN_ADDR_PUBLIC :: u8 where "BLE_OWN_ADDR_PUBLIC = 0"
definition GATT_ERR_NOT_CONNECTED :: int where "GATT_ERR_NOT_CONNECTED = -1"
definition GATT_ERR_NO_MEMORY :: int where "GATT_ERR_NO_MEMORY = -2"
definition GATT_ERR_UNLIKELY :: int where "GATT_ERR_UNLIKELY = 0x0E"
definition DEFAULT_ATT_MTU :: u16 where "DEFAULT_ATT_MTU = 23"
definition FAST_MIN_CONN_INTERVAL :: u16 where "FAST_MIN_CONN_INTERVAL = 0x06"
definition FAST_MAX_CONN_INTERVAL :: u16 where "FAST_MAX_CONN_INTERVAL = 0x06"
definition FAST_CONN_TIMEOUT :: u16 where "FAST_CONN_TIMEOUT = 1000"

lemmas error_codes = BLE_HS_EALREADY_def BLE_HS_ETIMEOUT_def BLE_HS_EBUSY_def
  GATT_ERR_NOT_CONNECTED_def GATT_ERR_NO_MEMORY_def GATT_ERR_UNLIKELY_def

section \<open>The service table\<close>

record gatt_descriptor =
  dsc_uuid :: espbtuuid
  dsc_handle :: u16

record gatt_characteristic =
  chr_uuid :: espbtuuid
  value_handle :: u16
  chr_end_handle :: u16
  properties :: u8
  first_descriptor :: u16
  descriptor_count :: u16

record gatt_service =
  svc_uuid :: espbtuuid
  start_handle :: u16
  end_handle :: u16
  first_characteristic :: u16
  characteristic_count :: u16

text \<open>The borrowed view: the three arrays, and their sizes cut to 16 bits.\<close>

record gatt_service_table =
  tbl_services :: "gatt_service list"
  tbl_characteristics :: "gatt_characteristic list"
  tbl_descriptors :: "gatt_descriptor list"
  service_count :: u16
  tbl_characteristic_count :: u16
  tbl_descriptor_count :: u16

section \<open>Events\<close>

datatype gatt_event_type =
  EV_CONNECT | EV_DISCONNECT | EV_MTU | EV_DISC_SVC | EV_DISC_SVC_DONE | EV_DISC_CHR
| EV_DISC_CHR_DONE | EV_DISC_DSC | EV_DISC_DSC_DONE | EV_ATTR_OP | EV_NOTIFY_RX
| EV_ENC_CHANGE | EV_CONN_UPDATE

text \<open>
  \<open>owner\<close> is the identity of the engine (a pointer in the code, null is \<open>None\<close>); \<open>ge_data\<close> is the
  heap payload with its length, the null pointer being the empty list.
\<close>

type_synonym owner = nat

record gatt_event =
  ge_owner :: "owner option"
  ge_type :: gatt_event_type
  ge_conn_handle :: u16
  ge_status :: int
  ge_handle :: u16
  ge_handle2 :: u16
  ge_properties :: u8
  ge_uuid_type :: u8
  ge_uuid128 :: bytes
  ge_data :: bytes

definition gatt_event0 :: "owner option \<Rightarrow> gatt_event_type \<Rightarrow> u16 \<Rightarrow> gatt_event" where
  "gatt_event0 owner ty ch =
     \<lparr>ge_owner = owner, ge_type = ty, ge_conn_handle = ch, ge_status = 0, ge_handle = 0,
      ge_handle2 = 0, ge_properties = 0, ge_uuid_type = 0, ge_uuid128 = replicate 16 0,
      ge_data = []\<rparr>"

section \<open>Callback trampolines\<close>

text \<open>
  The host's callbacks, which copy what they are given into an event; a payload buffer (an mbuf
  chain) is the list of its bytes, or \<open>None\<close> where the pointer is null. The result is the event
  pushed, if one is.
\<close>

datatype ble_gap_event =
  BLE_GAP_EVENT_CONNECT u16 int
| BLE_GAP_EVENT_DISCONNECT u16 int
| BLE_GAP_EVENT_MTU u16 u16
| BLE_GAP_EVENT_NOTIFY_RX u16 u16 u16 "bytes option"
| BLE_GAP_EVENT_ENC_CHANGE u16 int
| BLE_GAP_EVENT_CONN_UPDATE u16 int
| BLE_GAP_EVENT_OTHER nat

definition mbuf_copy :: "bytes option \<Rightarrow> bytes" where
  "mbuf_copy om = (case om of None \<Rightarrow> [] | Some bs \<Rightarrow> take (unat (of_nat (length bs) :: u16)) bs)"

definition gap_event_cb :: "owner option \<Rightarrow> ble_gap_event \<Rightarrow> gatt_event option" where
  "gap_event_cb arg ev = (case ev of
     BLE_GAP_EVENT_CONNECT ch st \<Rightarrow> Some ((gatt_event0 arg EV_CONNECT ch)\<lparr>ge_status := st\<rparr>)
   | BLE_GAP_EVENT_DISCONNECT ch reason \<Rightarrow>
       Some ((gatt_event0 arg EV_DISCONNECT ch)\<lparr>ge_status := reason\<rparr>)
   | BLE_GAP_EVENT_MTU ch v \<Rightarrow> Some ((gatt_event0 arg EV_MTU ch)\<lparr>ge_handle2 := v\<rparr>)
   | BLE_GAP_EVENT_NOTIFY_RX ch h ind om \<Rightarrow>
       Some ((gatt_event0 arg EV_NOTIFY_RX ch)
               \<lparr>ge_handle := h, ge_handle2 := ind, ge_data := mbuf_copy om\<rparr>)
   | BLE_GAP_EVENT_ENC_CHANGE ch st \<Rightarrow> Some ((gatt_event0 arg EV_ENC_CHANGE ch)\<lparr>ge_status := st\<rparr>)
   | BLE_GAP_EVENT_CONN_UPDATE ch st \<Rightarrow> Some ((gatt_event0 arg EV_CONN_UPDATE ch)\<lparr>ge_status := st\<rparr>)
   | BLE_GAP_EVENT_OTHER _ \<Rightarrow> None)"

text \<open>\<open>copy_uuid\<close> fills the type and the 16-byte field of the event.\<close>

definition with_uuid :: "u8 \<times> bytes \<Rightarrow> gatt_event \<Rightarrow> gatt_event" where
  "with_uuid uuid ev = ev\<lparr>ge_uuid_type := fst (copy_uuid uuid), ge_uuid128 := snd (copy_uuid uuid)\<rparr>"

definition disc_svc_cb ::
  "u16 \<Rightarrow> int \<Rightarrow> (u16 \<times> u16 \<times> u8 \<times> bytes) option \<Rightarrow> owner option \<Rightarrow> gatt_event" where
  "disc_svc_cb ch status service arg = (case service of
     Some (start, fin, uuid) \<Rightarrow>
       if status = 0
       then with_uuid uuid ((gatt_event0 arg EV_DISC_SVC ch)\<lparr>ge_handle := start, ge_handle2 := fin\<rparr>)
       else (gatt_event0 arg EV_DISC_SVC_DONE ch)\<lparr>ge_status := status\<rparr>
   | None \<Rightarrow> (gatt_event0 arg EV_DISC_SVC_DONE ch)\<lparr>ge_status := status\<rparr>)"

definition disc_chr_cb ::
  "u16 \<Rightarrow> int \<Rightarrow> (u16 \<times> u16 \<times> u8 \<times> u8 \<times> bytes) option \<Rightarrow> owner option \<Rightarrow> gatt_event" where
  "disc_chr_cb ch status chr arg = (case chr of
     Some (def, val, props, uuid) \<Rightarrow>
       if status = 0
       then with_uuid uuid ((gatt_event0 arg EV_DISC_CHR ch)
              \<lparr>ge_handle := def, ge_handle2 := val, ge_properties := props\<rparr>)
       else (gatt_event0 arg EV_DISC_CHR_DONE ch)\<lparr>ge_status := status\<rparr>
   | None \<Rightarrow> (gatt_event0 arg EV_DISC_CHR_DONE ch)\<lparr>ge_status := status\<rparr>)"

definition disc_dsc_cb ::
  "u16 \<Rightarrow> int \<Rightarrow> (u16 \<times> u8 \<times> bytes) option \<Rightarrow> owner option \<Rightarrow> gatt_event" where
  "disc_dsc_cb ch status dsc arg = (case dsc of
     Some (h, uuid) \<Rightarrow>
       if status = 0 then with_uuid uuid ((gatt_event0 arg EV_DISC_DSC ch)\<lparr>ge_handle := h\<rparr>)
       else (gatt_event0 arg EV_DISC_DSC_DONE ch)\<lparr>ge_status := status\<rparr>
   | None \<Rightarrow> (gatt_event0 arg EV_DISC_DSC_DONE ch)\<lparr>ge_status := status\<rparr>)"

definition attr_cb ::
  "u16 \<Rightarrow> int option \<Rightarrow> (u16 \<times> bytes option) option \<Rightarrow> owner option \<Rightarrow> gatt_event" where
  "attr_cb ch error attr arg =
     (gatt_event0 arg EV_ATTR_OP ch)
       \<lparr>ge_status := (case error of Some st \<Rightarrow> st | None \<Rightarrow> 0),
        ge_handle := (case attr of Some (h, _) \<Rightarrow> h | None \<Rightarrow> 0),
        ge_data := (case attr of Some (_, om) \<Rightarrow> mbuf_copy om | None \<Rightarrow> [])\<rparr>"

section \<open>The engine\<close>

datatype pending_op = OP_NONE | READ_CHR | READ_DSC | WRITE_CHR | WRITE_DSC

datatype connection_type = CONN_V1 | CONN_V3_WITH_CACHE | CONN_V3_WITHOUT_CACHE

record conn_params =
  scan_itvl :: u16
  scan_window :: u16
  itvl_min :: u16
  itvl_max :: u16
  latency :: u16
  supervision_timeout :: u16

datatype stack_call =
  BLE_GAP_DISC_CANCEL
| BLE_GAP_CONNECT u8 u8 bytes u32 conn_params
| BLE_GAP_CONN_CANCEL
| BLE_GAP_TERMINATE u16 u8
| BLE_GAP_SECURITY_INITIATE u16
| BLE_GAP_UPDATE_PARAMS u16 u16 u16 u16 u16
| BLE_GATTC_EXCHANGE_MTU u16
| BLE_GATTC_DISC_ALL_SVCS u16
| BLE_GATTC_DISC_ALL_CHRS u16 u16 u16
| BLE_GATTC_DISC_ALL_DSCS u16 u16 u16
| BLE_GATTC_READ u16 u16
| BLE_GATTC_WRITE u16 u16 bytes
| BLE_GATTC_WRITE_NO_RSP u16 u16 bytes

datatype listener_call =
  ON_CONNECTION_STATE bool u16 int
| ON_SERVICE_DISCOVERY_DONE int
| ON_READ_RESULT u16 bytes int
| ON_WRITE_RESULT u16 int
| ON_NOTIFY_STATE u16 bool int
| ON_NOTIFY_DATA u16 bytes
| ON_PAIRING_RESULT int

datatype effect = Stack stack_call | Listener listener_call

type_synonym host = "stack_call \<Rightarrow> int"

text \<open>\<open>listener\<close>: whether \<open>set_listener\<close> was given one.\<close>

record engine =
  listener :: bool
  fsm :: ble_fsm
  conn_handle :: u16
  mtu :: u16
  connect_result_reported :: bool
  connection_type :: connection_type
  pending_op :: pending_op
  discover_svc_index :: nat
  discover_chr_index :: nat
  services :: "gatt_service list"
  characteristics :: "gatt_characteristic list"
  descriptors :: "gatt_descriptor list"

definition engine_init :: engine where
  "engine_init = \<lparr>listener = False, fsm = fsm_init, conn_handle = BLE_HS_CONN_HANDLE_NONE,
     mtu = DEFAULT_ATT_MTU, connect_result_reported = False, connection_type = CONN_V1,
     pending_op = OP_NONE, discover_svc_index = 0, discover_chr_index = 0,
     services = [], characteristics = [], descriptors = []\<rparr>"

definition set_listener :: "bool \<Rightarrow> engine \<Rightarrow> engine" where
  "set_listener l e = e\<lparr>listener := l\<rparr>"

definition set_connection_type :: "connection_type \<Rightarrow> engine \<Rightarrow> engine" where
  "set_connection_type t e = e\<lparr>connection_type := t\<rparr>"

definition fsm_fire :: "ble_conn_event \<Rightarrow> u32 \<Rightarrow> engine \<Rightarrow> engine" where
  "fsm_fire ev now e = e\<lparr>fsm := fst (handle_event ev now (fsm e))\<rparr>"

definition tell :: "engine \<Rightarrow> listener_call \<Rightarrow> effect list" where
  "tell e c = (if listener e then [Listener c] else [])"

definition connect_params :: conn_params where
  "connect_params = \<lparr>scan_itvl = 0x0010, scan_window = 0x0010, itvl_min = FAST_MIN_CONN_INTERVAL,
     itvl_max = FAST_MAX_CONN_INTERVAL, latency = 0, supervision_timeout = FAST_CONN_TIMEOUT\<rparr>"

definition connect ::
  "host \<Rightarrow> u32 \<Rightarrow> u64 \<Rightarrow> u8 \<Rightarrow> engine \<Rightarrow> int \<times> engine \<times> effect list" where
  "connect stk now address addr_type e =
     (if conn_handle e \<noteq> BLE_HS_CONN_HANDLE_NONE \<or> fsm_state (fsm e) = CONNECTING
      then (BLE_HS_EALREADY, e, [])
      else
        let c = BLE_GAP_CONNECT BLE_OWN_ADDR_PUBLIC addr_type (uint64_to_mac_lsb_first address)
                  10000 connect_params;
            rc = stk c;
            out = [Stack BLE_GAP_DISC_CANCEL, Stack c]
        in if rc \<noteq> 0 then (rc, e, out)
           else (0, fsm_fire CONNECT_REQUEST now (e\<lparr>connect_result_reported := False\<rparr>), out))"

definition retry_connect ::
  "host \<Rightarrow> u32 \<Rightarrow> u64 \<Rightarrow> u8 \<Rightarrow> engine \<Rightarrow> int \<times> engine \<times> effect list" where
  "retry_connect stk now address addr_type e =
     connect stk now address addr_type
       (if fsm_state (fsm e) = BACKOFF then fsm_fire BACKOFF_ELAPSED now e else e)"

definition gatt_disconnect :: "host \<Rightarrow> u32 \<Rightarrow> engine \<Rightarrow> int \<times> engine \<times> effect list" where
  "gatt_disconnect stk now e =
     (if fsm_state (fsm e) = CONNECTING then (stk BLE_GAP_CONN_CANCEL, e, [Stack BLE_GAP_CONN_CANCEL])
      else if conn_handle e = BLE_HS_CONN_HANDLE_NONE then (GATT_ERR_NOT_CONNECTED, e, [])
      else
        let c = BLE_GAP_TERMINATE (conn_handle e) HCI_ERR_REM_USER_CONN_TERM
        in (stk c, fsm_fire DISCONNECT_REQUEST now e, [Stack c]))"

definition cancel_gatt_disconnect :: "engine \<Rightarrow> bool" where
  "cancel_gatt_disconnect e = False"

definition discover_services :: "host \<Rightarrow> engine \<Rightarrow> int \<times> engine \<times> effect list" where
  "discover_services stk e =
     (if conn_handle e = BLE_HS_CONN_HANDLE_NONE then (GATT_ERR_NOT_CONNECTED, e, [])
      else
        let c = BLE_GATTC_DISC_ALL_SVCS (conn_handle e)
        in (stk c, e\<lparr>services := [], characteristics := [], descriptors := [],
                    discover_svc_index := 0, discover_chr_index := 0\<rparr>, [Stack c]))"

text \<open>The shape the four attribute operations that wait for a completion share.\<close>

definition attr_op ::
  "host \<Rightarrow> pending_op \<Rightarrow> stack_call \<Rightarrow> engine \<Rightarrow> int \<times> engine \<times> effect list" where
  "attr_op stk op c e =
     (if conn_handle e = BLE_HS_CONN_HANDLE_NONE then (GATT_ERR_NOT_CONNECTED, e, [])
      else if pending_op e \<noteq> OP_NONE then (BLE_HS_EBUSY, e, [])
      else
        let e = e\<lparr>pending_op := op\<rparr>;
            rc = stk c;
            e = (if rc \<noteq> 0 then e\<lparr>pending_op := OP_NONE\<rparr> else e)
        in (rc, e, [Stack c]))"

definition read_characteristic :: "host \<Rightarrow> u16 \<Rightarrow> engine \<Rightarrow> int \<times> engine \<times> effect list" where
  "read_characteristic stk h e = attr_op stk READ_CHR (BLE_GATTC_READ (conn_handle e) h) e"

definition read_descriptor :: "host \<Rightarrow> u16 \<Rightarrow> engine \<Rightarrow> int \<times> engine \<times> effect list" where
  "read_descriptor stk h e = attr_op stk READ_DSC (BLE_GATTC_READ (conn_handle e) h) e"

definition write_characteristic ::
  "host \<Rightarrow> u16 \<Rightarrow> bytes \<Rightarrow> bool \<Rightarrow> engine \<Rightarrow> int \<times> engine \<times> effect list" where
  "write_characteristic stk h data response e =
     (if conn_handle e = BLE_HS_CONN_HANDLE_NONE then (GATT_ERR_NOT_CONNECTED, e, [])
      else if \<not> response then
        let c = BLE_GATTC_WRITE_NO_RSP (conn_handle e) h data;
            rc = stk c
        in (rc, e, Stack c # (if rc = 0 then tell e (ON_WRITE_RESULT h 0) else []))
      else attr_op stk WRITE_CHR (BLE_GATTC_WRITE (conn_handle e) h data) e)"

definition write_descriptor ::
  "host \<Rightarrow> u16 \<Rightarrow> bytes \<Rightarrow> engine \<Rightarrow> int \<times> engine \<times> effect list" where
  "write_descriptor stk h data e =
     attr_op stk WRITE_DSC (BLE_GATTC_WRITE (conn_handle e) h data) e"

definition notify_characteristic :: "u16 \<Rightarrow> bool \<Rightarrow> engine \<Rightarrow> int \<times> engine \<times> effect list" where
  "notify_characteristic h enable e =
     (if conn_handle e = BLE_HS_CONN_HANDLE_NONE then (GATT_ERR_NOT_CONNECTED, e, [])
      else (0, e, tell e (ON_NOTIFY_STATE h enable 0)))"

definition pair :: "host \<Rightarrow> engine \<Rightarrow> int \<times> engine \<times> effect list" where
  "pair stk e =
     (if conn_handle e = BLE_HS_CONN_HANDLE_NONE then (GATT_ERR_NOT_CONNECTED, e, [])
      else let c = BLE_GAP_SECURITY_INITIATE (conn_handle e) in (stk c, e, [Stack c]))"

definition update_connection_params ::
  "host \<Rightarrow> u16 \<Rightarrow> u16 \<Rightarrow> u16 \<Rightarrow> u16 \<Rightarrow> engine \<Rightarrow> int \<times> engine \<times> effect list" where
  "update_connection_params stk min_interval max_interval lat timeout e =
     (if conn_handle e = BLE_HS_CONN_HANDLE_NONE then (GATT_ERR_NOT_CONNECTED, e, [])
      else let c = BLE_GAP_UPDATE_PARAMS (conn_handle e) min_interval max_interval lat timeout
           in (stk c, e, [Stack c]))"

definition get_service_table :: "engine \<Rightarrow> gatt_service_table" where
  "get_service_table e =
     \<lparr>tbl_services = services e, tbl_characteristics = characteristics e,
      tbl_descriptors = descriptors e, service_count = of_nat (length (services e)),
      tbl_characteristic_count = of_nat (length (characteristics e)),
      tbl_descriptor_count = of_nat (length (descriptors e))\<rparr>"

definition release_services :: "engine \<Rightarrow> engine" where
  "release_services e = e\<lparr>services := [], characteristics := [], descriptors := []\<rparr>"

section \<open>Completions\<close>

definition finish_connect :: "u32 \<Rightarrow> int \<Rightarrow> engine \<Rightarrow> engine \<times> effect list" where
  "finish_connect now error e =
     (if connect_result_reported e then (e, [])
      else
        let e = e\<lparr>connect_result_reported := True\<rparr>
        in if error = 0 then
             let e = fsm_fire GAP_CONNECT_OK now e
             in (e, Stack (BLE_GATTC_EXCHANGE_MTU (conn_handle e))
                    # tell e (ON_CONNECTION_STATE True (mtu e) 0))
           else
             let e = fsm_fire GAP_CONNECT_FAIL now (e\<lparr>conn_handle := BLE_HS_CONN_HANDLE_NONE\<rparr>)
             in (e, tell e (ON_CONNECTION_STATE False 0 error)))"

definition finish_disconnect :: "u32 \<Rightarrow> int \<Rightarrow> engine \<Rightarrow> engine \<times> effect list" where
  "finish_disconnect now reason e =
     (let e = fsm_fire GAP_DISCONNECT_EVT now
                (e\<lparr>conn_handle := BLE_HS_CONN_HANDLE_NONE, pending_op := OP_NONE\<rparr>)
      in (e, tell e (ON_CONNECTION_STATE False 0 reason)))"

definition finish_discovery :: "u32 \<Rightarrow> int \<Rightarrow> engine \<Rightarrow> engine \<times> effect list" where
  "finish_discovery now error e =
     (let e = fsm_fire (if error = 0 then DISCOVER_DONE else DISCOVER_TIMEOUT) now e
      in (e, (if error \<noteq> 0 \<and> conn_handle e \<noteq> BLE_HS_CONN_HANDLE_NONE
              then [Stack (BLE_GAP_TERMINATE (conn_handle e) HCI_ERR_REM_USER_CONN_TERM)] else [])
             @ tell e (ON_SERVICE_DISCOVERY_DONE error)))"

function start_next_chr_dsc_discovery :: "host \<Rightarrow> u32 \<Rightarrow> engine \<Rightarrow> engine \<times> effect list" where
  "start_next_chr_dsc_discovery stk now e =
     (if discover_chr_index e < length (characteristics e) then
        let i = discover_chr_index e;
            chr = characteristics e ! i
        in if value_handle chr < chr_end_handle chr then
             let e = e\<lparr>characteristics := (characteristics e)
                         [i := chr\<lparr>first_descriptor := of_nat (length (descriptors e))\<rparr>]\<rparr>;
                 c = BLE_GATTC_DISC_ALL_DSCS (conn_handle e) (value_handle chr) (chr_end_handle chr);
                 rc = stk c
             in if rc \<noteq> 0 then
                  let (e, out) = finish_discovery now rc e in (e, Stack c # out)
                else (e, [Stack c])
           else start_next_chr_dsc_discovery stk now (e\<lparr>discover_chr_index := i + 1\<rparr>)
      else finish_discovery now 0 e)"
  by pat_completeness auto
termination
  by (relation "measure (\<lambda>(stk, now, e). length (characteristics e) - discover_chr_index e)")
    (auto simp: Let_def)

declare start_next_chr_dsc_discovery.simps [simp del]

definition start_next_service_chr_discovery ::
  "host \<Rightarrow> u32 \<Rightarrow> engine \<Rightarrow> engine \<times> effect list" where
  "start_next_service_chr_discovery stk now e =
     (if length (services e) \<le> discover_svc_index e then
        start_next_chr_dsc_discovery stk now (e\<lparr>discover_chr_index := 0\<rparr>)
      else
        let i = discover_svc_index e;
            svc = (services e ! i)\<lparr>first_characteristic := of_nat (length (characteristics e))\<rparr>;
            e = e\<lparr>services := (services e)[i := svc]\<rparr>;
            c = BLE_GATTC_DISC_ALL_CHRS (conn_handle e) (start_handle svc) (end_handle svc);
            rc = stk c
        in if rc \<noteq> 0 then let (e, out) = finish_discovery now rc e in (e, Stack c # out)
           else (e, [Stack c]))"

text \<open>\<open>characteristics_.back().end_handle = h\<close>: undefined for an empty vector.\<close>

definition set_back_end_handle :: "u16 \<Rightarrow> engine \<Rightarrow> engine option" where
  "set_back_end_handle h e =
     (if characteristics e = [] then None
      else Some (e\<lparr>characteristics := butlast (characteristics e)
                     @ [(last (characteristics e))\<lparr>chr_end_handle := h\<rparr>]\<rparr>))"

definition on_disc_chr :: "gatt_event \<Rightarrow> engine \<Rightarrow> engine option" where
  "on_disc_chr ev e =
     (let i = discover_svc_index e in
      case rd (services e) i of
        None \<Rightarrow> None
      | Some svc \<Rightarrow>
          (case (if 0 < characteristic_count svc then set_back_end_handle (ge_handle ev - 1) e
                 else Some e) of
             None \<Rightarrow> None
           | Some e \<Rightarrow>
               let chr = \<lparr>chr_uuid = nimble_raw_uuid_to_espbtuuid (ge_uuid_type ev) (ge_uuid128 ev),
                          value_handle = ge_handle2 ev, chr_end_handle = 0,
                          properties = ge_properties ev, first_descriptor = 0,
                          descriptor_count = 0\<rparr>
               in Some (e\<lparr>characteristics := characteristics e @ [chr],
                          services := (services e)
                            [i := svc\<lparr>characteristic_count := characteristic_count svc + 1\<rparr>]\<rparr>)))"

definition on_disc_chr_done :: "engine \<Rightarrow> engine option" where
  "on_disc_chr_done e =
     (let i = discover_svc_index e in
      case rd (services e) i of
        None \<Rightarrow> None
      | Some svc \<Rightarrow>
          map_option (\<lambda>e. e\<lparr>discover_svc_index := i + 1\<rparr>)
            (if 0 < characteristic_count svc then set_back_end_handle (end_handle svc) e
             else Some e))"

definition on_disc_dsc :: "gatt_event \<Rightarrow> engine \<Rightarrow> engine option" where
  "on_disc_dsc ev e =
     (let i = discover_chr_index e;
          dsc = \<lparr>dsc_uuid = nimble_raw_uuid_to_espbtuuid (ge_uuid_type ev) (ge_uuid128 ev),
                 dsc_handle = ge_handle ev\<rparr>
      in case rd (characteristics e) i of
           None \<Rightarrow> None
         | Some chr \<Rightarrow>
             Some (e\<lparr>descriptors := descriptors e @ [dsc],
                     characteristics := (characteristics e)
                       [i := chr\<lparr>descriptor_count := descriptor_count chr + 1\<rparr>]\<rparr>))"

definition on_attr_op :: "gatt_event \<Rightarrow> engine \<Rightarrow> engine \<times> effect list" where
  "on_attr_op ev e =
     (let op = pending_op e;
          e = e\<lparr>pending_op := OP_NONE\<rparr>
      in (e, (case op of
                OP_NONE \<Rightarrow> []
              | READ_CHR \<Rightarrow> tell e (ON_READ_RESULT (ge_handle ev) (ge_data ev) (ge_status ev))
              | READ_DSC \<Rightarrow> tell e (ON_READ_RESULT (ge_handle ev) (ge_data ev) (ge_status ev))
              | WRITE_CHR \<Rightarrow> tell e (ON_WRITE_RESULT (ge_handle ev) (ge_status ev))
              | WRITE_DSC \<Rightarrow> tell e (ON_WRITE_RESULT (ge_handle ev) (ge_status ev)))))"

definition handle_gatt_event ::
  "host \<Rightarrow> u32 \<Rightarrow> gatt_event \<Rightarrow> engine \<Rightarrow> (engine \<times> effect list) option" where
  "handle_gatt_event stk now ev e = (case ge_type ev of
     EV_CONNECT \<Rightarrow>
       Some (finish_connect now (ge_status ev)
         (e\<lparr>conn_handle := (if ge_status ev = 0 then ge_conn_handle ev else BLE_HS_CONN_HANDLE_NONE)\<rparr>))
   | EV_DISCONNECT \<Rightarrow> Some (finish_disconnect now (ge_status ev) e)
   | EV_MTU \<Rightarrow> Some (if ge_conn_handle ev = conn_handle e then e\<lparr>mtu := ge_handle2 ev\<rparr> else e, [])
   | EV_DISC_SVC \<Rightarrow>
       Some (e\<lparr>services := services e @
                [\<lparr>svc_uuid = nimble_raw_uuid_to_espbtuuid (ge_uuid_type ev) (ge_uuid128 ev),
                  start_handle = ge_handle ev, end_handle = ge_handle2 ev,
                  first_characteristic = 0, characteristic_count = 0\<rparr>]\<rparr>, [])
   | EV_DISC_SVC_DONE \<Rightarrow>
       Some (start_next_service_chr_discovery stk now (e\<lparr>discover_svc_index := 0\<rparr>))
   | EV_DISC_CHR \<Rightarrow> map_option (\<lambda>e. (e, [])) (on_disc_chr ev e)
   | EV_DISC_CHR_DONE \<Rightarrow>
       map_option (start_next_service_chr_discovery stk now) (on_disc_chr_done e)
   | EV_DISC_DSC \<Rightarrow> map_option (\<lambda>e. (e, [])) (on_disc_dsc ev e)
   | EV_DISC_DSC_DONE \<Rightarrow>
       Some (start_next_chr_dsc_discovery stk now
               (e\<lparr>discover_chr_index := discover_chr_index e + 1\<rparr>))
   | EV_ATTR_OP \<Rightarrow> Some (on_attr_op ev e)
   | EV_NOTIFY_RX \<Rightarrow> Some (e, tell e (ON_NOTIFY_DATA (ge_handle ev) (ge_data ev)))
   | EV_ENC_CHANGE \<Rightarrow> Some (e, tell e (ON_PAIRING_RESULT (ge_status ev)))
   | EV_CONN_UPDATE \<Rightarrow> Some (e, []))"

text \<open>The second half of \<open>loop\<close>, after the queue was drained.\<close>

definition poll_deadline :: "u32 \<Rightarrow> engine \<Rightarrow> engine \<times> effect list" where
  "poll_deadline now e =
     (let prior_state = fsm_state (fsm e);
          (f, hit) = poll_timeout now (fsm e);
          e = e\<lparr>fsm := f\<rparr>
      in if \<not> hit then (e, [])
         else
           let c = (if conn_handle e \<noteq> BLE_HS_CONN_HANDLE_NONE
                    then BLE_GAP_TERMINATE (conn_handle e) HCI_ERR_REM_USER_CONN_TERM
                    else BLE_GAP_CONN_CANCEL);
               e = e\<lparr>pending_op := OP_NONE\<rparr>
           in if prior_state = CONNECTING then
                if \<not> connect_result_reported e then
                  (e\<lparr>connect_result_reported := True\<rparr>,
                   Stack c # tell e (ON_CONNECTION_STATE False 0 BLE_HS_ETIMEOUT))
                else (e, [Stack c])
              else (e, Stack c # tell e (ON_SERVICE_DISCOVERY_DONE BLE_HS_ETIMEOUT)))"

end
