(* ===== verification/GattDiscovery.thy ===== *)
theory GattDiscovery
  imports NimbleGattc
begin

text \<open>
  Service discovery against a peer. The first part states what a peer's attribute database is and
  what a host reports for each discovery procedure, the second lets an engine and such a host
  answer each other until nothing is left in the event queue, and the third shows that what the
  engine then holds, read back through its index ranges as a consumer reads it, is the database.
\<close>

section \<open>The peer\<close>

text \<open>A UUID is its NimBLE type and value bytes.\<close>

record peer_chr =
  pc_def :: u16
  pc_val :: u16
  pc_props :: u8
  pc_uuid :: "u8 \<times> bytes"
  pc_dscs :: "(u16 \<times> u8 \<times> bytes) list"

record peer_svc =
  ps_start :: u16
  ps_end :: u16
  ps_uuid :: "u8 \<times> bytes"
  ps_chrs :: "peer_chr list"

text \<open>
  The attribute layout the Bluetooth Core specification prescribes: handles increase through
  services, characteristic declarations, values and descriptors, and the attributes of a service
  or characteristic lie before the next one's declaration.
\<close>

text \<open>The last handle that can belong to a characteristic followed by \<open>cs\<close>.\<close>

fun chr_limit :: "u16 \<Rightarrow> peer_chr list \<Rightarrow> u16" where
  "chr_limit fin [] = fin"
| "chr_limit fin (c # cs) = pc_def c - 1"

fun wf_chrs :: "u16 \<Rightarrow> u16 \<Rightarrow> peer_chr list \<Rightarrow> bool" where
  "wf_chrs lo fin [] \<longleftrightarrow> True"
| "wf_chrs lo fin (c # cs) \<longleftrightarrow>
     lo < pc_def c \<and> pc_def c < pc_val c \<and> pc_val c \<le> chr_limit fin cs \<and> chr_limit fin cs \<le> fin \<and>
     sorted_wrt (<) (map fst (pc_dscs c)) \<and>
     (\<forall>d \<in> set (pc_dscs c). pc_val c < fst d \<and> fst d \<le> chr_limit fin cs) \<and>
     wf_chrs (chr_limit fin cs) fin cs"

fun wf_db :: "u16 \<Rightarrow> peer_svc list \<Rightarrow> bool" where
  "wf_db lo [] \<longleftrightarrow> True"
| "wf_db lo (s # ss) \<longleftrightarrow>
     lo < ps_start s \<and> ps_start s \<le> ps_end s \<and> wf_chrs (ps_start s) (ps_end s) (ps_chrs s) \<and>
     wf_db (ps_end s) ss"

definition all_chrs :: "peer_svc list \<Rightarrow> peer_chr list" where
  "all_chrs db = concat (map ps_chrs db)"

definition all_dscs :: "peer_svc list \<Rightarrow> (u16 \<times> u8 \<times> bytes) list" where
  "all_dscs db = concat (map pc_dscs (all_chrs db))"

text \<open>
  What the host reports for a procedure on the peer: one callback per attribute found in the
  range, in handle order, and a last one with \<open>BLE_HS_EDONE\<close>; a descriptor search starts after
  the handle it is given.
\<close>

definition BLE_HS_EDONE :: int where "BLE_HS_EDONE = 14"

definition svc_event :: "owner option \<Rightarrow> u16 \<Rightarrow> peer_svc \<Rightarrow> gatt_event" where
  "svc_event own ch s = disc_svc_cb ch 0 (Some (ps_start s, ps_end s, ps_uuid s)) own"

definition chr_event :: "owner option \<Rightarrow> u16 \<Rightarrow> peer_chr \<Rightarrow> gatt_event" where
  "chr_event own ch c = disc_chr_cb ch 0 (Some (pc_def c, pc_val c, pc_props c, pc_uuid c)) own"

definition dsc_event :: "owner option \<Rightarrow> u16 \<Rightarrow> u16 \<times> u8 \<times> bytes \<Rightarrow> gatt_event" where
  "dsc_event own ch d = disc_dsc_cb ch 0 (Some d) own"

definition host_reports :: "owner option \<Rightarrow> peer_svc list \<Rightarrow> stack_call \<Rightarrow> gatt_event list" where
  "host_reports own db c = (case c of
     BLE_GATTC_DISC_ALL_SVCS ch \<Rightarrow>
       map (svc_event own ch) db @ [disc_svc_cb ch BLE_HS_EDONE None own]
   | BLE_GATTC_DISC_ALL_CHRS ch s e \<Rightarrow>
       map (chr_event own ch) (filter (\<lambda>c. s \<le> pc_def c \<and> pc_def c \<le> e) (all_chrs db))
         @ [disc_chr_cb ch BLE_HS_EDONE None own]
   | BLE_GATTC_DISC_ALL_DSCS ch v e \<Rightarrow>
       map (dsc_event own ch) (filter (\<lambda>d. v < fst d \<and> fst d \<le> e) (all_dscs db))
         @ [disc_dsc_cb ch BLE_HS_EDONE None own]
   | _ \<Rightarrow> [])"

section \<open>The conversation\<close>

definition stack_calls :: "effect list \<Rightarrow> stack_call list" where
  "stack_calls out = concat (map (\<lambda>x. case x of Stack c \<Rightarrow> [c] | Listener _ \<Rightarrow> []) out)"

definition listener_calls :: "effect list \<Rightarrow> listener_call list" where
  "listener_calls out = concat (map (\<lambda>x. case x of Stack _ \<Rightarrow> [] | Listener c \<Rightarrow> [c]) out)"

text \<open>
  The engine takes the events one at a time in queue order; what the host reports for the calls
  it makes goes to the back of the queue. \<open>None\<close>: undefined behaviour, or no fuel left for the
  events still queued.
\<close>

fun converse ::
  "nat \<Rightarrow> host \<Rightarrow> (nat \<Rightarrow> u32) \<Rightarrow> (stack_call \<Rightarrow> gatt_event list) \<Rightarrow> gatt_event list \<Rightarrow> engine
    \<Rightarrow> (engine \<times> effect list) option" where
  "converse fuel stk clk reports [] e = Some (e, [])"
| "converse 0 stk clk reports (ev # evs) e = None"
| "converse (Suc n) stk clk reports (ev # evs) e =
     (case handle_gatt_event stk (clk n) ev e of
        None \<Rightarrow> None
      | Some (e, out) \<Rightarrow>
          map_option (apsnd ((@) out))
            (converse n stk clk reports (evs @ concat (map reports (stack_calls out))) e))"

definition discover_all ::
  "nat \<Rightarrow> host \<Rightarrow> (nat \<Rightarrow> u32) \<Rightarrow> (stack_call \<Rightarrow> gatt_event list) \<Rightarrow> engine
    \<Rightarrow> (engine \<times> effect list) option" where
  "discover_all fuel stk clk reports e =
     (case discover_services stk e of
        (rc, e, out) \<Rightarrow> converse fuel stk clk reports (concat (map reports (stack_calls out))) e)"

text \<open>As many events as the attributes of the database and the procedures run on it can make.\<close>

definition discovery_events :: "peer_svc list \<Rightarrow> nat" where
  "discovery_events db = Suc (2 * length db + 2 * length (all_chrs db) + length (all_dscs db))"

section \<open>Reading the table\<close>

text \<open>
  The trees a peer's database and a service table denote: for a service its UUID, handles and
  characteristics; for a characteristic its UUID, value handle, last handle, properties and
  descriptors. The table is read through its index ranges.
\<close>

type_synonym dsc_view = "espbtuuid \<times> u16"
type_synonym chr_view = "espbtuuid \<times> u16 \<times> u16 \<times> u8 \<times> dsc_view list"
type_synonym svc_view = "espbtuuid \<times> u16 \<times> u16 \<times> chr_view list"

definition uuid_read :: "u8 \<times> bytes \<Rightarrow> espbtuuid" where
  "uuid_read u = nimble_raw_uuid_to_espbtuuid (fst (copy_uuid u)) (snd (copy_uuid u))"

fun chr_views :: "u16 \<Rightarrow> peer_chr list \<Rightarrow> chr_view list" where
  "chr_views fin [] = []"
| "chr_views fin (c # cs) =
     (uuid_read (pc_uuid c), pc_val c, chr_limit fin cs, pc_props c,
      map (\<lambda>(h, u). (uuid_read u, h)) (pc_dscs c)) # chr_views fin cs"

definition db_view :: "peer_svc list \<Rightarrow> svc_view list" where
  "db_view db = map (\<lambda>s. (uuid_read (ps_uuid s), ps_start s, ps_end s, chr_views (ps_end s) (ps_chrs s))) db"

definition slice :: "'a list \<Rightarrow> u16 \<Rightarrow> u16 \<Rightarrow> 'a list option" where
  "slice xs first cnt = rd_slice xs (unat first) (unat cnt)"

fun sequence_opt :: "'a option list \<Rightarrow> 'a list option" where
  "sequence_opt [] = Some []"
| "sequence_opt (None # xs) = None"
| "sequence_opt (Some x # xs) = map_option ((#) x) (sequence_opt xs)"

definition read_chr :: "gatt_service_table \<Rightarrow> gatt_characteristic \<Rightarrow> chr_view option" where
  "read_chr t c = map_option (\<lambda>ds. (chr_uuid c, value_handle c, chr_end_handle c, properties c,
       map (\<lambda>d. (dsc_uuid d, dsc_handle d)) ds))
     (slice (tbl_descriptors t) (first_descriptor c) (descriptor_count c))"

definition read_svc :: "gatt_service_table \<Rightarrow> gatt_service \<Rightarrow> svc_view option" where
  "read_svc t s = (case slice (tbl_characteristics t) (first_characteristic s) (characteristic_count s) of
       None \<Rightarrow> None
     | Some cs \<Rightarrow> map_option (\<lambda>vs. (svc_uuid s, start_handle s, end_handle s, vs))
                    (sequence_opt (map (read_chr t) cs)))"

definition read_table :: "gatt_service_table \<Rightarrow> svc_view list option" where
  "read_table t = sequence_opt (map (read_svc t) (tbl_services t))"

section \<open>Intervals of handles\<close>

text \<open>
  Segments of keyed items, each with its interval \<open>(a, b]\<close>, in increasing order: the services with
  their characteristics, and the characteristics with their descriptors.
\<close>

fun segs :: "('a \<Rightarrow> u16) \<Rightarrow> u16 \<Rightarrow> (u16 \<times> u16 \<times> 'a list) list \<Rightarrow> bool" where
  "segs key lo [] \<longleftrightarrow> True"
| "segs key lo ((a, b, xs) # r) \<longleftrightarrow>
     lo < a \<and> a \<le> b \<and> (\<forall>x \<in> set xs. a < key x \<and> key x \<le> b) \<and> segs key b r"

definition seg_items :: "(u16 \<times> u16 \<times> 'a list) list \<Rightarrow> 'a list" where
  "seg_items r = concat (map (\<lambda>(a, b, xs). xs) r)"

lemma seg_items_simps [simp]:
  "seg_items [] = []" "seg_items ((a, b, xs) # r) = xs @ seg_items r"
  by (simp_all add: seg_items_def)

lemma segs_above: "segs key lo r \<Longrightarrow> x \<in> set (seg_items r) \<Longrightarrow> lo < key x"
proof (induction key lo r rule: segs.induct)
  case (2 key lo a b xs r)
  then show ?case by (auto intro: less_trans dest: less_le_trans)
qed simp

lemma segs_starts: "segs key lo r \<Longrightarrow> (a, b, xs) \<in> set r \<Longrightarrow> lo < a"
proof (induction key lo r rule: segs.induct)
  case (2 key lo a' b' ys r)
  then show ?case by (auto intro: less_trans dest: less_le_trans)
qed simp

lemma segs_mem: "segs key lo r \<Longrightarrow> (a, b, xs) \<in> set r \<Longrightarrow> \<forall>x \<in> set xs. a < key x \<and> key x \<le> b"
  by (induction key lo r rule: segs.induct) auto

lemma segs_filter:
  assumes "segs key lo r" "(a, b, xs) \<in> set r"
    and "\<And>x. P x \<Longrightarrow> a \<le> key x \<and> key x \<le> b" "\<And>x. x \<in> set xs \<Longrightarrow> P x"
  shows "filter P (seg_items r) = xs"
  using assms(1,2)
proof (induction r arbitrary: lo)
  case (Cons q r)
  obtain a' b' ys where q: "q = (a', b', ys)" by (cases q)
  show ?case
  proof (cases "(a, b, xs) = q")
    case True
    have "\<not> P x" if "x \<in> set (seg_items r)" for x
      using segs_above [of key b r x] Cons.prems(1) assms(3) [of x] that q True by force
    then have "filter P (seg_items r) = []" by (simp add: filter_empty_conv)
    moreover have "filter P xs = xs" using assms(4) by simp
    ultimately show ?thesis using True q by simp
  next
    case False
    then have m: "(a, b, xs) \<in> set r" using Cons.prems(2) by auto
    have "b' < a" using Cons.prems(1) q m by (auto dest: segs_starts)
    then have "filter P ys = []"
      using Cons.prems(1) q assms(3) by (force simp: filter_empty_conv)
    with Cons.IH [of b'] Cons.prems(1) m q show ?thesis by simp
  qed
qed simp

lemma segs_count:
  assumes "segs key lo r"
    and "\<And>a b xs. (a, b, xs) \<in> set r \<Longrightarrow> length xs \<le> unat b - unat a"
  shows "unat lo + length (seg_items r) \<le> 65535"
  using assms
proof (induction key lo r rule: segs.induct)
  case (1 key lo)
  then show ?case using unat_u16_lt [of lo] by (simp only: seg_items_simps list.size)
next
  case (2 key lo a b xs r)
  from 2(3) [of a b xs] have "length xs \<le> unat b - unat a" by simp
  moreover have "unat lo < unat a" "unat a \<le> unat b"
    using 2(2) by (simp_all add: word_less_nat_alt word_le_nat_alt)
  moreover have "unat b + length (seg_items r) \<le> 65535"
    using 2 by auto
  ultimately show ?case by simp
qed

lemma sorted_handles_length:
  assumes "sorted_wrt (<) (map key xs)" "\<forall>x \<in> set xs. a < key x \<and> key x \<le> (b :: u16)"
  shows "length xs \<le> unat b - unat a"
proof -
  have "distinct (map key xs)" using assms(1) strict_sorted_iff by blast
  then have "length xs = card (unat ` key ` set xs)"
    by (metis card_image distinct_card inj_on_subset inj_unsigned length_map list.set_map subset_UNIV)
  also have "unat ` key ` set xs \<subseteq> {unat a <.. unat b}"
    using assms(2) by (auto simp: word_less_nat_alt word_le_nat_alt)
  then have "card (unat ` key ` set xs) \<le> card {unat a <.. unat b}"
    by (intro card_mono) auto
  finally show ?thesis by simp
qed

section \<open>What the engine collects\<close>

definition svc_row :: "peer_svc \<Rightarrow> gatt_service" where
  "svc_row s = \<lparr>svc_uuid = uuid_read (ps_uuid s), start_handle = ps_start s, end_handle = ps_end s,
     first_characteristic = 0, characteristic_count = 0\<rparr>"

definition chr_row :: "peer_chr \<Rightarrow> u16 \<Rightarrow> gatt_characteristic" where
  "chr_row c fin = \<lparr>chr_uuid = uuid_read (pc_uuid c), value_handle = pc_val c,
     chr_end_handle = fin, properties = pc_props c, first_descriptor = 0, descriptor_count = 0\<rparr>"

definition dsc_row :: "u16 \<times> u8 \<times> bytes \<Rightarrow> gatt_descriptor" where
  "dsc_row d = \<lparr>dsc_uuid = uuid_read (snd d), dsc_handle = fst d\<rparr>"

fun chr_rows :: "u16 \<Rightarrow> peer_chr list \<Rightarrow> gatt_characteristic list" where
  "chr_rows fin [] = []"
| "chr_rows fin (c # cs) = chr_row c (chr_limit fin cs) # chr_rows fin cs"

definition all_rows :: "peer_svc list \<Rightarrow> gatt_characteristic list" where
  "all_rows db = concat (map (\<lambda>s. chr_rows (ps_end s) (ps_chrs s)) db)"

text \<open>The rows with their index ranges, \<open>n\<close> characteristics (descriptors) coming before.\<close>

fun svcs_done :: "nat \<Rightarrow> peer_svc list \<Rightarrow> gatt_service list" where
  "svcs_done n [] = []"
| "svcs_done n (s # ss) =
     (svc_row s)\<lparr>first_characteristic := of_nat n, characteristic_count := of_nat (length (ps_chrs s))\<rparr>
       # svcs_done (n + length (ps_chrs s)) ss"

type_synonym chr_rest = "(gatt_characteristic \<times> (u16 \<times> u8 \<times> bytes) list) list"

fun chrs_done :: "nat \<Rightarrow> chr_rest \<Rightarrow> gatt_characteristic list" where
  "chrs_done n [] = []"
| "chrs_done n ((r, ds) # rs) =
     (if value_handle r < chr_end_handle r
      then r\<lparr>first_descriptor := of_nat n, descriptor_count := of_nat (length ds)\<rparr> else r)
       # chrs_done (n + length ds) rs"

definition chr_rest :: "peer_svc list \<Rightarrow> chr_rest" where
  "chr_rest db = zip (all_rows db) (map pc_dscs (all_chrs db))"

lemma length_chr_rows [simp]: "length (chr_rows fin cs) = length cs"
  by (induction fin cs rule: chr_rows.induct) simp_all

lemma length_svcs_done [simp]: "length (svcs_done n ss) = length ss"
  by (induction n ss rule: svcs_done.induct) simp_all

lemma length_chrs_done [simp]: "length (chrs_done n rs) = length rs"
  by (induction n rs rule: chrs_done.induct) simp_all

lemma length_all_rows [simp]: "length (all_rows db) = length (all_chrs db)"
  by (induction db) (simp_all add: all_rows_def all_chrs_def)

lemma chr_rows_snoc: "chr_rows fin (cs @ [c]) = chr_rows (pc_def c - 1) cs @ [chr_row c fin]"
proof (induction cs)
  case (Cons d cs)
  then show ?case by (cases cs) simp_all
qed simp

lemma chr_rows_close:
  "cs \<noteq> [] \<Longrightarrow> butlast (chr_rows x cs) @ [last (chr_rows x cs)\<lparr>chr_end_handle := fin\<rparr>] = chr_rows fin cs"
  by (cases cs rule: rev_cases) (simp_all add: chr_rows_snoc chr_row_def)

lemma svcs_done_snoc:
  "svcs_done n (ss @ [s]) = svcs_done n ss @ svcs_done (n + length (all_chrs ss)) [s]"
  by (induction n ss rule: svcs_done.induct) (simp_all add: all_chrs_def add.assoc)

lemma chrs_done_snoc:
  "chrs_done n (rs @ [r]) = chrs_done n rs @ chrs_done (n + length (concat (map snd rs))) [r]"
  by (induction n rs rule: chrs_done.induct) (simp_all add: add.assoc)

lemma of_nat_u16_pos: "0 < n \<Longrightarrow> n < 65536 \<Longrightarrow> 0 < (of_nat n :: u16)"
  by (simp add: word_less_nat_alt unat_of_nat)

section \<open>Runs of events\<close>

lemma set_back_rows:
  assumes "cs \<noteq> []"
  shows "set_back_end_handle h (e\<lparr>services := S, characteristics := B @ chr_rows x cs\<rparr>)
    = Some (e\<lparr>services := S, characteristics := B @ chr_rows h cs\<rparr>)"
proof -
  have "chr_rows x cs \<noteq> []" using assms by (cases cs) auto
  then show ?thesis
    using chr_rows_close [OF assms, of x h]
    by (simp add: set_back_end_handle_def butlast_append)
qed

lemma handle_svc_event:
  "handle_gatt_event stk now (svc_event own ch s) e
   = Some (e\<lparr>services := services e @ [svc_row s]\<rparr>, [])"
  by (simp add: handle_gatt_event_def svc_event_def disc_svc_cb_def with_uuid_def gatt_event0_def
      svc_row_def uuid_read_def)

lemma handle_chr_event:
  assumes "discover_svc_index e = length pre" "length dn < 65535"
  shows "handle_gatt_event stk now (chr_event own ch c)
      (e\<lparr>services := pre @ s\<lparr>characteristic_count := of_nat (length dn)\<rparr> # post,
         characteristics := B @ chr_rows 0 dn\<rparr>)
    = Some (e\<lparr>services := pre @ s\<lparr>characteristic_count := of_nat (length (dn @ [c]))\<rparr> # post,
              characteristics := B @ chr_rows 0 (dn @ [c])\<rparr>, [])"
proof (cases "dn = []")
  case True
  then show ?thesis
    using assms(1)
    by (simp add: handle_gatt_event_def chr_event_def disc_chr_cb_def with_uuid_def gatt_event0_def
        on_disc_chr_def rd_def uuid_read_def chr_row_def)
next
  case False
  then have "0 < (of_nat (length dn) :: u16)"
    using assms(2) by (intro of_nat_u16_pos) auto
  with False assms(1) show ?thesis
    by (simp add: handle_gatt_event_def chr_event_def disc_chr_cb_def with_uuid_def gatt_event0_def
        on_disc_chr_def rd_def uuid_read_def set_back_rows chr_rows_snoc chr_row_def add.commute)
qed

lemma handle_chr_done:
  assumes "discover_svc_index e = length pre" "length dn < 65536"
  shows "handle_gatt_event stk now (disc_chr_cb ch st None own)
      (e\<lparr>services := pre @ s\<lparr>characteristic_count := of_nat (length dn)\<rparr> # post,
         characteristics := B @ chr_rows 0 dn\<rparr>)
    = Some (start_next_service_chr_discovery stk now
        (e\<lparr>services := pre @ s\<lparr>characteristic_count := of_nat (length dn)\<rparr> # post,
           characteristics := B @ chr_rows (end_handle s) dn,
           discover_svc_index := length pre + 1\<rparr>))"
proof (cases "dn = []")
  case True
  then show ?thesis
    using assms(1)
    by (simp add: handle_gatt_event_def disc_chr_cb_def gatt_event0_def on_disc_chr_done_def rd_def)
next
  case False
  then have "0 < (of_nat (length dn) :: u16)"
    using assms(2) by (intro of_nat_u16_pos) auto
  with False assms(1) show ?thesis
    by (simp add: handle_gatt_event_def disc_chr_cb_def gatt_event0_def on_disc_chr_done_def rd_def
        set_back_rows)
qed

lemma handle_dsc_event:
  assumes "discover_chr_index e = length pre"
  shows "handle_gatt_event stk now (dsc_event own ch d)
      (e\<lparr>characteristics := pre @ r\<lparr>descriptor_count := of_nat n\<rparr> # post, descriptors := D\<rparr>)
    = Some (e\<lparr>characteristics := pre @ r\<lparr>descriptor_count := of_nat (Suc n)\<rparr> # post,
              descriptors := D @ [dsc_row d]\<rparr>, [])"
  using assms
  by (cases d) (simp add: handle_gatt_event_def dsc_event_def disc_dsc_cb_def with_uuid_def
      gatt_event0_def on_disc_dsc_def rd_def uuid_read_def dsc_row_def add.commute)

lemma handle_dsc_done:
  "handle_gatt_event stk now (disc_dsc_cb ch st None own) e
   = Some (start_next_chr_dsc_discovery stk now (e\<lparr>discover_chr_index := discover_chr_index e + 1\<rparr>))"
  by (simp add: handle_gatt_event_def disc_dsc_cb_def gatt_event0_def)

text \<open>A step of the engine followed by the rest of the conversation.\<close>

definition settle ::
  "nat \<Rightarrow> host \<Rightarrow> (nat \<Rightarrow> u32) \<Rightarrow> (stack_call \<Rightarrow> gatt_event list) \<Rightarrow> engine \<times> effect list
    \<Rightarrow> (engine \<times> effect list) option" where
  "settle n stk clk rep = (\<lambda>(e, out). map_option (apsnd ((@) out))
     (converse n stk clk rep (concat (map rep (stack_calls out))) e))"

lemma stack_calls_simps [simp]:
  "stack_calls [] = []" "stack_calls (Stack c # out) = c # stack_calls out"
  "stack_calls (Listener l # out) = stack_calls out"
  by (simp_all add: stack_calls_def)

lemma listener_calls_simps [simp]:
  "listener_calls [] = []" "listener_calls (Stack c # out) = listener_calls out"
  "listener_calls (Listener l # out) = l # listener_calls out"
  by (simp_all add: listener_calls_def)

lemma converse_quiet:
  assumes "handle_gatt_event stk (clk n) ev e = Some (e1, [])"
  shows "converse (Suc n) stk clk rep (ev # evs) e = converse n stk clk rep evs e1"
  using assms by (cases "converse n stk clk rep evs e1") (auto simp: apsnd_def)

lemma converse_last:
  assumes "handle_gatt_event stk (clk n) ev e = Some r"
  shows "converse (Suc n) stk clk rep [ev] e = settle n stk clk rep r"
  using assms by (cases r) (simp add: settle_def)

lemma converse_svcs:
  "converse (length ss + n) stk clk rep (map (svc_event own ch) ss @ rest) e
   = converse n stk clk rep rest (e\<lparr>services := services e @ map svc_row ss\<rparr>)"
proof (induction ss arbitrary: e)
  case (Cons s ss)
  show ?case
    by (simp add: Cons.IH converse_quiet [OF handle_svc_event] del: converse.simps)
qed simp

lemma converse_chrs:
  assumes "discover_svc_index e = length pre" "length (dn @ cs) < 65536"
  shows "converse (length cs + n) stk clk rep (map (chr_event own ch) cs @ rest)
      (e\<lparr>services := pre @ s\<lparr>characteristic_count := of_nat (length dn)\<rparr> # post,
         characteristics := B @ chr_rows 0 dn\<rparr>)
    = converse n stk clk rep rest
      (e\<lparr>services := pre @ s\<lparr>characteristic_count := of_nat (length (dn @ cs))\<rparr> # post,
         characteristics := B @ chr_rows 0 (dn @ cs)\<rparr>)"
  using assms(2)
proof (induction cs arbitrary: dn)
  case (Cons c cs)
  from Cons.prems have "length dn < 65535" by simp
  note h = handle_chr_event [OF assms(1) this]
  have "length ((dn @ [c]) @ cs) < 65536" using Cons.prems by simp
  note ih = Cons.IH [OF this]
  show ?case
    using ih by (simp add: converse_quiet [OF h] del: of_nat_Suc converse.simps)
qed simp

lemma converse_dscs:
  assumes "discover_chr_index e = length pre"
  shows "converse (length ds + n) stk clk rep (map (dsc_event own ch) ds @ rest)
      (e\<lparr>characteristics := pre @ r\<lparr>descriptor_count := of_nat k\<rparr> # post, descriptors := D\<rparr>)
    = converse n stk clk rep rest
      (e\<lparr>characteristics := pre @ r\<lparr>descriptor_count := of_nat (k + length ds)\<rparr> # post,
         descriptors := D @ map dsc_row ds\<rparr>)"
proof (induction ds arbitrary: k D)
  case (Cons d ds)
  show ?case
    using Cons.IH [of "D @ [dsc_row d]" "Suc k"]
    by (simp add: converse_quiet [OF handle_dsc_event [OF assms]] del: of_nat_Suc of_nat_add converse.simps)
qed simp

section \<open>The three phases\<close>

lemma finish_ready:
  assumes "fsm_state (fsm e) = DISCOVERING" "listener e"
  shows "settle n stk clk rep (finish_discovery now 0 e)
    = Some (e\<lparr>fsm := (fsm e)\<lparr>fsm_state := READY, deadline_ms := 0, backoff_count := 0\<rparr>\<rparr>,
            [Listener (ON_SERVICE_DISCOVERY_DONE 0)])"
  using assms
  by (simp add: finish_discovery_def fsm_fire_def settle_def tell_def handle_event_def enter_def)

lemma dsc_phase:
  assumes "fsm_state (fsm e) = DISCOVERING" "listener e" "\<And>c. stk c = 0"
    and "\<And>ch r ds. (r, ds) \<in> set todo \<Longrightarrow> value_handle r < chr_end_handle r \<Longrightarrow>
       rep (BLE_GATTC_DISC_ALL_DSCS ch (value_handle r) (chr_end_handle r))
         = map (dsc_event own ch) ds @ [disc_dsc_cb ch BLE_HS_EDONE None own]"
    and "\<And>r ds. (r, ds) \<in> set todo \<Longrightarrow> descriptor_count r = 0
            \<and> (\<not> value_handle r < chr_end_handle r \<longrightarrow> ds = [])"
    and "discover_chr_index e = length dn"
    and "characteristics e = chrs_done 0 dn @ map fst todo"
    and "descriptors e = map dsc_row (concat (map snd dn))"
  shows "\<exists>e' out.
    settle (sum_list (map (\<lambda>(r, ds). Suc (length ds)) todo) + n) stk clk rep
      (start_next_chr_dsc_discovery stk now e) = Some (e', out)
    \<and> listener_calls out = [ON_SERVICE_DISCOVERY_DONE 0] \<and> fsm_state (fsm e') = READY
    \<and> services e' = services e \<and> conn_handle e' = conn_handle e
    \<and> characteristics e' = chrs_done 0 (dn @ todo)
    \<and> descriptors e' = map dsc_row (concat (map snd (dn @ todo)))"
  using assms(1,2,4-)
proof (induction todo arbitrary: dn e n now)
  case Nil
  then show ?case
    by (subst start_next_chr_dsc_discovery.simps) (simp add: finish_ready)
next
  case (Cons q todo)
  obtain r ds where q: "q = (r, ds)" by (cases q)
  let ?i = "length dn"
  have i: "?i < length (characteristics e)" "characteristics e ! ?i = r"
    using Cons.prems(6) q by (simp_all add: nth_append)
  have upd: "(characteristics e)[?i := x] = chrs_done 0 dn @ x # map fst todo" for x
    using Cons.prems(6) by (simp add: list_update_append)
  show ?case
  proof (cases "value_handle r < chr_end_handle r")
    case False
    then have ds: "ds = []" using Cons.prems(4) [of r ds] q by simp
    have snoc: "chrs_done 0 (dn @ [q]) = chrs_done 0 dn @ [r]"
      using False q by (simp add: chrs_done_snoc)
    have "start_next_chr_dsc_discovery stk now e
        = start_next_chr_dsc_discovery stk now (e\<lparr>discover_chr_index := Suc ?i\<rparr>)"
      using False i Cons.prems(5)
      by (subst start_next_chr_dsc_discovery.simps) (simp add: Let_def)
    moreover have "\<exists>e' out.
      settle (sum_list (map (\<lambda>(r, ds). Suc (length ds)) todo) + Suc n) stk clk rep
        (start_next_chr_dsc_discovery stk now (e\<lparr>discover_chr_index := Suc ?i\<rparr>)) = Some (e', out)
      \<and> listener_calls out = [ON_SERVICE_DISCOVERY_DONE 0] \<and> fsm_state (fsm e') = READY
      \<and> services e' = services (e\<lparr>discover_chr_index := Suc ?i\<rparr>)
      \<and> conn_handle e' = conn_handle (e\<lparr>discover_chr_index := Suc ?i\<rparr>)
      \<and> characteristics e' = chrs_done 0 ((dn @ [q]) @ todo)
      \<and> descriptors e' = map dsc_row (concat (map snd ((dn @ [q]) @ todo)))"
    proof (rule Cons.IH)
      show "characteristics (e\<lparr>discover_chr_index := Suc ?i\<rparr>) = chrs_done 0 (dn @ [q]) @ map fst todo"
        unfolding snoc using Cons.prems(6) q by simp
      show "descriptors (e\<lparr>discover_chr_index := Suc ?i\<rparr>) = map dsc_row (concat (map snd (dn @ [q])))"
        using Cons.prems(7) q ds by simp
      show "rep (BLE_GATTC_DISC_ALL_DSCS ch (value_handle r) (chr_end_handle r))
          = map (dsc_event own ch) ds @ [disc_dsc_cb ch BLE_HS_EDONE None own]"
        if "(r, ds) \<in> set todo" "value_handle r < chr_end_handle r" for ch r ds
        using Cons.prems(3) that by simp
      show "descriptor_count r = 0 \<and> (\<not> value_handle r < chr_end_handle r \<longrightarrow> ds = [])"
        if "(r, ds) \<in> set todo" for r ds
        by (rule Cons.prems(4) [OF list.set_intros(2) [OF that]])
    qed (use Cons.prems(1,2,5) in simp_all)
    ultimately show ?thesis using q ds by simp
  next
    case True
    define r' where "r' = r\<lparr>first_descriptor := of_nat (length (concat (map snd dn)))\<rparr>"
    define e1 where "e1 = e\<lparr>characteristics := chrs_done 0 dn @ r' # map fst todo\<rparr>"
    define c where "c = BLE_GATTC_DISC_ALL_DSCS (conn_handle e) (value_handle r) (chr_end_handle r)"
    define e2 where "e2 = e1\<lparr>characteristics := chrs_done 0 dn
        @ r'\<lparr>descriptor_count := of_nat (length ds)\<rparr> # map fst todo,
        descriptors := map dsc_row (concat (map snd dn) @ ds), discover_chr_index := Suc ?i\<rparr>"
    let ?k = "sum_list (map (\<lambda>(r, ds). Suc (length ds)) todo) + n"
    have start: "start_next_chr_dsc_discovery stk now e = (e1, [Stack c])"
      using True i Cons.prems(5,7) assms(3)
      by (subst start_next_chr_dsc_discovery.simps)
        (simp add: Let_def upd e1_def r'_def c_def)
    have rc: "rep c = map (dsc_event own (conn_handle e)) ds
        @ [disc_dsc_cb (conn_handle e) BLE_HS_EDONE None own]"
      unfolding c_def using Cons.prems(3) [of r ds "conn_handle e"] True q by simp
    have r0: "r'\<lparr>descriptor_count := of_nat 0\<rparr> = r'"
      using Cons.prems(4) [of r ds] q by (simp add: r'_def)
    have e1': "e1 = e1\<lparr>characteristics := chrs_done 0 dn @ r'\<lparr>descriptor_count := of_nat 0\<rparr> # map fst todo,
        descriptors := map dsc_row (concat (map snd dn))\<rparr>"
      using r0 Cons.prems(7) by (simp add: e1_def)
    have "settle (length ds + Suc ?k) stk clk rep (e1, [Stack c])
        = map_option (apsnd ((@) [Stack c])) (converse (Suc ?k) stk clk rep
            [disc_dsc_cb (conn_handle e) BLE_HS_EDONE None own]
            (e1\<lparr>characteristics := chrs_done 0 dn
                 @ r'\<lparr>descriptor_count := of_nat (0 + length ds)\<rparr> # map fst todo,
                descriptors := map dsc_row (concat (map snd dn)) @ map dsc_row ds\<rparr>))"
      unfolding settle_def
      by (subst (1) e1', simp only: case_prod_conv stack_calls_simps list.map concat.simps rc append_Nil2)
        (subst converse_dscs, use Cons.prems(5) in \<open>simp_all add: e1_def\<close>)
    also have "\<dots> = map_option (apsnd ((@) [Stack c]))
        (settle ?k stk clk rep (start_next_chr_dsc_discovery stk (clk ?k) e2))"
      using Cons.prems(5)
      by (subst converse_last [OF handle_dsc_done]) (simp add: e2_def e1_def)
    finally have *: "settle (length ds + Suc ?k) stk clk rep (start_next_chr_dsc_discovery stk now e)
      = map_option (apsnd ((@) [Stack c]))
        (settle ?k stk clk rep (start_next_chr_dsc_discovery stk (clk ?k) e2))"
      unfolding start .
    have snoc: "chrs_done 0 (dn @ [q]) = chrs_done 0 dn @ [r'\<lparr>descriptor_count := of_nat (length ds)\<rparr>]"
      using True q by (simp add: chrs_done_snoc r'_def)
    have "\<exists>e' out.
      settle ?k stk clk rep (start_next_chr_dsc_discovery stk (clk ?k) e2) = Some (e', out)
      \<and> listener_calls out = [ON_SERVICE_DISCOVERY_DONE 0] \<and> fsm_state (fsm e') = READY
      \<and> services e' = services e2 \<and> conn_handle e' = conn_handle e2
      \<and> characteristics e' = chrs_done 0 ((dn @ [q]) @ todo)
      \<and> descriptors e' = map dsc_row (concat (map snd ((dn @ [q]) @ todo)))"
    proof (rule Cons.IH)
      show "characteristics e2 = chrs_done 0 (dn @ [q]) @ map fst todo"
        unfolding snoc by (simp add: e2_def)
      show "descriptors e2 = map dsc_row (concat (map snd (dn @ [q])))"
        using q by (simp add: e2_def)
      show "rep (BLE_GATTC_DISC_ALL_DSCS ch (value_handle r) (chr_end_handle r))
          = map (dsc_event own ch) ds @ [disc_dsc_cb ch BLE_HS_EDONE None own]"
        if "(r, ds) \<in> set todo" "value_handle r < chr_end_handle r" for ch r ds
        using Cons.prems(3) that by simp
      show "descriptor_count r = 0 \<and> (\<not> value_handle r < chr_end_handle r \<longrightarrow> ds = [])"
        if "(r, ds) \<in> set todo" for r ds
        by (rule Cons.prems(4) [OF list.set_intros(2) [OF that]])
    qed (use Cons.prems(1,2,5) in \<open>simp_all add: e2_def e1_def\<close>)
    then obtain e' out where
      "settle ?k stk clk rep (start_next_chr_dsc_discovery stk (clk ?k) e2) = Some (e', out)"
      "listener_calls out = [ON_SERVICE_DISCOVERY_DONE 0]" "fsm_state (fsm e') = READY"
      "services e' = services e" "conn_handle e' = conn_handle e"
      "characteristics e' = chrs_done 0 ((dn @ [q]) @ todo)"
      "descriptors e' = map dsc_row (concat (map snd ((dn @ [q]) @ todo)))"
      by (auto simp: e2_def e1_def)
    with * q show ?thesis
      by (intro exI [of _ e'] exI [of _ "Stack c # out"]) (simp add: add.assoc)
  qed
qed

lemma map_fst_chr_rest [simp]: "map fst (chr_rest db) = all_rows db"
  by (simp add: chr_rest_def)

lemma concat_snd_chr_rest [simp]: "concat (map snd (chr_rest db)) = all_dscs db"
  by (simp add: chr_rest_def all_dscs_def)

lemma all_rows_snoc: "all_rows (db @ [s]) = all_rows db @ chr_rows (ps_end s) (ps_chrs s)"
  by (simp add: all_rows_def)

text \<open>What the host has to report, row by row; it follows from the layout of the database.\<close>

definition reports_db ::
  "(stack_call \<Rightarrow> gatt_event list) \<Rightarrow> owner option \<Rightarrow> peer_svc list \<Rightarrow> bool" where
  "reports_db rep own db \<longleftrightarrow>
     (\<forall>s \<in> set db. length (ps_chrs s) < 65536 \<and>
        (\<forall>ch. rep (BLE_GATTC_DISC_ALL_CHRS ch (ps_start s) (ps_end s))
           = map (chr_event own ch) (ps_chrs s) @ [disc_chr_cb ch BLE_HS_EDONE None own])) \<and>
     (\<forall>(r, ds) \<in> set (chr_rest db).
        descriptor_count r = 0 \<and> (\<not> value_handle r < chr_end_handle r \<longrightarrow> ds = []) \<and>
        (value_handle r < chr_end_handle r \<longrightarrow>
           (\<forall>ch. rep (BLE_GATTC_DISC_ALL_DSCS ch (value_handle r) (chr_end_handle r))
              = map (dsc_event own ch) ds @ [disc_dsc_cb ch BLE_HS_EDONE None own])))"

definition dsc_steps :: "peer_svc list \<Rightarrow> nat" where
  "dsc_steps db = sum_list (map (\<lambda>(r, ds). Suc (length ds)) (chr_rest db))"

lemma chr_phase:
  assumes "reports_db rep own db" "\<And>c. stk c = 0"
    and "fsm_state (fsm e) = DISCOVERING" "listener e" "db = dn @ todo"
    and "discover_svc_index e = length dn" "services e = svcs_done 0 dn @ map svc_row todo"
    and "characteristics e = all_rows dn" "descriptors e = []"
  shows "\<exists>e' out.
    settle (sum_list (map (\<lambda>s. Suc (length (ps_chrs s))) todo) + (dsc_steps db + n)) stk clk rep
      (start_next_service_chr_discovery stk now e) = Some (e', out)
    \<and> listener_calls out = [ON_SERVICE_DISCOVERY_DONE 0] \<and> fsm_state (fsm e') = READY
    \<and> services e' = svcs_done 0 db \<and> conn_handle e' = conn_handle e
    \<and> characteristics e' = chrs_done 0 (chr_rest db) \<and> descriptors e' = map dsc_row (all_dscs db)"
  using assms(3-)
proof (induction todo arbitrary: dn e n now)
  case Nil
  let ?e = "e\<lparr>discover_chr_index := 0\<rparr>"
  have "\<exists>e' out. settle (sum_list (map (\<lambda>(r, ds). Suc (length ds)) (chr_rest db)) + n) stk clk rep
      (start_next_chr_dsc_discovery stk now ?e) = Some (e', out)
    \<and> listener_calls out = [ON_SERVICE_DISCOVERY_DONE 0] \<and> fsm_state (fsm e') = READY
    \<and> services e' = services ?e \<and> conn_handle e' = conn_handle ?e
    \<and> characteristics e' = chrs_done 0 ([] @ chr_rest db)
    \<and> descriptors e' = map dsc_row (concat (map snd ([] @ chr_rest db)))"
  proof (rule dsc_phase [where own = own])
    show "rep (BLE_GATTC_DISC_ALL_DSCS ch (value_handle r) (chr_end_handle r))
        = map (dsc_event own ch) ds @ [disc_dsc_cb ch BLE_HS_EDONE None own]"
      if "(r, ds) \<in> set (chr_rest db)" "value_handle r < chr_end_handle r" for ch r ds
      using assms(1) that unfolding reports_db_def by blast
    show "descriptor_count r = 0 \<and> (\<not> value_handle r < chr_end_handle r \<longrightarrow> ds = [])"
      if "(r, ds) \<in> set (chr_rest db)" for r ds
      using assms(1) that unfolding reports_db_def by blast
  qed (use Nil assms(2) in simp_all)
  with Nil show ?case
    by (simp add: start_next_service_chr_discovery_def dsc_steps_def)
next
  case (Cons s todo)
  let ?cs = "ps_chrs s" and ?i = "length dn"
  let ?k = "sum_list (map (\<lambda>s. Suc (length (ps_chrs s))) todo) + (dsc_steps db + n)"
  have len: "length ?cs < 65536" and
    reps: "rep (BLE_GATTC_DISC_ALL_CHRS (conn_handle e) (ps_start s) (ps_end s))
      = map (chr_event own (conn_handle e)) ?cs @ [disc_chr_cb (conn_handle e) BLE_HS_EDONE None own]"
    using assms(1) Cons.prems(3) unfolding reports_db_def by simp_all
  define s' where "s' = (svc_row s)\<lparr>first_characteristic := of_nat (length (all_chrs dn))\<rparr>"
  define c where "c = BLE_GATTC_DISC_ALL_CHRS (conn_handle e) (ps_start s) (ps_end s)"
  define e1 where "e1 = e\<lparr>services := svcs_done 0 dn
      @ s'\<lparr>characteristic_count := of_nat (length ([] :: peer_chr list))\<rparr> # map svc_row todo,
      characteristics := all_rows dn @ chr_rows 0 []\<rparr>"
  define e2 where "e2 = e\<lparr>services := svcs_done 0 dn
      @ s'\<lparr>characteristic_count := of_nat (length ?cs)\<rparr> # map svc_row todo,
      characteristics := all_rows dn @ chr_rows (ps_end s) ?cs, discover_svc_index := ?i + 1\<rparr>"
  have idx: "discover_svc_index e = length (svcs_done 0 dn)" using Cons.prems(4) by simp
  have start: "start_next_service_chr_discovery stk now e = (e1, [Stack c])"
    using Cons.prems(4-6) assms(2)
    by (simp add: start_next_service_chr_discovery_def Let_def nth_append list_update_append
        e1_def s'_def c_def svc_row_def)
  have "settle (length ?cs + Suc ?k) stk clk rep (e1, [Stack c])
      = map_option (apsnd ((@) [Stack c]))
          (settle ?k stk clk rep (start_next_service_chr_discovery stk (clk ?k) e2))"
  proof -
    have e: "end_handle s' = ps_end s" by (simp add: s'_def svc_row_def)
    have l: "length ([] @ ?cs) < 65536" using len by simp
    show ?thesis
      unfolding settle_def [of "length ?cs + Suc ?k"] e1_def case_prod_conv stack_calls_simps
        list.map concat.simps c_def reps append_Nil2 converse_chrs [OF idx l] append_Nil
      by (subst converse_last [OF handle_chr_done [OF idx len]]) (simp add: e2_def e)
  qed
  then have *: "settle (length ?cs + Suc ?k) stk clk rep (start_next_service_chr_discovery stk now e)
      = map_option (apsnd ((@) [Stack c]))
          (settle ?k stk clk rep (start_next_service_chr_discovery stk (clk ?k) e2))"
    unfolding start .
  have "\<exists>e' out. settle ?k stk clk rep (start_next_service_chr_discovery stk (clk ?k) e2) = Some (e', out)
    \<and> listener_calls out = [ON_SERVICE_DISCOVERY_DONE 0] \<and> fsm_state (fsm e') = READY
    \<and> services e' = svcs_done 0 db \<and> conn_handle e' = conn_handle e2
    \<and> characteristics e' = chrs_done 0 (chr_rest db) \<and> descriptors e' = map dsc_row (all_dscs db)"
  proof (rule Cons.IH)
    show "db = (dn @ [s]) @ todo" using Cons.prems(3) by simp
    show "services e2 = svcs_done 0 (dn @ [s]) @ map svc_row todo"
      by (simp add: e2_def s'_def svcs_done_snoc)
    show "characteristics e2 = all_rows (dn @ [s])"
      by (simp add: e2_def all_rows_snoc)
  qed (use Cons.prems in \<open>simp_all add: e2_def\<close>)
  then obtain e' out where
    "settle ?k stk clk rep (start_next_service_chr_discovery stk (clk ?k) e2) = Some (e', out)"
    "listener_calls out = [ON_SERVICE_DISCOVERY_DONE 0]" "fsm_state (fsm e') = READY"
    "services e' = svcs_done 0 db" "conn_handle e' = conn_handle e"
    "characteristics e' = chrs_done 0 (chr_rest db)" "descriptors e' = map dsc_row (all_dscs db)"
    by (auto simp: e2_def)
  with * show ?case
    by (intro exI [of _ e'] exI [of _ "Stack c # out"]) (simp add: add.assoc)
qed

section \<open>The host reports each range exactly\<close>

lemma wf_chrs_range:
  "wf_chrs lo fin cs \<Longrightarrow> c \<in> set cs \<Longrightarrow> lo < pc_def c \<and> pc_def c \<le> fin"
proof (induction lo fin cs rule: wf_chrs.induct)
  case (2 lo fin d cs)
  then have "pc_def d < chr_limit fin cs \<and> chr_limit fin cs \<le> fin" "lo < pc_def d"
    by (auto intro: less_le_trans)
  with 2 show ?case by (auto intro: less_trans)
qed simp

lemma wf_chrs_sorted: "wf_chrs lo fin cs \<Longrightarrow> sorted_wrt (<) (map pc_def cs)"
proof (induction lo fin cs rule: wf_chrs.induct)
  case (2 lo fin c cs)
  moreover have "pc_def c < pc_def d" if "d \<in> set cs" for d
    using wf_chrs_range [of "chr_limit fin cs" fin cs d] that "2.prems"
    by (auto intro: less_trans less_le_trans)
  ultimately show ?case by auto
qed simp

lemma wf_chrs_length: "wf_chrs lo fin cs \<Longrightarrow> length cs \<le> unat fin - unat lo"
  using wf_chrs_sorted wf_chrs_range by (intro sorted_handles_length [where key = pc_def]) blast+

definition svc_segs :: "peer_svc list \<Rightarrow> (u16 \<times> u16 \<times> peer_chr list) list" where
  "svc_segs db = map (\<lambda>s. (ps_start s, ps_end s, ps_chrs s)) db"

definition chr_segs :: "chr_rest \<Rightarrow> (u16 \<times> u16 \<times> (u16 \<times> u8 \<times> bytes) list) list" where
  "chr_segs rs = map (\<lambda>(r, ds). (value_handle r, chr_end_handle r, ds)) rs"

lemma seg_items_svc: "seg_items (svc_segs db) = all_chrs db"
  by (simp add: seg_items_def svc_segs_def all_chrs_def comp_def)

lemma seg_items_chr: "seg_items (chr_segs rs) = concat (map snd rs)"
  by (simp add: seg_items_def chr_segs_def comp_def case_prod_unfold)

lemma segs_svc: "wf_db lo db \<Longrightarrow> segs pc_def lo (svc_segs db)"
  by (induction lo db rule: wf_db.induct) (auto simp: svc_segs_def dest: wf_chrs_range)

lemma segs_chrs:
  assumes "wf_chrs lo fin cs" "lo \<le> fin" "segs fst fin (chr_segs rs)"
  shows "segs fst lo (chr_segs (zip (chr_rows fin cs) (map pc_dscs cs) @ rs))"
  using assms
proof (induction lo fin cs rule: wf_chrs.induct)
  case (1 lo fin)
  then show ?case by (cases "chr_segs rs") (auto simp: chr_segs_def)
next
  case (2 lo fin c cs)
  moreover have "lo < pc_val c" using "2.prems" by (auto intro: less_trans)
  ultimately show ?case by (simp add: chr_segs_def chr_row_def)
qed

lemma chr_rest_simps:
  "chr_rest [] = []"
  "chr_rest (s # db) = zip (chr_rows (ps_end s) (ps_chrs s)) (map pc_dscs (ps_chrs s)) @ chr_rest db"
  by (simp_all add: chr_rest_def all_rows_def all_chrs_def)

lemma segs_weaken: "segs key b r \<Longrightarrow> a \<le> b \<Longrightarrow> segs key a r"
  by (cases r) auto

lemma segs_chr_rest: "wf_db lo db \<Longrightarrow> segs fst lo (chr_segs (chr_rest db))"
proof (induction lo db rule: wf_db.induct)
  case (2 lo s db)
  then have "segs fst (ps_start s) (chr_segs (chr_rest (s # db)))"
    unfolding chr_rest_simps by (intro segs_chrs) auto
  then show ?case using 2 by (auto intro: segs_weaken)
qed (simp add: chr_rest_simps chr_segs_def)

lemma chr_rest_rows:
  assumes "(r, ds) \<in> set (chr_rest db)"
  shows "\<exists>s \<in> set db. \<exists>c \<in> set (ps_chrs s). \<exists>fin. r = chr_row c fin \<and> ds = pc_dscs c"
proof -
  have z: "\<exists>c \<in> set cs. \<exists>fin. r = chr_row c fin \<and> ds = pc_dscs c"
    if "(r, ds) \<in> set (zip (chr_rows lim cs) (map pc_dscs cs))" for lim cs
    using that by (induction cs) auto
  show ?thesis using assms
  proof (induction db)
    case (Cons s db)
    then consider "(r, ds) \<in> set (zip (chr_rows (ps_end s) (ps_chrs s)) (map pc_dscs (ps_chrs s)))"
      | "(r, ds) \<in> set (chr_rest db)"
      by (auto simp: chr_rest_simps)
    then show ?case
      by cases (use z Cons.IH in \<open>meson list.set_intros\<close>)+
  qed (simp add: chr_rest_simps)
qed

lemma wf_db_mem: "wf_db lo db \<Longrightarrow> s \<in> set db \<Longrightarrow> wf_chrs (ps_start s) (ps_end s) (ps_chrs s)"
  by (induction lo db rule: wf_db.induct) auto

lemma host_reports_db:
  assumes "wf_db 0 db"
  shows "reports_db (host_reports own db) own db"
proof -
  have chrs: "length (ps_chrs s) < 65536 \<and>
      host_reports own db (BLE_GATTC_DISC_ALL_CHRS ch (ps_start s) (ps_end s))
        = map (chr_event own ch) (ps_chrs s) @ [disc_chr_cb ch BLE_HS_EDONE None own]"
    if s: "s \<in> set db" for s ch
  proof -
    have m: "(ps_start s, ps_end s, ps_chrs s) \<in> set (svc_segs db)"
      using s by (auto simp: svc_segs_def)
    have w: "wf_chrs (ps_start s) (ps_end s) (ps_chrs s)"
      using wf_db_mem [OF assms s] .
    note f = segs_filter [OF segs_svc [OF assms] m, of "\<lambda>c. ps_start s \<le> pc_def c \<and> pc_def c \<le> ps_end s"]
    have "filter (\<lambda>c. ps_start s \<le> pc_def c \<and> pc_def c \<le> ps_end s) (all_chrs db) = ps_chrs s"
      using f wf_chrs_range [OF w] by (simp add: seg_items_svc less_imp_le)
    moreover have "length (ps_chrs s) < 65536"
      using wf_chrs_length [OF w] unat_u16_lt [of "ps_end s"] by linarith
    ultimately show ?thesis by (simp add: host_reports_def)
  qed
  have dscs: "descriptor_count r = 0 \<and> (\<not> value_handle r < chr_end_handle r \<longrightarrow> ds = []) \<and>
      host_reports own db (BLE_GATTC_DISC_ALL_DSCS ch (value_handle r) (chr_end_handle r))
        = map (dsc_event own ch) ds @ [disc_dsc_cb ch BLE_HS_EDONE None own]"
    if r: "(r, ds) \<in> set (chr_rest db)" for r ds ch
  proof -
    have m: "(value_handle r, chr_end_handle r, ds) \<in> set (chr_segs (chr_rest db))"
      using r by (force simp: chr_segs_def)
    have k: "value_handle r < fst d \<and> fst d \<le> chr_end_handle r" if "d \<in> set ds" for d
      using segs_mem [OF segs_chr_rest [OF assms] m] that by blast
    have "filter (\<lambda>d. value_handle r < fst d \<and> fst d \<le> chr_end_handle r) (all_dscs db) = ds"
      using segs_filter [OF segs_chr_rest [OF assms] m,
          of "\<lambda>d. value_handle r < fst d \<and> fst d \<le> chr_end_handle r"] k
      by (simp add: seg_items_chr less_imp_le)
    moreover have "ds = []" if "\<not> value_handle r < chr_end_handle r"
      using k that by (cases ds) (auto intro: less_le_trans)
    moreover have "descriptor_count r = 0"
      using chr_rest_rows [OF r] by (auto simp: chr_row_def)
    ultimately show ?thesis by (simp add: host_reports_def)
  qed
  show ?thesis
    unfolding reports_db_def using chrs dscs by blast
qed

section \<open>Reading the table back\<close>

lemma sequence_opt_iff: "sequence_opt xs = Some ys \<longleftrightarrow> xs = map Some ys"
proof (induction xs arbitrary: ys)
  case (Cons x xs)
  then show ?case by (cases x; cases ys) auto
qed auto

lemma sequence_opt_slice:
  "sequence_opt (map f xs) = Some ys \<Longrightarrow>
   sequence_opt (map f (take k (drop n xs))) = Some (take k (drop n ys))"
  by (simp add: sequence_opt_iff flip: take_map drop_map)

definition dsc_views :: "(u16 \<times> u8 \<times> bytes) list \<Rightarrow> dsc_view list" where
  "dsc_views ds = map (\<lambda>(h, u). (uuid_read u, h)) ds"

definition row_view :: "gatt_characteristic \<times> (u16 \<times> u8 \<times> bytes) list \<Rightarrow> chr_view" where
  "row_view = (\<lambda>(r, ds). (chr_uuid r, value_handle r, chr_end_handle r, properties r, dsc_views ds))"

lemma dsc_views_rows: "map (\<lambda>d. (dsc_uuid d, dsc_handle d)) (map dsc_row ds) = dsc_views ds"
  by (simp add: dsc_views_def dsc_row_def case_prod_unfold)

lemma unat_of_nat_u16: "n < 65536 \<Longrightarrow> unat (of_nat n :: u16) = n"
  by (simp add: unat_of_nat)

lemma read_chrs_done:
  assumes "\<And>r ds. (r, ds) \<in> set rs \<Longrightarrow> first_descriptor r = 0 \<and> descriptor_count r = 0
            \<and> (\<not> value_handle r < chr_end_handle r \<longrightarrow> ds = [])"
    and "tbl_descriptors t = map dsc_row (D @ concat (map snd rs))"
    and "length (D @ concat (map snd rs)) < 65536"
  shows "map (read_chr t) (chrs_done (length D) rs) = map Some (map row_view rs)"
  using assms
proof (induction rs arbitrary: D)
  case (Cons q rs)
  obtain r ds where q: "q = (r, ds)" by (cases q)
  have r: "first_descriptor r = 0" "descriptor_count r = 0"
    "\<not> value_handle r < chr_end_handle r \<longrightarrow> ds = []"
    using Cons.prems(1) [of r ds] q by auto
  have "length D < 65536" "length ds < 65536"
    using Cons.prems(3) q by simp_all
  then have n: "unat (of_nat (length D) :: u16) = length D"
    "unat (of_nat (length ds) :: u16) = length ds"
    using unat_of_nat_u16 by blast+
  have "read_chr t (hd (chrs_done (length D) (q # rs))) = Some (row_view q)"
    using r Cons.prems(2) q n
    by (auto simp: read_chr_def slice_def rd_slice_def row_view_def dsc_views_rows [symmetric]
        simp del: map_map)
  moreover have "map (read_chr t) (chrs_done (length (D @ ds)) rs) = map Some (map row_view rs)"
  proof (rule Cons.IH)
    show "tbl_descriptors t = map dsc_row ((D @ ds) @ concat (map snd rs))"
      "length ((D @ ds) @ concat (map snd rs)) < 65536"
      using Cons.prems(2,3) q by simp_all
  qed (use Cons.prems(1) in auto)
  ultimately show ?case using q by simp
qed simp

lemma row_views: "map row_view (zip (chr_rows fin cs) (map pc_dscs cs)) = chr_views fin cs"
  by (induction fin cs rule: chr_rows.induct) (simp_all add: row_view_def chr_row_def dsc_views_def)

lemma row_views_rest:
  "map row_view (chr_rest db) = concat (map (\<lambda>s. chr_views (ps_end s) (ps_chrs s)) db)"
  by (induction db) (simp_all add: chr_rest_simps row_views)

lemma length_chr_views [simp]: "length (chr_views fin cs) = length cs"
  by (induction cs) simp_all

lemma read_svcs_done:
  assumes "sequence_opt (map (read_chr t) (tbl_characteristics t))
             = Some (V @ concat (map (\<lambda>s. chr_views (ps_end s) (ps_chrs s)) ss))"
    and "length (V @ concat (map (\<lambda>s. chr_views (ps_end s) (ps_chrs s)) ss)) < 65536"
  shows "map (read_svc t) (svcs_done (length V) ss) = map Some (db_view ss)"
  using assms
proof (induction ss arbitrary: V)
  case (Cons s ss)
  let ?v = "chr_views (ps_end s) (ps_chrs s)"
  have "length V < 65536" "length (ps_chrs s) < 65536"
    using Cons.prems(2) by simp_all
  then have n: "unat (of_nat (length V) :: u16) = length V"
    "unat (of_nat (length (ps_chrs s)) :: u16) = length (ps_chrs s)"
    using unat_of_nat_u16 by blast+
  have len: "length V + length (ps_chrs s) \<le> length (tbl_characteristics t)"
    using Cons.prems(1) [unfolded sequence_opt_iff, THEN arg_cong, of length] by simp
  have "sequence_opt (map (read_chr t) (take (length (ps_chrs s)) (drop (length V) (tbl_characteristics t))))
      = Some ?v"
    using sequence_opt_slice [OF Cons.prems(1), of "length (ps_chrs s)" "length V"] by simp
  then have "read_svc t (hd (svcs_done (length V) (s # ss)))
      = Some (uuid_read (ps_uuid s), ps_start s, ps_end s, ?v)"
    using len n by (simp add: read_svc_def slice_def rd_slice_def svc_row_def)
  moreover have "map (read_svc t) (svcs_done (length (V @ ?v)) ss) = map Some (db_view ss)"
    using Cons.prems by (intro Cons.IH) simp_all
  ultimately show ?case by (simp add: db_view_def)
qed (simp add: db_view_def)

lemma wf_db_counts:
  assumes "wf_db 0 db"
  shows "length (all_chrs db) < 65536" "length (all_dscs db) < 65536"
proof -
  have "length xs \<le> unat b - unat a" if "(a, b, xs) \<in> set (svc_segs db)" for a b xs
    using that wf_chrs_length wf_db_mem [OF assms] by (auto simp: svc_segs_def)
  from segs_count [OF segs_svc [OF assms] this]
  show "length (all_chrs db) < 65536" by (simp add: seg_items_svc)
  have "length xs \<le> unat b - unat a" if m: "(a, b, xs) \<in> set (chr_segs (chr_rest db))" for a b xs
  proof (rule sorted_handles_length [where key = fst])
    from m obtain r where "(r, xs) \<in> set (chr_rest db)" by (auto simp: chr_segs_def)
    then obtain s c where s: "s \<in> set db" "c \<in> set (ps_chrs s)" "xs = pc_dscs c"
      using chr_rest_rows by blast
    have "sorted_wrt (<) (map fst (pc_dscs c))" if "wf_chrs lo fin cs" "c \<in> set cs" for lo fin cs
      using that by (induction lo fin cs rule: wf_chrs.induct) auto
    with s wf_db_mem [OF assms] show "sorted_wrt (<) (map fst xs)" by blast
  qed (use segs_mem [OF segs_chr_rest [OF assms] m] in blast)
  from segs_count [OF segs_chr_rest [OF assms] this]
  show "length (all_dscs db) < 65536" by (simp add: seg_items_chr)
qed

lemma read_table_db:
  assumes "wf_db 0 db" "tbl_services t = svcs_done 0 db"
    and "tbl_characteristics t = chrs_done 0 (chr_rest db)"
    and "tbl_descriptors t = map dsc_row (all_dscs db)"
  shows "read_table t = Some (db_view db)"
proof -
  have rows: "first_descriptor r = 0 \<and> descriptor_count r = 0
      \<and> (\<not> value_handle r < chr_end_handle r \<longrightarrow> ds = [])" if "(r, ds) \<in> set (chr_rest db)" for r ds
  proof -
    have "\<not> value_handle r < chr_end_handle r \<longrightarrow> ds = []"
      using host_reports_db [OF assms(1), of None] that unfolding reports_db_def by blast
    then show ?thesis using chr_rest_rows [OF that] by (auto simp: chr_row_def)
  qed
  have "map (read_chr t) (chrs_done (length ([] :: (u16 \<times> u8 \<times> bytes) list)) (chr_rest db)) = map Some (map row_view (chr_rest db))"
    using rows assms(4) wf_db_counts [OF assms(1)] by (intro read_chrs_done) simp_all
  then have "sequence_opt (map (read_chr t) (tbl_characteristics t))
      = Some ([] @ concat (map (\<lambda>s. chr_views (ps_end s) (ps_chrs s)) db))"
    by (simp add: sequence_opt_iff assms(3) row_views_rest [symmetric])
  moreover have "length ([] @ concat (map (\<lambda>s. chr_views (ps_end s) (ps_chrs s)) db)) < 65536"
    using wf_db_counts(1) [OF assms(1)] by (simp add: all_chrs_def length_concat comp_def)
  ultimately have "map (read_svc t) (svcs_done (length ([] :: chr_view list)) db) = map Some (db_view db)"
    by (rule read_svcs_done)
  then show ?thesis
    by (simp add: read_table_def sequence_opt_iff assms(2))
qed

section \<open>Properties\<close>

lemma discovery_steps:
  "length db + Suc (sum_list (map (\<lambda>s. Suc (length (ps_chrs s))) db) + dsc_steps db) = discovery_events db"
proof -
  have "sum_list (map (\<lambda>s. Suc (length (ps_chrs s))) db) = length db + length (all_chrs db)"
    by (induction db) (simp_all add: all_chrs_def)
  moreover have "sum_list (map (\<lambda>(r, ds). Suc (length ds)) rs) = length rs + length (concat (map snd rs))"
    for rs :: chr_rest
    by (induction rs) auto
  then have "dsc_steps db = length (chr_rest db) + length (all_dscs db)"
    by (simp add: dsc_steps_def)
  moreover have "length (chr_rest db) = length (all_chrs db)"
    by (simp add: chr_rest_def)
  ultimately show ?thesis by (simp add: discovery_events_def)
qed

lemma discovery_exact:
  assumes "wf_db 0 db" "fsm_state (fsm e) = DISCOVERING" "conn_handle e \<noteq> BLE_HS_CONN_HANDLE_NONE"
    and "listener e" "\<And>c. stk c = 0" "discovery_events db \<le> fuel"
  shows "\<exists>e' out. discover_all fuel stk clk (host_reports own db) e = Some (e', out)
    \<and> listener_calls out = [ON_SERVICE_DISCOVERY_DONE 0] \<and> fsm_state (fsm e') = READY
    \<and> conn_handle e' = conn_handle e \<and> read_table (get_service_table e') = Some (db_view db)
    \<and> length (services e') = length db \<and> length (characteristics e') < 65536"
proof -
  let ?rep = "host_reports own db" and ?ch = "conn_handle e"
  define e0 where "e0 = e\<lparr>services := [], characteristics := [], descriptors := [],
    discover_svc_index := 0, discover_chr_index := 0\<rparr>"
  define e1 where "e1 = e0\<lparr>services := services e0 @ map svc_row db\<rparr>"
  obtain n where "fuel = discovery_events db + n" using assms(6) le_Suc_ex by blast
  then obtain k where fuel: "fuel = length db + Suc k"
    and k: "k = sum_list (map (\<lambda>s. Suc (length (ps_chrs s))) db) + (dsc_steps db + n)"
    using discovery_steps [of db] by simp
  have "discover_all fuel stk clk ?rep e
      = converse fuel stk clk ?rep (map (svc_event own ?ch) db @ [disc_svc_cb ?ch BLE_HS_EDONE None own]) e0"
    using assms(3) by (simp add: discover_all_def discover_services_def Let_def host_reports_def e0_def)
  also have "\<dots> = converse (Suc k) stk clk ?rep [disc_svc_cb ?ch BLE_HS_EDONE None own] e1"
    unfolding fuel converse_svcs e1_def ..
  also have "\<dots> = settle k stk clk ?rep (start_next_service_chr_discovery stk (clk k) e1)"
  proof -
    have "e1\<lparr>discover_svc_index := 0\<rparr> = e1"
      by (rule engine.equality) (simp_all add: e1_def e0_def)
    then show ?thesis
      by (subst converse_last) (auto simp: handle_gatt_event_def disc_svc_cb_def gatt_event0_def)
  qed
  finally have run: "discover_all fuel stk clk ?rep e
      = settle k stk clk ?rep (start_next_service_chr_discovery stk (clk k) e1)" .
  have "\<exists>e' out. settle k stk clk ?rep (start_next_service_chr_discovery stk (clk k) e1) = Some (e', out)
    \<and> listener_calls out = [ON_SERVICE_DISCOVERY_DONE 0] \<and> fsm_state (fsm e') = READY
    \<and> services e' = svcs_done 0 db \<and> conn_handle e' = conn_handle e1
    \<and> characteristics e' = chrs_done 0 (chr_rest db) \<and> descriptors e' = map dsc_row (all_dscs db)"
    unfolding k by (rule chr_phase [OF host_reports_db [OF assms(1)], where dn = "[]"])
      (use assms in \<open>simp_all add: e1_def e0_def all_rows_def\<close>)
  then obtain e' out where r: "discover_all fuel stk clk ?rep e = Some (e', out)"
    "listener_calls out = [ON_SERVICE_DISCOVERY_DONE 0]" "fsm_state (fsm e') = READY"
    "conn_handle e' = conn_handle e" "services e' = svcs_done 0 db"
    "characteristics e' = chrs_done 0 (chr_rest db)" "descriptors e' = map dsc_row (all_dscs db)"
    unfolding run by (auto simp: e1_def e0_def)
  moreover have "read_table (get_service_table e') = Some (db_view db)"
    by (rule read_table_db [OF assms(1)]) (simp_all add: get_service_table_def r)
  moreover have "length (services e') = length db" "length (characteristics e') < 65536"
    using wf_db_counts(1) [OF assms(1)] by (simp_all add: r chr_rest_def)
  ultimately show ?thesis by blast
qed

text \<open>
  C5. Service discovery is exact. Against a peer whose attribute database is laid out as the
  specification prescribes, with a host that accepts the calls and reports what it finds in each
  requested range, \<open>discover_services\<close> and the event handlers run without leaving a vector, end
  within \<open>discovery_events\<close> events with one successful \<open>on_service_discovery_done\<close> and the
  machine in \<open>Ready\<close>; and the table, read through its 16-bit index ranges with every range
  checked, is the peer's database: every service, characteristic and descriptor, in order, with
  UUID, handles and properties.
\<close>
theorem discovery_builds_peer_database:
  assumes "wf_db 0 db" "fsm_state (fsm e) = DISCOVERING" "conn_handle e \<noteq> BLE_HS_CONN_HANDLE_NONE"
    and "listener e" "\<And>c. stk c = 0" "discovery_events db \<le> fuel"
  shows "\<exists>e' out. discover_all fuel stk clk (host_reports own db) e = Some (e', out)
    \<and> listener_calls out = [ON_SERVICE_DISCOVERY_DONE 0] \<and> fsm_state (fsm e') = READY
    \<and> conn_handle e' = conn_handle e \<and> read_table (get_service_table e') = Some (db_view db)"
  using discovery_exact [where stk = stk and clk = clk and own = own, OF assms] by auto

text \<open>A peer with a battery service, a level that notifies, and a vendor service without one.\<close>

definition battery_peer :: "peer_svc list" where
  "battery_peer =
     [\<lparr>ps_start = 1, ps_end = 5, ps_uuid = (16, [0x0F, 0x18]),
       ps_chrs = [\<lparr>pc_def = 2, pc_val = 3, pc_props = 0x12, pc_uuid = (16, [0x19, 0x2A]),
                   pc_dscs = [(4, 16, [0x02, 0x29])]\<rparr>]\<rparr>,
      \<lparr>ps_start = 6, ps_end = 0xFFFF, ps_uuid = (16, [0x0A, 0x18]),
       ps_chrs = [\<lparr>pc_def = 7, pc_val = 8, pc_props = 0x02, pc_uuid = (16, [0x29, 0x2A]), pc_dscs = []\<rparr>,
                  \<lparr>pc_def = 9, pc_val = 10, pc_props = 0x02, pc_uuid = (16, [0x24, 0x2A]), pc_dscs = []\<rparr>]\<rparr>]"

theorem discovery_builds_peer_database_witness:
  "\<exists>e' out. discover_all 40 (\<lambda>_. 0) (\<lambda>_. 100) (host_reports (Some 0) battery_peer)
      (engine_init\<lparr>listener := True, conn_handle := 1,
         fsm := \<lparr>fsm_state = DISCOVERING, deadline_ms = 8000, backoff_count = 0\<rparr>\<rparr>) = Some (e', out)
    \<and> read_table (get_service_table e') = Some (db_view battery_peer)"
proof -
  have "wf_db 0 battery_peer" by (simp add: battery_peer_def)
  moreover have "discovery_events battery_peer \<le> 40"
    by (simp add: battery_peer_def discovery_events_def all_chrs_def all_dscs_def)
  ultimately show ?thesis
    using discovery_builds_peer_database [of battery_peer
        "engine_init\<lparr>listener := True, conn_handle := 1,
           fsm := \<lparr>fsm_state = DISCOVERING, deadline_ms = 8000, backoff_count = 0\<rparr>\<rparr>"
        "\<lambda>_. 0" 40 "\<lambda>_. 100" "Some 0"]
    by (auto simp: BLE_HS_CONN_HANDLE_NONE_def)
qed

end
