(* ===== verification/BleAdvert.thy ===== *)
theory BleAdvert
  imports BleUuid BleAddress
begin

text \<open>
  \<open>ESPBTDevice\<close> (components/ble_device_base/ble_device.h and .cpp): parsing a BLE advertisement's
  length-type-value structures, the iBeacon view of manufacturer data, the per-scan log of
  discovered devices, and the advertisement triggers (automation.h there and in
  components/esp32_ble_tracker). A read outside the payload is \<open>None\<close>; the 8-bit loop counters of
  the UUID lists keep their width. Logging is left out but for what it decides.
\<close>

section \<open>Data\<close>

record service_data =
  sd_uuid :: espbtuuid
  sd_data :: bytes

definition MAX_ADV_NAME_LEN :: nat where "MAX_ADV_NAME_LEN = 29"

text \<open>\<open>dev_name\<close>: the \<open>name_len_\<close> bytes of \<open>name_\<close> before the terminator.\<close>

record espbt_device =
  dev_address :: bytes
  dev_address_type :: u8
  dev_rssi :: int
  dev_name :: bytes
  service_uuids :: "espbtuuid list"
  manufacturer_datas :: "service_data list"
  service_datas :: "service_data list"
  tx_powers :: "u8 list"
  appearance :: "u16 option"
  ad_flag :: "u8 option"

definition device0 :: espbt_device where
  "device0 = \<lparr>dev_address = replicate 6 0, dev_address_type = 0, dev_rssi = 0, dev_name = [],
     service_uuids = [], manufacturer_datas = [], service_datas = [], tx_powers = [],
     appearance = None, ad_flag = None\<rparr>"

section \<open>One structure\<close>

text \<open>The loops over a list of \<open>w\<close>-byte UUIDs: \<open>for (uint8_t i = 0; (i + (w-1)) < len; i += w)\<close>.\<close>

function uuid_list :: "u8 \<Rightarrow> (bytes \<Rightarrow> espbtuuid) \<Rightarrow> bytes \<Rightarrow> u8 \<Rightarrow> espbtuuid list option" where
  "uuid_list w mk ad_data i =
     (if 0 < unat w \<and> unat i + (unat w - 1) < unat (of_nat (length ad_data) :: u8) then
        case rd_slice ad_data (unat i) (unat w) of
          None \<Rightarrow> None
        | Some bs \<Rightarrow> map_option ((#) (mk bs)) (uuid_list w mk ad_data (i + w))
      else Some [])"
  by pat_completeness auto

lemma uuid_list_no_wrap:
  assumes "0 < unat (w :: u8)" "unat (i :: u8) + (unat w - 1) < unat (n :: u8)"
  shows "unat (i + w) = unat i + unat w"
proof -
  have "unat n < 256" by simp
  moreover have "unat i + unat w \<le> unat n" using assms by linarith
  ultimately have "unat i + unat w < 256" by linarith
  then show ?thesis by (intro unat_add_no_wrap) simp
qed

termination uuid_list
proof (relation "measure (\<lambda>(w, mk, ad_data, i). unat (of_nat (length ad_data) :: u8) - unat i)", goal_cases)
  case (2 w mk ad_data i x2)
  then have c: "0 < unat w" "unat i + (unat w - 1) < unat (of_nat (length ad_data) :: u8)" by auto
  then have "unat (i + w) = unat i + unat w" by (rule uuid_list_no_wrap)
  with c have "unat (of_nat (length ad_data) :: u8) - unat (i + w)
      < unat (of_nat (length ad_data) :: u8) - unat i" by linarith
  then show ?case by simp
qed simp

declare uuid_list.simps [simp del]

definition add_service_uuids :: "espbtuuid list option \<Rightarrow> espbt_device \<Rightarrow> espbt_device option" where
  "add_service_uuids us d = map_option (\<lambda>us. d\<lparr>service_uuids := service_uuids d @ us\<rparr>) us"

text \<open>Service and manufacturer data: \<open>w\<close> bytes of UUID, then the payload.\<close>

definition tagged_data :: "nat \<Rightarrow> (bytes \<Rightarrow> espbtuuid) \<Rightarrow> bytes \<Rightarrow> service_data option option" where
  "tagged_data w mk ad_data =
     (if w \<le> length ad_data
      then map_option (\<lambda>bs. Some \<lparr>sd_uuid = mk bs, sd_data = drop w ad_data\<rparr>) (rd_slice ad_data 0 w)
      else Some None)"

definition mk_uuid16 :: "bytes \<Rightarrow> espbtuuid" where "mk_uuid16 bs = from_uint16 (le_word bs)"
definition mk_uuid32 :: "bytes \<Rightarrow> espbtuuid" where "mk_uuid32 bs = from_uint32 (le_word bs)"
definition mk_uuid128 :: "bytes \<Rightarrow> espbtuuid" where "mk_uuid128 bs = UUID128 bs"

definition add_service_data :: "service_data option \<Rightarrow> espbt_device \<Rightarrow> espbt_device" where
  "add_service_data sd d = (case sd of None \<Rightarrow> d
     | Some sd \<Rightarrow> d\<lparr>service_datas := service_datas d @ [sd]\<rparr>)"

definition add_manufacturer_data :: "service_data option \<Rightarrow> espbt_device \<Rightarrow> espbt_device" where
  "add_manufacturer_data sd d = (case sd of None \<Rightarrow> d
     | Some sd \<Rightarrow> d\<lparr>manufacturer_datas := manufacturer_datas d @ [sd]\<rparr>)"

definition set_name :: "bytes \<Rightarrow> espbt_device \<Rightarrow> espbt_device" where
  "set_name ad_data d =
     (if length (dev_name d) < length ad_data
      then d\<lparr>dev_name := take (if MAX_ADV_NAME_LEN < length ad_data then MAX_ADV_NAME_LEN
                                else length ad_data) ad_data\<rparr>
      else d)"

definition handle_ad :: "u8 \<Rightarrow> bytes \<Rightarrow> espbt_device \<Rightarrow> espbt_device option" where
  "handle_ad ad_type ad_data d =
     (if ad_type = 0x01 then
        if 1 \<le> length ad_data then map_option (\<lambda>b. d\<lparr>ad_flag := Some b\<rparr>) (rd ad_data 0) else Some d
      else if ad_type = 0x08 \<or> ad_type = 0x09 then Some (set_name ad_data d)
      else if ad_type = 0x0A then
        if 1 \<le> length ad_data then map_option (\<lambda>b. d\<lparr>tx_powers := tx_powers d @ [b]\<rparr>) (rd ad_data 0)
        else Some d
      else if ad_type = 0x19 then
        if 2 \<le> length ad_data
        then map_option (\<lambda>bs. d\<lparr>appearance := Some (le_word bs)\<rparr>) (rd_slice ad_data 0 2)
        else Some d
      else if ad_type = 0x02 \<or> ad_type = 0x03 then add_service_uuids (uuid_list 2 mk_uuid16 ad_data 0) d
      else if ad_type = 0x04 \<or> ad_type = 0x05 then add_service_uuids (uuid_list 4 mk_uuid32 ad_data 0) d
      else if ad_type = 0x06 \<or> ad_type = 0x07 then add_service_uuids (uuid_list 16 mk_uuid128 ad_data 0) d
      else if ad_type = 0xFF then
        map_option (\<lambda>sd. add_manufacturer_data sd d) (tagged_data 2 mk_uuid16 ad_data)
      else if ad_type = 0x16 then map_option (\<lambda>sd. add_service_data sd d) (tagged_data 2 mk_uuid16 ad_data)
      else if ad_type = 0x20 then map_option (\<lambda>sd. add_service_data sd d) (tagged_data 4 mk_uuid32 ad_data)
      else if ad_type = 0x21 then map_option (\<lambda>sd. add_service_data sd d) (tagged_data 16 mk_uuid128 ad_data)
      else Some d)"

section \<open>The payload\<close>

text \<open>
  \<open>offset\<close> is a \<open>uint16_t\<close> in the code; it never passes \<open>len\<close> (the guard before it advances), so
  it does not wrap and is a natural number here.
\<close>

function parse_adv :: "bytes \<Rightarrow> u16 \<Rightarrow> nat \<Rightarrow> espbt_device \<Rightarrow> espbt_device option" where
  "parse_adv payload len offset d =
     (if offset < unat len then
        (case rd payload offset of
          None \<Rightarrow> None
        | Some ad_len \<Rightarrow>
            if ad_len = 0 then parse_adv payload len (offset + 1) d
            else if unat len < offset + 1 + unat ad_len then Some d
            else
              (case (rd payload (offset + 1), rd_slice payload (offset + 2) (unat ad_len - 1)) of
                (Some ad_type, Some ad_data) \<Rightarrow>
                  (case handle_ad ad_type ad_data d of
                     None \<Rightarrow> None
                   | Some d \<Rightarrow> parse_adv payload len (offset + 1 + unat ad_len) d)
              | _ \<Rightarrow> None))
      else Some d)"
  by pat_completeness auto
termination
  by (relation "measure (\<lambda>(payload, len, offset, d). unat len - offset)") (auto simp: Let_def)

declare parse_adv.simps [simp del]

definition from_scan_result ::
  "bytes \<Rightarrow> int \<Rightarrow> u8 \<Rightarrow> bytes \<Rightarrow> u16 \<Rightarrow> espbt_device \<Rightarrow> espbt_device option" where
  "from_scan_result mac rssi addr_type data data_len d =
     parse_adv data data_len 0
       (d\<lparr>dev_address := store_address mac, dev_address_type := addr_type, dev_rssi := rssi,
          dev_name := [], service_uuids := [], manufacturer_datas := [], service_datas := [],
          tx_powers := [], appearance := None, ad_flag := None\<rparr>)"

record ble_scan_result =
  sr_bda :: bytes
  sr_addr_type :: u8
  sr_rssi :: int
  sr_ble_adv :: bytes
  adv_data_len :: u8
  scan_rsp_len :: u8

definition parse_scan_rst :: "ble_scan_result \<Rightarrow> espbt_device \<Rightarrow> espbt_device option" where
  "parse_scan_rst r d =
     from_scan_result (map (\<lambda>i. sr_bda r ! (5 - i)) [0..<6]) (sr_rssi r) (sr_addr_type r) (sr_ble_adv r)
       (of_nat (unat (adv_data_len r) + unat (scan_rsp_len r))) d"

definition BLE_ADDR_TYPE_PUBLIC :: u8 where "BLE_ADDR_TYPE_PUBLIC = 0"
definition BLE_ADDR_TYPE_RANDOM :: u8 where "BLE_ADDR_TYPE_RANDOM = 1"
definition BLE_ADDR_TYPE_RPA_PUBLIC :: u8 where "BLE_ADDR_TYPE_RPA_PUBLIC = 2"
definition BLE_ADDR_TYPE_RPA_RANDOM :: u8 where "BLE_ADDR_TYPE_RPA_RANDOM = 3"

definition address_type_str :: "espbt_device \<Rightarrow> string" where
  "address_type_str d =
     (if dev_address_type d = BLE_ADDR_TYPE_PUBLIC then ''PUBLIC''
      else if dev_address_type d = BLE_ADDR_TYPE_RANDOM then ''RANDOM''
      else if dev_address_type d = BLE_ADDR_TYPE_RPA_PUBLIC then ''RPA_PUBLIC''
      else if dev_address_type d = BLE_ADDR_TYPE_RPA_RANDOM then ''RPA_RANDOM''
      else ''UNKNOWN'')"

section \<open>iBeacons\<close>

text \<open>The packed structure, its 16-bit fields as little-endian memory; \<open>byteswap\<close> is the code's.\<close>

record beacon_data =
  sub_type :: u8
  beacon_length :: u8
  proximity_uuid :: bytes
  major :: u16
  minor :: u16
  signal_power :: u8

definition byteswap16 :: "u16 \<Rightarrow> u16" where
  "byteswap16 w = push_bit 8 w OR drop_bit 8 w"

definition espbleibeacon :: "bytes \<Rightarrow> beacon_data option" where
  "espbleibeacon data =
     map_option (\<lambda>bs. \<lparr>sub_type = bs ! 0, beacon_length = bs ! 1, proximity_uuid = take 16 (drop 2 bs),
         major = le_word (take 2 (drop 18 bs)), minor = le_word (take 2 (drop 20 bs)),
         signal_power = bs ! 22\<rparr>)
       (rd_slice data 0 23)"

definition get_major :: "beacon_data \<Rightarrow> u16" where "get_major b = byteswap16 (major b)"
definition get_minor :: "beacon_data \<Rightarrow> u16" where "get_minor b = byteswap16 (minor b)"
definition get_signal_power :: "beacon_data \<Rightarrow> int" where "get_signal_power b = sint (signal_power b)"
definition get_beacon_uuid :: "beacon_data \<Rightarrow> espbtuuid option" where
  "get_beacon_uuid b = from_raw_reversed (proximity_uuid b)"

text \<open>The beacon if there is one, and whether \<open>prefix_rejected\<close> was set; \<open>None\<close> is a bad read.\<close>

definition from_manufacturer_data :: "service_data \<Rightarrow> (beacon_data option \<times> bool) option" where
  "from_manufacturer_data sd =
     (if \<not> uuid_contains (sd_uuid sd) 0x4C 0x00 then Some (None, False)
      else if length (sd_data sd) \<noteq> 23 then Some (None, False)
      else case (rd (sd_data sd) 0, rd (sd_data sd) 1) of
        (Some b0, Some b1) \<Rightarrow>
          if b0 \<noteq> 0x02 \<or> b1 \<noteq> 0x15 then Some (None, True)
          else map_option (\<lambda>b. (Some b, False)) (espbleibeacon (sd_data sd))
      | _ \<Rightarrow> None)"

text \<open>The function-local statics that throttle the log line of a rejected prefix.\<close>

record ibeacon_log =
  last_log :: u32
  last_addr :: u64

fun scan_beacons :: "bool \<Rightarrow> service_data list \<Rightarrow> (beacon_data option \<times> bool) option" where
  "scan_beacons rejected [] = Some (None, rejected)"
| "scan_beacons rejected (sd # sds) =
     (case from_manufacturer_data sd of
        None \<Rightarrow> None
      | Some (Some b, _) \<Rightarrow> Some (Some b, rejected)
      | Some (None, r) \<Rightarrow> scan_beacons (rejected \<or> r) sds)"

text \<open>The result, the statics, and whether the line was logged; \<open>now\<close> is \<open>millis()\<close>.\<close>

definition get_ibeacon ::
  "u32 \<Rightarrow> espbt_device \<Rightarrow> ibeacon_log \<Rightarrow> (beacon_data option \<times> ibeacon_log \<times> bool) option" where
  "get_ibeacon now d st =
     (case scan_beacons False (manufacturer_datas d) of
        None \<Rightarrow> None
      | Some (Some b, _) \<Rightarrow> Some (Some b, st, False)
      | Some (None, prefix_rejected) \<Rightarrow>
          if prefix_rejected then
            let addr = address_uint64 (dev_address d);
                since = now - last_log st
            in if last_log st = 0 \<or> 60000 < since \<or> (addr \<noteq> last_addr st \<and> 1000 < since)
               then Some (None, \<lparr>last_log = now, last_addr = addr\<rparr>, True)
               else Some (None, st, False)
          else Some (None, st, False))"

section \<open>The log of discovered devices\<close>

text \<open>The addresses logged this scan period, and whether this call logs.\<close>

definition log_device :: "espbt_device \<Rightarrow> u64 list \<Rightarrow> u64 list \<times> bool" where
  "log_device d already =
     (let address = address_uint64 (dev_address d)
      in if address \<in> set already then (already, False) else (already @ [address], True))"

definition clear_discovered :: "u64 list \<Rightarrow> u64 list" where
  "clear_discovered already = []"

section \<open>Triggers\<close>

text \<open>What \<open>parse_device\<close> returns, and what is handed to the automation, if it fires.\<close>

definition advertise_trigger :: "u64 list \<Rightarrow> espbt_device \<Rightarrow> bool \<times> espbt_device option" where
  "advertise_trigger addresses d =
     (if addresses \<noteq> [] \<and> address_uint64 (dev_address d) \<notin> set addresses then (False, None)
      else (True, Some d))"

fun find_uuid :: "espbtuuid \<Rightarrow> service_data list \<Rightarrow> bytes option" where
  "find_uuid u [] = None"
| "find_uuid u (sd # sds) = (if uuid_eq (sd_uuid sd) u then Some (sd_data sd) else find_uuid u sds)"

definition service_data_trigger ::
  "u64 option \<Rightarrow> espbtuuid \<Rightarrow> espbt_device \<Rightarrow> bool \<times> bytes option" where
  "service_data_trigger address u d =
     (if (case address of Some a \<Rightarrow> address_uint64 (dev_address d) \<noteq> a | None \<Rightarrow> False) then (False, None)
      else case find_uuid u (service_datas d) of Some bs \<Rightarrow> (True, Some bs) | None \<Rightarrow> (False, None))"

definition manufacturer_data_trigger ::
  "u64 option \<Rightarrow> espbtuuid \<Rightarrow> espbt_device \<Rightarrow> bool \<times> bytes option" where
  "manufacturer_data_trigger address u d =
     (if (case address of Some a \<Rightarrow> address_uint64 (dev_address d) \<noteq> a | None \<Rightarrow> False) then (False, None)
      else case find_uuid u (manufacturer_datas d) of Some bs \<Rightarrow> (True, Some bs) | None \<Rightarrow> (False, None))"

definition end_of_scan_trigger :: "espbt_device \<Rightarrow> bool" where
  "end_of_scan_trigger d = False"

section \<open>Structures\<close>

lemma uuid_list_spec:
  assumes "0 < unat w" "length ad_data < 256" "unat i \<le> length ad_data"
  shows "uuid_list w mk ad_data i
    = Some (map (\<lambda>k. mk (take (unat w) (drop (unat i + k * unat w) ad_data)))
        [0..<(length ad_data - unat i) div unat w])"
  using assms
proof (induction w mk ad_data i rule: uuid_list.induct)
  case (1 w mk ad_data i)
  have n: "unat (of_nat (length ad_data) :: u8) = length ad_data"
    using 1(3) by (simp add: unat_of_nat)
  show ?case
  proof (cases "unat i + (unat w - 1) < length ad_data")
    case False
    then have "(length ad_data - unat i) div unat w = 0" using 1(2) by simp
    with False n show ?thesis by (subst uuid_list.simps) simp
  next
    case True
    have le: "unat i + unat w \<le> length ad_data" using True 1(2) by linarith
    have wrap: "unat (i + w) = unat i + unat w"
      using uuid_list_no_wrap [of w i "of_nat (length ad_data)"] 1(2) True n by simp
    define m where "m = (length ad_data - unat (i + w)) div unat w"
    have c: "(length ad_data - unat i) div unat w = Suc m"
    proof -
      have "length ad_data - unat i = length ad_data - unat (i + w) + unat w"
        using le wrap by linarith
      moreover have "unat w \<noteq> 0" using 1(2) by linarith
      note div_add_self2 [OF this]
      ultimately show ?thesis by (simp only: m_def Suc_eq_plus1)
    qed
    have sl: "rd_slice ad_data (unat i) (unat w) = Some (take (unat w) (drop (unat i) ad_data))"
      using le by simp
    have "uuid_list w mk ad_data (i + w)
        = Some (map (\<lambda>k. mk (take (unat w) (drop (unat (i + w) + k * unat w) ad_data))) [0..<m])"
      unfolding m_def using 1(1) [OF _ sl] 1(2,3) True n le wrap by simp
    moreover have "map f [0..<Suc m] = f 0 # map (\<lambda>k. f (Suc k)) [0..<m]" for f :: "nat \<Rightarrow> espbtuuid"
      by (simp add: map_upt_Suc del: upt_Suc)
    ultimately show ?thesis
      unfolding c using True n sl 1(2) wrap
      by (subst uuid_list.simps) (simp add: add.assoc del: upt_Suc rd_slice_Some_iff)
  qed
qed

lemma uuid_list_total:
  "w \<noteq> 0 \<Longrightarrow> length ad_data < 256 \<Longrightarrow> \<exists>us. uuid_list w mk ad_data 0 = Some us"
  using uuid_list_spec [of w ad_data 0 mk] by (auto simp: unat_gt_0)

lemma tagged_data_total: "\<exists>sd. tagged_data w mk ad_data = Some sd"
  by (auto simp: tagged_data_def)

lemma handle_ad_total:
  assumes "length ad_data < 256"
  shows "\<exists>d'. handle_ad ad_type ad_data d = Some d'"
proof -
  have "\<exists>us. uuid_list 2 mk_uuid16 ad_data 0 = Some us" "\<exists>us. uuid_list 4 mk_uuid32 ad_data 0 = Some us"
    "\<exists>us. uuid_list 16 mk_uuid128 ad_data 0 = Some us"
    using uuid_list_total assms by auto
  then show ?thesis
    unfolding handle_ad_def
    by (auto simp: add_service_uuids_def tagged_data_def)
qed

text \<open>The name never outgrows its buffer, and is untouched by other structures.\<close>

lemma handle_ad_name:
  "handle_ad ad_type ad_data d = Some d' \<Longrightarrow> length (dev_name d) \<le> 29 \<Longrightarrow> length (dev_name d') \<le> 29"
  by (auto simp: handle_ad_def set_name_def MAX_ADV_NAME_LEN_def add_service_uuids_def
      add_service_data_def add_manufacturer_data_def split: if_splits option.splits)

section \<open>What a structure says\<close>

text \<open>Field by field, what one structure (its type and value) contributes.\<close>

definition chunks :: "nat \<Rightarrow> bytes \<Rightarrow> bytes list" where
  "chunks w xs = map (\<lambda>k. take w (drop (k * w) xs)) [0..<length xs div w]"

text \<open>The UUID of 2, 4 or 16 bytes as they are sent, lowest first.\<close>

primrec le_nat :: "bytes \<Rightarrow> nat" where
  "le_nat [] = 0"
| "le_nat (b # bs) = unat b + 256 * le_nat bs"

definition wire_uuid :: "bytes \<Rightarrow> espbtuuid" where
  "wire_uuid bs = (if length bs = 2 then UUID16 (of_nat (le_nat bs))
     else if length bs = 4 then UUID32 (of_nat (le_nat bs)) else UUID128 bs)"

definition ad_uuids :: "u8 \<times> bytes \<Rightarrow> espbtuuid list" where
  "ad_uuids a = (case a of (t, xs) \<Rightarrow>
     if t = 0x02 \<or> t = 0x03 then map wire_uuid (chunks 2 xs)
     else if t = 0x04 \<or> t = 0x05 then map wire_uuid (chunks 4 xs)
     else if t = 0x06 \<or> t = 0x07 then map wire_uuid (chunks 16 xs)
     else [])"

definition tagged :: "nat \<Rightarrow> bytes \<Rightarrow> service_data list" where
  "tagged w xs = (if w \<le> length xs then [\<lparr>sd_uuid = wire_uuid (take w xs), sd_data = drop w xs\<rparr>] else [])"

definition ad_manufacturer :: "u8 \<times> bytes \<Rightarrow> service_data list" where
  "ad_manufacturer a = (case a of (t, xs) \<Rightarrow> if t = 0xFF then tagged 2 xs else [])"

definition ad_service :: "u8 \<times> bytes \<Rightarrow> service_data list" where
  "ad_service a = (case a of (t, xs) \<Rightarrow>
     if t = 0x16 then tagged 2 xs else if t = 0x20 then tagged 4 xs
     else if t = 0x21 then tagged 16 xs else [])"

definition ad_flags :: "u8 \<times> bytes \<Rightarrow> u8 list" where
  "ad_flags a = (case a of (t, xs) \<Rightarrow> if t = 0x01 then take 1 xs else [])"

definition ad_appearance :: "u8 \<times> bytes \<Rightarrow> u16 list" where
  "ad_appearance a = (case a of (t, xs) \<Rightarrow>
     if t = 0x19 \<and> 2 \<le> length xs then [of_nat (le_nat (take 2 xs))] else [])"

text \<open>Of a field sent more than once the last value counts.\<close>

definition last_of :: "'a option \<Rightarrow> 'a list \<Rightarrow> 'a option" where
  "last_of old xs = (if xs = [] then old else Some (last xs))"

definition ad_tx :: "u8 \<times> bytes \<Rightarrow> u8 list" where
  "ad_tx a = (case a of (t, xs) \<Rightarrow> if t = 0x0A then take 1 xs else [])"

definition ad_name :: "u8 \<times> bytes \<Rightarrow> bytes list" where
  "ad_name a = (case a of (t, xs) \<Rightarrow> if t = 0x08 \<or> t = 0x09 then [xs] else [])"

definition longer_name :: "bytes \<Rightarrow> bytes \<Rightarrow> bytes" where
  "longer_name old new = (if length old < length new then take 29 new else old)"

lemma unat_u8_numerals: "unat (2 :: u8) = 2" "unat (4 :: u8) = 4" "unat (16 :: u8) = 16"
  by simp_all

lemma le_nat_word: "of_nat (le_nat bs) = (le_word bs :: 'a::len word)"
proof (induction bs)
  case (Cons b bs)
  have v: "(of_nat (unat b + 256 * le_nat bs) :: 'a word) = ucast b + push_bit 8 (le_word bs)"
    using Cons by (simp add: push_bit_eq_mult unsigned_of_nat)
  have "\<not> bit b n" if "8 \<le> n" for n using bit_imp_le_length [of b n] that by auto
  then have "ucast b + push_bit 8 (le_word bs) = ucast b OR push_bit 8 (le_word bs :: 'a word)"
    by (intro disjunctive_add_eq_or bit_eqI) (auto simp: bit_simps)
  with v show ?case by simp
qed simp

lemma mk_uuid_wire:
  "length bs = 2 \<Longrightarrow> mk_uuid16 bs = wire_uuid bs"
  "length bs = 4 \<Longrightarrow> mk_uuid32 bs = wire_uuid bs"
  "length bs = 16 \<Longrightarrow> mk_uuid128 bs = wire_uuid bs"
  by (simp_all add: wire_uuid_def mk_uuid16_def mk_uuid32_def mk_uuid128_def from_uint16_def from_uint32_def le_nat_word)

lemma length_chunks: "b \<in> set (chunks w xs) \<Longrightarrow> length b = w"
proof -
  assume "b \<in> set (chunks w xs)"
  then obtain k where k: "k < length xs div w" "b = take w (drop (k * w) xs)" by (auto simp: chunks_def)
  have "Suc k * w \<le> length xs div w * w" using k(1) by (intro mult_le_mono1) simp
  also have "\<dots> \<le> length xs" by (rule div_times_less_eq_dividend)
  finally have "Suc k * w \<le> length xs" .
  then show ?thesis using k(2) by simp
qed

lemma map_chunks: "(\<And>bs. length bs = w \<Longrightarrow> f bs = g bs) \<Longrightarrow> map f (chunks w xs) = map g (chunks w xs)"
  by (auto dest: length_chunks)

lemma uuid_list_map_chunks:
  "length xs < 256 \<Longrightarrow> uuid_list 2 mk xs 0 = Some (map mk (chunks 2 xs))"
  "length xs < 256 \<Longrightarrow> uuid_list 4 mk xs 0 = Some (map mk (chunks 4 xs))"
  "length xs < 256 \<Longrightarrow> uuid_list 16 mk xs 0 = Some (map mk (chunks 16 xs))"
  using uuid_list_spec [of 2 xs 0 mk] uuid_list_spec [of 4 xs 0 mk] uuid_list_spec [of 16 xs 0 mk]
  by (simp_all add: chunks_def)

lemma uuid_list_chunks:
  "length xs < 256 \<Longrightarrow> uuid_list 2 mk_uuid16 xs 0 = Some (map wire_uuid (chunks 2 xs))"
  "length xs < 256 \<Longrightarrow> uuid_list 4 mk_uuid32 xs 0 = Some (map wire_uuid (chunks 4 xs))"
  "length xs < 256 \<Longrightarrow> uuid_list 16 mk_uuid128 xs 0 = Some (map wire_uuid (chunks 16 xs))"
  using map_chunks [of 2, OF mk_uuid_wire(1)] map_chunks [of 4, OF mk_uuid_wire(2)] map_chunks [of 16, OF mk_uuid_wire(3)]
  by (simp_all only: uuid_list_map_chunks)

lemma tagged_data_spec:
  "tagged_data 2 mk_uuid16 xs = Some (if tagged 2 xs = [] then None else Some (hd (tagged 2 xs)))"
  "tagged_data 4 mk_uuid32 xs = Some (if tagged 4 xs = [] then None else Some (hd (tagged 4 xs)))"
  "tagged_data 16 mk_uuid128 xs = Some (if tagged 16 xs = [] then None else Some (hd (tagged 16 xs)))"
  by (auto simp: tagged_data_def tagged_def mk_uuid_wire)

lemma tagged_cases: "tagged w xs = [] \<or> (\<exists>sd. tagged w xs = [sd])"
  by (auto simp: tagged_def)

definition extends :: "espbt_device \<Rightarrow> (u8 \<times> bytes) list \<Rightarrow> espbt_device \<Rightarrow> bool" where
  "extends d ads d' \<longleftrightarrow>
     service_uuids d' = service_uuids d @ concat (map ad_uuids ads) \<and>
     manufacturer_datas d' = manufacturer_datas d @ concat (map ad_manufacturer ads) \<and>
     service_datas d' = service_datas d @ concat (map ad_service ads) \<and>
     tx_powers d' = tx_powers d @ concat (map ad_tx ads) \<and>
     dev_name d' = foldl longer_name (dev_name d) (concat (map ad_name ads)) \<and>
     ad_flag d' = last_of (ad_flag d) (concat (map ad_flags ads)) \<and>
     appearance d' = last_of (appearance d) (concat (map ad_appearance ads)) \<and>
     dev_address d' = dev_address d \<and> dev_rssi d' = dev_rssi d \<and> dev_address_type d' = dev_address_type d"

lemma handle_ad_extends:
  assumes "length xs < 256"
  shows "\<exists>d'. handle_ad t xs d = Some d' \<and> extends d [(t, xs)] d'"
proof -
  note [simp] = handle_ad_def extends_def ad_uuids_def ad_manufacturer_def ad_service_def ad_tx_def
    ad_name_def ad_flags_def ad_appearance_def last_of_def uuid_list_chunks [OF assms] tagged_data_spec
  note fields = add_service_uuids_def add_service_data_def add_manufacturer_data_def set_name_def
    longer_name_def MAX_ADV_NAME_LEN_def
  consider "t = 0x01" | "t = 0x08 \<or> t = 0x09" | "t = 0x0A" | "t = 0x19" | "t = 0x02 \<or> t = 0x03"
    | "t = 0x04 \<or> t = 0x05" | "t = 0x06 \<or> t = 0x07" | "t = 0xFF" | "t = 0x16" | "t = 0x20" | "t = 0x21"
    | "t \<notin> {0x01, 0x08, 0x09, 0x0A, 0x19, 0x02, 0x03, 0x04, 0x05, 0x06, 0x07, 0xFF, 0x16, 0x20, 0x21}"
    by blast
  then show ?thesis
  proof cases
    case 1
    then show ?thesis by (cases xs) (simp_all add: rd_def)
  next
    case 2
    then show ?thesis by (elim disjE) (simp_all add: fields)
  next
    case 3
    then show ?thesis by (cases xs) (simp_all add: rd_def)
  next
    case 4
    then show ?thesis by (simp add: rd_slice_def le_nat_word)
  next
    case 8
    then show ?thesis using tagged_cases [of 2 xs] by (elim disjE exE) (simp_all add: fields)
  next
    case 9
    then show ?thesis using tagged_cases [of 2 xs] by (elim disjE exE) (simp_all add: fields)
  next
    case 10
    then show ?thesis using tagged_cases [of 4 xs] by (elim disjE exE) (simp_all add: fields)
  next
    case 11
    then show ?thesis using tagged_cases [of 16 xs] by (elim disjE exE) (simp_all add: fields)
  next
    case 12
    then show ?thesis by simp
  qed (elim disjE; simp add: fields)+
qed

lemma extends_trans: "extends d ads d1 \<Longrightarrow> extends d1 ads' d2 \<Longrightarrow> extends d (ads @ ads') d2"
  by (auto simp: extends_def last_of_def)

lemma extends_refl: "extends d [] d"
  by (simp add: extends_def last_of_def)

section \<open>Payloads\<close>

text \<open>
  A payload: structures, each with its length byte, and zero bytes of padding anywhere between
  them (\<open>None\<close>); then a rest that is empty or a structure longer than what is left.
\<close>

primrec encode_ads :: "(u8 \<times> bytes) option list \<Rightarrow> bytes" where
  "encode_ads [] = []"
| "encode_ads (x # xs) =
     (case x of None \<Rightarrow> [0] | Some (t, bs) \<Rightarrow> of_nat (Suc (length bs)) # t # bs) @ encode_ads xs"

definition truncated :: "bytes \<Rightarrow> bool" where
  "truncated rest \<longleftrightarrow> rest = [] \<or> (hd rest \<noteq> 0 \<and> length rest \<le> unat (hd rest))"

lemma parse_adv_structures:
  assumes "length (pre @ encode_ads items @ rest) = unat len" "truncated rest"
    and "\<forall>x \<in> set items. case x of None \<Rightarrow> True | Some (t, bs) \<Rightarrow> length bs \<le> 254"
  shows "\<exists>d'. parse_adv (pre @ encode_ads items @ rest) len (length pre) d = Some d'
    \<and> extends d (map the (filter (\<lambda>x. x \<noteq> None) items)) d'"
  using assms(1,3)
proof (induction items arbitrary: pre d)
  case Nil
  then show ?case
    using assms(2)
    by (cases rest; subst parse_adv.simps) (auto simp: truncated_def rd_def nth_append extends_refl)
next
  case (Cons x items)
  show ?case
  proof (cases x)
    case None
    have "\<exists>d'. parse_adv ((pre @ [0]) @ encode_ads items @ rest) len (length (pre @ [0])) d = Some d'
        \<and> extends d (map the (filter (\<lambda>x. x \<noteq> None) items)) d'"
      using Cons.prems None by (intro Cons.IH) auto
    then show ?thesis
      using Cons.prems None by (subst parse_adv.simps) (simp add: rd_def nth_append)
  next
    case (Some a)
    obtain t bs where a: "a = (t, bs)" by (cases a)
    have l: "length bs \<le> 254" using Cons.prems(2) Some a by simp
    let ?n = "of_nat (Suc (length bs)) :: u8"
    have n: "unat ?n = Suc (length bs)" using l by (simp add: unat_of_nat del: of_nat_Suc)
    then have n0: "?n \<noteq> 0" by (metis nat.distinct(1) unat_0)
    let ?pre = "pre @ ?n # t # bs"
    obtain d1 where d1: "handle_ad t bs d = Some d1" "extends d [(t, bs)] d1"
      using handle_ad_extends [of bs t d] l by auto
    have "\<exists>d'. parse_adv (?pre @ encode_ads items @ rest) len (length ?pre) d1 = Some d'
        \<and> extends d1 (map the (filter (\<lambda>x. x \<noteq> None) items)) d'"
      using Cons.prems Some a by (intro Cons.IH) auto
    then obtain d' where d': "parse_adv (?pre @ encode_ads items @ rest) len (length ?pre) d1 = Some d'"
      "extends d1 (map the (filter (\<lambda>x. x \<noteq> None) items)) d'" by blast
    have p: "pre @ encode_ads (x # items) @ rest = ?pre @ encode_ads items @ rest"
      using Some a by simp
    have len: "unat len = length pre + 2 + length bs + length (encode_ads items) + length rest"
      using Cons.prems(1) Some a by simp
    have r: "rd (?pre @ encode_ads items @ rest) (length pre) = Some ?n"
      "rd (?pre @ encode_ads items @ rest) (Suc (length pre)) = Some t"
      "rd_slice (?pre @ encode_ads items @ rest) (Suc (Suc (length pre))) (length bs) = Some bs"
      by (simp_all add: nth_append)
    have "parse_adv (?pre @ encode_ads items @ rest) len (length pre) d
        = parse_adv (?pre @ encode_ads items @ rest) len (length ?pre) d1"
      using len n n0 d1(1)
      by (subst parse_adv.simps) (simp add: r del: rd_Some_iff rd_slice_Some_iff of_nat_Suc append_assoc append_Cons)
    with d' d1 Some a p show ?thesis
      using extends_trans [OF d1(2) d'(2)] by auto
  qed
qed

text \<open>Whatever the payload, parsing stays inside it and keeps the name inside its buffer.\<close>

lemma parse_adv_total:
  assumes "unat len \<le> length payload" "offset \<le> unat len" "length (dev_name d) \<le> 29"
  shows "\<exists>d'. parse_adv payload len offset d = Some d' \<and> length (dev_name d') \<le> 29"
  using assms
proof (induction payload len offset d rule: parse_adv.induct)
  case (1 payload len offset d)
  show ?case
  proof (cases "offset < unat len")
    case False
    then show ?thesis using 1 by (subst parse_adv.simps) simp
  next
    case True
    let ?n = "payload ! offset"
    have n: "rd payload offset = Some ?n" using True 1(3) by simp
    show ?thesis
    proof (cases "?n = 0")
      case z: True
      have "\<exists>d'. parse_adv payload len (offset + 1) d = Some d' \<and> length (dev_name d') \<le> 29"
        using 1(1) [OF True n z] 1(3-5) True by simp
      then show ?thesis using True z by (subst parse_adv.simps) (simp add: n del: rd_Some_iff)
    next
      case z: False
      show ?thesis
      proof (cases "unat len < offset + 1 + unat ?n")
        case t: True
        then show ?thesis using True z 1(5) by (subst parse_adv.simps) (simp add: n del: rd_Some_iff)
      next
        case t: False
        have pos: "0 < unat ?n" using z by (simp add: unat_gt_0)
        define bs where "bs = take (unat ?n - 1) (drop (offset + 2) payload)"
        have r: "rd payload (offset + 1) = Some (payload ! (offset + 1))"
          "rd_slice payload (offset + 2) (unat ?n - 1) = Some bs"
          using t pos 1(3) by (auto simp: bs_def)
        have "length bs \<le> unat ?n" by (simp add: bs_def)
        then have "length bs < 256" using unat_u8_lt [of ?n] by (rule le_less_trans)
        then obtain d1 where d1: "handle_ad (payload ! (offset + 1)) bs d = Some d1"
          using handle_ad_total by blast
        have l1: "length (dev_name d1) \<le> 29" using handle_ad_name [OF d1 1(5)] .
        have "\<exists>d'. parse_adv payload len (offset + 1 + unat ?n) d1 = Some d' \<and> length (dev_name d') \<le> 29"
          by (rule 1(2) [OF True n z t _ r(1) r(2) d1]) (use 1(3) l1 t in auto)
        then show ?thesis
          using True z t
          by (subst parse_adv.simps) (simp only: n r d1 option.case prod.case if_True if_False)
      qed
    qed
  qed
qed

lemma from_scan_result_total:
  assumes "unat data_len \<le> length data"
  shows "\<exists>d'. from_scan_result mac rssi addr_type data data_len d = Some d'
    \<and> length (dev_name d') \<le> MAX_ADV_NAME_LEN"
  unfolding from_scan_result_def MAX_ADV_NAME_LEN_def
  using parse_adv_total [of data_len data 0] assms by simp

text \<open>
  Parsing an advertisement is memory safe for every payload a controller can deliver, however
  malformed: no byte outside the payload is read, the loop counters of the UUID lists do not
  wrap, and the name stays inside its 30-byte buffer.
\<close>
theorem parse_adv_memory_safe:
  assumes "length data = unat data_len"
  shows "\<exists>d'. from_scan_result mac rssi addr_type data data_len d = Some d'
    \<and> length (dev_name d') \<le> MAX_ADV_NAME_LEN"
  by (rule from_scan_result_total) (simp add: assms)

theorem parse_adv_memory_safe_witness:
  "\<exists>d'. from_scan_result [1, 2, 3, 4, 5, 6] (- 60) 0 [2, 1, 6, 0, 9, 9, 65] 7 device0 = Some d'
    \<and> length (dev_name d') \<le> MAX_ADV_NAME_LEN"
  using parse_adv_memory_safe [of "[2, 1, 6, 0, 9, 9, 65]" 7] by simp

text \<open>
  C35. A well-formed advertisement is parsed to what it says. For structures of any types and
  values, with zero padding anywhere between them and a truncated structure at the end, the
  device gets, in order, every service UUID of the six list types at its width, every
  manufacturer and service datum with its UUID split off, every TX power; the flags and the appearance of
  the last structures that carry them, and none if there are none; the address in printable
  order; and of the names, the longest (the first among equals) in its first 29 bytes. Numbers of several
  bytes are read lowest byte first.
\<close>
theorem parse_adv_reads_structures:
  assumes "length (encode_ads items @ rest) = unat len" "truncated rest" "length mac = 6"
    and "\<forall>x \<in> set items. case x of None \<Rightarrow> True | Some (t, bs) \<Rightarrow> length bs \<le> 254"
    and "ads = map the (filter (\<lambda>x. x \<noteq> None) items)"
  shows "\<exists>d'. from_scan_result mac rssi addr_type (encode_ads items @ rest) len d = Some d'
    \<and> service_uuids d' = concat (map ad_uuids ads)
    \<and> manufacturer_datas d' = concat (map ad_manufacturer ads)
    \<and> service_datas d' = concat (map ad_service ads)
    \<and> tx_powers d' = concat (map ad_tx ads)
    \<and> dev_name d' = foldl longer_name [] (concat (map ad_name ads))
    \<and> ad_flag d' = last_of None (concat (map ad_flags ads))
    \<and> appearance d' = last_of None (concat (map ad_appearance ads))
    \<and> dev_address d' = rev mac \<and> dev_rssi d' = rssi \<and> dev_address_type d' = addr_type"
  using parse_adv_structures [of "[]" items rest len] assms
  unfolding from_scan_result_def
  by (fastforce simp: extends_def store_address_rev)

theorem parse_adv_reads_structures_witness:
  "\<exists>d'. from_scan_result [6, 5, 4, 3, 2, 1] (- 60) 1
       (encode_ads [Some (1, [6]), None, Some (3, [0x0F, 0x18]), Some (9, [65, 66]), Some (0x19, [0x40, 0x03])] @ [9, 9])
       18 device0 = Some d'
    \<and> service_uuids d' = [UUID16 0x180F] \<and> dev_name d' = [65, 66] \<and> dev_address d' = [1, 2, 3, 4, 5, 6]
    \<and> ad_flag d' = Some 6 \<and> appearance d' = Some 0x0340"
proof -
  let ?i = "[Some (1, [6]), None, Some (3, [0x0F, 0x18]), Some (9, [65, 66]), Some (0x19, [0x40, 0x03])]
    :: (u8 \<times> bytes) option list"
  let ?ads = "[(1, [6]), (3, [0x0F, 0x18]), (9, [65, 66]), (0x19, [0x40, 0x03])] :: (u8 \<times> bytes) list"
  have h: "length (encode_ads ?i @ [9, 9]) = unat (18 :: u16)" "truncated [9, 9]"
    "length [6 :: u8, 5, 4, 3, 2, 1] = 6"
    "\<forall>x \<in> set ?i. case x of None \<Rightarrow> True | Some (t, bs) \<Rightarrow> length bs \<le> 254"
    "?ads = map the (filter (\<lambda>x. x \<noteq> None) ?i)"
    by (simp_all add: truncated_def)
  have u: "concat (map ad_uuids ?ads) = [UUID16 0x180F]"
    by (simp add: ad_uuids_def chunks_def wire_uuid_def)
  have n: "foldl longer_name [] (concat (map ad_name ?ads)) = [65, 66]"
    by (simp add: ad_name_def longer_name_def)
  have f: "last_of None (concat (map ad_flags ?ads)) = Some 6"
    "last_of None (concat (map ad_appearance ?ads)) = Some 0x0340"
    by (simp_all add: ad_flags_def ad_appearance_def last_of_def)
  show ?thesis
    using parse_adv_reads_structures [OF h, of "- 60" 1 device0] unfolding u n f by auto
qed

end
