(* ===== verification/Ledger.thy ===== *)
theory Ledger
  imports Prelude "HOL-Library.Multiset"
begin

text \<open>
  Runs of a component's operations, and two interfaces of a component that is driven by operations:
  an invariant every operation keeps (\<open>kept\<close>), and a ledger (\<open>ledger\<close>): what operations bring in is
  either still held by the component or has been settled by its outputs, each item once.
\<close>

fun run_ops :: "('op \<Rightarrow> 's \<Rightarrow> 's \<times> 'o list) \<Rightarrow> 'op list \<Rightarrow> 's \<Rightarrow> 's \<times> 'o list" where
  "run_ops step [] s = (s, [])"
| "run_ops step (x # xs) s =
     (let (s, out) = step x s; (s, out') = run_ops step xs s in (s, out @ out'))"

lemma run_ops_append:
  "run_ops step (xs @ ys) s =
     (let (s, out) = run_ops step xs s; (s, out') = run_ops step ys s in (s, out @ out'))"
  by (induction xs arbitrary: s) (auto split: prod.splits)

locale kept =
  fixes step :: "'op \<Rightarrow> 's \<Rightarrow> 's \<times> 'o list"
    and inv :: "'s \<Rightarrow> bool"
  assumes step_inv: "inv s \<Longrightarrow> inv (fst (step x s))"
begin

lemma run_inv: "inv s \<Longrightarrow> inv (fst (run_ops step xs s))"
proof (induction xs arbitrary: s)
  case (Cons x xs)
  have "inv (fst (step x s))" by (rule step_inv [OF Cons.prems])
  from Cons.IH [OF this] show ?case by (simp add: split_beta Let_def)
qed simp

lemma run_inv_all:
  "inv s \<Longrightarrow> run_ops step (xs @ ys) s = (s', out) \<Longrightarrow> inv (fst (run_ops step xs s)) \<and> inv s'"
  using run_inv [of s xs] run_inv [of s "xs @ ys"] by simp

end

text \<open>
  \<open>settles src out\<close>: the outputs \<open>out\<close> account for exactly the items \<open>src\<close>, in order.
\<close>

locale ledger = kept step inv
  for step :: "'op \<Rightarrow> 's \<Rightarrow> 's \<times> 'o list" and inv :: "'s \<Rightarrow> bool" +
  fixes holds :: "'s \<Rightarrow> 'a multiset"
    and income :: "'op \<Rightarrow> 'a multiset"
    and settles :: "'a list \<Rightarrow> 'o list \<Rightarrow> bool"
  assumes settles_nil: "settles [] []"
    and settles_append: "settles src out \<Longrightarrow> settles src' out' \<Longrightarrow> settles (src @ src') (out @ out')"
    and step_balance: "inv s \<Longrightarrow> step x s = (s', out) \<Longrightarrow>
           \<exists>src. settles src out \<and> mset src + holds s' = holds s + income x"
begin

lemma run_balance:
  assumes "inv s" and "run_ops step xs s = (s', out)"
  shows "\<exists>src. settles src out \<and> mset src + holds s' = holds s + \<Sum>\<^sub># (mset (map income xs))"
  using assms
proof (induction xs arbitrary: s out)
  case Nil
  then show ?case using settles_nil by (auto intro!: exI [of _ "[]"])
next
  case (Cons x xs)
  obtain s1 out1 out2 where x: "step x s = (s1, out1)" and r: "run_ops step xs s1 = (s', out2)"
    and out: "out = out1 @ out2"
    using Cons.prems(2) by (auto split: prod.splits)
  obtain src1 where 1: "settles src1 out1" "mset src1 + holds s1 = holds s + income x"
    using step_balance [OF Cons.prems(1) x] by blast
  have "inv s1" using step_inv [OF Cons.prems(1), of x] x by simp
  from Cons.IH [OF this r] obtain src2 where
    2: "settles src2 out2" "mset src2 + holds s' = holds s1 + \<Sum>\<^sub># (mset (map income xs))" by blast
  have "settles (src1 @ src2) out" using settles_append [OF 1(1) 2(1)] out by simp
  moreover have "mset (src1 @ src2) + holds s' = holds s + \<Sum>\<^sub># (mset (map income (x # xs)))"
    using 1(2) 2(2) by (simp add: ac_simps)
  ultimately show ?case by blast
qed

end

end
