(* ===== verification/ScanMerger.thy ===== *)
theory ScanMerger
  imports BleAdvert Ledger
begin

text \<open>
  \<open>ScanResponseMerger\<close> and \<open>AdvDispatcher\<close> (components/ble_device_base/scan_response_merger.h and
  .cpp): a scannable advertisement is held until its scan response arrives and the two are
  delivered as one frame. The merger's operations return the frames they deliver, in order; the
  clock is the 32-bit millisecond clock of the caller.
\<close>

section \<open>State\<close>

definition MAX_PENDING_ADV :: nat where "MAX_PENDING_ADV = 8"
definition PENDING_ADV_TIMEOUT_MS :: u32 where "PENDING_ADV_TIMEOUT_MS = 300"
definition PENDING_DATA_SIZE :: nat where "PENDING_DATA_SIZE = 62"

text \<open>\<open>pa_data\<close>: the first \<open>data_len\<close> bytes of the 62-byte buffer; the rest is never read.\<close>

record pending_adv =
  pa_used :: bool
  pa_mac :: bytes
  pa_addr_type :: u8
  pa_rssi :: u8
  pa_data :: bytes
  stored_ms :: u32

record scan_merger =
  dispatcher_bound :: bool
  pending_advs :: "pending_adv list"
  pending_count :: u8

text \<open>A call of \<open>dispatch\<close>; \<open>fr_log\<close>: whether the log tag is passed.\<close>

record frame =
  fr_mac :: bytes
  fr_rssi :: u8
  fr_addr_type :: u8
  fr_data :: bytes
  fr_raw_only :: bool
  fr_log :: bool

definition merger_init :: scan_merger where
  "merger_init = \<lparr>dispatcher_bound = False,
     pending_advs = replicate MAX_PENDING_ADV \<lparr>pa_used = False, pa_mac = replicate 6 0, pa_addr_type = 0,
        pa_rssi = 0, pa_data = [], stored_ms = 0\<rparr>,
     pending_count = 0\<rparr>"

definition bind_merger :: "scan_merger \<Rightarrow> scan_merger" where
  "bind_merger m = m\<lparr>dispatcher_bound := True\<rparr>"

definition merger_empty :: "scan_merger \<Rightarrow> bool" where
  "merger_empty m \<longleftrightarrow> pending_count m = 0"

section \<open>Operations\<close>

text \<open>\<open>cont\<close> is the value of \<open>*scan_continuous_\<close> at the delivery.\<close>

definition deliver ::
  "bool \<Rightarrow> scan_merger \<Rightarrow> bytes \<Rightarrow> u8 \<Rightarrow> u8 \<Rightarrow> bytes \<Rightarrow> bool \<Rightarrow> frame list" where
  "deliver cont m mac rssi addr_type data raw_only =
     (if \<not> dispatcher_bound m then []
      else [\<lparr>fr_mac = mac, fr_rssi = rssi, fr_addr_type = addr_type, fr_data = data,
             fr_raw_only = raw_only, fr_log = (\<not> cont)\<rparr>])"

definition same_device :: "bytes \<Rightarrow> u8 \<Rightarrow> pending_adv \<Rightarrow> bool" where
  "same_device mac addr_type p \<longleftrightarrow> pa_used p \<and> pa_addr_type p = addr_type \<and> pa_mac p = mac"

text \<open>
  The pass of \<open>stash_adv\<close>: the index of the first same-device entry, and of the first free slot
  seen before it.
\<close>

fun find_slots :: "bytes \<Rightarrow> u8 \<Rightarrow> nat \<Rightarrow> pending_adv list \<Rightarrow> nat option \<Rightarrow> nat option \<times> nat option" where
  "find_slots mac at i [] free = (None, free)"
| "find_slots mac at i (p # ps) free =
     (if \<not> pa_used p then find_slots mac at (i + 1) ps (if free = None then Some i else free)
      else if pa_addr_type p = at \<and> pa_mac p = mac then (Some i, free)
      else find_slots mac at (i + 1) ps free)"

definition release_slot :: "nat \<Rightarrow> scan_merger \<Rightarrow> scan_merger" where
  "release_slot i m = m\<lparr>pending_advs := (pending_advs m)[i := (pending_advs m ! i)\<lparr>pa_used := False\<rparr>],
     pending_count := pending_count m - 1\<rparr>"

definition fill_slot :: "nat \<Rightarrow> bytes \<Rightarrow> u8 \<Rightarrow> u8 \<Rightarrow> bytes \<Rightarrow> u32 \<Rightarrow> scan_merger \<Rightarrow> scan_merger" where
  "fill_slot i mac rssi addr_type data now m =
     m\<lparr>pending_advs := (pending_advs m)[i := \<lparr>pa_used = True, pa_mac = mac, pa_addr_type = addr_type,
          pa_rssi = rssi, pa_data = take PENDING_DATA_SIZE data, stored_ms = now\<rparr>],
       pending_count := pending_count m + 1\<rparr>"

definition deliver_held :: "bool \<Rightarrow> scan_merger \<Rightarrow> pending_adv \<Rightarrow> frame list" where
  "deliver_held cont m p = deliver cont m (pa_mac p) (pa_rssi p) (pa_addr_type p) (pa_data p) False"

definition stash_adv ::
  "bool \<Rightarrow> bytes \<Rightarrow> u8 \<Rightarrow> u8 \<Rightarrow> bytes \<Rightarrow> u32 \<Rightarrow> scan_merger \<Rightarrow> scan_merger \<times> frame list" where
  "stash_adv cont mac rssi addr_type data now m =
     (case find_slots mac addr_type 0 (pending_advs m) None of
        (Some i, _) \<Rightarrow>
          (fill_slot i mac rssi addr_type data now (release_slot i m),
           deliver_held cont m (pending_advs m ! i))
      | (None, Some i) \<Rightarrow> (fill_slot i mac rssi addr_type data now m, [])
      | (None, None) \<Rightarrow> (m, deliver cont m mac rssi addr_type data False))"

fun find_same :: "bytes \<Rightarrow> u8 \<Rightarrow> nat \<Rightarrow> pending_adv list \<Rightarrow> nat option" where
  "find_same mac at i [] = None"
| "find_same mac at i (p # ps) = (if same_device mac at p then Some i else find_same mac at (i + 1) ps)"

definition submit_scan_rsp ::
  "bool \<Rightarrow> bytes \<Rightarrow> u8 \<Rightarrow> u8 \<Rightarrow> bytes \<Rightarrow> scan_merger \<Rightarrow> scan_merger \<times> frame list" where
  "submit_scan_rsp cont mac rssi addr_type data m =
     (case (if pending_count m \<noteq> 0 then find_same mac addr_type 0 (pending_advs m) else None) of
        Some i \<Rightarrow>
          let p = pending_advs m ! i;
              room = PENDING_DATA_SIZE - length (pa_data p);
              add = (if length data \<le> room then length data else room)
          in (release_slot i m,
              deliver cont m mac (pa_rssi p) addr_type (pa_data p @ take add data) False)
      | None \<Rightarrow> (m, deliver cont m mac rssi addr_type data True))"

text \<open>The loops of \<open>sweep\<close> and \<open>flush\<close>: every used entry that is due is released and delivered.\<close>

fun release_due ::
  "(pending_adv \<Rightarrow> bool) \<Rightarrow> bool \<Rightarrow> nat \<Rightarrow> pending_adv list \<Rightarrow> scan_merger \<Rightarrow> scan_merger \<times> frame list" where
  "release_due due cont i [] m = (m, [])"
| "release_due due cont i (p # ps) m =
     (if pa_used p \<and> due p then
        let (m', out) = release_due due cont (i + 1) ps (release_slot i m)
        in (m', deliver_held cont m p @ out)
      else release_due due cont (i + 1) ps m)"

definition sweep :: "bool \<Rightarrow> u32 \<Rightarrow> scan_merger \<Rightarrow> scan_merger \<times> frame list" where
  "sweep cont now m =
     (if pending_count m = 0 then (m, [])
      else release_due (\<lambda>p. PENDING_ADV_TIMEOUT_MS < now - stored_ms p) cont 0 (pending_advs m) m)"

definition flush :: "bool \<Rightarrow> scan_merger \<Rightarrow> scan_merger \<times> frame list" where
  "flush cont m =
     (if pending_count m = 0 then (m, [])
      else release_due (\<lambda>p. True) cont 0 (pending_advs m) m)"

section \<open>The dispatcher\<close>

text \<open>
  The raw callback, the listeners (what each makes of a device: claimed or not) and the log of
  discovered devices. A dispatch calls the raw subscriber, then every listener, then perhaps logs.
\<close>

record raw_advertisement =
  ra_address :: u64
  ra_data :: bytes
  ra_rssi :: u8
  ra_addr_type :: u8

record dispatcher =
  raw_callback_set :: bool
  listeners :: "(espbt_device \<Rightarrow> bool) list"
  discovered_log :: "u64 list"

record dispatch_result =
  raw_sent :: "raw_advertisement list"
  parsed :: "espbt_device list"
  logged :: bool

definition register_listener :: "(espbt_device \<Rightarrow> bool) \<Rightarrow> dispatcher \<Rightarrow> dispatcher" where
  "register_listener l d = d\<lparr>listeners := listeners d @ [l]\<rparr>"

definition set_raw_advertisement_callback :: "bool \<Rightarrow> dispatcher \<Rightarrow> dispatcher" where
  "set_raw_advertisement_callback b d = d\<lparr>raw_callback_set := b\<rparr>"

definition raw_of :: "frame \<Rightarrow> raw_advertisement" where
  "raw_of f = \<lparr>ra_address = mac_lsb_first_to_uint64 (fr_mac f), ra_data = fr_data f,
     ra_rssi = fr_rssi f, ra_addr_type = fr_addr_type f\<rparr>"

definition dispatch :: "frame \<Rightarrow> dispatcher \<Rightarrow> (dispatcher \<times> dispatch_result) option" where
  "dispatch f d =
     (let raw = (if raw_callback_set d then [raw_of f] else [])
      in if fr_raw_only f then Some (d, \<lparr>raw_sent = raw, parsed = [], logged = False\<rparr>)
         else case from_scan_result (fr_mac f) (sint (fr_rssi f)) (fr_addr_type f) (fr_data f)
                     (of_nat (length (fr_data f))) device0 of
           None \<Rightarrow> None
         | Some device \<Rightarrow>
             let found = list_ex (\<lambda>l. l device) (listeners d);
                 (lg, lged) = (if \<not> found \<and> fr_log f then log_device device (discovered_log d)
                               else (discovered_log d, False))
             in Some (d\<lparr>discovered_log := lg\<rparr>, \<lparr>raw_sent = raw, parsed = [device], logged = lged\<rparr>))"

text \<open>Every listener's \<open>on_scan_end\<close> is called (their number), and the log is reset.\<close>

definition on_scan_end :: "dispatcher \<Rightarrow> dispatcher \<times> nat" where
  "on_scan_end d = (d\<lparr>discovered_log := clear_discovered (discovered_log d)\<rparr>, length (listeners d))"

section \<open>Runs of the merger\<close>

datatype merger_op =
  Stash_adv bool bytes u8 u8 bytes u32
| Submit_scan_rsp bool bytes u8 u8 bytes
| Sweep bool u32
| Flush bool

fun merger_step :: "merger_op \<Rightarrow> scan_merger \<Rightarrow> scan_merger \<times> frame list" where
  "merger_step (Stash_adv c mac rssi at data now) m = stash_adv c mac rssi at data now m"
| "merger_step (Submit_scan_rsp c mac rssi at data) m = submit_scan_rsp c mac rssi at data m"
| "merger_step (Sweep c now) m = sweep c now m"
| "merger_step (Flush c) m = flush c m"

abbreviation merger_run :: "merger_op list \<Rightarrow> scan_merger \<Rightarrow> scan_merger \<times> frame list" where
  "merger_run \<equiv> run_ops merger_step"

section \<open>The slots\<close>

lemma fst_find_slots: "fst (find_slots mac at i ps free) = find_same mac at i ps"
  by (induction ps arbitrary: i free) (auto simp: same_device_def)

lemma find_same_Some:
  "find_same mac at i ps = Some k \<Longrightarrow> i \<le> k \<and> k - i < length ps \<and> same_device mac at (ps ! (k - i))"
proof (induction ps arbitrary: i)
  case (Cons p ps)
  show ?case
  proof (cases "same_device mac at p")
    case False
    then have "find_same mac at (i + 1) ps = Some k" using Cons.prems by simp
    from Cons.IH [OF this] show ?thesis by (auto simp: nth_Cons')
  qed (use Cons.prems in simp)
qed simp

lemma find_same_None: "find_same mac at i ps = None \<longleftrightarrow> (\<forall>p \<in> set ps. \<not> same_device mac at p)"
  by (induction ps arbitrary: i) auto

lemma find_slots_free:
  "find_slots mac at i ps free = (None, Some k) \<Longrightarrow>
     free = Some k \<or> (i \<le> k \<and> k - i < length ps \<and> \<not> pa_used (ps ! (k - i)))"
proof (induction ps arbitrary: i free)
  case (Cons p ps)
  show ?case
  proof (cases "pa_used p")
    case True
    then have "find_slots mac at (i + 1) ps free = (None, Some k)"
      using Cons.prems by (simp split: if_splits)
    from Cons.IH [OF this] show ?thesis by (auto simp: nth_Cons')
  next
    case False
    then have "find_slots mac at (i + 1) ps (if free = None then Some i else free) = (None, Some k)"
      using Cons.prems by simp
    from Cons.IH [OF this] False show ?thesis
      by (auto simp: nth_Cons' split: if_splits)
  qed
qed simp

lemma find_slots_full:
  "find_slots mac at i ps free = (None, None) \<Longrightarrow> free = None \<and> (\<forall>p \<in> set ps. pa_used p)"
  by (induction ps arbitrary: i free) (fastforce split: if_splits)+

section \<open>The invariant\<close>

text \<open>
  Eight slots; the counter is the number of used slots; a device is held at most once; what is
  held fits its buffer.
\<close>

definition merger_wf :: "scan_merger \<Rightarrow> bool" where
  "merger_wf m \<longleftrightarrow>
     length (pending_advs m) = MAX_PENDING_ADV \<and>
     pending_count m = of_nat (length (filter pa_used (pending_advs m))) \<and>
     (\<forall>i < length (pending_advs m). \<forall>j < length (pending_advs m).
        pa_used (pending_advs m ! i) \<and> pa_used (pending_advs m ! j) \<and>
        pa_mac (pending_advs m ! i) = pa_mac (pending_advs m ! j) \<and>
        pa_addr_type (pending_advs m ! i) = pa_addr_type (pending_advs m ! j) \<longrightarrow> i = j) \<and>
     (\<forall>p \<in> set (pending_advs m). length (pa_data p) \<le> PENDING_DATA_SIZE)"

lemma merger_wf_init: "merger_wf (bind_merger merger_init)"
  by (simp add: merger_wf_def merger_init_def bind_merger_def)

lemma merger_wf_release:
  assumes wf: "merger_wf m" and i: "i < length (pending_advs m)" and u: "pa_used (pending_advs m ! i)"
  shows "merger_wf (release_slot i m)"
proof -
  have "length (filter pa_used (pending_advs (release_slot i m))) + 1 = length (filter pa_used (pending_advs m))"
    using length_filter_update [OF i, of pa_used "(pending_advs m ! i)\<lparr>pa_used := False\<rparr>"] u
    by (simp add: release_slot_def)
  then have "(of_nat (length (filter pa_used (pending_advs (release_slot i m)))) :: u8) + 1
      = of_nat (length (filter pa_used (pending_advs m)))"
    by (metis of_nat_1 of_nat_add)
  then have "pending_count (release_slot i m) = of_nat (length (filter pa_used (pending_advs (release_slot i m))))"
    using wf by (simp add: merger_wf_def release_slot_def algebra_simps)
  moreover have "set (pending_advs (release_slot i m)) \<subseteq> insert ((pending_advs m ! i)\<lparr>pa_used := False\<rparr>) (set (pending_advs m))"
    by (simp add: release_slot_def set_update_subset_insert)
  ultimately show ?thesis
    using wf i by (auto simp: merger_wf_def release_slot_def nth_list_update)
qed

lemma merger_wf_fill:
  assumes wf: "merger_wf m" and i: "i < length (pending_advs m)" and u: "\<not> pa_used (pending_advs m ! i)"
    and new: "\<forall>p \<in> set (pending_advs m). \<not> same_device mac at p"
  shows "merger_wf (fill_slot i mac rssi at data now m)"
proof -
  let ?m = "fill_slot i mac rssi at data now m"
  let ?p = "\<lparr>pa_used = True, pa_mac = mac, pa_addr_type = at,
          pa_rssi = rssi, pa_data = take PENDING_DATA_SIZE data, stored_ms = now\<rparr>"
  have "length (filter pa_used (pending_advs ?m)) = length (filter pa_used (pending_advs m)) + 1"
    using length_filter_update [OF i, of pa_used ?p] u by (simp add: fill_slot_def)
  then have "pending_count ?m = of_nat (length (filter pa_used (pending_advs ?m)))"
    using wf by (simp add: merger_wf_def fill_slot_def algebra_simps)
  moreover have "set (pending_advs ?m) \<subseteq> insert ?p (set (pending_advs m))"
    by (simp add: fill_slot_def set_update_subset_insert)
  moreover have "\<forall>j < length (pending_advs m). \<not> same_device mac at (pending_advs m ! j)"
    using new by simp
  ultimately show ?thesis
    using wf i by (auto simp: merger_wf_def fill_slot_def nth_list_update same_device_def)
qed

section \<open>What a call does to the held advertisements\<close>

text \<open>
  An advertisement as the merger holds it, and the relation between an advertisement and the frame
  that finally carries it: same device, same signal strength, its bytes first, at most
  \<open>PENDING_DATA_SIZE\<close> bytes unless it was delivered as it came.
\<close>

type_synonym adv = "bytes \<times> u8 \<times> u8 \<times> bytes"

definition adv_of :: "pending_adv \<Rightarrow> adv" where
  "adv_of p = (pa_mac p, pa_addr_type p, pa_rssi p, pa_data p)"

definition clip_adv :: "bytes \<Rightarrow> u8 \<Rightarrow> u8 \<Rightarrow> bytes \<Rightarrow> adv" where
  "clip_adv mac at rssi data = (mac, at, rssi, take PENDING_DATA_SIZE data)"

definition held :: "scan_merger \<Rightarrow> adv multiset" where
  "held m = mset (map adv_of (filter pa_used (pending_advs m)))"

fun carries :: "adv \<Rightarrow> frame \<Rightarrow> bool" where
  "carries (mac, at, rssi, data) f \<longleftrightarrow>
     fr_mac f = mac \<and> fr_addr_type f = at \<and> fr_rssi f = rssi \<and> \<not> fr_raw_only f \<and>
     (\<exists>rest. fr_data f = data @ rest)"

fun stashed :: "merger_op \<Rightarrow> adv multiset" where
  "stashed (Stash_adv c mac rssi at data now) = {#clip_adv mac at rssi data#}"
| "stashed _ = {#}"

abbreviation full_frames :: "frame list \<Rightarrow> frame list" where
  "full_frames \<equiv> filter (\<lambda>f. \<not> fr_raw_only f)"

definition held_frame :: "bool \<Rightarrow> pending_adv \<Rightarrow> frame" where
  "held_frame cont p = \<lparr>fr_mac = pa_mac p, fr_rssi = pa_rssi p, fr_addr_type = pa_addr_type p,
     fr_data = pa_data p, fr_raw_only = False, fr_log = (\<not> cont)\<rparr>"

lemma deliver_held_bound: "dispatcher_bound m \<Longrightarrow> deliver_held cont m p = [held_frame cont p]"
  by (simp add: deliver_held_def deliver_def held_frame_def)

lemma carries_held_frame [simp]: "carries (adv_of p) (held_frame cont p)"
  by (simp add: adv_of_def held_frame_def)

lemma mset_filter_update:
  assumes "i < length xs"
  shows "mset (filter P (xs[i := x])) + (if P (xs ! i) then {#xs ! i#} else {#})
       = mset (filter P xs) + (if P x then {#x#} else {#})"
  using assms
proof (induction xs arbitrary: i)
  case (Cons y ys)
  show ?case
  proof (cases i)
    case (Suc k)
    with Cons.prems Cons.IH [of k] show ?thesis by (auto split: if_splits)
  qed auto
qed simp

lemma held_release:
  assumes "i < length (pending_advs m)" and "pa_used (pending_advs m ! i)"
  shows "held (release_slot i m) + {#adv_of (pending_advs m ! i)#} = held m"
proof -
  let ?q = "(pending_advs m ! i)\<lparr>pa_used := False\<rparr>"
  have "mset (filter pa_used ((pending_advs m)[i := ?q])) + {#pending_advs m ! i#}
      = mset (filter pa_used (pending_advs m))"
    using mset_filter_update [OF assms(1), of pa_used ?q] assms(2) by simp
  from arg_cong [OF this, of "image_mset adv_of"] show ?thesis
    by (simp add: held_def release_slot_def)
qed

lemma held_fill:
  assumes "i < length (pending_advs m)" and "\<not> pa_used (pending_advs m ! i)"
  shows "held (fill_slot i mac rssi at data now m) = held m + {#clip_adv mac at rssi data#}"
proof -
  let ?q = "\<lparr>pa_used = True, pa_mac = mac, pa_addr_type = at,
          pa_rssi = rssi, pa_data = take PENDING_DATA_SIZE data, stored_ms = now\<rparr>"
  have "mset (filter pa_used ((pending_advs m)[i := ?q])) = mset (filter pa_used (pending_advs m)) + {#?q#}"
    using mset_filter_update [OF assms(1), of pa_used ?q] assms(2) by simp
  from arg_cong [OF this, of "image_mset adv_of"] show ?thesis
    by (simp add: held_def fill_slot_def adv_of_def clip_adv_def)
qed

lemma release_slot_simps [simp]:
  "dispatcher_bound (release_slot i m) = dispatcher_bound m"
  "length (pending_advs (release_slot i m)) = length (pending_advs m)"
  by (simp_all add: release_slot_def)

lemma fill_slot_simps [simp]:
  "dispatcher_bound (fill_slot i mac rssi at data now m) = dispatcher_bound m"
  "length (pending_advs (fill_slot i mac rssi at data now m)) = length (pending_advs m)"
  by (simp_all add: fill_slot_def)

text \<open>The whole effect of the loop of \<open>sweep\<close> and \<open>flush\<close>.\<close>

lemma release_due_effect:
  assumes "merger_wf m" and "pending_advs m = pre @ ps" and "length pre = i" and "dispatcher_bound m"
    and "release_due due cont i ps m = (m', out)"
  shows "merger_wf m' \<and> dispatcher_bound m' \<and>
         pending_advs m' = pre @ map (\<lambda>p. if pa_used p \<and> due p then p\<lparr>pa_used := False\<rparr> else p) ps \<and>
         out = map (held_frame cont) (filter (\<lambda>p. pa_used p \<and> due p) ps) \<and>
         mset (map adv_of (filter (\<lambda>p. pa_used p \<and> due p) ps)) + held m' = held m"
  using assms
proof (induction ps arbitrary: i m pre m' out)
  case (Cons p ps)
  have i: "i < length (pending_advs m)" and nth: "pending_advs m ! i = p"
    using Cons.prems by (auto simp: nth_append)
  show ?case
  proof (cases "pa_used p \<and> due p")
    case False
    have "release_due due cont (i + 1) ps m = (m', out)"
      using Cons.prems(5) by (simp only: release_due.simps(2) if_not_P [OF False])
    from Cons.IH [OF Cons.prems(1) _ _ Cons.prems(4) this, of "pre @ [p]"] Cons.prems(2,3) False
    show ?thesis by auto
  next
    case True
    let ?m = "release_slot i m"
    obtain out' where r: "release_due due cont (i + 1) ps ?m = (m', out')"
      and out: "out = deliver_held cont m p @ out'"
      using Cons.prems(5) True by (auto split: prod.splits)
    have wf: "merger_wf ?m"
      using merger_wf_release [OF Cons.prems(1) i] True nth by simp
    have advs: "pending_advs ?m = (pre @ [p\<lparr>pa_used := False\<rparr>]) @ ps"
      using Cons.prems(2,3) by (simp add: release_slot_def list_update_append nth_append)
    have b: "dispatcher_bound ?m" using Cons.prems(4) by simp
    from Cons.IH [OF wf advs _ b r] Cons.prems(3) True out held_release [OF i] nth
      deliver_held_bound [OF Cons.prems(4)]
    show ?thesis by (auto simp: ac_simps)
  qed
qed simp

lemma merger_empty_iff:
  assumes "merger_wf m"
  shows "merger_empty m \<longleftrightarrow> (\<forall>p \<in> set (pending_advs m). \<not> pa_used p)"
proof -
  have "length (filter pa_used (pending_advs m)) \<le> 8"
    using assms length_filter_le [of pa_used "pending_advs m"] by (simp add: merger_wf_def MAX_PENDING_ADV_def)
  then have "(of_nat (length (filter pa_used (pending_advs m))) :: u8) = 0
      \<longleftrightarrow> length (filter pa_used (pending_advs m)) = 0"
    by (auto simp: word_of_nat_eq_0_iff dest: dvd_imp_le)
  then show ?thesis using assms by (auto simp: merger_wf_def merger_empty_def filter_empty_conv)
qed

lemma merger_empty_held: "merger_wf m \<Longrightarrow> merger_empty m \<Longrightarrow> held m = {#}"
  by (simp add: merger_empty_iff held_def)

text \<open>A released scan sweep or flush, with or without the fast path.\<close>

lemma release_all_effect:
  assumes wf: "merger_wf m" and b: "dispatcher_bound m"
    and r: "(if pending_count m = 0 then (m, []) else release_due due cont 0 (pending_advs m) m) = (m', out)"
  shows "merger_wf m' \<and> dispatcher_bound m' \<and>
         pending_advs m' = map (\<lambda>p. if pa_used p \<and> due p then p\<lparr>pa_used := False\<rparr> else p) (pending_advs m) \<and>
         out = map (held_frame cont) (filter (\<lambda>p. pa_used p \<and> due p) (pending_advs m)) \<and>
         mset (map adv_of (filter (\<lambda>p. pa_used p \<and> due p) (pending_advs m))) + held m' = held m"
proof (cases "pending_count m = 0")
  case True
  then have "\<forall>p \<in> set (pending_advs m). \<not> pa_used p"
    using wf merger_empty_iff by (simp add: merger_empty_def)
  moreover from this have "filter (\<lambda>p. pa_used p \<and> due p) (pending_advs m) = []"
    by (auto simp: filter_empty_conv)
  moreover from calculation have
    "map (\<lambda>p. if pa_used p \<and> due p then p\<lparr>pa_used := False\<rparr> else p) (pending_advs m) = pending_advs m"
    by (auto intro: map_idI)
  ultimately show ?thesis using True r wf b by simp
next
  case False
  then have "release_due due cont 0 (pending_advs m) m = (m', out)" using r by simp
  from release_due_effect [OF wf _ _ b this, of "[]"] show ?thesis by simp
qed

text \<open>What one call keeps: the invariant, and every advertisement either held or delivered.\<close>

definition conserving :: "scan_merger \<Rightarrow> adv multiset \<Rightarrow> scan_merger \<Rightarrow> frame list \<Rightarrow> bool" where
  "conserving m new m' out \<longleftrightarrow>
     merger_wf m' \<and> dispatcher_bound m' \<and>
     (\<exists>src. list_all2 carries src (full_frames out) \<and> mset src + held m' = held m + new)"

lemma full_frames_held [simp]: "full_frames (map (held_frame c) ps) = map (held_frame c) ps"
  by (induction ps) (auto simp: held_frame_def)

lemma conserving_release_all:
  assumes "merger_wf m" "dispatcher_bound m"
    and "(if pending_count m = 0 then (m, []) else release_due due cont 0 (pending_advs m) m) = (m', out)"
  shows "conserving m {#} m' out"
proof -
  let ?ps = "filter (\<lambda>p. pa_used p \<and> due p) (pending_advs m)"
  note e = release_all_effect [OF assms]
  have "list_all2 carries (map adv_of ?ps) (full_frames out)"
    using e by (simp add: list_all2_map1 list_all2_map2 list.rel_refl)
  then show ?thesis using e unfolding conserving_def by auto
qed

lemma conserving_stash:
  assumes wf: "merger_wf m" and b: "dispatcher_bound m"
    and r: "stash_adv cont mac rssi at data now m = (m', out)"
  shows "conserving m {#clip_adv mac at rssi data#} m' out"
proof (cases "find_slots mac at 0 (pending_advs m) None")
  case (Pair same free)
  have same: "find_same mac at 0 (pending_advs m) = same"
    using fst_find_slots [of mac at 0 "pending_advs m" None] Pair by simp
  show ?thesis
  proof (cases same)
    case (Some i)
    then have i: "i < length (pending_advs m)" and sd: "same_device mac at (pending_advs m ! i)"
      using find_same_Some [of mac at 0 "pending_advs m" i] same by auto
    then have u: "pa_used (pending_advs m ! i)" by (simp add: same_device_def)
    let ?r = "release_slot i m"
    have wfr: "merger_wf ?r" by (rule merger_wf_release [OF wf i u])
    have iu: "i < length (pending_advs ?r)" "\<not> pa_used (pending_advs ?r ! i)"
      using i by (simp_all add: release_slot_def)
    have "\<not> same_device mac at (pending_advs ?r ! j)" if "j < length (pending_advs m)" for j
      using wf sd that i unfolding merger_wf_def same_device_def release_slot_def
      by (cases "j = i") auto
    then have new: "\<forall>p \<in> set (pending_advs ?r). \<not> same_device mac at p"
      by (auto simp: in_set_conv_nth)
    have "m' = fill_slot i mac rssi at data now ?r" and "out = [held_frame cont (pending_advs m ! i)]"
      using r Pair Some deliver_held_bound [OF b] by (auto simp: stash_adv_def)
    then show ?thesis
      using merger_wf_fill [OF wfr iu new] held_fill [OF iu] held_release [OF i u] b
      unfolding conserving_def
      by (auto simp: held_frame_def adv_of_def list_all2_Cons2 intro!: exI [of _ "[adv_of (pending_advs m ! i)]"])
  next
    case None
    then have new: "\<forall>p \<in> set (pending_advs m). \<not> same_device mac at p"
      using same find_same_None by metis
    show ?thesis
    proof (cases free)
      case None2: None
      then have "m' = m" and "out = deliver cont m mac rssi at data False"
        using r Pair None by (auto simp: stash_adv_def)
      then show ?thesis using wf b unfolding conserving_def
        by (auto simp: deliver_def clip_adv_def intro!: exI [of _ "[clip_adv mac at rssi data]"]
                 exI [of _ "drop PENDING_DATA_SIZE data"])
    next
      case (Some i)
      then have i: "i < length (pending_advs m)" "\<not> pa_used (pending_advs m ! i)"
        using find_slots_free [of mac at 0 "pending_advs m" None i] Pair None by auto
      have "m' = fill_slot i mac rssi at data now m" and "out = []"
        using r Pair None Some by (auto simp: stash_adv_def)
      then show ?thesis
        using merger_wf_fill [OF wf i new] held_fill [OF i] b unfolding conserving_def by auto
    qed
  qed
qed

text \<open>The two outcomes of a scan response, decided by whether its device is held.\<close>

definition merged_frame :: "bool \<Rightarrow> pending_adv \<Rightarrow> bytes \<Rightarrow> frame" where
  "merged_frame cont p rsp = (held_frame cont p)\<lparr>fr_data := pa_data p @ take (PENDING_DATA_SIZE - length (pa_data p)) rsp\<rparr>"

definition raw_frame :: "bool \<Rightarrow> bytes \<Rightarrow> u8 \<Rightarrow> u8 \<Rightarrow> bytes \<Rightarrow> frame" where
  "raw_frame cont mac rssi at data = \<lparr>fr_mac = mac, fr_rssi = rssi, fr_addr_type = at, fr_data = data,
     fr_raw_only = True, fr_log = (\<not> cont)\<rparr>"

lemma submit_unmatched:
  assumes "dispatcher_bound m" and "\<forall>p \<in> set (pending_advs m). \<not> same_device mac at p"
  shows "submit_scan_rsp cont mac rssi at data m = (m, [raw_frame cont mac rssi at data])"
proof -
  have "find_same mac at 0 (pending_advs m) = None" using assms(2) find_same_None by metis
  then show ?thesis using assms(1) by (simp add: submit_scan_rsp_def deliver_def raw_frame_def)
qed

lemma submit_matched:
  assumes wf: "merger_wf m" and b: "dispatcher_bound m"
    and i: "i < length (pending_advs m)" and sd: "same_device mac at (pending_advs m ! i)"
  shows "submit_scan_rsp cont mac rssi at data m
       = (release_slot i m, [merged_frame cont (pending_advs m ! i) data])"
proof -
  let ?p = "pending_advs m ! i"
  have p: "?p \<in> set (pending_advs m)" using i by simp
  have "pending_count m \<noteq> 0"
    using merger_empty_iff [OF wf] sd p by (auto simp: merger_empty_def same_device_def)
  moreover obtain j where j: "find_same mac at 0 (pending_advs m) = Some j"
    using find_same_None [of mac at 0 "pending_advs m"] sd p by fastforce
  moreover have "j = i"
    using find_same_Some [OF j] sd i wf by (auto simp: merger_wf_def same_device_def)
  ultimately show ?thesis
    using b sd by (auto simp: submit_scan_rsp_def deliver_def merged_frame_def held_frame_def same_device_def Let_def)
qed

lemma conserving_submit:
  assumes wf: "merger_wf m" and b: "dispatcher_bound m"
    and r: "submit_scan_rsp cont mac rssi at data m = (m', out)"
  shows "conserving m {#} m' out"
proof (cases "\<exists>i < length (pending_advs m). same_device mac at (pending_advs m ! i)")
  case True
  then obtain i where i: "i < length (pending_advs m)" and sd: "same_device mac at (pending_advs m ! i)"
    by blast
  then have u: "pa_used (pending_advs m ! i)" by (simp add: same_device_def)
  have "m' = release_slot i m" and out: "out = [merged_frame cont (pending_advs m ! i) data]"
    using submit_matched [OF wf b i sd] r by auto
  moreover have "full_frames out = out" and "carries (adv_of (pending_advs m ! i)) (hd out)"
    using out by (simp_all add: merged_frame_def held_frame_def adv_of_def)
  ultimately show ?thesis
    using merger_wf_release [OF wf i u] held_release [OF i u] b unfolding conserving_def
    by (auto intro!: exI [of _ "[adv_of (pending_advs m ! i)]"])
next
  case False
  then have "\<forall>p \<in> set (pending_advs m). \<not> same_device mac at p" by (auto simp: in_set_conv_nth)
  from submit_unmatched [OF b this] r have "m' = m" "out = [raw_frame cont mac rssi at data]" by auto
  then show ?thesis using wf b by (simp add: conserving_def raw_frame_def)
qed

lemma conserving_step:
  assumes "merger_wf m" "dispatcher_bound m" "merger_step x m = (m', out)"
  shows "conserving m (stashed x) m' out"
proof (cases x)
  case Stash_adv
  then show ?thesis using conserving_stash [OF assms(1,2)] assms(3) by simp
next
  case Submit_scan_rsp
  then show ?thesis using conserving_submit [OF assms(1,2)] assms(3) by simp
next
  case (Sweep c now)
  then show ?thesis using conserving_release_all [OF assms(1,2)] assms(3) by (simp add: sweep_def)
next
  case (Flush c)
  then show ?thesis using conserving_release_all [OF assms(1,2)] assms(3) by (simp add: flush_def)
qed

text \<open>The merger is a ledger of advertisements.\<close>

interpretation merger: ledger merger_step "\<lambda>m. merger_wf m \<and> dispatcher_bound m" held stashed
  "\<lambda>src out. list_all2 carries src (full_frames out)"
proof
  fix s x assume "merger_wf s \<and> dispatcher_bound s"
  then show "merger_wf (fst (merger_step x s)) \<and> dispatcher_bound (fst (merger_step x s))"
    using conserving_step [of s x "fst (merger_step x s)" "snd (merger_step x s)"]
    by (simp add: conserving_def)
next
  fix s x s' out assume "merger_wf s \<and> dispatcher_bound s" and "merger_step x s = (s', out)"
  then show "\<exists>src. list_all2 carries src (full_frames out) \<and> mset src + held s' = held s + stashed x"
    using conserving_step [of s x s' out] by (simp add: conserving_def)
qed (auto intro: list_all2_appendI)

lemma dispatcher_bound_init: "dispatcher_bound (bind_merger merger_init)"
  by (simp add: bind_merger_def)

lemma reachable_wf:
  "merger_wf (fst (merger_run xs (bind_merger merger_init))) \<and>
   dispatcher_bound (fst (merger_run xs (bind_merger merger_init)))"
  by (rule merger.run_inv) (simp add: merger_wf_init dispatcher_bound_init)

lemma filter_used_released:
  "filter pa_used (map (\<lambda>p. if pa_used p \<and> due p then p\<lparr>pa_used := False\<rparr> else p) ps)
   = filter (\<lambda>p. pa_used p \<and> \<not> due p) ps"
  by (induction ps) auto

section \<open>Properties\<close>

text \<open>
  Nothing is lost and nothing is delivered twice. Over any sequence of calls on a fresh bound
  merger, the full frames delivered are, in order, frames of advertisements \<open>src\<close> (same device, same
  signal strength, the advertisement's bytes first), and \<open>src\<close> together with what is still held is exactly
  the collection of the advertisements that were stashed; the counter is exact, the same device is
  never held twice and no buffer overflows.
\<close>

theorem merger_conserves:
  "case merger_run xs (bind_merger merger_init) of (m, out) \<Rightarrow>
     merger_wf m \<and>
     (\<exists>src. list_all2 carries src (full_frames out) \<and>
            mset src + held m = \<Sum>\<^sub># (mset (map stashed xs)))"
proof -
  have "held (bind_merger merger_init) = {#}"
    by (simp add: bind_merger_def held_def merger_init_def)
  then show ?thesis
    using merger.run_balance [of "bind_merger merger_init" xs] reachable_wf [of xs]
      merger_wf_init dispatcher_bound_init
    by (auto split: prod.split)
qed

text \<open>
  C18. A scan response in any reachable merger: if its device is held, that one entry leaves the
  merger and one full frame goes out, the advertisement's bytes followed by as much of the response
  as the 62-byte buffer has room for, with the advertisement's signal strength; otherwise nothing
  changes and the response goes out alone, marked raw-only.
\<close>

theorem scan_response_completes:
  "let m = fst (merger_run xs (bind_merger merger_init)) in
   case filter (same_device mac at) (pending_advs m) of
     [] \<Rightarrow> submit_scan_rsp cont mac rssi at data m = (m, [raw_frame cont mac rssi at data])
   | p # ps \<Rightarrow> ps = [] \<and> (case submit_scan_rsp cont mac rssi at data m of (m', out) \<Rightarrow>
       out = [merged_frame cont p data] \<and> held m' + {#adv_of p#} = held m \<and>
       filter (same_device mac at) (pending_advs m') = [])"
proof -
  let ?m = "fst (merger_run xs (bind_merger merger_init))"
  let ?F = "filter (same_device mac at) (pending_advs ?m)"
  have wf: "merger_wf ?m" and b: "dispatcher_bound ?m" using reachable_wf by auto
  show ?thesis
  proof (cases "?F")
    case Nil
    then have "\<forall>p \<in> set (pending_advs ?m). \<not> same_device mac at p" by (simp add: filter_empty_conv)
    then show ?thesis using Nil submit_unmatched [OF b] by simp
  next
    case (Cons p ps)
    then have "p \<in> set ?F" by simp
    then obtain i where i: "i < length (pending_advs ?m)" "pending_advs ?m ! i = p" "same_device mac at p"
      by (auto simp: in_set_conv_nth)
    then have u: "pa_used (pending_advs ?m ! i)" by (simp add: same_device_def)
    let ?r = "release_slot i ?m"
    have only: "\<not> same_device mac at (pending_advs ?r ! j)" if "j < length (pending_advs ?r)" for j
      using wf i that unfolding merger_wf_def same_device_def release_slot_def by (cases "j = i") auto
    then have gone: "filter (same_device mac at) (pending_advs ?r) = []"
      by (auto simp: filter_empty_conv in_set_conv_nth)
    have "mset (filter (same_device mac at) (pending_advs ?r)) + {#p#} = mset ?F"
      using mset_filter_update [OF i(1), of "same_device mac at" "p\<lparr>pa_used := False\<rparr>"] i
      by (simp add: release_slot_def same_device_def)
    then have "ps = []" using gone Cons by simp
    then show ?thesis
      using Cons submit_matched [OF wf b i(1)] i held_release [OF i(1) u] gone by simp
  qed
qed

text \<open>
  A sweep delivers exactly the entries older than 300 ms, in slot order, and what it leaves is
  at most 300 ms old; a flush delivers every entry and leaves the merger empty. The counter's fast
  path never skips an entry.
\<close>

theorem sweep_and_flush_exact:
  "let m = fst (merger_run xs (bind_merger merger_init)) in
   (case sweep cont now m of (m', out) \<Rightarrow>
      out = map (held_frame cont) (filter (\<lambda>p. pa_used p \<and> now - stored_ms p > 300) (pending_advs m)) \<and>
      filter pa_used (pending_advs m') = filter (\<lambda>p. pa_used p \<and> now - stored_ms p \<le> 300) (pending_advs m)) \<and>
   (case flush cont m of (m', out) \<Rightarrow>
      out = map (held_frame cont) (filter pa_used (pending_advs m)) \<and>
      filter pa_used (pending_advs m') = [] \<and> merger_empty m')"
proof -
  define m where "m = fst (merger_run xs (bind_merger merger_init))"
  have wf: "merger_wf m" and b: "dispatcher_bound m" using reachable_wf by (auto simp: m_def)
  obtain m1 out1 where s: "sweep cont now m = (m1, out1)" by fastforce
  obtain m2 out2 where f: "flush cont m = (m2, out2)" by fastforce
  note S = release_all_effect [OF wf b s [unfolded sweep_def]]
  note F = release_all_effect [OF wf b f [unfolded flush_def]]
  have "filter pa_used (pending_advs m1)
      = filter (\<lambda>p. pa_used p \<and> now - stored_ms p \<le> 300) (pending_advs m)"
    using S by (simp add: filter_used_released PENDING_ADV_TIMEOUT_MS_def not_less)
  moreover have none: "filter pa_used (pending_advs m2) = []"
    unfolding conjunct1 [OF conjunct2 [OF conjunct2 [OF F]]] filter_used_released by simp
  moreover have "merger_empty m2"
    using merger_empty_iff [OF conjunct1 [OF F]] none by (simp add: filter_empty_conv)
  moreover have "out1 = map (held_frame cont) (filter (\<lambda>p. pa_used p \<and> now - stored_ms p > 300) (pending_advs m))"
    and "out2 = map (held_frame cont) (filter pa_used (pending_advs m))"
    using S F by (simp_all add: PENDING_ADV_TIMEOUT_MS_def)
  ultimately show ?thesis unfolding m_def [symmetric] Let_def s f by simp
qed

text \<open>
  A dispatched frame of at most 255 bytes is never lost and never read past its end: the raw
  subscriber, when set, gets it verbatim; a raw-only frame goes no further; any other is parsed
  once, the device is logged only if no listener claims it and a log tag was passed, and at most
  once per scan.
\<close>

theorem dispatch_frame:
  assumes "length (fr_data f) < 256"
  shows "\<exists>d' r. dispatch f d = Some (d', r) \<and>
     map ra_data (raw_sent r) = (if raw_callback_set d then [fr_data f] else []) \<and>
     map ra_address (raw_sent r) = (if raw_callback_set d then [mac_lsb_first_to_uint64 (fr_mac f)] else []) \<and>
     length (parsed r) = (if fr_raw_only f then 0 else 1) \<and>
     (logged r = (fr_log f \<and> list_all (\<lambda>x. \<not> list_ex (\<lambda>l. l x) (listeners d) \<and>
        address_uint64 (dev_address x) \<notin> set (discovered_log d)) (parsed r) \<and> \<not> fr_raw_only f)) \<and>
     listeners d' = listeners d \<and>
     (distinct (discovered_log d) \<longrightarrow> distinct (discovered_log d'))"
proof (cases "fr_raw_only f")
  case True
  then show ?thesis by (simp add: dispatch_def raw_of_def)
next
  case False
  have "unat (of_nat (length (fr_data f)) :: u16) \<le> length (fr_data f)"
    using assms by (simp add: unat_of_nat)
  then obtain x where x: "from_scan_result (fr_mac f) (sint (fr_rssi f)) (fr_addr_type f) (fr_data f)
      (of_nat (length (fr_data f))) device0 = Some x"
    using from_scan_result_total by blast
  show ?thesis
    using False by (auto simp: dispatch_def raw_of_def x log_device_def Let_def)
qed

theorem dispatch_frame_witness:
  "\<exists>d' r. dispatch \<lparr>fr_mac = [1, 2, 3, 4, 5, 6], fr_rssi = 200, fr_addr_type = 0, fr_data = [2, 1, 6],
        fr_raw_only = False, fr_log = True\<rparr>
      \<lparr>raw_callback_set = True, listeners = [], discovered_log = []\<rparr> = Some (d', r) \<and> length (parsed r) = 1"
  using dispatch_frame [of "\<lparr>fr_mac = [1, 2, 3, 4, 5, 6], fr_rssi = 200, fr_addr_type = 0, fr_data = [2, 1, 6],
        fr_raw_only = False, fr_log = True\<rparr>" "\<lparr>raw_callback_set = True, listeners = [], discovered_log = []\<rparr>"]
  by auto

end
