(* ===== verification/BleTracker.thy ===== *)
theory BleTracker
  imports ScanMerger
begin

text \<open>
  \<open>ESP32BLETracker\<close> (components/esp32_ble_tracker/esp32_ble_tracker.h and .cpp): the scan state
  machine, the classification of the controller's reports and the loop that drains the
  advertisement queue into the merger and the dispatcher.

  An operation returns the new state and what it does, in order: the calls to the NimBLE host, the
  frames handed to \<open>AdvDispatcher::dispatch\<close>, the ends of scans, and the pushes to the scanner-state
  subscriber. The parent component (\<open>is_active\<close>), the return codes of the host calls and the clock are
  the record \<open>tracker_env\<close>. The queue's events reach \<open>tracker_loop\<close> as the list the pops return.
\<close>

section \<open>State\<close>

datatype scanner_state = SC_IDLE | SC_STARTING | SC_RUNNING | SC_FAILED | SC_STOPPING | SC_STOPPED

datatype adv_queue_event_type = SCAN_RSP | STASH_ADV | DIRECT | SCAN_COMPLETE

record adv_queue_event =
  ae_type :: adv_queue_event_type
  ae_mac :: bytes
  ae_rssi :: u8
  ae_addr_type :: u8
  ae_data :: bytes

record hub_capabilities =
  cap_active_scan :: bool
  cap_merges_scan_response :: bool
  cap_gatt :: bool
  cap_scan_mode_switch :: bool

text \<open>\<open>ble_gap_disc\<close>'s parameters (16-bit fields) and duration; the other fields are constant.\<close>

record disc_params =
  dp_itvl :: u16
  dp_window :: u16
  dp_passive :: bool

datatype tracker_out =
  Gap_disc u32 disc_params
| Gap_disc_cancel
| Dispatch frame
| Scan_end
| Scanner_state scanner_state

record tracker_env =
  parent_active :: bool
  parent_failed :: bool
  disc_rc :: int
  millis :: u32

record tracker =
  scan_duration :: u32
  scan_interval :: u32
  scan_window :: u32
  scan_active :: bool
  scan_continuous :: bool
  scanner_state :: scanner_state
  state_callback_set :: bool
  merger :: scan_merger
  tracker_failed :: bool

definition tracker_init :: tracker where
  "tracker_init = \<lparr>scan_duration = 300, scan_interval = 512, scan_window = 48, scan_active = True,
     scan_continuous = True, scanner_state = SC_IDLE, state_callback_set = False,
     merger = merger_init, tracker_failed = False\<rparr>"

section \<open>The configuration and the hub contract\<close>

definition set_scan_active :: "bool \<Rightarrow> tracker \<Rightarrow> tracker" where
  "set_scan_active b t = t\<lparr>scan_active := b\<rparr>"

definition set_scan_continuous :: "bool \<Rightarrow> tracker \<Rightarrow> tracker" where
  "set_scan_continuous b t = t\<lparr>scan_continuous := b\<rparr>"

definition get_capabilities :: hub_capabilities where
  "get_capabilities = \<lparr>cap_active_scan = True, cap_merges_scan_response = True, cap_gatt = False,
     cap_scan_mode_switch = False\<rparr>"

definition scan_running :: "tracker \<Rightarrow> bool" where
  "scan_running t \<longleftrightarrow> scanner_state t = SC_RUNNING"

definition request_scan_mode :: "bool \<Rightarrow> tracker \<Rightarrow> bool \<times> tracker" where
  "request_scan_mode active t = (False, t)"

definition set_scanner_state_callback :: "bool \<Rightarrow> tracker \<Rightarrow> tracker" where
  "set_scanner_state_callback b t = t\<lparr>state_callback_set := b\<rparr>"

section \<open>The scan state machine\<close>

definition set_scanner_state :: "scanner_state \<Rightarrow> tracker \<Rightarrow> tracker \<times> tracker_out list" where
  "set_scanner_state st t =
     (t\<lparr>scanner_state := st\<rparr>, if state_callback_set t then [Scanner_state st] else [])"

definition disc_params_of :: "tracker \<Rightarrow> disc_params" where
  "disc_params_of t = \<lparr>dp_itvl = ucast (scan_interval t), dp_window = ucast (scan_window t),
     dp_passive = (\<not> scan_active t)\<rparr>"

definition start_scan_inner :: "tracker_env \<Rightarrow> tracker \<Rightarrow> tracker \<times> tracker_out list" where
  "start_scan_inner env t =
     (if \<not> parent_active env then (t, [])
      else if scanner_state t \<noteq> SC_IDLE then (t, [])
      else
        let call = Gap_disc (scan_duration t * 1000) (disc_params_of t)
        in if disc_rc env \<noteq> 0 then (t, [call])
           else let (t, out) = set_scanner_state SC_RUNNING t in (t, call # out))"

text \<open>The end of a scan period: held frames first, then \<open>on_scan_end\<close>, then the state.\<close>

definition end_scan :: "tracker \<Rightarrow> tracker \<times> tracker_out list" where
  "end_scan t =
     (let (m, frames) = flush (scan_continuous t) (merger t);
          (t, out) = set_scanner_state SC_IDLE (t\<lparr>merger := m\<rparr>)
      in (t, map Dispatch frames @ Scan_end # out))"

definition stop_scan_inner :: "tracker \<Rightarrow> tracker \<times> tracker_out list" where
  "stop_scan_inner t =
     (if scanner_state t \<noteq> SC_RUNNING then (t, [])
      else let (t, out) = end_scan t in (t, Gap_disc_cancel # out))"

definition start_scan :: "tracker_env \<Rightarrow> tracker \<Rightarrow> tracker \<times> tracker_out list" where
  "start_scan env t =
     (let t = t\<lparr>scan_continuous := True\<rparr>
      in if scanner_state t = SC_IDLE then start_scan_inner env t else (t, []))"

definition stop_scan :: "tracker \<Rightarrow> tracker \<times> tracker_out list" where
  "stop_scan t = stop_scan_inner (t\<lparr>scan_continuous := False\<rparr>)"

definition tracker_setup :: "tracker_env \<Rightarrow> tracker \<Rightarrow> tracker \<times> tracker_out list" where
  "tracker_setup env t =
     (if parent_failed env then (t\<lparr>tracker_failed := True\<rparr>, [])
      else
        let t = t\<lparr>merger := bind_merger (merger t)\<rparr>
        in if scan_continuous t then start_scan_inner env t else (t, []))"

section \<open>Automations\<close>

text \<open>The actions and triggers of esp32_ble_tracker/automation.h; an address of 0 is no filter.\<close>

definition start_scan_action :: "tracker_env \<Rightarrow> bool \<Rightarrow> tracker \<Rightarrow> tracker \<times> tracker_out list" where
  "start_scan_action env continuous t =
     (let t = set_scan_continuous continuous t
      in if scanner_state t = SC_IDLE then start_scan env t else (t, []))"

definition stop_scan_action :: "tracker \<Rightarrow> tracker \<times> tracker_out list" where
  "stop_scan_action t = stop_scan t"

definition tracker_advertise_trigger :: "u64 list \<Rightarrow> espbt_device \<Rightarrow> bool \<times> espbt_device option" where
  "tracker_advertise_trigger address_vec d =
     (let addr = address_uint64 (dev_address d)
      in if address_vec \<noteq> [] \<and> addr \<notin> set address_vec then (False, None) else (True, Some d))"

definition tracker_service_data_trigger :: "u64 \<Rightarrow> espbtuuid \<Rightarrow> espbt_device \<Rightarrow> bool \<times> bytes option" where
  "tracker_service_data_trigger address u d =
     (if address \<noteq> 0 \<and> address_uint64 (dev_address d) \<noteq> address then (False, None)
      else case find_uuid u (service_datas d) of Some bs \<Rightarrow> (True, Some bs) | None \<Rightarrow> (False, None))"

definition tracker_manufacturer_data_trigger :: "u64 \<Rightarrow> espbtuuid \<Rightarrow> espbt_device \<Rightarrow> bool \<times> bytes option" where
  "tracker_manufacturer_data_trigger address u d =
     (if address \<noteq> 0 \<and> address_uint64 (dev_address d) \<noteq> address then (False, None)
      else case find_uuid u (manufacturer_datas d) of Some bs \<Rightarrow> (True, Some bs) | None \<Rightarrow> (False, None))"

text \<open>
  The option of the action is lost whenever the action starts a scan: \<open>start_scan\<close> turns continuous
  scanning on.
\<close>

lemma start_scan_action_continuous:
  assumes "scanner_state t = SC_IDLE"
  shows "scan_continuous (fst (start_scan_action env continuous t))"
  using assms by (simp add: start_scan_action_def set_scan_continuous_def start_scan_def start_scan_inner_def
      set_scanner_state_def Let_def)

section \<open>Reports of the controller\<close>

text \<open>\<open>handle_gap_event_\<close>, on the host task: the event it pushes, if any.\<close>

datatype gap_disc_event =
  GAP_DISC "u8" bytes u8 u8 bytes
| GAP_DISC_COMPLETE int
| GAP_OTHER nat

definition adv_event :: "adv_queue_event_type \<Rightarrow> adv_queue_event" where
  "adv_event ty = \<lparr>ae_type = ty, ae_mac = replicate 6 0, ae_rssi = 0, ae_addr_type = 0, ae_data = []\<rparr>"

definition tracker_gap_event :: "gap_disc_event \<Rightarrow> adv_queue_event option" where
  "tracker_gap_event ev = (case ev of
     GAP_DISC event_type mac rssi addr_type data \<Rightarrow>
       Some \<lparr>ae_type = (if event_type = 4 then SCAN_RSP
                        else if event_type = 0 \<or> event_type = 2 then STASH_ADV else DIRECT),
             ae_mac = mac, ae_rssi = rssi, ae_addr_type = addr_type, ae_data = data\<rparr>
   | GAP_DISC_COMPLETE reason \<Rightarrow> Some (adv_event SCAN_COMPLETE)
   | GAP_OTHER _ \<Rightarrow> None)"

section \<open>The loop\<close>

definition direct_frame :: "bool \<Rightarrow> adv_queue_event \<Rightarrow> frame" where
  "direct_frame cont ev = \<lparr>fr_mac = ae_mac ev, fr_rssi = ae_rssi ev, fr_addr_type = ae_addr_type ev,
     fr_data = ae_data ev, fr_raw_only = False, fr_log = (\<not> cont)\<rparr>"

definition tracker_handle ::
  "tracker_env \<Rightarrow> adv_queue_event \<Rightarrow> tracker \<Rightarrow> tracker \<times> tracker_out list" where
  "tracker_handle env ev t = (case ae_type ev of
     SCAN_RSP \<Rightarrow>
       let (m, frames) = submit_scan_rsp (scan_continuous t) (ae_mac ev) (ae_rssi ev) (ae_addr_type ev)
                           (ae_data ev) (merger t)
       in (t\<lparr>merger := m\<rparr>, map Dispatch frames)
   | STASH_ADV \<Rightarrow>
       let (m, frames) = stash_adv (scan_continuous t) (ae_mac ev) (ae_rssi ev) (ae_addr_type ev)
                           (ae_data ev) (millis env) (merger t)
       in (t\<lparr>merger := m\<rparr>, map Dispatch frames)
   | DIRECT \<Rightarrow> (t, [Dispatch (direct_frame (scan_continuous t) ev)])
   | SCAN_COMPLETE \<Rightarrow> end_scan t)"

fun tracker_drain ::
  "tracker_env \<Rightarrow> adv_queue_event list \<Rightarrow> tracker \<Rightarrow> tracker \<times> tracker_out list" where
  "tracker_drain env [] t = (t, [])"
| "tracker_drain env (ev # evs) t =
     (let (t, out) = tracker_handle env ev t; (t, out') = tracker_drain env evs t in (t, out @ out'))"

definition tracker_loop ::
  "tracker_env \<Rightarrow> adv_queue_event list \<Rightarrow> tracker \<Rightarrow> tracker \<times> tracker_out list" where
  "tracker_loop env evs t =
     (if \<not> parent_active env then (t, [])
      else
        let (t, out1) = tracker_drain env evs t;
            (t, out2) = (if \<not> merger_empty (merger t) then
                           let (m, frames) = sweep (scan_continuous t) (millis env) (merger t)
                           in (t\<lparr>merger := m\<rparr>, map Dispatch frames)
                         else (t, []));
            (t, out3) = (if scanner_state t = SC_IDLE \<and> scan_continuous t
                         then start_scan_inner env t else (t, []))
        in (t, out1 @ out2 @ out3))"

text \<open>What the frames and the ends of scans do to the dispatcher; \<open>None\<close>: a read out of bounds.\<close>

fun run_dispatcher :: "tracker_out list \<Rightarrow> dispatcher \<Rightarrow> (dispatcher \<times> dispatch_result list) option" where
  "run_dispatcher [] d = Some (d, [])"
| "run_dispatcher (Dispatch f # xs) d =
     (case dispatch f d of None \<Rightarrow> None
      | Some (d, r) \<Rightarrow> map_option (\<lambda>(d, rs). (d, r # rs)) (run_dispatcher xs d))"
| "run_dispatcher (Scan_end # xs) d = run_dispatcher xs (fst (on_scan_end d))"
| "run_dispatcher (_ # xs) d = run_dispatcher xs d"

section \<open>Runs\<close>

datatype tracker_op =
  Loop_op tracker_env "adv_queue_event list"
| Start_scan_op tracker_env
| Stop_scan_op
| Set_active_op bool
| Set_continuous_op bool

fun tracker_step :: "tracker_op \<Rightarrow> tracker \<Rightarrow> tracker \<times> tracker_out list" where
  "tracker_step (Loop_op env evs) t = tracker_loop env evs t"
| "tracker_step (Start_scan_op env) t = start_scan env t"
| "tracker_step Stop_scan_op t = stop_scan t"
| "tracker_step (Set_active_op b) t = (set_scan_active b t, [])"
| "tracker_step (Set_continuous_op b) t = (set_scan_continuous b t, [])"

abbreviation tracker_run :: "tracker_op list \<Rightarrow> tracker \<Rightarrow> tracker \<times> tracker_out list" where
  "tracker_run \<equiv> run_ops tracker_step"

section \<open>Frames\<close>

fun frames_of :: "tracker_out list \<Rightarrow> frame list" where
  "frames_of [] = []"
| "frames_of (Dispatch f # xs) = f # frames_of xs"
| "frames_of (_ # xs) = frames_of xs"

lemma frames_of_append [simp]: "frames_of (xs @ ys) = frames_of xs @ frames_of ys"
  by (induction xs rule: frames_of.induct) auto

lemma frames_of_map [simp]: "frames_of (map Dispatch fs) = fs"
  by (induction fs) auto

text \<open>The advertisements a loop takes from the queue.\<close>

definition reported :: "adv_queue_event \<Rightarrow> adv multiset" where
  "reported ev = (if ae_type ev = STASH_ADV \<or> ae_type ev = DIRECT
     then {#clip_adv (ae_mac ev) (ae_addr_type ev) (ae_rssi ev) (ae_data ev)#} else {#})"

fun op_reports :: "tracker_op \<Rightarrow> adv multiset" where
  "op_reports (Loop_op env evs) = (if parent_active env then \<Sum>\<^sub># (mset (map reported evs)) else {#})"
| "op_reports _ = {#}"

definition ready :: "tracker \<Rightarrow> bool" where
  "ready t \<longleftrightarrow> merger_wf (merger t) \<and> dispatcher_bound (merger t)"

definition keeps :: "tracker \<Rightarrow> adv multiset \<Rightarrow> tracker \<times> tracker_out list \<Rightarrow> bool" where
  "keeps t new r \<longleftrightarrow> conserving (merger t) new (merger (fst r)) (frames_of (snd r))"

lemma keeps_ready: "keeps t new (t', out) \<Longrightarrow> ready t'"
  by (simp add: keeps_def ready_def conserving_def)

lemma keeps_refl: "ready t \<Longrightarrow> merger t' = merger t \<Longrightarrow> frames_of out = [] \<Longrightarrow> keeps t {#} (t', out)"
  by (simp add: keeps_def conserving_def ready_def)

lemma keeps_trans:
  assumes "keeps t new (t1, out1)" and "keeps t1 new' (t2, out2)"
  shows "keeps t (new + new') (t2, out1 @ out2)"
proof -
  obtain src1 where 1: "list_all2 carries src1 (full_frames (frames_of out1))"
    "mset src1 + held (merger t1) = held (merger t) + new"
    using assms(1) unfolding keeps_def conserving_def by auto
  obtain src2 where 2: "list_all2 carries src2 (full_frames (frames_of out2))"
    "mset src2 + held (merger t2) = held (merger t1) + new'"
    using assms(2) unfolding keeps_def conserving_def by auto
  have "mset (src1 @ src2) + held (merger t2) = held (merger t) + (new + new')"
    using 1(2) 2(2) by (simp add: ac_simps)
  moreover have "list_all2 carries (src1 @ src2) (full_frames (frames_of (out1 @ out2)))"
    using 1(1) 2(1) by (simp add: list_all2_appendI)
  ultimately show ?thesis
    using assms(2) unfolding keeps_def conserving_def by auto
qed

lemma keeps_merger:
  assumes "conserving (merger t) new m fs"
  shows "keeps t new (t\<lparr>merger := m\<rparr>, map Dispatch fs)"
  using assms by (simp add: keeps_def)

lemma keeps_start [inv_intros]:
  "ready t \<Longrightarrow> keeps t {#} (start_scan_inner env t)"
  by (auto simp: start_scan_inner_def set_scanner_state_def Let_def intro!: keeps_refl split: prod.splits)

lemma conserving_sweep:
  "ready t \<Longrightarrow> sweep c now (merger t) = (m, fs) \<Longrightarrow> conserving (merger t) {#} m fs"
  using conserving_step [of "merger t" "Sweep c now" m fs] by (simp add: ready_def)

lemma conserving_flush:
  "ready t \<Longrightarrow> flush c (merger t) = (m, fs) \<Longrightarrow> conserving (merger t) {#} m fs"
  using conserving_step [of "merger t" "Flush c" m fs] by (simp add: ready_def)

lemma keeps_end_scan [inv_intros]: "ready t \<Longrightarrow> keeps t {#} (end_scan t)"
  using conserving_flush [of t "scan_continuous t"]
  by (auto simp: end_scan_def set_scanner_state_def keeps_def split: prod.splits)

lemma keeps_handle:
  assumes "ready t"
  shows "keeps t (reported ev) (tracker_handle env ev t)"
proof (cases "ae_type ev")
  case SCAN_RSP
  then show ?thesis
    using conserving_submit [of "merger t"] assms
    by (auto simp: tracker_handle_def reported_def ready_def split: prod.splits intro!: keeps_merger)
next
  case STASH_ADV
  then show ?thesis
    using conserving_stash [of "merger t"] assms
    by (auto simp: tracker_handle_def reported_def ready_def split: prod.splits intro!: keeps_merger)
next
  case DIRECT
  have "carries (clip_adv (ae_mac ev) (ae_addr_type ev) (ae_rssi ev) (ae_data ev)) (direct_frame c ev)" for c
    by (auto simp: clip_adv_def direct_frame_def intro: exI [of _ "drop PENDING_DATA_SIZE (ae_data ev)"])
  then show ?thesis
    using DIRECT assms unfolding tracker_handle_def reported_def keeps_def conserving_def ready_def
    by (auto simp: direct_frame_def
        intro!: exI [of _ "[clip_adv (ae_mac ev) (ae_addr_type ev) (ae_rssi ev) (ae_data ev)]"])
next
  case SCAN_COMPLETE
  then show ?thesis using keeps_end_scan [OF assms] by (simp add: tracker_handle_def reported_def)
qed

lemma keeps_drain:
  "ready t \<Longrightarrow> keeps t (\<Sum>\<^sub># (mset (map reported evs))) (tracker_drain env evs t)"
proof (induction evs arbitrary: t)
  case Nil
  then show ?case by (auto intro: keeps_refl)
next
  case (Cons ev evs)
  obtain t1 out1 where h: "tracker_handle env ev t = (t1, out1)" by fastforce
  obtain t2 out2 where d: "tracker_drain env evs t1 = (t2, out2)" by fastforce
  have k1: "keeps t (reported ev) (t1, out1)" using keeps_handle [OF Cons.prems, of ev env] h by simp
  have "keeps t1 (\<Sum>\<^sub># (mset (map reported evs))) (t2, out2)"
    using Cons.IH [OF keeps_ready [OF k1]] d by simp
  from keeps_trans [OF k1 this] show ?case using h d by simp
qed

lemma keeps_loop:
  assumes "ready t"
  shows "keeps t (op_reports (Loop_op env evs)) (tracker_loop env evs t)"
proof (cases "parent_active env")
  case False
  then show ?thesis using keeps_refl [OF assms, of t "[]"] by (simp add: tracker_loop_def)
next
  case True
  obtain t1 out1 where d: "tracker_drain env evs t = (t1, out1)" by fastforce
  have k1: "keeps t (\<Sum>\<^sub># (mset (map reported evs))) (t1, out1)"
    using keeps_drain [OF assms, of evs env] d by simp
  note r1 = keeps_ready [OF k1]
  obtain t2 out2 where s: "(if \<not> merger_empty (merger t1) then
        let (m, frames) = sweep (scan_continuous t1) (millis env) (merger t1)
        in (t1\<lparr>merger := m\<rparr>, map Dispatch frames) else (t1, [])) = (t2, out2)" by fastforce
  have k2: "keeps t1 {#} (t2, out2)"
    using s keeps_refl [OF r1, of t1 "[]"] keeps_merger [OF conserving_sweep [OF r1]]
    by (auto split: if_splits prod.splits)
  obtain t3 out3 where u: "(if scanner_state t2 = SC_IDLE \<and> scan_continuous t2
        then start_scan_inner env t2 else (t2, [])) = (t3, out3)" by fastforce
  have k3: "keeps t2 {#} (t3, out3)"
    using u keeps_refl [OF keeps_ready [OF k2], of t2 "[]"] keeps_start [OF keeps_ready [OF k2], of env]
    by (auto split: if_splits)
  have "tracker_loop env evs t = (t3, out1 @ out2 @ out3)"
    using True d s u by (simp add: tracker_loop_def)
  then show ?thesis using keeps_trans [OF k1 keeps_trans [OF k2 k3]] True by simp
qed

lemma keeps_step:
  assumes "ready t"
  shows "keeps t (op_reports x) (tracker_step x t)"
proof (cases x)
  case (Start_scan_op env)
  have "ready (t\<lparr>scan_continuous := True\<rparr>)" using assms by (simp add: ready_def)
  from keeps_start [OF this, of env] keeps_refl [OF assms, of "t\<lparr>scan_continuous := True\<rparr>" "[]"]
  show ?thesis using Start_scan_op by (simp add: start_scan_def keeps_def Let_def)
next
  case Stop_scan_op
  have "ready (t\<lparr>scan_continuous := False\<rparr>)" using assms by (simp add: ready_def)
  from keeps_end_scan [OF this] keeps_refl [OF assms, of "t\<lparr>scan_continuous := False\<rparr>" "[]"]
  show ?thesis using Stop_scan_op
    by (auto simp: stop_scan_def stop_scan_inner_def keeps_def split: prod.splits)
qed (use assms keeps_loop in \<open>auto simp: set_scan_active_def set_scan_continuous_def intro: keeps_refl\<close>)

text \<open>The tracker is a ledger of the advertisements it takes from its queue.\<close>

interpretation trk: ledger tracker_step ready "\<lambda>t. held (merger t)" op_reports
  "\<lambda>src out. list_all2 carries src (full_frames (frames_of out))"
proof
  fix s x assume "ready s"
  then show "ready (fst (tracker_step x s))"
    using keeps_step [of s x] keeps_ready by (metis prod.collapse)
next
  fix s x s' out assume "ready s" and "tracker_step x s = (s', out)"
  then show "\<exists>src. list_all2 carries src (full_frames (frames_of out)) \<and>
               mset src + held (merger s') = held (merger s) + op_reports x"
    using keeps_step [of s x] by (simp add: keeps_def conserving_def)
qed (auto intro: list_all2_appendI)

section \<open>The scan cycle\<close>

text \<open>The outputs that are not frames.\<close>

fun controls :: "tracker_out list \<Rightarrow> tracker_out list" where
  "controls [] = []"
| "controls (Dispatch f # xs) = controls xs"
| "controls (x # xs) = x # controls xs"

lemma controls_append [simp]: "controls (xs @ ys) = controls xs @ controls ys"
  by (induction xs rule: controls.induct) auto

lemma controls_map [simp]: "controls (map Dispatch fs) = []"
  by (induction fs) auto

definition pushed :: "tracker \<Rightarrow> scanner_state \<Rightarrow> tracker_out list" where
  "pushed t st = (if state_callback_set t then [Scanner_state st] else [])"

definition config :: "tracker \<Rightarrow> bool \<times> bool \<times> bool \<times> u32 \<times> u32 \<times> u32" where
  "config t = (state_callback_set t, scan_active t, scan_continuous t, scan_duration t, scan_interval t, scan_window t)"

lemma end_scan_cycle:
  "end_scan t = (t', out) \<Longrightarrow>
     scanner_state t' = SC_IDLE \<and> config t' = config t \<and> controls out = Scan_end # pushed t SC_IDLE"
  by (auto simp: end_scan_def set_scanner_state_def config_def pushed_def split: prod.splits)

lemma handle_cycle:
  assumes "tracker_handle env ev t = (t', out)"
  shows "config t' = config t \<and>
         scanner_state t' = (if ae_type ev = SCAN_COMPLETE then SC_IDLE else scanner_state t) \<and>
         controls out = (if ae_type ev = SCAN_COMPLETE then Scan_end # pushed t SC_IDLE else [])"
  using assms end_scan_cycle [of t t' out]
  by (cases "ae_type ev") (auto simp: tracker_handle_def config_def split: prod.splits)

definition completions :: "adv_queue_event list \<Rightarrow> nat" where
  "completions evs = length (filter (\<lambda>ev. ae_type ev = SCAN_COMPLETE) evs)"

lemma drain_cycle:
  "tracker_drain env evs t = (t', out) \<Longrightarrow>
     config t' = config t \<and>
     scanner_state t' = (if completions evs = 0 then scanner_state t else SC_IDLE) \<and>
     controls out = concat (replicate (completions evs) (Scan_end # pushed t SC_IDLE))"
proof (induction evs arbitrary: t out)
  case (Cons ev evs)
  obtain t1 out1 out2 where h: "tracker_handle env ev t = (t1, out1)"
    and d: "tracker_drain env evs t1 = (t', out2)" and out: "out = out1 @ out2"
    using Cons.prems by (auto split: prod.splits)
  have "pushed t1 = pushed t"
    using handle_cycle [OF h] by (simp add: config_def pushed_def fun_eq_iff)
  then show ?case
    using Cons.IH [OF d] handle_cycle [OF h] out by (auto simp: completions_def)
qed (simp add: completions_def)

lemma loop_cycle:
  assumes "parent_active env" and "tracker_loop env evs t = (t', out)"
  shows "config t' = config t \<and>
     (if scan_continuous t \<and> (completions evs \<noteq> 0 \<or> scanner_state t = SC_IDLE)
      then scanner_state t' = (if disc_rc env = 0 then SC_RUNNING else SC_IDLE) \<and>
           controls out = concat (replicate (completions evs) (Scan_end # pushed t SC_IDLE))
             @ Gap_disc (scan_duration t * 1000) (disc_params_of t)
             # (if disc_rc env = 0 then pushed t SC_RUNNING else [])
      else scanner_state t' = (if completions evs = 0 then scanner_state t else SC_IDLE) \<and>
           controls out = concat (replicate (completions evs) (Scan_end # pushed t SC_IDLE)))"
proof -
  obtain t1 out1 where d: "tracker_drain env evs t = (t1, out1)" by fastforce
  obtain t2 out2 where s: "(if \<not> merger_empty (merger t1) then
        let (m, frames) = sweep (scan_continuous t1) (millis env) (merger t1)
        in (t1\<lparr>merger := m\<rparr>, map Dispatch frames) else (t1, [])) = (t2, out2)" by fastforce
  have 2: "config t2 = config t1" "scanner_state t2 = scanner_state t1" "controls out2 = []"
    using s by (auto simp: config_def split: if_splits prod.splits)
  have "tracker_loop env evs t = (let (t3, out3) = (if scanner_state t2 = SC_IDLE \<and> scan_continuous t2
        then start_scan_inner env t2 else (t2, [])) in (t3, out1 @ out2 @ out3))"
    using assms(1) d s by (simp add: tracker_loop_def)
  then show ?thesis
    using assms(2) 2 drain_cycle [OF d] assms(1)
    by (auto simp: start_scan_inner_def set_scanner_state_def config_def pushed_def disc_params_of_def Let_def
        split: if_splits prod.splits)
qed

section \<open>Properties\<close>

text \<open>
  C16. The tracker loses no advertisement it took from its queue and reports none twice: after its
  setup, over any sequence of loops (with any events), scan starts and stops and mode changes, the
  full frames dispatched are, in order, frames of advertisements \<open>src\<close>, and \<open>src\<close> with those
  still held for a scan response is exactly the collection of reported advertisements.
\<close>

theorem tracker_conserves:
  "let t0 = tracker_init\<lparr>scan_continuous := cont, scan_active := act\<rparr>;
       (t1, out1) = tracker_setup (env\<lparr>parent_failed := False\<rparr>) t0;
       (t2, out2) = tracker_run xs t1
   in \<exists>src. list_all2 carries src (full_frames (frames_of (out1 @ out2))) \<and>
        mset src + held (merger t2) = \<Sum>\<^sub># (mset (map op_reports xs))"
proof -
  obtain t1 out1 where s: "tracker_setup (env\<lparr>parent_failed := False\<rparr>)
      (tracker_init\<lparr>scan_continuous := cont, scan_active := act\<rparr>) = (t1, out1)" by fastforce
  obtain t2 out2 where r: "tracker_run xs t1 = (t2, out2)" by fastforce
  have 1: "merger t1 = bind_merger merger_init" "frames_of out1 = []"
    using s by (auto simp: tracker_setup_def start_scan_inner_def set_scanner_state_def tracker_init_def
        Let_def split: if_splits)
  then have "ready t1" and "held (merger t1) = {#}"
    by (simp_all add: ready_def merger_wf_init dispatcher_bound_init)
      (simp add: bind_merger_def held_def merger_init_def)
  then show ?thesis using trk.run_balance [of t1 xs t2 out2] r s 1 by simp
qed

text \<open>
  The scan cycle of one loop of an active component. Every completed scan in the queue ends with
  one \<open>on_scan_end\<close> and one push of \<open>IDLE\<close>; when continuous scanning is on and the scan is idle
  after them, exactly one new scan is requested, last, with the configured window, interval and
  mode and the duration in milliseconds, and the state is \<open>RUNNING\<close> exactly if the host accepted.
\<close>

theorem scan_cycle:
  assumes "parent_active env" and "0 < completions evs" and "scan_continuous t"
  shows "case tracker_loop env evs t of (t', out) \<Rightarrow>
     scanner_state t' = (if disc_rc env = 0 then SC_RUNNING else SC_IDLE) \<and>
     controls out = concat (replicate (completions evs) (Scan_end # pushed t SC_IDLE))
       @ Gap_disc (scan_duration t * 1000)
           \<lparr>dp_itvl = ucast (scan_interval t), dp_window = ucast (scan_window t), dp_passive = (\<not> scan_active t)\<rparr>
       # (if disc_rc env = 0 then pushed t SC_RUNNING else [])"
  using loop_cycle [OF assms(1), of evs t] assms(2,3)
  by (auto simp: disc_params_of_def split: prod.split)

theorem scan_cycle_witness:
  "case tracker_loop \<lparr>parent_active = True, parent_failed = False, disc_rc = 0, millis = 7\<rparr>
      [adv_event SCAN_COMPLETE] (tracker_init\<lparr>scanner_state := SC_RUNNING\<rparr>) of (t', out) \<Rightarrow>
     scanner_state t' = SC_RUNNING \<and>
     controls out = [Scan_end, Gap_disc 300000 \<lparr>dp_itvl = 512, dp_window = 48, dp_passive = False\<rparr>]"
  using scan_cycle [of "\<lparr>parent_active = True, parent_failed = False, disc_rc = 0, millis = 7\<rparr>"
      "[adv_event SCAN_COMPLETE]" "tracker_init\<lparr>scanner_state := SC_RUNNING\<rparr>"]
  by (simp add: completions_def adv_event_def tracker_init_def pushed_def)

text \<open>
  Only a scan-complete event takes the tracker out of \<open>RUNNING\<close> by itself. If that event never
  reaches the loop (the queue drops what does not fit, and a scan cancelled elsewhere ends without
  one), then however many loops and scan requests follow, the state stays \<open>RUNNING\<close>, no scan is
  requested from the host and no listener is told of an end of scan.
\<close>

theorem lost_completion_stops_scanning:
  assumes "scanner_state t = SC_RUNNING"
    and "\<forall>x \<in> set xs. case x of Loop_op env evs \<Rightarrow> completions evs = 0
           | Start_scan_op env \<Rightarrow> True | _ \<Rightarrow> False"
  shows "scanner_state (fst (tracker_run xs t)) = SC_RUNNING \<and> controls (snd (tracker_run xs t)) = []"
  using assms
proof (induction xs arbitrary: t)
  case (Cons x xs)
  obtain t1 out1 where s: "tracker_step x t = (t1, out1)" by fastforce
  have "scanner_state t1 = SC_RUNNING \<and> controls out1 = []"
  proof (cases x)
    case (Loop_op env evs)
    then show ?thesis using s Cons.prems loop_cycle [of env evs t t1 out1]
      by (cases "parent_active env") (auto simp: tracker_loop_def)
  next
    case (Start_scan_op env)
    then show ?thesis using s Cons.prems by (auto simp: start_scan_def Let_def)
  qed (use Cons.prems in auto)
  then show ?case using Cons.IH [of t1] Cons.prems s by (simp add: split_beta)
qed simp

theorem lost_completion_stops_scanning_witness:
  "let xs = [Loop_op \<lparr>parent_active = True, parent_failed = False, disc_rc = 0, millis = 9000000\<rparr> [],
             Start_scan_op \<lparr>parent_active = True, parent_failed = False, disc_rc = 0, millis = 9000001\<rparr>];
       t = tracker_init\<lparr>scanner_state := SC_RUNNING\<rparr>
   in scanner_state (fst (tracker_run xs t)) = SC_RUNNING \<and> controls (snd (tracker_run xs t)) = []"
  using lost_completion_stops_scanning [of "tracker_init\<lparr>scanner_state := SC_RUNNING\<rparr>"
     "[Loop_op \<lparr>parent_active = True, parent_failed = False, disc_rc = 0, millis = 9000000\<rparr> [],
             Start_scan_op \<lparr>parent_active = True, parent_failed = False, disc_rc = 0, millis = 9000001\<rparr>]"]
  by (simp add: completions_def)

text \<open>
  Stopping a running scan: the scan is cancelled, every held advertisement is delivered, then
  \<open>on_scan_end\<close>, then \<open>IDLE\<close>, in this order; and no later loop, whatever the queue still holds,
  requests a scan.
\<close>

theorem stop_scan_stops:
  assumes "scanner_state t = SC_RUNNING" and "ready t"
    and "\<forall>x \<in> set xs. case x of Loop_op env evs \<Rightarrow> True | Set_active_op b \<Rightarrow> True | Stop_scan_op \<Rightarrow> True | _ \<Rightarrow> False"
  shows "case stop_scan t of (t', out) \<Rightarrow>
     out = Gap_disc_cancel # map Dispatch (map (held_frame False) (filter pa_used (pending_advs (merger t))))
             @ Scan_end # pushed t SC_IDLE \<and>
     scanner_state t' = SC_IDLE \<and> merger_empty (merger t') \<and>
     scanner_state (fst (tracker_run xs t')) = SC_IDLE \<and>
     (\<forall>d p. Gap_disc d p \<notin> set (snd (tracker_run xs t')))"
proof -
  obtain t' out where s: "stop_scan t = (t', out)" by fastforce
  obtain m fs where f: "flush False (merger t) = (m, fs)" by fastforce
  have wf: "merger_wf (merger t)" and b: "dispatcher_bound (merger t)" using assms(2) by (simp_all add: ready_def)
  note F = release_all_effect [OF wf b f [unfolded flush_def]]
  have t': "t' = t\<lparr>scan_continuous := False, merger := m, scanner_state := SC_IDLE\<rparr>"
    "out = Gap_disc_cancel # map Dispatch fs @ Scan_end # pushed t SC_IDLE"
    using s f assms(1)
    by (auto simp: stop_scan_def stop_scan_inner_def end_scan_def set_scanner_state_def pushed_def)
  have "filter pa_used (pending_advs m) = []"
    unfolding conjunct1 [OF conjunct2 [OF conjunct2 [OF F]]] filter_used_released by simp
  then have "merger_empty m" using merger_empty_iff [OF conjunct1 [OF F]] by (simp add: filter_empty_conv)
  moreover have "fs = map (held_frame False) (filter pa_used (pending_advs (merger t)))" using F by simp
  moreover have "scanner_state (fst (tracker_run xs u)) = SC_IDLE \<and>
      (\<forall>d p. Gap_disc d p \<notin> set (controls (snd (tracker_run xs u))))"
    if "scanner_state u = SC_IDLE" "\<not> scan_continuous u" for u
    using that assms(3)
  proof (induction xs arbitrary: u)
    case (Cons x xs)
    obtain u1 out1 where s: "tracker_step x u = (u1, out1)" by fastforce
    have "scanner_state u1 = SC_IDLE \<and> \<not> scan_continuous u1 \<and> (\<forall>d p. Gap_disc d p \<notin> set (controls out1))"
    proof (cases x)
      case (Loop_op env evs)
      then show ?thesis using s Cons.prems loop_cycle [of env evs u u1 out1]
        by (cases "parent_active env") (auto simp: tracker_loop_def config_def pushed_def split: if_splits)
    next
      case Stop_scan_op
      then show ?thesis using s Cons.prems by (auto simp: stop_scan_def stop_scan_inner_def)
    qed (use s Cons.prems in \<open>auto simp: set_scan_active_def\<close>)
    then show ?case using Cons.IH [of u1] Cons.prems s by (simp add: split_beta)
  qed simp
  moreover have "Gap_disc d p \<in> set xs \<longleftrightarrow> Gap_disc d p \<in> set (controls xs)" for d p xs
    by (induction xs rule: controls.induct) auto
  ultimately show ?thesis using s t' by simp
qed

theorem stop_scan_stops_witness:
  "case stop_scan (tracker_init\<lparr>scanner_state := SC_RUNNING, merger := bind_merger merger_init\<rparr>) of (t', out) \<Rightarrow>
     out = [Gap_disc_cancel, Scan_end] \<and> scanner_state t' = SC_IDLE"
  using stop_scan_stops [of "tracker_init\<lparr>scanner_state := SC_RUNNING, merger := bind_merger merger_init\<rparr>" "[]"]
  by (simp add: ready_def merger_wf_init dispatcher_bound_init)
    (simp add: tracker_init_def pushed_def bind_merger_def merger_init_def split: prod.splits)

end
