(* ===== verification/ProxyReplies.thy ===== *)
theory ProxyReplies
  imports NimbleGattc BleTracker
begin

text \<open>
  The part of \<open>BluetoothProxy\<close> (components/bluetooth_proxy/bluetooth_proxy.h and .cpp) the
  connections write through: the API messages, the owed replies (\<open>PendingReply\<close>, the pool of
  disconnect notifications, the owed unpair reply), the connections-free message and the senders.

  The API server is not in this repository. \<open>accepts env n c m\<close> says whether its \<open>send_message\<close>
  takes message \<open>m\<close> for client \<open>c\<close> as the \<open>n\<close>-th message offered; \<open>offered\<close> is the trace of
  all offers with their outcome. A client is the identity of its \<open>APIConnection\<close>.
\<close>

section \<open>Messages\<close>

record descriptor_msg =
  dm_uuid :: "(u64 \<times> u64) \<times> u32"
  dm_handle :: u16

record characteristic_msg =
  cm_uuid :: "(u64 \<times> u64) \<times> u32"
  cm_handle :: u16
  cm_properties :: u8
  cm_descriptors :: "descriptor_msg list"

record service_msg =
  sm_uuid :: "(u64 \<times> u64) \<times> u32"
  sm_handle :: u16
  sm_characteristics :: "characteristic_msg list"

record connections_free =
  cf_free :: u32
  cf_limit :: u32
  cf_allocated :: "u64 list"

record advertisement_msg =
  am_address :: u64
  am_rssi :: u8
  am_address_type :: u8
  am_data :: bytes

datatype api_message =
  Device_connection u64 bool u16 int
| Connections_free connections_free
| Get_services u64 "service_msg list"
| Get_services_done u64
| Gatt_error u64 u16 int
| Gatt_read u64 u16 bytes
| Gatt_write u64 u16
| Gatt_notify u64 u16
| Gatt_notify_data u64 u16 bytes
| Device_pairing u64 bool int
| Device_unpairing u64 bool int
| Device_clear_cache u64 bool int
| Connection_params u64 int
| Scanner_state_msg scanner_state bool bool
| Raw_advertisements "advertisement_msg list"

section \<open>Owed replies in one word\<close>

definition CONN_OK :: int where "CONN_OK = 0"
definition ADDRESS_MASK :: u64 where "ADDRESS_MASK = 0x0000FFFFFFFFFFFF"

type_synonym pending_reply = u64

definition reply_set :: "u64 \<Rightarrow> int \<Rightarrow> pending_reply" where
  "reply_set addr err = (addr AND ADDRESS_MASK) OR push_bit 48 (ucast (word_of_int err :: u16))"

definition reply_clear :: pending_reply where "reply_clear = 0"

definition reply_empty :: "pending_reply \<Rightarrow> bool" where "reply_empty r \<longleftrightarrow> r = 0"

definition reply_address :: "pending_reply \<Rightarrow> u64" where "reply_address r = r AND ADDRESS_MASK"

definition reply_matches :: "u64 \<Rightarrow> pending_reply \<Rightarrow> bool" where
  "reply_matches addr r \<longleftrightarrow> reply_address r = addr AND ADDRESS_MASK"

definition reply_error :: "pending_reply \<Rightarrow> int" where
  "reply_error r = sint (ucast (drop_bit 48 r) :: u16)"

section \<open>State\<close>

type_synonym client = nat

text \<open>
  \<open>stk\<close>: the NimBLE host, \<open>clock\<close>: the millisecond clock, \<open>host_unpair\<close>: \<open>ble_gap_unpair\<close> (an address in wire order);
  \<open>supports_1_12\<close>: \<open>client_supports_api_version(1, 12)\<close>; \<open>server_connected\<close>: the API server has a
  client; \<open>msg_size\<close>, \<open>svc_size\<close>: \<open>calculate_size()\<close> of an empty services message for an address and
  of one service.
\<close>

record env =
  stk :: host
  clock :: u32
  accepts :: "nat \<Rightarrow> client \<Rightarrow> api_message \<Rightarrow> bool"
  supports_1_12 :: "client \<Rightarrow> bool"
  server_connected :: bool
  msg_size :: "u64 \<Rightarrow> nat"
  svc_size :: "service_msg \<Rightarrow> nat"
  host_unpair :: "u8 \<Rightarrow> bytes \<Rightarrow> int"

text \<open>
  \<open>max_connections\<close> is the build's \<open>BLUETOOTH_PROXY_MAX_CONNECTIONS\<close>, the size of the two arrays;
  \<open>batch_size\<close> its \<open>BLUETOOTH_PROXY_ADVERTISEMENT_BATCH_SIZE\<close>; \<open>use_wifi\<close> whether \<open>USE_WIFI\<close> is
  defined. \<open>advertisements\<close> holds the first \<open>advertisements_len\<close> entries of the batch.
\<close>

record proxy =
  max_connections :: nat
  batch_size :: nat
  use_wifi :: bool
  api_connection :: "client option"
  connection_count :: nat
  pending_disconnections :: "pending_reply list"
  pending_unpairing :: pending_reply
  last_advertisement_flush_time :: u32
  advertisements :: "advertisement_msg list"
  free_response :: connections_free
  active :: bool
  connections_free_pending :: bool
  configured_scan_active :: bool
  adv_flush_toggle :: bool
  scanner_state_pending :: bool
  offered :: "(client \<times> api_message \<times> bool) list"

definition send_message :: "env \<Rightarrow> client \<Rightarrow> api_message \<Rightarrow> proxy \<Rightarrow> bool \<times> proxy" where
  "send_message env c m p =
     (let ok = accepts env (length (offered p)) c m in (ok, p\<lparr>offered := offered p @ [(c, m, ok)]\<rparr>))"

text \<open>The senders that answer \<open>true\<close> when nobody is subscribed: nothing is owed then.\<close>

definition send_or_nobody :: "env \<Rightarrow> api_message \<Rightarrow> proxy \<Rightarrow> bool \<times> proxy" where
  "send_or_nobody env m p = (case api_connection p of None \<Rightarrow> (True, p) | Some c \<Rightarrow> send_message env c m p)"

definition client_supports_efficient_uuids :: "env \<Rightarrow> proxy \<Rightarrow> bool" where
  "client_supports_efficient_uuids env p =
     (case api_connection p of None \<Rightarrow> False | Some c \<Rightarrow> supports_1_12 env c)"

section \<open>Senders\<close>

definition send_device_connection :: "env \<Rightarrow> u64 \<Rightarrow> bool \<Rightarrow> u16 \<Rightarrow> int \<Rightarrow> proxy \<Rightarrow> bool \<times> proxy" where
  "send_device_connection env addr connected att_mtu err p =
     send_or_nobody env (Device_connection addr connected att_mtu err) p"

definition send_gatt_services_done :: "env \<Rightarrow> u64 \<Rightarrow> proxy \<Rightarrow> bool \<times> proxy" where
  "send_gatt_services_done env addr p = send_or_nobody env (Get_services_done addr) p"

definition send_gatt_error :: "env \<Rightarrow> u64 \<Rightarrow> u16 \<Rightarrow> int \<Rightarrow> proxy \<Rightarrow> bool \<times> proxy" where
  "send_gatt_error env addr handle err p = send_or_nobody env (Gatt_error addr handle err) p"

definition send_connections_free_to :: "env \<Rightarrow> client \<Rightarrow> proxy \<Rightarrow> proxy" where
  "send_connections_free_to env c p =
     (let (ok, p) = send_message env c (Connections_free (free_response p)) p
      in if \<not> ok \<and> api_connection p = Some c then p\<lparr>connections_free_pending := True\<rparr> else p)"

definition send_connections_free :: "env \<Rightarrow> proxy \<Rightarrow> proxy" where
  "send_connections_free env p =
     (case api_connection p of None \<Rightarrow> p | Some c \<Rightarrow> send_connections_free_to env c p)"

definition send_device_pairing :: "env \<Rightarrow> u64 \<Rightarrow> bool \<Rightarrow> int \<Rightarrow> proxy \<Rightarrow> proxy" where
  "send_device_pairing env addr paired err p =
     (case api_connection p of None \<Rightarrow> p
      | Some c \<Rightarrow> snd (send_message env c (Device_pairing addr paired err) p))"

definition send_device_clear_cache :: "env \<Rightarrow> u64 \<Rightarrow> bool \<Rightarrow> int \<Rightarrow> proxy \<Rightarrow> proxy" where
  "send_device_clear_cache env addr success err p =
     (case api_connection p of None \<Rightarrow> p
      | Some c \<Rightarrow> snd (send_message env c (Device_clear_cache addr success err) p))"

definition send_device_unpairing :: "env \<Rightarrow> u64 \<Rightarrow> bool \<Rightarrow> int \<Rightarrow> proxy \<Rightarrow> proxy" where
  "send_device_unpairing env addr success err p =
     (case api_connection p of None \<Rightarrow> p
      | Some c \<Rightarrow>
          let owed = pending_unpairing p;
              (success, err) = (if \<not> reply_empty owed \<and> reply_matches addr owed \<and> reply_error owed = CONN_OK
                                then (True, CONN_OK) else (success, err));
              (ok, p) = send_message env c (Device_unpairing addr success err) p
          in if ok then (if reply_matches addr owed then p\<lparr>pending_unpairing := reply_clear\<rparr> else p)
             else p\<lparr>pending_unpairing := reply_set addr err\<rparr>)"

section \<open>The pool of owed disconnect notifications\<close>

text \<open>The index of the first entry, below the connection count, with a property.\<close>

definition find_entry :: "(pending_reply \<Rightarrow> bool) \<Rightarrow> proxy \<Rightarrow> nat option" where
  "find_entry P p = (case filter (\<lambda>i. P (pending_disconnections p ! i)) [0..<connection_count p] of
     [] \<Rightarrow> None | i # _ \<Rightarrow> Some i)"

definition set_entry :: "nat \<Rightarrow> pending_reply \<Rightarrow> proxy \<Rightarrow> proxy" where
  "set_entry i r p = p\<lparr>pending_disconnections := (pending_disconnections p)[i := r]\<rparr>"

definition latch_pending_disconnection :: "u64 \<Rightarrow> int \<Rightarrow> proxy \<Rightarrow> proxy" where
  "latch_pending_disconnection addr err p =
     (case find_entry (reply_matches addr) p of
        Some i \<Rightarrow> set_entry i (reply_set addr err) p
      | None \<Rightarrow> (case find_entry reply_empty p of
          Some i \<Rightarrow> set_entry i (reply_set addr err) p
        | None \<Rightarrow> set_entry 0 (reply_set addr err) p))"

definition clear_pending_disconnection :: "u64 \<Rightarrow> proxy \<Rightarrow> proxy" where
  "clear_pending_disconnection addr p =
     (case find_entry (reply_matches addr) p of
        Some i \<Rightarrow> set_entry i reply_clear p
      | None \<Rightarrow> p)"

definition answer_device_disconnected :: "env \<Rightarrow> u64 \<Rightarrow> proxy \<Rightarrow> proxy" where
  "answer_device_disconnected env addr p =
     (let (ok, p) = send_device_connection env addr False 0 CONN_OK p
      in if ok then clear_pending_disconnection addr p else p)"

definition send_device_disconnected :: "env \<Rightarrow> u64 \<Rightarrow> int \<Rightarrow> proxy \<Rightarrow> proxy" where
  "send_device_disconnected env addr err p =
     (let (ok, p) = send_device_connection env addr False 0 err p
      in if ok then clear_pending_disconnection addr p else latch_pending_disconnection addr err p)"

section \<open>Slot accounting\<close>

text \<open>\<open>replace_allocated_slot_\<close>: the first equal entry is replaced.\<close>

fun replace_first :: "u64 \<Rightarrow> u64 \<Rightarrow> u64 list \<Rightarrow> u64 list" where
  "replace_first a b [] = []"
| "replace_first a b (x # xs) = (if x = a then b # xs else x # replace_first a b xs)"

definition replace_allocated_slot :: "u64 \<Rightarrow> u64 \<Rightarrow> proxy \<Rightarrow> proxy" where
  "replace_allocated_slot a b p =
     p\<lparr>free_response := (free_response p)\<lparr>cf_allocated := replace_first a b (cf_allocated (free_response p))\<rparr>\<rparr>"

definition update_address_slot :: "u64 \<Rightarrow> u64 \<Rightarrow> proxy \<Rightarrow> proxy" where
  "update_address_slot old new p =
     (if new = 0 \<and> old \<noteq> 0 then
        let r = free_response p;
            r = (if cf_free r < of_nat (max_connections p) then r\<lparr>cf_free := cf_free r + 1\<rparr> else r)
        in replace_allocated_slot old 0 (p\<lparr>free_response := r\<rparr>)
      else if new \<noteq> 0 \<and> old = 0 then
        let r = free_response p;
            r = (if 0 < cf_free r then r\<lparr>cf_free := cf_free r - 1\<rparr> else r)
        in replace_allocated_slot 0 new (p\<lparr>free_response := r\<rparr>)
      else p)"

section \<open>The packing\<close>

lemma ADDRESS_MASK_mask: "ADDRESS_MASK = mask 48"
  by (simp add: ADDRESS_MASK_def mask_eq_exp_minus_1)

lemma reply_address_set [simp]: "reply_address (reply_set addr err) = addr AND ADDRESS_MASK"
  unfolding reply_address_def reply_set_def ADDRESS_MASK_mask
  by (rule bit_word_eqI) (auto simp: bit_simps)

lemma reply_matches_set [simp]: "reply_matches addr' (reply_set addr err) \<longleftrightarrow> addr AND ADDRESS_MASK = addr' AND ADDRESS_MASK"
  by (simp add: reply_matches_def)

lemma drop_reply_set: "(ucast (drop_bit 48 (reply_set addr err)) :: u16) = word_of_int err"
  unfolding reply_set_def ADDRESS_MASK_mask
  by (rule bit_word_eqI) (auto simp: bit_simps)

lemma reply_error_set:
  "- 32768 \<le> err \<Longrightarrow> err < 32768 \<Longrightarrow> reply_error (reply_set addr err) = err"
  by (simp add: reply_error_def drop_reply_set sint_sbintrunc' signed_take_bit_int_eq_self)

lemma reply_address_clear [simp]: "reply_address reply_clear = 0"
  by (simp add: reply_address_def reply_clear_def)

lemma reply_empty_clear [simp]: "reply_empty reply_clear"
  by (simp add: reply_empty_def reply_clear_def)

text \<open>
  An owed reply survives its packing in one word: whatever the address, the low 48 bits
  come back and the entry matches it; a 16-bit error comes back with its sign; and the entry
  reads as empty only when both are zero.
\<close>

theorem pending_reply_roundtrip:
  assumes "- 32768 \<le> err" and "err < 32768"
  shows "reply_address (reply_set addr err) = addr AND 0x0000FFFFFFFFFFFF \<and>
         reply_error (reply_set addr err) = err \<and>
         reply_matches addr (reply_set addr err) \<and>
         (reply_empty (reply_set addr err) \<longleftrightarrow> addr AND 0x0000FFFFFFFFFFFF = 0 \<and> err = 0)"
proof -
  have "reply_empty (reply_set addr err)" if "addr AND 0x0000FFFFFFFFFFFF = 0" "err = 0"
    using that by (simp add: reply_empty_def reply_set_def ADDRESS_MASK_def)
  moreover have "addr AND 0x0000FFFFFFFFFFFF = 0 \<and> err = 0" if "reply_empty (reply_set addr err)"
    using that reply_address_set [of addr err] reply_error_set [of err addr, OF assms]
    by (simp add: reply_empty_def reply_address_def reply_error_def ADDRESS_MASK_def)
  ultimately show ?thesis
    using reply_error_set [of err addr, OF assms] reply_address_set [of addr err]
    by (auto simp: ADDRESS_MASK_def)
qed

theorem pending_reply_roundtrip_witness:
  "reply_address (reply_set 0xABCD112233445566 (- 1)) = 0x0000112233445566 \<and>
   reply_error (reply_set 0xABCD112233445566 (- 1)) = - 1"
  using pending_reply_roundtrip [of "- 1" "0xABCD112233445566"] by simp

section \<open>The pool\<close>

lemma find_entry_Some:
  assumes "find_entry P p = Some i"
  shows "i < connection_count p \<and> P (pending_disconnections p ! i)"
proof -
  obtain js where "filter (\<lambda>i. P (pending_disconnections p ! i)) [0..<connection_count p] = i # js"
    using assms by (auto simp: find_entry_def split: list.splits)
  then have "i \<in> set (filter (\<lambda>i. P (pending_disconnections p ! i)) [0..<connection_count p])" by simp
  then show ?thesis by simp
qed

lemma find_entry_None:
  "find_entry P p = None \<longleftrightarrow> (\<forall>i < connection_count p. \<not> P (pending_disconnections p ! i))"
proof -
  have "find_entry P p = None \<longleftrightarrow> filter (\<lambda>i. P (pending_disconnections p ! i)) [0..<connection_count p] = []"
    by (auto simp: find_entry_def split: list.splits)
  then show ?thesis by (auto simp: filter_empty_conv)
qed

text \<open>
  The pool is as long as the build's slot count, and no address is owed twice among the entries the
  helpers look at. Address 0, which is no device, is not counted: an empty entry matches it.
\<close>

definition owed_at :: "proxy \<Rightarrow> nat \<Rightarrow> bool" where
  "owed_at p i \<longleftrightarrow> i < connection_count p \<and> reply_address (pending_disconnections p ! i) \<noteq> 0"

definition pool_wf :: "proxy \<Rightarrow> bool" where
  "pool_wf p \<longleftrightarrow> length (pending_disconnections p) = max_connections p \<and>
     connection_count p \<le> max_connections p \<and>
     (\<forall>i j. owed_at p i \<and> owed_at p j \<and>
        reply_address (pending_disconnections p ! i) = reply_address (pending_disconnections p ! j) \<longrightarrow> i = j)"

text \<open>What the pool stands for: at most one owed notification per address.\<close>

definition owed_map :: "proxy \<Rightarrow> u64 \<Rightarrow> pending_reply option" where
  "owed_map p a = (if a = 0 then None else
     map_option (\<lambda>i. pending_disconnections p ! i) (find_entry (\<lambda>r. reply_address r = a) p))"

lemma owed_map_Some:
  assumes "pool_wf p"
  shows "owed_map p a = Some r \<longleftrightarrow> (\<exists>i. owed_at p i \<and> pending_disconnections p ! i = r \<and> reply_address r = a)"
proof
  assume "owed_map p a = Some r"
  then show "\<exists>i. owed_at p i \<and> pending_disconnections p ! i = r \<and> reply_address r = a"
    using find_entry_Some by (auto simp: owed_map_def owed_at_def split: if_splits)
next
  assume "\<exists>i. owed_at p i \<and> pending_disconnections p ! i = r \<and> reply_address r = a"
  then obtain i where i: "owed_at p i" "pending_disconnections p ! i = r" "reply_address r = a" by blast
  then obtain j where j: "find_entry (\<lambda>r. reply_address r = a) p = Some j"
    using find_entry_None [of "\<lambda>r. reply_address r = a" p] unfolding owed_at_def by fastforce
  with find_entry_Some [OF j] i have "owed_at p j" by (auto simp: owed_at_def)
  then have "i = j" using assms i find_entry_Some [OF j] unfolding pool_wf_def by metis
  then show "owed_map p a = Some r" using i j by (auto simp: owed_map_def owed_at_def)
qed

lemma owed_map_None:
  assumes "pool_wf p"
  shows "owed_map p a = None \<longleftrightarrow> (\<forall>i. owed_at p i \<longrightarrow> reply_address (pending_disconnections p ! i) \<noteq> a)"
  using owed_map_Some [OF assms, of a] by (metis not_None_eq)

lemma set_entry_simps [simp]:
  "connection_count (set_entry i r p) = connection_count p"
  "max_connections (set_entry i r p) = max_connections p"
  "length (pending_disconnections (set_entry i r p)) = length (pending_disconnections p)"
  "api_connection (set_entry i r p) = api_connection p"
  "offered (set_entry i r p) = offered p"
  by (simp_all add: set_entry_def)

lemma set_entry_pool:
  assumes wf: "pool_wf p" and i: "i < connection_count p"
    and r: "\<forall>j. j \<noteq> i \<longrightarrow> owed_at p j \<longrightarrow> reply_address (pending_disconnections p ! j) \<noteq> reply_address r"
  shows "pool_wf (set_entry i r p)" (is ?wf)
    and "owed_map (set_entry i r p) =
           (\<lambda>a. if a \<noteq> 0 \<and> a = reply_address r then Some r
                else if a = reply_address (pending_disconnections p ! i) then None else owed_map p a)" (is ?map)
proof -
  let ?q = "set_entry i r p"
  have il: "i < length (pending_disconnections p)" using wf i by (simp add: pool_wf_def)
  have nth: "pending_disconnections ?q ! j = (if j = i then r else pending_disconnections p ! j)" for j
    using il by (simp add: set_entry_def nth_list_update)
  have o: "owed_at ?q j \<longleftrightarrow> (if j = i then reply_address r \<noteq> 0 else owed_at p j)" for j
    using i by (simp add: owed_at_def nth)
  show q: ?wf
    using wf r unfolding pool_wf_def by (auto simp: o nth)
  show ?map
  proof
    fix a
    have "owed_map ?q a = Some x \<longleftrightarrow> (if a \<noteq> 0 \<and> a = reply_address r then Some r
         else if a = reply_address (pending_disconnections p ! i) then None else owed_map p a) = Some x" for x
    proof -
      have only: "owed_at p j \<Longrightarrow> reply_address (pending_disconnections p ! j) = reply_address (pending_disconnections p ! i)
          \<Longrightarrow> j = i" for j
        using wf i unfolding pool_wf_def owed_at_def by metis
      have "owed_map ?q a = Some x \<longleftrightarrow>
          (reply_address r \<noteq> 0 \<and> r = x \<and> reply_address r = a) \<or>
          (\<exists>j. j \<noteq> i \<and> owed_at p j \<and> pending_disconnections p ! j = x \<and> reply_address x = a)"
        unfolding owed_map_Some [OF q] using o nth by metis
      then show ?thesis using owed_map_Some [OF wf, of a x] r only
        by (auto simp: owed_at_def)
    qed
    then show "owed_map ?q a = (if a \<noteq> 0 \<and> a = reply_address r then Some r
         else if a = reply_address (pending_disconnections p ! i) then None else owed_map p a)"
      by (metis option.exhaust)
  qed
qed

lemma reply_empty_address: "reply_empty r \<Longrightarrow> reply_address r = 0"
  by (simp add: reply_empty_def reply_address_def)

lemma clear_pending_disconnection_pool:
  assumes wf: "pool_wf p" and a: "addr AND ADDRESS_MASK \<noteq> 0"
  shows "pool_wf (clear_pending_disconnection addr p) \<and>
         owed_map (clear_pending_disconnection addr p) = (owed_map p)(addr AND ADDRESS_MASK := None)"
proof (cases "find_entry (reply_matches addr) p")
  case None
  then have "owed_map p (addr AND ADDRESS_MASK) = None"
    unfolding owed_map_None [OF wf] find_entry_None owed_at_def reply_matches_def by simp
  then show ?thesis using None wf by (simp add: clear_pending_disconnection_def fun_upd_idem)
next
  case (Some i)
  note i = find_entry_Some [OF Some]
  then have ad: "reply_address (pending_disconnections p ! i) = addr AND ADDRESS_MASK"
    by (simp add: reply_matches_def)
  have "\<forall>j. j \<noteq> i \<longrightarrow> owed_at p j \<longrightarrow> reply_address (pending_disconnections p ! j) \<noteq> reply_address reply_clear"
    by (simp add: owed_at_def)
  from set_entry_pool [OF wf conjunct1 [OF i] this] Some ad show ?thesis
    by (auto simp: clear_pending_disconnection_def fun_eq_iff)
qed

text \<open>
  Latching: the notification for the address is then owed with the new error, and nothing else
  changes, unless the pool has neither an entry for the address nor an empty one; then the first
  entry gives way.
\<close>

definition pool_full :: "u64 \<Rightarrow> proxy \<Rightarrow> bool" where
  "pool_full addr p \<longleftrightarrow> find_entry (reply_matches addr) p = None \<and> find_entry reply_empty p = None"

lemma latch_pending_disconnection_pool:
  assumes wf: "pool_wf p" and a: "addr AND ADDRESS_MASK \<noteq> 0" and c: "0 < connection_count p"
  shows "pool_wf (latch_pending_disconnection addr err p) \<and>
         owed_map (latch_pending_disconnection addr err p) =
           (let m = (if pool_full addr p
                     then (owed_map p)(reply_address (pending_disconnections p ! 0) := None) else owed_map p)
            in m(addr AND ADDRESS_MASK := Some (reply_set addr err)))"
proof -
  let ?r = "reply_set addr err"
  have ne: "find_entry (reply_matches addr) p = None \<Longrightarrow>
      \<forall>j. owed_at p j \<longrightarrow> reply_address (pending_disconnections p ! j) \<noteq> reply_address ?r"
    unfolding find_entry_None owed_at_def reply_matches_def by simp
  consider (match) i where "find_entry (reply_matches addr) p = Some i"
    | (empty) i where "find_entry (reply_matches addr) p = None" "find_entry reply_empty p = Some i"
    | (full) "find_entry (reply_matches addr) p = None" "find_entry reply_empty p = None"
    by (cases "find_entry (reply_matches addr) p"; cases "find_entry reply_empty p") auto
  then show ?thesis
  proof cases
    case match
    note i = find_entry_Some [OF match]
    then have ad: "reply_address (pending_disconnections p ! i) = reply_address ?r"
      by (simp add: reply_matches_def)
    then have o: "owed_at p i" using i a by (simp add: owed_at_def)
    have "\<forall>j. j \<noteq> i \<longrightarrow> owed_at p j \<longrightarrow> reply_address (pending_disconnections p ! j) \<noteq> reply_address ?r"
      using wf o ad unfolding pool_wf_def by metis
    from set_entry_pool [OF wf conjunct1 [OF i] this] match ad a show ?thesis
      by (auto simp: latch_pending_disconnection_def fun_eq_iff pool_full_def)
  next
    case empty
    note i = find_entry_Some [OF empty(2)]
    then have ad: "reply_address (pending_disconnections p ! i) = 0" by (simp add: reply_empty_address)
    from set_entry_pool [OF wf conjunct1 [OF i], of ?r] ne [OF empty(1)] empty ad a show ?thesis
      by (auto simp: latch_pending_disconnection_def fun_eq_iff pool_full_def owed_map_def)
  next
    case full
    from set_entry_pool [OF wf c, of ?r] ne [OF full(1)] full a show ?thesis
      by (auto simp: latch_pending_disconnection_def fun_eq_iff pool_full_def)
  qed
qed

section \<open>Properties of the owed replies\<close>

text \<open>The last offer of a message.\<close>

definition last_offer :: "proxy \<Rightarrow> (client \<times> api_message \<times> bool) option" where
  "last_offer p = (if offered p = [] then None else Some (last (offered p)))"

text \<open>
  C26. A disconnect is never forgotten. Whatever the API does with the notification, the pool keeps at
  most one entry per address, and refines a map from addresses to owed notifications: taken, the
  address owes nothing more; refused, the address owes exactly this error; the other addresses are
  untouched, unless the pool was full of other addresses, when the first entry gives way.
\<close>

theorem disconnect_delivered_or_owed:
  assumes "pool_wf p" and "addr AND 0x0000FFFFFFFFFFFF \<noteq> 0" and "0 < connection_count p"
    and "api_connection p = Some c"
  shows "let p' = send_device_disconnected env addr err p in
     pool_wf p' \<and> (\<exists>taken.
       offered p' = offered p @ [(c, Device_connection addr False 0 err, taken)] \<and>
       owed_map p' = (if taken then (owed_map p)(addr AND 0x0000FFFFFFFFFFFF := None)
         else (let m = (if pool_full addr p
                        then (owed_map p)(reply_address (pending_disconnections p ! 0) := None) else owed_map p)
               in m(addr AND 0x0000FFFFFFFFFFFF := Some (reply_set addr err)))))"
proof -
  have a: "addr AND ADDRESS_MASK \<noteq> 0" using assms(2) by (simp add: ADDRESS_MASK_def)
  define q where "q ok = p\<lparr>offered := offered p @ [(c, Device_connection addr False 0 err, ok)]\<rparr>" for ok
  have q: "pool_wf (q ok)" "owed_map (q ok) = owed_map p" "connection_count (q ok) = connection_count p"
    "offered (q ok) = offered p @ [(c, Device_connection addr False 0 err, ok)]"
    "pool_full addr (q ok) = pool_full addr p" "pending_disconnections (q ok) = pending_disconnections p" for ok
    using assms(1) unfolding q_def
    by (simp_all add: pool_wf_def owed_at_def owed_map_def find_entry_def pool_full_def fun_eq_iff)
  have off: "offered (clear_pending_disconnection addr x) = offered x"
    "offered (latch_pending_disconnection addr err x) = offered x" for x
    by (simp_all add: clear_pending_disconnection_def latch_pending_disconnection_def split: option.splits)
  let ?ok = "accepts env (length (offered p)) c (Device_connection addr False 0 err)"
  have "send_device_disconnected env addr err p =
      (if ?ok then clear_pending_disconnection addr (q True)
       else latch_pending_disconnection addr err (q False))"
    using assms(4) unfolding q_def
    by (auto simp: send_device_disconnected_def send_device_connection_def send_or_nobody_def send_message_def
        Let_def)
  then show ?thesis
    using clear_pending_disconnection_pool [OF q(1) a] a off q
      latch_pending_disconnection_pool [OF q(1) a, of False err] assms(3)
    by (auto simp: Let_def ADDRESS_MASK_def)
qed

definition proxy_example :: proxy where
  "proxy_example = \<lparr>max_connections = 2, batch_size = 16, use_wifi = True, api_connection = Some 1,
     connection_count = 2, pending_disconnections = [0, 0], pending_unpairing = 0,
     last_advertisement_flush_time = 0, advertisements = [],
     free_response = \<lparr>cf_free = 2, cf_limit = 2, cf_allocated = [0, 0]\<rparr>, active = True,
     connections_free_pending = False, configured_scan_active = True, adv_flush_toggle = False,
     scanner_state_pending = False, offered = []\<rparr>"

definition env_example :: "bool \<Rightarrow> env" where
  "env_example ok = \<lparr>stk = (\<lambda>c. 0), clock = 1000, accepts = (\<lambda>n c m. ok), supports_1_12 = (\<lambda>c. True),
     server_connected = True, msg_size = (\<lambda>a. 8), svc_size = (\<lambda>s. 20), host_unpair = (\<lambda>t a. 0)\<rparr>"

lemma proxy_example_facts:
  "pool_wf proxy_example" "connection_count proxy_example = 2" "api_connection proxy_example = Some 1"
  "offered proxy_example = []"
proof -
  have "\<not> owed_at proxy_example i" for i
    using less_2_cases [of i] by (auto simp: owed_at_def proxy_example_def reply_address_def)
  then show "pool_wf proxy_example" by (auto simp: pool_wf_def) (simp_all add: proxy_example_def)
qed (simp_all add: proxy_example_def)

theorem disconnect_delivered_or_owed_witness:
  "pool_wf (send_device_disconnected (env_example False) 0x112233445566 8 proxy_example) \<and>
   (\<exists>taken. offered (send_device_disconnected (env_example False) 0x112233445566 8 proxy_example)
      = [(1, Device_connection 0x112233445566 False 0 8, taken)])"
  using disconnect_delivered_or_owed [of proxy_example "0x112233445566" 1 "env_example False" 8]
  by (auto simp: proxy_example_facts Let_def)

text \<open>
  Once an unpair has succeeded and its reply is owed, no later unpair request of the device is
  answered as a failure: whatever its outcome, the message offered says success, and if it is
  refused the success is still owed.
\<close>

theorem unpair_success_is_final:
  assumes "api_connection p = Some c" and "addr AND 0x0000FFFFFFFFFFFF \<noteq> 0"
    and "pending_unpairing p = reply_set addr CONN_OK"
  shows "let p' = send_device_unpairing env addr success err p in
     (\<exists>taken. offered p' = offered p @ [(c, Device_unpairing addr True CONN_OK, taken)] \<and>
        pending_unpairing p' = (if taken then reply_clear else reply_set addr CONN_OK))"
proof -
  have "reply_error (reply_set addr CONN_OK) = CONN_OK" by (simp add: reply_error_set CONN_OK_def)
  moreover have "\<not> reply_empty (reply_set addr CONN_OK)"
    using assms(2) reply_empty_address [of "reply_set addr CONN_OK"] by (auto simp: ADDRESS_MASK_def)
  ultimately show ?thesis
    using assms(1,3) by (auto simp: send_device_unpairing_def send_message_def Let_def)
qed

theorem unpair_success_is_final_witness:
  "let p = proxy_example\<lparr>pending_unpairing := reply_set 0x112233445566 CONN_OK\<rparr>;
       p' = send_device_unpairing (env_example False) 0x112233445566 False 5 p
   in \<exists>taken. offered p' = offered p @ [(1, Device_unpairing 0x112233445566 True CONN_OK, taken)]"
  using unpair_success_is_final [of "proxy_example\<lparr>pending_unpairing := reply_set 0x112233445566 CONN_OK\<rparr>"
      1 "0x112233445566" "env_example False" False 5]
  by (auto simp: proxy_example_def Let_def)

end
