(* ===== verification/ProxyConnection.thy ===== *)
theory ProxyConnection
  imports ProxyReplies
begin

text \<open>
  \<open>BluetoothConnection\<close> (components/bluetooth_connection/bluetooth_connection_hub.h and .cpp,
  bluetooth_connection.h and .cpp): one connection slot of the proxy, which drives its GATT backend, the
  build's \<open>NimbleGattEngine\<close>, and translates the backend's events into the API's messages.

  An operation works on a \<open>link\<close>: the connection with its backend, and the proxy it writes through.
  The backend's calls to the host are appended to \<open>host_calls\<close>; its calls to its listener are the
  handlers of this theory (\<open>on_listener_call\<close>). The log lines and the printable address they use are
  not modelled.
\<close>

section \<open>State\<close>

datatype client_state =
  CS_INIT | CS_DISCONNECTING | CS_IDLE | CS_DISCOVERED | CS_CONNECTING | CS_CONNECTED | CS_ESTABLISHED

datatype pending_ack = PENDING_ACK_NONE | PENDING_ACK_WRITE | PENDING_ACK_NOTIFY | PENDING_ACK_ERROR

definition GATT_NOT_CONNECTED :: int where "GATT_NOT_CONNECTED = GATT_ERR_NOT_CONNECTED"
definition DONE_SENDING_SERVICES :: int where "DONE_SENDING_SERVICES = -2"
definition INIT_SENDING_SERVICES :: int where "INIT_SENDING_SERVICES = -3"
definition SERVICES_DONE_PENDING :: int where "SERVICES_DONE_PENDING = -4"
definition SERVICES_DONE_RETRY_LIMIT :: "5 word" where "SERVICES_DONE_RETRY_LIMIT = 30"
definition PENDING_ACK_RETRY_LIMIT :: u8 where "PENDING_ACK_RETRY_LIMIT = 250"
definition MAX_PACKET_SIZE :: nat where "MAX_PACKET_SIZE = 1360"
definition SUPPORTS_PAIRING :: bool where "SUPPORTS_PAIRING = True"
definition SUPPORTS_CACHE_CLEARING :: bool where "SUPPORTS_CACHE_CLEARING = False"
definition MEDIUM_MIN_CONN_INTERVAL :: u16 where "MEDIUM_MIN_CONN_INTERVAL = 0x07"
definition MEDIUM_MAX_CONN_INTERVAL :: u16 where "MEDIUM_MAX_CONN_INTERVAL = 0x09"
definition MEDIUM_CONN_TIMEOUT :: u16 where "MEDIUM_CONN_TIMEOUT = 800"

lemmas cursor_codes = DONE_SENDING_SERVICES_def INIT_SENDING_SERVICES_def SERVICES_DONE_PENDING_def

text \<open>\<open>send_service\<close> is the 16-bit signed cursor; \<open>services_done_retries\<close> a 5-bit field.\<close>

record conn =
  backend :: engine
  send_service :: int
  att_mtu :: u16
  conn_address :: u64
  pending_error :: int
  pending_ack_error :: int
  pending_ack_handle :: u16
  client_state :: client_state
  services_done_retries :: "5 word"
  connection_index :: nat
  conn_type :: connection_type
  paired :: bool
  services_discovered :: bool
  pending_ack :: pending_ack
  batch_stalled :: bool
  connected_reply_owed :: bool
  pending_ack_retries :: u8
  host_calls :: "stack_call list"

definition conn_init :: conn where
  "conn_init = \<lparr>backend = set_listener True engine_init, send_service = INIT_SENDING_SERVICES,
     att_mtu = DEFAULT_ATT_MTU, conn_address = 0, pending_error = 0, pending_ack_error = 0,
     pending_ack_handle = 0, client_state = CS_IDLE, services_done_retries = 0, connection_index = 0,
     conn_type = CONN_V1, paired = False, services_discovered = False, pending_ack = PENDING_ACK_NONE,
     batch_stalled = False, connected_reply_owed = False, pending_ack_retries = 0, host_calls = []\<rparr>"

type_synonym link = "conn \<times> proxy"

text \<open>A call of the backend: its return code, and the listener calls it makes.\<close>

fun stacks :: "effect list \<Rightarrow> stack_call list" where
  "stacks [] = []"
| "stacks (Stack c # xs) = c # stacks xs"
| "stacks (Listener l # xs) = stacks xs"

fun listeners_of :: "effect list \<Rightarrow> listener_call list" where
  "listeners_of [] = []"
| "listeners_of (Stack c # xs) = listeners_of xs"
| "listeners_of (Listener l # xs) = l # listeners_of xs"

definition call_backend ::
  "(engine \<Rightarrow> int \<times> engine \<times> effect list) \<Rightarrow> conn \<Rightarrow> int \<times> conn \<times> listener_call list" where
  "call_backend f c =
     (let (rc, e, out) = f (backend c)
      in (rc, c\<lparr>backend := e, host_calls := host_calls c @ stacks out\<rparr>, listeners_of out))"

section \<open>Latches\<close>

definition has_pending_ack :: "conn \<Rightarrow> bool" where
  "has_pending_ack c \<longleftrightarrow> pending_ack c \<noteq> PENDING_ACK_NONE"

definition latch_pending_error :: "int \<Rightarrow> conn \<Rightarrow> conn" where
  "latch_pending_error err c = (if pending_error c = 0 then c\<lparr>pending_error := err\<rparr> else c)"

definition latch_pending_ack :: "pending_ack \<Rightarrow> u16 \<Rightarrow> int \<Rightarrow> conn \<Rightarrow> conn" where
  "latch_pending_ack kind h err c =
     c\<lparr>pending_ack_retries := 0, pending_ack := kind, pending_ack_handle := h, pending_ack_error := err\<rparr>"

definition clear_pending_ack :: "conn \<Rightarrow> conn" where
  "clear_pending_ack c = c\<lparr>pending_ack := PENDING_ACK_NONE\<rparr>"

definition supersede_pending_ack :: "u16 \<Rightarrow> pending_ack \<Rightarrow> conn \<Rightarrow> conn" where
  "supersede_pending_ack h kind c =
     (if has_pending_ack c \<and> pending_ack_handle c = h
         \<and> (pending_ack c = PENDING_ACK_ERROR \<or> pending_ack c = kind)
      then clear_pending_ack c else c)"

definition clear_owed_flags :: "conn \<Rightarrow> conn" where
  "clear_owed_flags c =
     c\<lparr>pending_ack := PENDING_ACK_NONE, batch_stalled := False, connected_reply_owed := False\<rparr>"

definition note_batch_stalled :: "conn \<Rightarrow> conn" where
  "note_batch_stalled c = (if batch_stalled c then c else c\<lparr>batch_stalled := True\<rparr>)"

definition age_pending_ack :: "conn \<Rightarrow> conn" where
  "age_pending_ack c =
     (let c = c\<lparr>pending_ack_retries := pending_ack_retries c + 1\<rparr>
      in if PENDING_ACK_RETRY_LIMIT \<le> pending_ack_retries c then clear_pending_ack c else c)"

definition age_services_done :: "conn \<Rightarrow> conn" where
  "age_services_done c =
     (let c = c\<lparr>services_done_retries := services_done_retries c + 1\<rparr>
      in if SERVICES_DONE_RETRY_LIMIT \<le> services_done_retries c
         then c\<lparr>send_service := DONE_SENDING_SERVICES\<rparr> else c)"

section \<open>Slot lifecycle\<close>

definition hub_release_services :: "conn \<Rightarrow> conn" where
  "hub_release_services c = c\<lparr>backend := release_services (backend c)\<rparr>"

definition set_address :: "u64 \<Rightarrow> link \<Rightarrow> link" where
  "set_address a l = (case l of (c, p) \<Rightarrow>
     ((clear_owed_flags c)\<lparr>conn_address := a\<rparr>, update_address_slot (conn_address c) a p))"

definition reset_connection_slot :: "env \<Rightarrow> int \<Rightarrow> link \<Rightarrow> link" where
  "reset_connection_slot env reason l = (case l of (c, p) \<Rightarrow>
     let p = send_device_disconnected env (conn_address c) reason p;
         (c, p) = set_address 0 (c, p)
     in (c\<lparr>send_service := INIT_SENDING_SERVICES\<rparr>, send_connections_free env p))"

definition reset_connection :: "env \<Rightarrow> int \<Rightarrow> link \<Rightarrow> link" where
  "reset_connection env reason l = (case l of (c, p) \<Rightarrow>
     let (reason, c) = (if pending_error c \<noteq> 0 then (pending_error c, c\<lparr>pending_error := 0\<rparr>) else (reason, c));
         c = clear_owed_flags (c\<lparr>client_state := CS_IDLE, services_discovered := False, paired := False\<rparr>)
     in reset_connection_slot env reason (hub_release_services c, p))"

definition initiate_connection :: "env \<Rightarrow> u8 \<Rightarrow> link \<Rightarrow> link" where
  "initiate_connection env addr_type l = (case l of (c, p) \<Rightarrow>
     let c = c\<lparr>client_state := CS_CONNECTING\<rparr>;
         (err, c, _) = call_backend (connect (stk env) (clock env) (conn_address c) addr_type) c
     in if err \<noteq> 0 then reset_connection env err (c, p) else (c, p))"

definition hub_disconnect :: "env \<Rightarrow> link \<Rightarrow> link" where
  "hub_disconnect env l = (case l of (c, p) \<Rightarrow>
     if client_state c = CS_IDLE \<or> client_state c = CS_DISCONNECTING then (c, p)
     else
       let (err, c, _) = call_backend (gatt_disconnect (stk env) (clock env)) c
       in if err \<noteq> 0 then reset_connection env err (c, p)
          else (c\<lparr>client_state := CS_DISCONNECTING\<rparr>, p))"

definition abort_service_stream :: "env \<Rightarrow> int \<Rightarrow> link \<Rightarrow> link" where
  "abort_service_stream env err l = (case l of (c, p) \<Rightarrow>
     hub_disconnect env ((latch_pending_error err c)\<lparr>send_service := DONE_SENDING_SERVICES\<rparr>, p))"

definition cancel_teardown :: "conn \<Rightarrow> bool \<times> conn" where
  "cancel_teardown c =
     (if client_state c = CS_DISCONNECTING \<and> cancel_gatt_disconnect (backend c)
      then (True, c\<lparr>client_state := CS_CONNECTING\<rparr>) else (False, c))"

definition hub_connected :: "conn \<Rightarrow> bool" where
  "hub_connected c \<longleftrightarrow> client_state c = CS_ESTABLISHED"

definition hub_set_connection_type :: "connection_type \<Rightarrow> conn \<Rightarrow> conn" where
  "hub_set_connection_type ct c = c\<lparr>conn_type := ct, backend := set_connection_type ct (backend c)\<rparr>"

section \<open>Replies\<close>

definition send_connected_reply :: "env \<Rightarrow> link \<Rightarrow> link" where
  "send_connected_reply env l = (case l of (c, p) \<Rightarrow>
     let (ok, p) = send_device_connection env (conn_address c) True (att_mtu c) CONN_OK p
     in (c\<lparr>connected_reply_owed := \<not> ok\<rparr>, p))"

definition try_send_ack :: "env \<Rightarrow> u64 \<Rightarrow> pending_ack \<Rightarrow> u16 \<Rightarrow> int \<Rightarrow> proxy \<Rightarrow> bool \<times> proxy" where
  "try_send_ack env addr kind h err p =
     (case kind of
        PENDING_ACK_ERROR \<Rightarrow> send_gatt_error env addr h err p
      | _ \<Rightarrow> (case api_connection p of None \<Rightarrow> (True, p)
          | Some cl \<Rightarrow> (case kind of
              PENDING_ACK_WRITE \<Rightarrow> send_message env cl (Gatt_write addr h) p
            | PENDING_ACK_NOTIFY \<Rightarrow> send_message env cl (Gatt_notify addr h) p
            | _ \<Rightarrow> (True, p))))"

definition send_ack :: "env \<Rightarrow> pending_ack \<Rightarrow> u16 \<Rightarrow> int \<Rightarrow> link \<Rightarrow> link" where
  "send_ack env kind h err l = (case l of (c, p) \<Rightarrow>
     let (ok, p) = try_send_ack env (conn_address c) kind h err p
     in if ok then (c, p) else (latch_pending_ack kind h err c, p))"

definition hub_send_gatt_error :: "env \<Rightarrow> u16 \<Rightarrow> int \<Rightarrow> link \<Rightarrow> link" where
  "hub_send_gatt_error env h err l = send_ack env PENDING_ACK_ERROR h err l"

definition flush_pending_ack :: "env \<Rightarrow> link \<Rightarrow> link" where
  "flush_pending_ack env l = (case l of (c, p) \<Rightarrow>
     if \<not> has_pending_ack c then (c, p)
     else
       let (ok, p) = try_send_ack env (conn_address c) (pending_ack c) (pending_ack_handle c) (pending_ack_error c) p
       in if ok then (clear_pending_ack c, p) else (age_pending_ack c, p))"

definition send_services_done :: "env \<Rightarrow> link \<Rightarrow> link" where
  "send_services_done env l = (case l of (c, p) \<Rightarrow>
     let (ok, p) = send_gatt_services_done env (conn_address c) p
     in if ok then (c\<lparr>send_service := DONE_SENDING_SERVICES\<rparr>, p)
        else if send_service c \<noteq> SERVICES_DONE_PENDING
        then (c\<lparr>services_done_retries := 0, send_service := SERVICES_DONE_PENDING\<rparr>, p)
        else (age_services_done c, p))"

definition flush_owed_replies :: "env \<Rightarrow> link \<Rightarrow> link" where
  "flush_owed_replies env l = (case l of (c, p) \<Rightarrow>
     let (c, p) = (if connected_reply_owed c then send_connected_reply env (c, p) else (c, p))
     in if connected_reply_owed c then
          let c = (if send_service c = SERVICES_DONE_PENDING then age_services_done c else c);
              c = (if has_pending_ack c then age_pending_ack c else c)
          in (c, p)
        else
          let (c, p) = (if send_service c = SERVICES_DONE_PENDING then send_services_done env (c, p) else (c, p))
          in if has_pending_ack c then flush_pending_ack env (c, p) else (c, p))"

section \<open>Events of the backend\<close>

definition on_connection_state :: "env \<Rightarrow> bool \<Rightarrow> u16 \<Rightarrow> int \<Rightarrow> link \<Rightarrow> link" where
  "on_connection_state env connected mtu_val err l = (case l of (c, p) \<Rightarrow>
     if connected \<and> conn_address c = 0 then
       (let (_, c, _) = call_backend (gatt_disconnect (stk env) (clock env)) c in (c, p))
     else if connected \<and> client_state c = CS_DISCONNECTING then
       (let (rc, c, _) = call_backend (gatt_disconnect (stk env) (clock env)) c
        in if rc \<noteq> 0 then reset_connection env rc (c, p) else (c, p))
     else if connected then
       (let c = c\<lparr>att_mtu := mtu_val\<rparr>
        in if conn_type c = CONN_V3_WITH_CACHE then
             let c = c\<lparr>client_state := CS_ESTABLISHED\<rparr>;
                 (_, c, _) = call_backend (update_connection_params (stk env) MEDIUM_MIN_CONN_INTERVAL
                                MEDIUM_MAX_CONN_INTERVAL 0 MEDIUM_CONN_TIMEOUT) c;
                 (c, p) = send_connected_reply env (c, p)
             in (c, send_connections_free env p)
           else
             let c = c\<lparr>client_state := CS_CONNECTED\<rparr>;
                 (rc, c, _) = call_backend (discover_services (stk env)) c
             in if rc \<noteq> 0 then hub_disconnect env (latch_pending_error rc c, p) else (c, p))
     else if conn_address c = 0 then (c, p)
     else reset_connection env err (c, p))"

definition on_service_discovery_done :: "env \<Rightarrow> int \<Rightarrow> link \<Rightarrow> link" where
  "on_service_discovery_done env err l = (case l of (c, p) \<Rightarrow>
     if err \<noteq> 0 then hub_disconnect env (latch_pending_error err c, p)
     else
       let c = c\<lparr>client_state := CS_ESTABLISHED, services_discovered := True\<rparr>;
           (c, p) = send_connected_reply env (c, p)
       in (c, send_connections_free env p))"

definition on_read_result :: "env \<Rightarrow> u16 \<Rightarrow> bytes \<Rightarrow> int \<Rightarrow> link \<Rightarrow> link" where
  "on_read_result env h data err l = (case l of (c, p) \<Rightarrow>
     if conn_address c = 0 then (c, p)
     else if err \<noteq> 0 then hub_send_gatt_error env h err (c, p)
     else (case api_connection p of None \<Rightarrow> (c, p)
           | Some cl \<Rightarrow> (c, snd (send_message env cl (Gatt_read (conn_address c) h data) p))))"

definition on_write_result :: "env \<Rightarrow> u16 \<Rightarrow> int \<Rightarrow> link \<Rightarrow> link" where
  "on_write_result env h err l = (case l of (c, p) \<Rightarrow>
     if conn_address c = 0 then (c, p)
     else if err \<noteq> 0 then hub_send_gatt_error env h err (c, p)
     else send_ack env PENDING_ACK_WRITE h 0 (c, p))"

definition on_notify_state :: "env \<Rightarrow> u16 \<Rightarrow> bool \<Rightarrow> int \<Rightarrow> link \<Rightarrow> link" where
  "on_notify_state env h enabled err l = (case l of (c, p) \<Rightarrow>
     if conn_address c = 0 then (c, p)
     else if err \<noteq> 0 then hub_send_gatt_error env h err (c, p)
     else send_ack env PENDING_ACK_NOTIFY h 0 (c, p))"

definition on_notify_data :: "env \<Rightarrow> u16 \<Rightarrow> bytes \<Rightarrow> link \<Rightarrow> link" where
  "on_notify_data env h data l = (case l of (c, p) \<Rightarrow>
     if conn_address c = 0 then (c, p)
     else (case api_connection p of None \<Rightarrow> (c, p)
           | Some cl \<Rightarrow> (c, snd (send_message env cl (Gatt_notify_data (conn_address c) h data) p))))"

definition on_pairing_result :: "env \<Rightarrow> int \<Rightarrow> link \<Rightarrow> link" where
  "on_pairing_result env status l = (case l of (c, p) \<Rightarrow>
     if conn_address c = 0 then (c, p)
     else (c\<lparr>paired := (status = 0)\<rparr>, send_device_pairing env (conn_address c) (status = 0) status p))"

definition on_listener_call :: "env \<Rightarrow> listener_call \<Rightarrow> link \<Rightarrow> link" where
  "on_listener_call env call l = (case call of
     ON_CONNECTION_STATE b m e \<Rightarrow> on_connection_state env b m e l
   | ON_SERVICE_DISCOVERY_DONE e \<Rightarrow> on_service_discovery_done env e l
   | ON_READ_RESULT h d e \<Rightarrow> on_read_result env h d e l
   | ON_WRITE_RESULT h e \<Rightarrow> on_write_result env h e l
   | ON_NOTIFY_STATE h b e \<Rightarrow> on_notify_state env h b e l
   | ON_NOTIFY_DATA h d \<Rightarrow> on_notify_data env h d l
   | ON_PAIRING_RESULT s \<Rightarrow> on_pairing_result env s l)"

fun on_listener_calls :: "env \<Rightarrow> listener_call list \<Rightarrow> link \<Rightarrow> link" where
  "on_listener_calls env [] l = l"
| "on_listener_calls env (x # xs) l = on_listener_calls env xs (on_listener_call env x l)"

text \<open>One event, and one deadline poll, of the backend, with what its listener does.\<close>

definition backend_event :: "env \<Rightarrow> gatt_event \<Rightarrow> link \<Rightarrow> link option" where
  "backend_event env ev l = (case l of (c, p) \<Rightarrow>
     map_option (\<lambda>(e, out). on_listener_calls env (listeners_of out)
                   (c\<lparr>backend := e, host_calls := host_calls c @ stacks out\<rparr>, p))
       (handle_gatt_event (stk env) (clock env) ev (backend c)))"

definition backend_poll :: "env \<Rightarrow> link \<Rightarrow> link" where
  "backend_poll env l = (case l of (c, p) \<Rightarrow>
     let (e, out) = poll_deadline (clock env) (backend c)
     in on_listener_calls env (listeners_of out) (c\<lparr>backend := e, host_calls := host_calls c @ stacks out\<rparr>, p))"

section \<open>GATT operations\<close>

definition check_connected_op :: "conn \<Rightarrow> int" where
  "check_connected_op c = (if hub_connected c then CONN_OK else GATT_NOT_CONNECTED)"

text \<open>
  The shape of the five requests: what the request makes stale is dropped, then the backend is asked
  if the connection is established. A listener call the backend makes inside the request comes
  before the request's return code is used.
\<close>

definition gatt_request ::
  "env \<Rightarrow> u16 \<Rightarrow> pending_ack \<Rightarrow> (engine \<Rightarrow> int \<times> engine \<times> effect list) \<Rightarrow> link \<Rightarrow> int \<times> link" where
  "gatt_request env h kind f l = (case l of (c, p) \<Rightarrow>
     let c = supersede_pending_ack h kind c
     in if check_connected_op c \<noteq> CONN_OK then (check_connected_op c, c, p)
        else let (rc, c, calls) = call_backend f c in (rc, on_listener_calls env calls (c, p)))"

definition hub_read_characteristic :: "env \<Rightarrow> u16 \<Rightarrow> link \<Rightarrow> int \<times> link" where
  "hub_read_characteristic env h l = gatt_request env h PENDING_ACK_NONE (read_characteristic (stk env) h) l"

definition hub_write_characteristic :: "env \<Rightarrow> u16 \<Rightarrow> bytes \<Rightarrow> bool \<Rightarrow> link \<Rightarrow> int \<times> link" where
  "hub_write_characteristic env h data response l =
     gatt_request env h PENDING_ACK_WRITE
       (write_characteristic (stk env) h (take (unat (of_nat (length data) :: u16)) data) response) l"

definition hub_read_descriptor :: "env \<Rightarrow> u16 \<Rightarrow> link \<Rightarrow> int \<times> link" where
  "hub_read_descriptor env h l = gatt_request env h PENDING_ACK_NONE (read_descriptor (stk env) h) l"

definition hub_write_descriptor :: "env \<Rightarrow> u16 \<Rightarrow> bytes \<Rightarrow> bool \<Rightarrow> link \<Rightarrow> int \<times> link" where
  "hub_write_descriptor env h data response l =
     gatt_request env h PENDING_ACK_WRITE
       (write_descriptor (stk env) h (take (unat (of_nat (length data) :: u16)) data)) l"

definition hub_notify_characteristic :: "env \<Rightarrow> u16 \<Rightarrow> bool \<Rightarrow> link \<Rightarrow> int \<times> link" where
  "hub_notify_characteristic env h enable l =
     gatt_request env h PENDING_ACK_NOTIFY (notify_characteristic h enable) l"

definition hub_update_connection_params ::
  "env \<Rightarrow> u16 \<Rightarrow> u16 \<Rightarrow> u16 \<Rightarrow> u16 \<Rightarrow> link \<Rightarrow> int \<times> link" where
  "hub_update_connection_params env min_i max_i lat tmo l = (case l of (c, p) \<Rightarrow>
     if check_connected_op c \<noteq> CONN_OK then (check_connected_op c, c, p)
     else let (rc, c, _) = call_backend (update_connection_params (stk env) min_i max_i lat tmo) c
          in (rc, c, p))"

definition hub_pair :: "env \<Rightarrow> conn \<Rightarrow> int \<times> conn" where
  "hub_pair env c = (let (rc, c, _) = call_backend (pair (stk env)) c in (rc, c))"

definition unpair_device :: "env \<Rightarrow> u64 \<Rightarrow> int" where
  "unpair_device env addr =
     (let mac_msb = uint64_to_mac_msb_first addr
      in host_unpair env 0 (map (\<lambda>i. mac_msb ! (5 - i)) [0..<6]))"

definition clear_gatt_cache :: "u64 \<Rightarrow> int" where "clear_gatt_cache addr = GATT_NOT_CONNECTED"

end
