(* ===== verification/ServiceStream.thy ===== *)
theory ServiceStream
  imports ProxyConnection Ledger
begin

text \<open>
  The streaming of a discovered service table to the API client, in batches
  (bluetooth_connection_hub.cpp from \<open>send_service_for_discovery_\<close>, bluetooth_connection.cpp and the
  size budget of bluetooth_connection.h), with the request that starts it
  (\<open>BluetoothProxy::bluetooth_gatt_send_services\<close>).

  The cursor is a 16-bit signed integer; past 32767 services its increment would make it negative
  and the code would index the table with it, which the model ends the batch at. Everything below is
  used for tables of at most 32767 services.
\<close>

section \<open>Sizes and rendering\<close>

definition SERVICE_OVERHEAD_LEGACY :: nat where "SERVICE_OVERHEAD_LEGACY = 25"
definition SERVICE_OVERHEAD_EFFICIENT :: nat where "SERVICE_OVERHEAD_EFFICIENT = 10"
definition CHAR_SIZE_128BIT :: nat where "CHAR_SIZE_128BIT = 35"
definition DESC_SIZE_128BIT :: nat where "DESC_SIZE_128BIT = 25"
definition DESC_PER_CHAR :: nat where "DESC_PER_CHAR = 1"

definition estimate_service_size :: "u16 \<Rightarrow> bool \<Rightarrow> nat" where
  "estimate_service_size char_count use_efficient_uuids =
     (if use_efficient_uuids then SERVICE_OVERHEAD_EFFICIENT else SERVICE_OVERHEAD_LEGACY)
     + (CHAR_SIZE_128BIT + DESC_SIZE_128BIT * DESC_PER_CHAR) * unat char_count"

definition wire_uuid :: "espbtuuid \<Rightarrow> bool \<Rightarrow> (u64 \<times> u64) \<times> u32" where
  "wire_uuid u eff = fill_gatt_uuid ((0, 0), 0) u eff"

text \<open>A service as a message; \<open>None\<close>: an index range goes past the totals of the table.\<close>

definition render_characteristic ::
  "bool \<Rightarrow> gatt_service_table \<Rightarrow> gatt_characteristic \<Rightarrow> characteristic_msg option" where
  "render_characteristic eff tbl chr =
     (if descriptor_count chr \<noteq> 0 \<and>
         unat (tbl_descriptor_count tbl) < unat (first_descriptor chr) + unat (descriptor_count chr)
      then None
      else Some \<lparr>cm_uuid = wire_uuid (chr_uuid chr) eff, cm_handle = value_handle chr,
        cm_properties = properties chr,
        cm_descriptors = map (\<lambda>d. \<lparr>dm_uuid = wire_uuid (dsc_uuid d) eff, dm_handle = dsc_handle d\<rparr>)
          (take (unat (descriptor_count chr)) (drop (unat (first_descriptor chr)) (tbl_descriptors tbl)))\<rparr>)"

definition render_service :: "bool \<Rightarrow> gatt_service_table \<Rightarrow> gatt_service \<Rightarrow> service_msg option" where
  "render_service eff tbl svc =
     (if characteristic_count svc \<noteq> 0 \<and>
         unat (tbl_characteristic_count tbl) < unat (first_characteristic svc) + unat (characteristic_count svc)
      then None
      else map_option (\<lambda>chrs. \<lparr>sm_uuid = wire_uuid (svc_uuid svc) eff, sm_handle = start_handle svc,
                               sm_characteristics = chrs\<rparr>)
        (those (map (render_characteristic eff tbl)
          (take (unat (characteristic_count svc))
             (drop (unat (first_characteristic svc)) (tbl_characteristics tbl))))))"

section \<open>One batch\<close>

definition wrap16 :: "int \<Rightarrow> int" where "wrap16 k = sint (word_of_int k :: u16)"

text \<open>Returns the batch, its size, the cursor, and whether to keep filling it.\<close>

definition close_service_batch ::
  "env \<Rightarrow> service_msg list \<Rightarrow> nat \<Rightarrow> int \<Rightarrow> service_msg list \<times> nat \<times> int \<times> bool" where
  "close_service_batch env resp current_size cursor =
     (let service_size = svc_size env (last resp) + 1
      in if MAX_PACKET_SIZE < current_size + service_size then
           (if 1 < length resp then (butlast resp, current_size, cursor, False)
            else (resp, current_size, wrap16 (cursor + 1), False))
         else (resp, current_size + service_size, wrap16 (cursor + 1), True))"

datatype batch = Batch "service_msg list" int | Batch_abort int

function fill_batch ::
  "env \<Rightarrow> bool \<Rightarrow> gatt_service_table \<Rightarrow> int \<Rightarrow> service_msg list \<Rightarrow> nat \<Rightarrow> batch" where
  "fill_batch env eff tbl cursor resp size_now =
     (if 0 \<le> cursor \<and> cursor < int (unat (service_count tbl)) then
        let svc = tbl_services tbl ! nat cursor
        in if resp \<noteq> [] \<and> MAX_PACKET_SIZE < size_now + estimate_service_size (characteristic_count svc) eff
           then Batch resp cursor
           else (case render_service eff tbl svc of
               None \<Rightarrow> Batch_abort cursor
             | Some m \<Rightarrow>
                 (case close_service_batch env (resp @ [m]) size_now cursor of (resp', size', cursor', cont) \<Rightarrow>
                    if cont then fill_batch env eff tbl cursor' resp' size' else Batch resp' cursor'))
      else Batch resp cursor)"
  by pat_completeness auto

lemma wrap16_eq: "wrap16 k = (k + 32768) mod 65536 - 32768"
  by (simp add: wrap16_def int_word_sint)

lemma wrap16_small: "0 \<le> k \<Longrightarrow> k < 32768 \<Longrightarrow> wrap16 k = k"
  by (simp add: wrap16_eq)

lemma wrap16_next: "0 \<le> k \<Longrightarrow> k < 65535 \<Longrightarrow> wrap16 (k + 1) = k + 1 \<or> wrap16 (k + 1) < 0"
proof (cases "k + 1 < 32768")
  case False
  assume "k < 65535"
  with False have "(k + 1 + 32768) mod 65536 = k + 1 + 32768 - 65536"
    by (simp add: mod_pos_geq)
  with \<open>k < 65535\<close> show ?thesis by (simp add: wrap16_eq)
qed (simp add: wrap16_small)

termination fill_batch
proof (relation "measure (\<lambda>(env, eff, tbl, cursor, resp, size_now).
    if 0 \<le> cursor then nat (int (unat (service_count tbl)) - cursor) else 0)", goal_cases)
  case (2 env eff tbl cursor resp size_now svc m r' rest size' rest' cursor' cont)
  then have "0 \<le> cursor" "cursor < int (unat (service_count tbl))" "cursor' = wrap16 (cursor + 1)"
    by (auto simp: close_service_batch_def Let_def split: if_splits)
  moreover have "cursor < 65535"
    using calculation(2) unat_u16_lt [of "service_count tbl"] by linarith
  ultimately show ?case using wrap16_next [of cursor] by auto
qed simp

declare fill_batch.simps [simp del]

section \<open>The streamer\<close>

definition park_service_stream :: "conn \<Rightarrow> conn" where
  "park_service_stream c =
     (let c = c\<lparr>batch_stalled := False\<rparr>
      in if 0 \<le> send_service c then (hub_release_services c)\<lparr>send_service := DONE_SENDING_SERVICES\<rparr>
         else if send_service c = SERVICES_DONE_PENDING then c\<lparr>send_service := DONE_SENDING_SERVICES\<rparr>
         else c)"

definition send_service_for_discovery :: "env \<Rightarrow> link \<Rightarrow> link" where
  "send_service_for_discovery env l = (case l of (c, p) \<Rightarrow>
     let tbl = get_service_table (backend c)
     in if int (unat (service_count tbl)) \<le> send_service c
        then send_services_done env (hub_release_services c, p)
        else (case api_connection p of
            None \<Rightarrow> (park_service_stream c, p)
          | Some cl \<Rightarrow>
              (let eff = client_supports_efficient_uuids env p;
                   batch_start = send_service c
               in case fill_batch env eff tbl batch_start [] (msg_size env (conn_address c)) of
                    Batch_abort cursor \<Rightarrow>
                      abort_service_stream env GATT_ERR_UNLIKELY (c\<lparr>send_service := cursor\<rparr>, p)
                  | Batch resp cursor \<Rightarrow>
                      (let c = c\<lparr>send_service := cursor\<rparr>;
                           (ok, p) = send_message env cl (Get_services (conn_address c) resp) p
                       in if \<not> ok then ((note_batch_stalled c)\<lparr>send_service := batch_start\<rparr>, p)
                          else (c\<lparr>batch_stalled := False\<rparr>, p)))))"

definition process_pending_services :: "env \<Rightarrow> link \<Rightarrow> link" where
  "process_pending_services env l =
     (if 0 \<le> send_service (fst l) then send_service_for_discovery env l else l)"

text \<open>\<open>bluetooth_gatt_send_services\<close>, once the connection of the address was found.\<close>

definition gatt_send_services :: "env \<Rightarrow> link \<Rightarrow> link" where
  "gatt_send_services env l = (case l of (c, p) \<Rightarrow>
     if \<not> services_discovered c then send_services_done env (c, p)
     else if 0 < send_service c then (c\<lparr>send_service := 0\<rparr>, p)
     else if send_service c = SERVICES_DONE_PENDING then (c\<lparr>send_service := DONE_SENDING_SERVICES\<rparr>, p)
     else if send_service c = INIT_SENDING_SERVICES then (c\<lparr>send_service := 0\<rparr>, p)
     else (c, p))"

section \<open>What a batch holds\<close>

definition rendered :: "bool \<Rightarrow> gatt_service_table \<Rightarrow> nat \<Rightarrow> service_msg option" where
  "rendered eff tbl i = render_service eff tbl (tbl_services tbl ! i)"

definition rendered_list :: "bool \<Rightarrow> gatt_service_table \<Rightarrow> nat \<Rightarrow> nat \<Rightarrow> service_msg list" where
  "rendered_list eff tbl a b = map (\<lambda>i. the (rendered eff tbl i)) [a..<b]"

definition renders :: "bool \<Rightarrow> gatt_service_table \<Rightarrow> nat \<Rightarrow> nat \<Rightarrow> bool" where
  "renders eff tbl a b \<longleftrightarrow> (\<forall>i. a \<le> i \<and> i < b \<longrightarrow> rendered eff tbl i \<noteq> None)"

lemma rendered_list_Suc:
  "a \<le> b \<Longrightarrow> rendered eff tbl b = Some m \<Longrightarrow>
     rendered_list eff tbl a b @ [m] = rendered_list eff tbl a (Suc b)"
  by (simp add: rendered_list_def)

lemma rendered_list_append:
  "a \<le> b \<Longrightarrow> b \<le> c \<Longrightarrow> rendered_list eff tbl a b @ rendered_list eff tbl b c = rendered_list eff tbl a c"
  using upt_add_eq_append [of a b "c - b"] by (simp add: rendered_list_def)

lemma renders_Suc: "renders eff tbl a b \<Longrightarrow> rendered eff tbl b = Some m \<Longrightarrow> renders eff tbl a (Suc b)"
  by (auto simp: renders_def less_Suc_eq)

lemma renders_append: "renders eff tbl a b \<Longrightarrow> renders eff tbl b c \<Longrightarrow> renders eff tbl a c"
  by (meson not_less renders_def)

text \<open>
  A batch filled from the service \<open>start\<close>: the services from there up to the new cursor, each
  rendered, at least one if there is one; or an abort, when a service's ranges do not fit.
\<close>

lemma fill_batch_spec:
  assumes "unat (service_count tbl) \<le> 32767" and "0 \<le> cursor" and "cursor \<le> int (unat (service_count tbl))"
    and "start \<le> nat cursor" and "resp = rendered_list eff tbl start (nat cursor)"
    and "renders eff tbl start (nat cursor)"
    and "start = nat cursor \<longrightarrow> start < unat (service_count tbl)"
  shows "case fill_batch env eff tbl cursor resp size_now of
      Batch r k \<Rightarrow> 0 \<le> k \<and> start < nat k \<and> k \<le> int (unat (service_count tbl)) \<and>
                   r = rendered_list eff tbl start (nat k) \<and> renders eff tbl start (nat k)
    | Batch_abort k \<Rightarrow> \<exists>i < unat (service_count tbl). rendered eff tbl i = None"
  using assms
proof (induction env eff tbl cursor resp size_now rule: fill_batch.induct)
  case (1 env eff tbl cursor resp size_now)
  let ?n = "int (unat (service_count tbl))"
  let ?svc = "tbl_services tbl ! nat cursor"
  show ?case
  proof (cases "cursor < ?n")
    case False
    then have "nat cursor = unat (service_count tbl)" using 1(3,4) by linarith
    then have "start < nat cursor" using 1(5,8) by (metis le_neq_implies_less less_irrefl)
    then show ?thesis using 1(3-7) False by (subst fill_batch.simps) simp
  next
    case True
    show ?thesis
    proof (cases "resp \<noteq> [] \<and> MAX_PACKET_SIZE < size_now + estimate_service_size (characteristic_count ?svc) eff")
      case b: True
      then have "start < nat cursor" using 1(5,6) by (auto simp: rendered_list_def)
      then show ?thesis using 1(3-7) True b by (subst fill_batch.simps) simp
    next
      case b: False
      show ?thesis
      proof (cases "render_service eff tbl ?svc")
        case None
        then have "rendered eff tbl (nat cursor) = None" by (simp add: rendered_def)
        moreover have "nat cursor < unat (service_count tbl)" using True 1(3) by linarith
        ultimately show ?thesis using 1(3) True b None by (subst fill_batch.simps) auto
      next
        case (Some m)
        have r: "rendered eff tbl (nat cursor) = Some m" using Some by (simp add: rendered_def)
        have sn: "nat (cursor + 1) = Suc (nat cursor)" and n1: "nat cursor < unat (service_count tbl)"
          using 1(3) True by linarith+
        have w: "wrap16 (cursor + 1) = cursor + 1"
          using wrap16_small [of "cursor + 1"] 1(2,3) True by simp
        have l: "resp @ [m] = rendered_list eff tbl start (Suc (nat cursor))"
          using rendered_list_Suc [OF 1(5) r] 1(6) by simp
        have rn: "renders eff tbl start (Suc (nat cursor))" by (rule renders_Suc [OF 1(7) r])
        obtain resp' size' cursor' cont where c:
          "close_service_batch env (resp @ [m]) size_now cursor = (resp', size', cursor', cont)"
          by (metis prod_cases4)
        have step: "fill_batch env eff tbl cursor resp size_now =
            (if cont then fill_batch env eff tbl cursor' resp' size' else Batch resp' cursor')"
          using 1(3) True b Some c by (subst fill_batch.simps) (auto simp: Let_def)
        show ?thesis
        proof (cases cont)
          case cont: True
          then have cc: "cursor' = cursor + 1" "resp' = resp @ [m]"
            using c w by (auto simp: close_service_batch_def Let_def split: if_splits)
          have "case fill_batch env eff tbl cursor' resp' size' of
              Batch r k \<Rightarrow> 0 \<le> k \<and> start < nat k \<and> k \<le> ?n \<and>
                   r = rendered_list eff tbl start (nat k) \<and> renders eff tbl start (nat k)
            | Batch_abort k \<Rightarrow> \<exists>i < unat (service_count tbl). rendered eff tbl i = None"
            by (rule 1(1) [OF _ refl b Some c [symmetric] refl refl cont])
              (use 1 True cc l rn sn n1 in auto)
          then show ?thesis using step cont by simp
        next
          case nc: False
          then consider (pop) "1 < length (resp @ [m])" "resp' = resp" "cursor' = cursor"
            | (single) "resp = []" "resp' = resp @ [m]" "cursor' = cursor + 1"
            using c w by (auto simp: close_service_batch_def Let_def split: if_splits)
          then show ?thesis
          proof cases
            case pop
            then have "start < nat cursor" using 1(5,6) by (auto simp: rendered_list_def)
            then show ?thesis using step nc pop 1 by simp
          next
            case single
            then show ?thesis using step nc l rn sn 1 True by auto
          qed
        qed
      qed
    qed
  qed
qed

end
