(* ===== verification/StreamSafety.thy ===== *)
theory StreamSafety
  imports ServiceStream
begin

text \<open>
  The hazard rule of bluetooth_connection_hub.cpp: a client caches the services it accumulated when
  services-done arrives, so services-done may never follow an incomplete stream. The client is
  modelled by what it has accumulated for its outstanding request; a slot is run through requests,
  streaming steps, drains, subscriber changes and link losses in any order and with any answers of
  the API.
\<close>

section \<open>The stream messages of a trace\<close>

fun is_stream :: "api_message \<Rightarrow> bool" where
  "is_stream (Get_services a s) = True"
| "is_stream (Get_services_done a) = True"
| "is_stream _ = False"

definition stream_log :: "proxy \<Rightarrow> (client \<times> api_message) list" where
  "stream_log p = map (\<lambda>(c, m, ok). (c, m)) (filter (\<lambda>(c, m, ok). ok \<and> is_stream m) (offered p))"

definition quiet :: "proxy \<Rightarrow> proxy \<Rightarrow> bool" where
  "quiet p p' \<longleftrightarrow> api_connection p' = api_connection p \<and> stream_log p' = stream_log p"

lemma quiet_refl [simp]: "quiet p p" by (simp add: quiet_def)

lemma quiet_trans: "quiet p q \<Longrightarrow> quiet q r \<Longrightarrow> quiet p r" by (simp add: quiet_def)

lemma quiet_update:
  "api_connection p' = api_connection p \<Longrightarrow> offered p' = offered p \<Longrightarrow> quiet p p'"
  by (simp add: quiet_def stream_log_def)

lemma quiet_send: "\<not> is_stream m \<Longrightarrow> send_message env c m p = (ok, p') \<Longrightarrow> quiet p p'"
  by (auto simp: quiet_def stream_log_def send_message_def Let_def)

lemma quiet_send_or_nobody: "\<not> is_stream m \<Longrightarrow> send_or_nobody env m p = (ok, p') \<Longrightarrow> quiet p p'"
  by (auto simp: send_or_nobody_def quiet_send split: option.splits)

lemma quiet_connections_free: "quiet p (send_connections_free env p)"
proof (cases "api_connection p")
  case (Some c)
  obtain ok p' where "send_message env c (Connections_free (free_response p)) p = (ok, p')" by fastforce
  then show ?thesis
    using Some quiet_send [of "Connections_free (free_response p)" env c p ok p']
    by (auto simp: send_connections_free_def send_connections_free_to_def quiet_def stream_log_def)
qed (simp add: send_connections_free_def)

lemma quiet_disconnected: "quiet p (send_device_disconnected env a err p)"
proof -
  obtain ok p' where s: "send_or_nobody env (Device_connection a False 0 err) p = (ok, p')" by fastforce
  have "quiet p' (clear_pending_disconnection a p')" "quiet p' (latch_pending_disconnection a err p')"
    by (auto simp: clear_pending_disconnection_def latch_pending_disconnection_def quiet_def stream_log_def
        split: option.splits)
  then show ?thesis
    using s quiet_send_or_nobody [OF _ s]
    by (auto simp: send_device_disconnected_def send_device_connection_def intro: quiet_trans)
qed

lemma quiet_address_slot: "quiet p (update_address_slot a b p)"
  by (auto simp: update_address_slot_def replace_allocated_slot_def Let_def intro!: quiet_update)

section \<open>What the slot operations do to the cursor\<close>

lemma reset_connection_effect:
  assumes "reset_connection env reason (c, p) = (c', p')"
  shows "quiet p p' \<and> send_service c' = INIT_SENDING_SERVICES \<and> \<not> hub_connected c'"
proof -
  define r where "r = (if pending_error c \<noteq> 0 then pending_error c else reason)"
  define p1 where "p1 = send_device_disconnected env (conn_address c) r p"
  define p2 where "p2 = update_address_slot (conn_address c) 0 p1"
  have "p' = send_connections_free env p2" and "send_service c' = INIT_SENDING_SERVICES"
    and "client_state c' = CS_IDLE"
    using assms unfolding p2_def p1_def r_def
    by (auto simp: reset_connection_def reset_connection_slot_def set_address_def clear_owed_flags_def
        hub_release_services_def Let_def split: if_splits)
  moreover have "quiet p p1" "quiet p1 p2" "quiet p2 (send_connections_free env p2)"
    by (simp_all add: p1_def p2_def quiet_disconnected quiet_address_slot quiet_connections_free)
  ultimately show ?thesis by (auto simp: hub_connected_def intro: quiet_trans)
qed

lemma disconnect_effect:
  assumes "hub_disconnect env (c, p) = (c', p')"
  shows "quiet p p' \<and> \<not> hub_connected c' \<and>
         (send_service c' = send_service c \<or> send_service c' = INIT_SENDING_SERVICES)"
proof (cases "client_state c = CS_IDLE \<or> client_state c = CS_DISCONNECTING")
  case True
  then show ?thesis using assms by (auto simp: hub_disconnect_def hub_connected_def)
next
  case False
  obtain err c1 calls where b: "call_backend (gatt_disconnect (stk env) (clock env)) c = (err, c1, calls)"
    by (metis prod_cases3)
  have c1: "send_service c1 = send_service c" using b by (auto simp: call_backend_def split: prod.splits)
  show ?thesis
  proof (cases "err = 0")
    case True
    then show ?thesis using assms False b c1 by (auto simp: hub_disconnect_def hub_connected_def)
  next
    case err: False
    then have "reset_connection env err (c1, p) = (c', p')"
      using assms False b by (auto simp: hub_disconnect_def)
    from reset_connection_effect [OF this] show ?thesis by simp
  qed
qed

lemma abort_effect:
  assumes "abort_service_stream env err (c, p) = (c', p')"
  shows "quiet p p' \<and> \<not> hub_connected c' \<and>
         (send_service c' = DONE_SENDING_SERVICES \<or> send_service c' = INIT_SENDING_SERVICES)"
  using disconnect_effect [of env "(latch_pending_error err c)\<lparr>send_service := DONE_SENDING_SERVICES\<rparr>" p c' p'] assms
  by (simp add: abort_service_stream_def)

section \<open>The client's side\<close>

datatype view = Idle | Collecting "service_msg list"

datatype observation = Asked client | Got client api_message | Swapped

text \<open>\<open>None\<close>: the client was sent a batch or a services-done it must not get.\<close>

fun view_step :: "(client \<Rightarrow> service_msg list option) \<Rightarrow> observation \<Rightarrow> view option \<Rightarrow> view option" where
  "view_step complete x None = None"
| "view_step complete (Asked cl) (Some v) = Some (Collecting [])"
| "view_step complete Swapped (Some v) = Some Idle"
| "view_step complete (Got cl (Get_services a batch)) (Some v) =
     (case v of Idle \<Rightarrow> None | Collecting acc \<Rightarrow> Some (Collecting (acc @ batch)))"
| "view_step complete (Got cl (Get_services_done a)) (Some v) =
     (case v of Idle \<Rightarrow> None | Collecting acc \<Rightarrow> if complete cl = Some acc then Some Idle else None)"
| "view_step complete (Got cl m) (Some v) = Some v"

definition view_run :: "(client \<Rightarrow> service_msg list option) \<Rightarrow> observation list \<Rightarrow> view option \<Rightarrow> view option" where
  "view_run complete obs v = fold (view_step complete) obs v"

text \<open>The complete list: every service of the table, rendered for the client.\<close>

definition complete_list :: "(client \<Rightarrow> bool) \<Rightarrow> gatt_service_table \<Rightarrow> client \<Rightarrow> service_msg list option" where
  "complete_list api12 tbl cl =
     those (map (\<lambda>i. rendered (api12 cl) tbl i) [0..<unat (service_count tbl)])"

lemma those_Some: "(\<forall>x \<in> set xs. f x \<noteq> None) \<Longrightarrow> those (map f xs) = Some (map (\<lambda>x. the (f x)) xs)"
  by (induction xs) auto

lemma complete_list_renders:
  "renders (api12 cl) tbl 0 (unat (service_count tbl)) \<Longrightarrow>
     complete_list api12 tbl cl = Some (rendered_list (api12 cl) tbl 0 (unat (service_count tbl)))"
  unfolding complete_list_def rendered_list_def renders_def by (rule those_Some) auto

section \<open>Steps of a slot\<close>

datatype stream_op =
  Ask env
| Stream env
| Drain env
| Swap "client option"
| Drop env int

text \<open>The answer to a request whose connection is not established.\<close>

definition handle_gatt_not_connected :: "env \<Rightarrow> u64 \<Rightarrow> u16 \<Rightarrow> proxy \<Rightarrow> proxy" where
  "handle_gatt_not_connected env addr h p = snd (send_gatt_error env addr h GATT_NOT_CONNECTED p)"

definition slot_get_services :: "env \<Rightarrow> link \<Rightarrow> link" where
  "slot_get_services env l = (case l of (c, p) \<Rightarrow>
     if \<not> hub_connected c then (c, handle_gatt_not_connected env (conn_address c) 0 p)
     else gatt_send_services env (c, p))"

text \<open>The part of \<open>reset_owed_replies_\<close> that touches the slot, and the new subscriber.\<close>

definition swap_subscriber :: "client option \<Rightarrow> link \<Rightarrow> link" where
  "swap_subscriber cl l = (case l of (c, p) \<Rightarrow>
     (clear_owed_flags (park_service_stream c), p\<lparr>api_connection := cl\<rparr>))"

definition news :: "link \<Rightarrow> link \<Rightarrow> observation list" where
  "news l l' = map (\<lambda>(c, m). Got c m) (drop (length (stream_log (snd l))) (stream_log (snd l')))"

fun stream_step :: "stream_op \<Rightarrow> link \<Rightarrow> link \<times> observation list" where
  "stream_step (Ask env) l = (case api_connection (snd l) of None \<Rightarrow> (l, [])
     | Some cl \<Rightarrow> let l' = slot_get_services env l in (l', Asked cl # news l l'))"
| "stream_step (Stream env) l = (let l' = process_pending_services env l in (l', news l l'))"
| "stream_step (Drain env) l = (let l' = flush_owed_replies env l in (l', news l l'))"
| "stream_step (Swap cl) l = (swap_subscriber cl l, [Swapped])"
| "stream_step (Drop env reason) l = (let l' = reset_connection env reason l in (l', news l l'))"

abbreviation stream_run :: "stream_op list \<Rightarrow> link \<Rightarrow> link \<times> observation list" where
  "stream_run \<equiv> run_ops stream_step"

text \<open>The API version of a client does not change.\<close>

fun same_api :: "(client \<Rightarrow> bool) \<Rightarrow> stream_op \<Rightarrow> bool" where
  "same_api api12 (Ask env) = (supports_1_12 env = api12)"
| "same_api api12 (Stream env) = (supports_1_12 env = api12)"
| "same_api api12 (Drain env) = (supports_1_12 env = api12)"
| "same_api api12 (Swap cl) = True"
| "same_api api12 (Drop env reason) = (supports_1_12 env = api12)"

section \<open>The invariant\<close>

text \<open>
  What the client has accumulated is what the cursor says was delivered; an owed services-done is
  owed to a client that has everything.
\<close>

definition stream_inv :: "(client \<Rightarrow> bool) \<Rightarrow> gatt_service_table \<Rightarrow> view option \<Rightarrow> link \<Rightarrow> bool" where
  "stream_inv api12 tbl v l = (case l of (c, p) \<Rightarrow>
     v \<noteq> None \<and>
     (hub_connected c \<longrightarrow> services_discovered c) \<and>
     (send_service c = INIT_SENDING_SERVICES \<and> hub_connected c \<longrightarrow> get_service_table (backend c) = tbl) \<and>
     (0 \<le> send_service c \<longrightarrow> hub_connected c \<and> get_service_table (backend c) = tbl \<and>
        send_service c \<le> int (unat (service_count tbl)) \<and>
        (\<forall>cl. api_connection p = Some cl \<longrightarrow>
           v = Some (Collecting (rendered_list (api12 cl) tbl 0 (nat (send_service c)))) \<and>
           renders (api12 cl) tbl 0 (nat (send_service c)))) \<and>
     (send_service c = SERVICES_DONE_PENDING \<longrightarrow> hub_connected c \<and>
        (\<forall>cl. api_connection p = Some cl \<longrightarrow>
           v = Some (Collecting (rendered_list (api12 cl) tbl 0 (unat (service_count tbl)))) \<and>
           renders (api12 cl) tbl 0 (unat (service_count tbl)))) \<and>
     send_service c \<in> {INIT_SENDING_SERVICES, DONE_SENDING_SERVICES, SERVICES_DONE_PENDING} \<union> {0..})"

lemma news_quiet: "quiet (snd l) (snd l') \<Longrightarrow> news l l' = []"
  by (simp add: news_def quiet_def)

text \<open>The effect of the services-done sender.\<close>

lemma services_done_effect:
  assumes "send_services_done env (c, p) = (c', p')"
  shows "api_connection p' = api_connection p \<and> backend c' = backend c \<and> client_state c' = client_state c \<and>
         services_discovered c' = services_discovered c \<and> conn_address c' = conn_address c \<and>
         (case api_connection p of
            None \<Rightarrow> stream_log p' = stream_log p \<and> send_service c' = DONE_SENDING_SERVICES
          | Some cl \<Rightarrow>
              (stream_log p' = stream_log p @ [(cl, Get_services_done (conn_address c))] \<and>
                 send_service c' = DONE_SENDING_SERVICES) \<or>
              (stream_log p' = stream_log p \<and>
                 (send_service c' = SERVICES_DONE_PENDING \<or> send_service c' = DONE_SENDING_SERVICES)))"
  using assms
  by (auto simp: send_services_done_def send_gatt_services_done_def send_or_nobody_def send_message_def
      age_services_done_def stream_log_def Let_def split: option.splits if_splits)

lemma inv_quiet_other:
  assumes "stream_inv api12 tbl v (c, p)" and "quiet p p'"
    and "send_service c' = send_service c \<or> send_service c' = DONE_SENDING_SERVICES"
    and "client_state c' = client_state c" and "services_discovered c' = services_discovered c"
    and "backend c' = backend c"
  shows "stream_inv api12 tbl v (c', p')"
proof -
  have e: "hub_connected c' = hub_connected c" "api_connection p' = api_connection p"
    using assms(2,4) by (simp_all add: hub_connected_def quiet_def)
  from assms(3) show ?thesis
  proof
    assume "send_service c' = send_service c"
    then show ?thesis using assms(1) unfolding stream_inv_def prod.case e assms(5,6) by simp
  next
    assume "send_service c' = DONE_SENDING_SERVICES"
    then show ?thesis using assms(1) unfolding stream_inv_def prod.case e assms(5,6)
      by (simp add: cursor_codes)
  qed
qed

lemma inv_parked:
  assumes "stream_inv api12 tbl v (c, p)" and "v' \<noteq> None"
    and "\<not> hub_connected c'" and "send_service c' = DONE_SENDING_SERVICES \<or> send_service c' = INIT_SENDING_SERVICES"
  shows "stream_inv api12 tbl v' (c', p')"
  using assms by (auto simp: stream_inv_def cursor_codes)

lemma view_run_simps [simp]:
  "view_run f [] v = v"
  "view_run f (x # xs) v = view_run f xs (view_step f x v)"
  by (simp_all add: view_run_def)

text \<open>Services-done when everything was delivered.\<close>

lemma inv_services_done:
  assumes s: "send_services_done env (c, p) = (c', p')"
    and v: "v \<noteq> None" and conn: "hub_connected c" "services_discovered c"
    and full: "\<forall>cl. api_connection p = Some cl \<longrightarrow>
           v = Some (Collecting (rendered_list (api12 cl) tbl 0 (unat (service_count tbl)))) \<and>
           renders (api12 cl) tbl 0 (unat (service_count tbl))"
  shows "stream_inv api12 tbl (view_run (complete_list api12 tbl) (news (c, p) (c', p')) v) (c', p')"
proof -
  note e = services_done_effect [OF s]
  have conn': "hub_connected c'" "services_discovered c'" using e conn by (simp_all add: hub_connected_def)
  show ?thesis
  proof (cases "api_connection p")
    case None
    then show ?thesis using e v conn' by (auto simp: stream_inv_def news_def cursor_codes)
  next
    case (Some cl)
    then have f: "v = Some (Collecting (rendered_list (api12 cl) tbl 0 (unat (service_count tbl))))"
      "renders (api12 cl) tbl 0 (unat (service_count tbl))" using full by auto
    consider (sent) "stream_log p' = stream_log p @ [(cl, Get_services_done (conn_address c))]"
        "send_service c' = DONE_SENDING_SERVICES"
      | (refused) "stream_log p' = stream_log p"
        "send_service c' = SERVICES_DONE_PENDING \<or> send_service c' = DONE_SENDING_SERVICES"
      using e Some by auto
    then show ?thesis
    proof cases
      case sent
      then show ?thesis using f conn' complete_list_renders [of api12 cl tbl]
        by (simp add: stream_inv_def news_def cursor_codes)
    next
      case refused
      then show ?thesis using f conn' e Some by (auto simp: stream_inv_def news_def cursor_codes)
    qed
  qed
qed

lemma inv_stream:
  assumes inv: "stream_inv api12 tbl v l" and small: "unat (service_count tbl) \<le> 32767"
    and api: "supports_1_12 env = api12"
  shows "stream_inv api12 tbl (view_run (complete_list api12 tbl) (news l (process_pending_services env l)) v)
           (process_pending_services env l)"
proof -
  obtain c p where l: "l = (c, p)" by fastforce
  show ?thesis
  proof (cases "0 \<le> send_service c")
    case False
    then show ?thesis using inv l by (simp add: process_pending_services_def news_def)
  next
    case k0: True
    let ?n = "unat (service_count tbl)"
    have J: "v \<noteq> None" "hub_connected c" "services_discovered c" "get_service_table (backend c) = tbl"
      "send_service c \<le> int ?n"
      "\<forall>cl. api_connection p = Some cl \<longrightarrow>
           v = Some (Collecting (rendered_list (api12 cl) tbl 0 (nat (send_service c)))) \<and>
           renders (api12 cl) tbl 0 (nat (send_service c))"
      using inv k0 l by (auto simp: stream_inv_def)
    have proc: "process_pending_services env l = send_service_for_discovery env l"
      using k0 l by (simp add: process_pending_services_def)
    show ?thesis
    proof (cases "int ?n \<le> send_service c")
      case True
      then have n: "nat (send_service c) = ?n" using J(5) by simp
      obtain c' p' where s: "send_services_done env (hub_release_services c, p) = (c', p')" by fastforce
      have "process_pending_services env l = (c', p')"
        unfolding proc using l True J(4) s by (simp add: send_service_for_discovery_def)
      moreover have "news l (c', p') = news (hub_release_services c, p) (c', p')" using l by (simp add: news_def)
      moreover have "stream_inv api12 tbl
          (view_run (complete_list api12 tbl) (news (hub_release_services c, p) (c', p')) v) (c', p')"
        by (rule inv_services_done [OF s J(1)])
          (use J n in \<open>auto simp: hub_connected_def hub_release_services_def\<close>)
      ultimately show ?thesis by simp
    next
      case more: False
      show ?thesis
      proof (cases "api_connection p")
        case None
        then have "process_pending_services env l = (park_service_stream c, p)"
          using k0 l more J(4) by (simp add: process_pending_services_def send_service_for_discovery_def Let_def)
        then show ?thesis using J k0 l
          by (auto simp: stream_inv_def news_def park_service_stream_def hub_release_services_def
              hub_connected_def cursor_codes Let_def)
      next
        case (Some cl)
        note v = J(6) [rule_format, OF Some]
        have lt: "nat (send_service c) < ?n" using k0 more by linarith
        have eff: "client_supports_efficient_uuids env p = api12 cl"
          using Some api by (simp add: client_supports_efficient_uuids_def)
        let ?b = "fill_batch env (api12 cl) tbl (send_service c) [] (msg_size env (conn_address c))"
        have spec: "case ?b of
            Batch r k \<Rightarrow> 0 \<le> k \<and> nat (send_service c) < nat k \<and> k \<le> int ?n \<and>
               r = rendered_list (api12 cl) tbl (nat (send_service c)) (nat k) \<and>
               renders (api12 cl) tbl (nat (send_service c)) (nat k)
          | Batch_abort k \<Rightarrow> \<exists>i < ?n. rendered (api12 cl) tbl i = None"
          by (rule fill_batch_spec [OF small k0 J(5)])
            (use lt in \<open>auto simp: rendered_list_def renders_def\<close>)
        show ?thesis
        proof (cases ?b)
          case (Batch_abort k)
          obtain c' p' where a: "abort_service_stream env GATT_ERR_UNLIKELY (c\<lparr>send_service := k\<rparr>, p) = (c', p')"
            by fastforce
          have "process_pending_services env l = (c', p')"
            using k0 l more J(4) Some eff Batch_abort a
            by (simp add: process_pending_services_def send_service_for_discovery_def Let_def)
          then show ?thesis
            using abort_effect [OF a] inv_parked [OF inv [unfolded l] J(1), of c' p'] l
            by (auto simp: news_quiet)
        next
          case (Batch r k)
          then have sp: "0 \<le> k" "nat (send_service c) < nat k" "k \<le> int ?n"
            "r = rendered_list (api12 cl) tbl (nat (send_service c)) (nat k)"
            "renders (api12 cl) tbl (nat (send_service c)) (nat k)" using spec by auto
          let ?ok = "accepts env (length (offered p)) cl (Get_services (conn_address c) r)"
          let ?p = "p\<lparr>offered := offered p @ [(cl, Get_services (conn_address c) r, ?ok)]\<rparr>"
          have proc': "process_pending_services env l =
              (if ?ok then (c\<lparr>send_service := k, batch_stalled := False\<rparr>, ?p)
               else ((note_batch_stalled (c\<lparr>send_service := k\<rparr>))\<lparr>send_service := send_service c\<rparr>, ?p))"
            using k0 l more J(4) Some eff Batch
            by (simp add: process_pending_services_def send_service_for_discovery_def send_message_def Let_def)
          show ?thesis
          proof (cases ?ok)
            case True
            have "rendered_list (api12 cl) tbl 0 (nat (send_service c)) @ r = rendered_list (api12 cl) tbl 0 (nat k)"
              using rendered_list_append [of 0 "nat (send_service c)" "nat k"] sp by simp
            moreover have "renders (api12 cl) tbl 0 (nat k)"
              by (rule renders_append [OF conjunct2 [OF v] sp(5)])
            moreover have "process_pending_services env l = (c\<lparr>send_service := k, batch_stalled := False\<rparr>, ?p)"
              using proc' True by simp
            ultimately show ?thesis using J v sp(1,3) l True Some
              by (simp add: stream_inv_def news_def stream_log_def hub_connected_def cursor_codes)
          next
            case False
            then have "process_pending_services env l =
               ((note_batch_stalled (c\<lparr>send_service := k\<rparr>))\<lparr>send_service := send_service c\<rparr>, ?p)"
              using proc' by simp
            moreover have "quiet p ?p" using False by (simp add: quiet_def stream_log_def)
            ultimately show ?thesis using inv l
              by (auto simp: news_quiet note_batch_stalled_def intro: inv_quiet_other)
          qed
        qed
      qed
    qed
  qed
qed

lemma inv_ask:
  assumes inv: "stream_inv api12 tbl v (c, p)" and cl: "api_connection p = Some cl"
    and idle: "\<not> (services_discovered c) \<longrightarrow> \<not> hub_connected c"
  shows "stream_inv api12 tbl (view_run (complete_list api12 tbl)
           (Asked cl # news (c, p) (slot_get_services env (c, p))) v) (slot_get_services env (c, p))"
proof -
  obtain v0 where v: "v = Some v0" using inv by (cases v) (auto simp: stream_inv_def)
  show ?thesis
  proof (cases "hub_connected c")
    case False
    let ?p = "handle_gatt_not_connected env (conn_address c) 0 p"
    obtain ok q where s: "send_or_nobody env (Gatt_error (conn_address c) 0 GATT_NOT_CONNECTED) p = (ok, q)"
      by fastforce
    have "quiet p q" by (rule quiet_send_or_nobody [OF _ s]) simp
    then have "quiet p ?p" using s by (simp add: handle_gatt_not_connected_def send_gatt_error_def)
    then show ?thesis
      using False inv v
      by (auto simp: slot_get_services_def news_quiet stream_inv_def cursor_codes)
  next
    case True
    then have sd: "services_discovered c" using idle by simp
    have "slot_get_services env (c, p) = (c\<lparr>send_service := 0\<rparr>, p) \<and>
            (0 \<le> send_service c \<or> send_service c = INIT_SENDING_SERVICES)
        \<or> slot_get_services env (c, p) = (c\<lparr>send_service := DONE_SENDING_SERVICES\<rparr>, p)
        \<or> slot_get_services env (c, p) = (c, p) \<and> send_service c = DONE_SENDING_SERVICES"
    proof -
      consider "0 < send_service c" | "send_service c = 0" | "send_service c = SERVICES_DONE_PENDING"
        | "send_service c = INIT_SENDING_SERVICES" | "send_service c = DONE_SENDING_SERVICES"
        using inv by (fastforce simp: stream_inv_def)
      then show ?thesis
      proof cases
        case 2
        then have "c\<lparr>send_service := 0\<rparr> = c" by simp
        then show ?thesis using 2 True sd
          by (simp add: slot_get_services_def gatt_send_services_def cursor_codes)
      qed (use True sd in \<open>simp_all add: slot_get_services_def gatt_send_services_def cursor_codes\<close>)
    qed
    then consider (zero) "slot_get_services env (c, p) = (c\<lparr>send_service := 0\<rparr>, p)"
        "0 \<le> send_service c \<or> send_service c = INIT_SENDING_SERVICES"
      | (ended) c' where "slot_get_services env (c, p) = (c', p)" "send_service c' = DONE_SENDING_SERVICES"
        "hub_connected c'" "services_discovered c'"
      using True sd by (auto simp: hub_connected_def)
    then show ?thesis
    proof cases
      case zero
      have "get_service_table (backend c) = tbl" using zero(2) inv True by (auto simp: stream_inv_def)
      then show ?thesis using zero True sd v
        by (simp add: stream_inv_def news_def cursor_codes rendered_list_def renders_def hub_connected_def)
    next
      case ended
      then show ?thesis using v by (simp add: stream_inv_def news_def cursor_codes)
    qed
  qed
qed

lemma quiet_connected_reply:
  assumes "send_connected_reply env (c, p) = (c', p')"
  shows "quiet p p' \<and> send_service c' = send_service c \<and> client_state c' = client_state c \<and>
         services_discovered c' = services_discovered c \<and> backend c' = backend c \<and> conn_address c' = conn_address c"
  using assms quiet_send_or_nobody [of "Device_connection (conn_address c) True (att_mtu c) CONN_OK" env p]
  by (auto simp: send_connected_reply_def send_device_connection_def split: prod.splits)

lemma quiet_try_ack: "try_send_ack env a kind h err p = (ok, p') \<Longrightarrow> quiet p p'"
  using quiet_send_or_nobody [of "Gatt_error a h err" env p] quiet_send [of "Gatt_write a h" env _ p]
    quiet_send [of "Gatt_notify a h" env _ p]
  by (auto simp: try_send_ack_def send_gatt_error_def split: pending_ack.splits option.splits)

lemma quiet_flush_ack:
  assumes "flush_pending_ack env (c, p) = (c', p')"
  shows "quiet p p' \<and> send_service c' = send_service c \<and> client_state c' = client_state c \<and>
         services_discovered c' = services_discovered c \<and> backend c' = backend c"
  using assms quiet_try_ack [of env "conn_address c" "pending_ack c" "pending_ack_handle c" "pending_ack_error c" p]
  by (auto simp: flush_pending_ack_def clear_pending_ack_def age_pending_ack_def Let_def
      split: if_splits prod.splits)

lemma news_trans:
  assumes "quiet p q"
  shows "news (c, p) (c', r) = news (c1, q) (c', r)" and "news (c, r) (c', p) = news (c, r) (c', q)"
  using assms by (simp_all add: news_def quiet_def)

lemma age_same:
  "client_state (age_services_done c) = client_state c"
  "services_discovered (age_services_done c) = services_discovered c" "backend (age_services_done c) = backend c"
  "client_state (age_pending_ack c) = client_state c"
  "services_discovered (age_pending_ack c) = services_discovered c" "backend (age_pending_ack c) = backend c"
  "send_service (age_pending_ack c) = send_service c"
  "send_service (age_services_done c) = send_service c \<or> send_service (age_services_done c) = DONE_SENDING_SERVICES"
  by (auto simp: age_services_done_def age_pending_ack_def clear_pending_ack_def Let_def)

lemma inv_drain:
  assumes inv: "stream_inv api12 tbl v (c, p)"
  shows "stream_inv api12 tbl (view_run (complete_list api12 tbl) (news (c, p) (flush_owed_replies env (c, p))) v)
           (flush_owed_replies env (c, p))"
proof -
  obtain c1 p1 where r: "(if connected_reply_owed c then send_connected_reply env (c, p) else (c, p)) = (c1, p1)"
    by fastforce
  have q1: "quiet p p1" and inv1: "stream_inv api12 tbl v (c1, p1)"
    using r inv quiet_connected_reply [of env c p c1 p1]
    by (auto split: if_splits intro: inv_quiet_other)
  show ?thesis
  proof (cases "connected_reply_owed c1")
    case True
    define ca where "ca = (if send_service c1 = SERVICES_DONE_PENDING then age_services_done c1 else c1)"
    define cb where "cb = (if has_pending_ack ca then age_pending_ack ca else ca)"
    have "flush_owed_replies env (c, p) = (cb, p1)"
      using r True by (simp add: flush_owed_replies_def ca_def cb_def Let_def)
    moreover have "stream_inv api12 tbl v (cb, p1)"
      by (rule inv_quiet_other [OF inv1 quiet_refl])
        (use age_same(8) [of c1] in \<open>auto simp: cb_def ca_def age_same(1-7)\<close>)
    ultimately show ?thesis using q1 by (simp add: news_quiet)
  next
    case False
    obtain c2 p2 where d: "(if send_service c1 = SERVICES_DONE_PENDING then send_services_done env (c1, p1) else (c1, p1)) = (c2, p2)"
      by fastforce
    have inv2: "stream_inv api12 tbl (view_run (complete_list api12 tbl) (news (c1, p1) (c2, p2)) v) (c2, p2)"
    proof (cases "send_service c1 = SERVICES_DONE_PENDING")
      case True
      have "send_services_done env (c1, p1) = (c2, p2)" using d True by simp
      then show ?thesis
        by (rule inv_services_done) (use inv1 True in \<open>auto simp: stream_inv_def\<close>)
    qed (use d inv1 in \<open>auto simp: news_def\<close>)
    have fl: "flush_owed_replies env (c, p) = (if has_pending_ack c2 then flush_pending_ack env (c2, p2) else (c2, p2))"
      using r False d by (simp add: flush_owed_replies_def)
    show ?thesis
    proof (cases "has_pending_ack c2")
      case True
      obtain c3 p3 where a: "flush_pending_ack env (c2, p2) = (c3, p3)" by fastforce
      note q = quiet_flush_ack [OF a]
      have "quiet p2 p3" using q by simp
      then have n: "news (c, p) (c3, p3) = news (c1, p1) (c2, p2)"
        using q1 by (simp add: news_def quiet_def)
      show ?thesis unfolding fl using True a n inv_quiet_other [OF inv2, of p3 c3] q by simp
    next
      case no: False
      have "news (c, p) (c2, p2) = news (c1, p1) (c2, p2)" using q1 by (simp add: news_def quiet_def)
      then show ?thesis unfolding fl using no inv2 by simp
    qed
  qed
qed

lemma inv_step:
  assumes inv: "stream_inv api12 tbl v l" and small: "unat (service_count tbl) \<le> 32767" and api: "same_api api12 x"
  shows "stream_inv api12 tbl (view_run (complete_list api12 tbl) (snd (stream_step x l)) v) (fst (stream_step x l))"
proof -
  obtain c p where l: "l = (c, p)" by fastforce
  have v: "v \<noteq> None" using inv l by (simp add: stream_inv_def)
  show ?thesis
  proof (cases x)
    case (Ask env)
    have "\<not> services_discovered c \<longrightarrow> \<not> hub_connected c" using inv l by (auto simp: stream_inv_def)
    then show ?thesis using Ask l inv inv_ask [of api12 tbl v c p]
      by (auto simp: Let_def split: option.splits)
  next
    case (Stream env)
    then show ?thesis using inv_stream [OF inv small] api by (simp add: Let_def)
  next
    case (Drain env)
    then show ?thesis using inv_drain inv l by (simp add: Let_def)
  next
    case (Swap cl)
    then show ?thesis using inv l v
      by (auto simp: swap_subscriber_def stream_inv_def park_service_stream_def clear_owed_flags_def
          hub_release_services_def hub_connected_def cursor_codes Let_def)
  next
    case (Drop env reason)
    obtain c' p' where r: "reset_connection env reason (c, p) = (c', p')" by fastforce
    from reset_connection_effect [OF r] inv_parked [OF inv [unfolded l] v, of c' p'] show ?thesis
      using Drop l r by (simp add: news_quiet Let_def)
  qed
qed

lemma view_run_append: "view_run f (xs @ ys) v = view_run f ys (view_run f xs v)"
  by (simp add: view_run_def)

lemma inv_run:
  assumes "stream_inv api12 tbl v l" and "unat (service_count tbl) \<le> 32767" and "\<forall>x \<in> set xs. same_api api12 x"
  shows "stream_inv api12 tbl (view_run (complete_list api12 tbl) (snd (stream_run xs l)) v) (fst (stream_run xs l))"
  using assms
proof (induction xs arbitrary: v l)
  case (Cons x xs)
  have i: "stream_inv api12 tbl (view_run (complete_list api12 tbl) (snd (stream_step x l)) v) (fst (stream_step x l))"
    by (rule inv_step) (use Cons.prems in auto)
  from Cons.IH [OF i] Cons.prems show ?case by (simp add: split_beta view_run_append)
qed simp

section \<open>Progress\<close>

lemma stream_progress:
  assumes inv: "stream_inv api12 tbl v (c, p)" and small: "unat (service_count tbl) \<le> 32767"
    and api: "supports_1_12 env = api12" and cl: "api_connection p = Some cl"
    and k0: "0 \<le> send_service c"
    and acc: "\<forall>n m. accepts env n cl m"
    and ok: "renders (api12 cl) tbl 0 (unat (service_count tbl))"
    and r: "process_pending_services env (c, p) = (c', p')"
  shows "api_connection p' = Some cl \<and>
         (if send_service c = int (unat (service_count tbl))
          then send_service c' = DONE_SENDING_SERVICES \<and>
               news (c, p) (c', p') = [Got cl (Get_services_done (conn_address c))]
          else send_service c < send_service c')"
proof -
  let ?n = "unat (service_count tbl)"
  have J: "get_service_table (backend c) = tbl" "send_service c \<le> int ?n"
    using inv k0 by (auto simp: stream_inv_def)
  have proc: "process_pending_services env (c, p) = send_service_for_discovery env (c, p)"
    using k0 by (simp add: process_pending_services_def)
  show ?thesis
  proof (cases "send_service c = int ?n")
    case True
    have "send_services_done env (hub_release_services c, p) = (c', p')"
      using r True J(1) unfolding proc by (simp add: send_service_for_discovery_def)
    then show ?thesis using True cl acc
      by (auto simp: send_services_done_def send_gatt_services_done_def send_or_nobody_def send_message_def
          news_def stream_log_def hub_release_services_def Let_def)
  next
    case False
    then have lt: "nat (send_service c) < ?n" and lt': "send_service c < int ?n" using k0 J(2) by linarith+
    have eff: "client_supports_efficient_uuids env p = api12 cl"
      using cl api by (simp add: client_supports_efficient_uuids_def)
    let ?b = "fill_batch env (api12 cl) tbl (send_service c) [] (msg_size env (conn_address c))"
    have spec: "case ?b of
        Batch r k \<Rightarrow> 0 \<le> k \<and> nat (send_service c) < nat k \<and> k \<le> int ?n \<and>
           r = rendered_list (api12 cl) tbl (nat (send_service c)) (nat k) \<and>
           renders (api12 cl) tbl (nat (send_service c)) (nat k)
      | Batch_abort k \<Rightarrow> \<exists>i < ?n. rendered (api12 cl) tbl i = None"
      by (rule fill_batch_spec [OF small k0 J(2)])
        (use lt in \<open>auto simp: rendered_list_def renders_def\<close>)
    have none: "\<not> (\<exists>i < ?n. rendered (api12 cl) tbl i = None)" using ok by (auto simp: renders_def)
    then obtain b k where b: "?b = Batch b k" and k: "nat (send_service c) < nat k" "0 \<le> k"
      using spec by (cases ?b) auto
    have "(c', p') = (c\<lparr>send_service := k, batch_stalled := False\<rparr>,
        p\<lparr>offered := offered p @ [(cl, Get_services (conn_address c) b, True)]\<rparr>)"
      using r lt' J(1) cl eff b acc unfolding proc
      by (simp add: send_service_for_discovery_def send_message_def Let_def not_le)
    then show ?thesis using False k k0 cl by simp
  qed
qed

lemma stream_idle:
  "send_service (fst l) = DONE_SENDING_SERVICES \<Longrightarrow> stream_run (replicate m (Stream env)) l = (l, [])"
  by (induction m) (auto simp: process_pending_services_def news_def cursor_codes)

lemma stream_drains:
  assumes small: "unat (service_count tbl) \<le> 32767"
    and api: "supports_1_12 env = api12" and acc: "\<forall>n m. accepts env n cl m"
    and ok: "renders (api12 cl) tbl 0 (unat (service_count tbl))"
  shows "stream_inv api12 tbl v l \<Longrightarrow> api_connection (snd l) = Some cl \<Longrightarrow> 0 \<le> send_service (fst l) \<Longrightarrow>
         int (unat (service_count tbl)) - send_service (fst l) < int m \<Longrightarrow>
         (case stream_run (replicate m (Stream env)) l of (l', obs) \<Rightarrow>
            send_service (fst l') = DONE_SENDING_SERVICES \<and>
            view_run (complete_list api12 tbl) obs v = Some Idle)"
proof (induction m arbitrary: l v)
  case 0
  obtain c p where l: "l = (c, p)" by fastforce
  have "0 \<le> send_service c \<longrightarrow> send_service c \<le> int (unat (service_count tbl))"
    using 0(1) l by (simp add: stream_inv_def)
  then show ?case using 0 l by simp
next
  case (Suc m)
  obtain c p where l: "l = (c, p)" by fastforce
  obtain c' p' where r: "process_pending_services env (c, p) = (c', p')" by fastforce
  note pr = stream_progress [OF Suc.prems(1) [unfolded l] small api _ _ acc ok r]
  let ?v = "view_run (complete_list api12 tbl) (news (c, p) (c', p')) v"
  have inv': "stream_inv api12 tbl ?v (c', p')"
    using inv_stream [OF Suc.prems(1) small api] l r by simp
  show ?case
  proof (cases "send_service c = int (unat (service_count tbl))")
    case True
    then have d: "send_service c' = DONE_SENDING_SERVICES"
      and n: "news (c, p) (c', p') = [Got cl (Get_services_done (conn_address c))]"
      using pr Suc.prems l by auto
    have "?v \<noteq> None" using inv' by (simp add: stream_inv_def)
    then have "?v = Some Idle"
      using n by (cases v) (auto split: view.splits if_splits)
    then show ?thesis using r l stream_idle [of "(c', p')" m env] d by (simp add: Let_def)
  next
    case False
    then have lt: "send_service c < send_service c'" and cl': "api_connection p' = Some cl"
      using pr Suc.prems l by auto
    have "case stream_run (replicate m (Stream env)) (c', p') of (l', obs) \<Rightarrow>
        send_service (fst l') = DONE_SENDING_SERVICES \<and> view_run (complete_list api12 tbl) obs ?v = Some Idle"
      by (rule Suc.IH [OF inv']) (use lt cl' Suc.prems l in auto)
    then show ?thesis using r l by (auto simp: view_run_append Let_def split: prod.splits)
  qed
qed

section \<open>Properties\<close>

lemma stream_inv_start:
  assumes "hub_connected c" "services_discovered c" "send_service c = INIT_SENDING_SERVICES"
  shows "stream_inv api12 (get_service_table (backend c)) (Some Idle) (c, p)"
  using assms by (simp add: stream_inv_def cursor_codes)

text \<open>
  C1. The hazard rule holds: from a slot with a discovered table of at most 32767 services, through any
  sequence of requests, streaming steps, drains of owed replies, subscriber changes and link losses, with any
  answers of the API, a client is never sent a batch it did not ask for, and is never sent services-done
  unless it has accumulated, since its last request, every service of the table in order.
\<close>

theorem stream_never_truncated:
  assumes "hub_connected c" and "services_discovered c" and "send_service c = INIT_SENDING_SERVICES"
    and "unat (service_count (get_service_table (backend c))) \<le> 32767"
    and "\<forall>x \<in> set xs. same_api api12 x"
  shows "view_run (complete_list api12 (get_service_table (backend c))) (snd (stream_run xs (c, p))) (Some Idle)
           \<noteq> None"
  using inv_run [OF stream_inv_start [OF assms(1-3)] assms(4,5), of p]
  by (auto simp: stream_inv_def split: prod.splits)

definition service_example :: "u16 \<Rightarrow> gatt_service" where
  "service_example h = \<lparr>svc_uuid = UUID16 0x180F, start_handle = h, end_handle = h + 3,
     first_characteristic = 0, characteristic_count = 0\<rparr>"

definition conn_example :: conn where
  "conn_example = conn_init\<lparr>client_state := CS_ESTABLISHED, services_discovered := True, conn_address := 5,
     backend := engine_init\<lparr>services := [service_example 1, service_example 5]\<rparr>\<rparr>"

lemma conn_example_facts:
  "hub_connected conn_example" "services_discovered conn_example" "send_service conn_example = INIT_SENDING_SERVICES"
  "service_count (get_service_table (backend conn_example)) = 2"
  by (simp_all add: conn_example_def hub_connected_def conn_init_def get_service_table_def)

theorem stream_never_truncated_witness:
  "view_run (complete_list (\<lambda>cl. True) (get_service_table (backend conn_example)))
     (snd (stream_run [Ask (env_example True), Stream (env_example True), Swap (Some 2), Stream (env_example True),
        Ask (env_example True), Stream (env_example False), Drop (env_example True) 8] (conn_example, proxy_example)))
     (Some Idle) \<noteq> None"
  by (rule stream_never_truncated [OF conn_example_facts(1-3)])
    (simp_all add: conn_example_facts(4) env_example_def)

text \<open>
  C25. And it completes: when every range of the table is in bounds and the API takes every message, a request
  followed by one streaming step more than there are services leaves the client with the complete
  list, terminated by services-done, and the slot with nothing more to send.
\<close>

theorem stream_completes:
  assumes "hub_connected c" and "services_discovered c" and "send_service c = INIT_SENDING_SERVICES"
    and "tbl = get_service_table (backend c)"
    and "unat (service_count tbl) \<le> 32767"
    and "api_connection p = Some cl" and "\<forall>n m. accepts env n cl m"
    and "\<forall>i < unat (service_count tbl). rendered (supports_1_12 env cl) tbl i \<noteq> None"
  shows "case stream_run (Ask env # replicate (Suc (unat (service_count tbl))) (Stream env)) (c, p) of (l', obs) \<Rightarrow>
     send_service (fst l') = DONE_SENDING_SERVICES \<and>
     view_run (complete_list (supports_1_12 env) tbl) obs (Some Idle) = Some Idle"
proof -
  let ?api = "supports_1_12 env"
  have ask: "stream_step (Ask env) (c, p) = ((c\<lparr>send_service := 0\<rparr>, p), [Asked cl])"
    using assms(1-3,6)
    by (simp add: slot_get_services_def gatt_send_services_def news_def cursor_codes Let_def)
  have i: "stream_inv ?api tbl (Some (Collecting [])) (c\<lparr>send_service := 0\<rparr>, p)"
    using inv_step [OF stream_inv_start [OF assms(1-3), of ?api p], of "Ask env"] ask assms(4,5) by simp
  have rn: "renders (?api cl) tbl 0 (unat (service_count tbl))" using assms(8) by (simp add: renders_def)
  have "case stream_run (replicate (Suc (unat (service_count tbl))) (Stream env)) (c\<lparr>send_service := 0\<rparr>, p) of
     (l', obs) \<Rightarrow> send_service (fst l') = DONE_SENDING_SERVICES \<and>
       view_run (complete_list ?api tbl) obs (Some (Collecting [])) = Some Idle"
    by (rule stream_drains [OF assms(5) refl assms(7) rn i]) (use assms(6) in auto)
  then show ?thesis using ask by (auto simp: split_beta view_run_append simp del: replicate_Suc)
qed

theorem stream_completes_witness:
  "case stream_run (Ask (env_example True) # replicate 3 (Stream (env_example True))) (conn_example, proxy_example) of
     (l', obs) \<Rightarrow> send_service (fst l') = DONE_SENDING_SERVICES"
proof -
  have r: "rendered (supports_1_12 (env_example True) 1) (get_service_table (backend conn_example)) i \<noteq> None"
    if "i < 2" for i
    using less_2_cases [OF that] by (auto simp: rendered_def render_service_def conn_example_def get_service_table_def
        service_example_def)
  have n: "Suc (unat (service_count (get_service_table (backend conn_example)))) = 3"
    by (simp add: conn_example_facts(4))
  have s: "unat (service_count (get_service_table (backend conn_example))) \<le> 32767"
    "\<forall>n m. accepts (env_example True) n 1 m"
    "\<forall>i < unat (service_count (get_service_table (backend conn_example))).
       rendered (supports_1_12 (env_example True) 1) (get_service_table (backend conn_example)) i \<noteq> None"
    using r by (simp_all add: conn_example_facts(4) env_example_def)
  obtain l' obs where e: "stream_run (Ask (env_example True) # replicate 3 (Stream (env_example True)))
      (conn_example, proxy_example) = (l', obs)" by fastforce
  from stream_completes [OF conn_example_facts(1-3) refl s(1) proxy_example_facts(3) s(2,3), unfolded n]
  show ?thesis unfolding e by simp
qed

end
