(* ===== verification/BluetoothProxy.thy ===== *)
theory BluetoothProxy
  imports StreamSafety
begin

text \<open>
  \<open>BluetoothProxy\<close> (components/bluetooth_proxy/bluetooth_proxy.h and .cpp): the API's requests, the
  subscription, the slots, the batching of raw advertisements and the loop. Its state is the record
  \<open>world\<close>: the proxy proper, its connections with their backends, and the tracker it listens to
  (\<open>hub_\<close>, the concrete tracker on this platform). The build defines \<open>USE_BLE_SCANNER_STATE_CALLBACK\<close>
  (the component's code generation adds it) and \<open>USE_BLUETOOTH_PROXY_CONNECTIONS\<close>.

  A null connection pointer is the index option \<open>None\<close>.
\<close>

section \<open>State\<close>

record world =
  prx :: proxy
  conns :: "conn list"
  hub :: tracker

definition proxy_init :: "nat \<Rightarrow> nat \<Rightarrow> bool \<Rightarrow> bool \<Rightarrow> proxy" where
  "proxy_init slots batch wifi act = \<lparr>max_connections = slots, batch_size = batch, use_wifi = wifi,
     api_connection = None, connection_count = 0, pending_disconnections = replicate slots 0,
     pending_unpairing = 0, last_advertisement_flush_time = 0, advertisements = [],
     free_response = \<lparr>cf_free = 0, cf_limit = 0, cf_allocated = replicate slots 0\<rparr>, active = act,
     connections_free_pending = False, configured_scan_active = False, adv_flush_toggle = False,
     scanner_state_pending = False, offered = []\<rparr>"

definition register_connection :: "conn \<Rightarrow> world \<Rightarrow> world" where
  "register_connection c w =
     (let p = prx w in
      if max_connections p \<le> connection_count p then w
      else w\<lparr>conns := conns w @ [c\<lparr>connection_index := connection_count p\<rparr>],
             prx := p\<lparr>connection_count := connection_count p + 1\<rparr>\<rparr>)"

text \<open>The connection \<open>i\<close> and the proxy, handed to an operation of the connection.\<close>

definition at_slot :: "nat \<Rightarrow> (link \<Rightarrow> link) \<Rightarrow> world \<Rightarrow> world" where
  "at_slot i f w = (let (c, p) = f (conns w ! i, prx w) in w\<lparr>conns := (conns w)[i := c], prx := p\<rparr>)"

definition on_prx :: "(proxy \<Rightarrow> proxy) \<Rightarrow> world \<Rightarrow> world" where
  "on_prx f w = w\<lparr>prx := f (prx w)\<rparr>"

fun for_slots :: "nat list \<Rightarrow> (nat \<Rightarrow> world \<Rightarrow> world) \<Rightarrow> world \<Rightarrow> world" where
  "for_slots [] f w = w"
| "for_slots (i # is) f w = for_slots is f (f i w)"

section \<open>Raw advertisements\<close>

definition ADV_DATA_SIZE :: nat where "ADV_DATA_SIZE = 62"

definition flush_pending_advertisements :: "env \<Rightarrow> client \<Rightarrow> proxy \<Rightarrow> proxy" where
  "flush_pending_advertisements env cl p =
     (if advertisements p = [] then p
      else let (_, p) = send_message env cl (Raw_advertisements (advertisements p)) p
           in p\<lparr>advertisements := []\<rparr>)"

definition on_raw_advertisement :: "env \<Rightarrow> raw_advertisement \<Rightarrow> proxy \<Rightarrow> proxy" where
  "on_raw_advertisement env raw p =
     (case (if server_connected env then api_connection p else None) of
        None \<Rightarrow> p
      | Some cl \<Rightarrow>
          let p = p\<lparr>advertisements := advertisements p @
                      [\<lparr>am_address = ra_address raw, am_rssi = ra_rssi raw,
                        am_address_type = ra_addr_type raw,
                        am_data = take (if ADV_DATA_SIZE < length (ra_data raw) then ADV_DATA_SIZE
                                        else length (ra_data raw)) (ra_data raw)\<rparr>]\<rparr>
          in if batch_size p \<le> length (advertisements p) then flush_pending_advertisements env cl p else p)"

section \<open>The scanner state\<close>

definition send_bluetooth_scanner_state :: "env \<Rightarrow> scanner_state \<Rightarrow> bool \<Rightarrow> proxy \<Rightarrow> bool \<times> proxy" where
  "send_bluetooth_scanner_state env st hub_active p =
     send_or_nobody env (Scanner_state_msg st hub_active (configured_scan_active p)) p"

definition send_scanner_state :: "env \<Rightarrow> scanner_state \<Rightarrow> bool \<Rightarrow> proxy \<Rightarrow> proxy" where
  "send_scanner_state env st hub_active p =
     (let (ok, p) = send_bluetooth_scanner_state env st hub_active p in p\<lparr>scanner_state_pending := \<not> ok\<rparr>)"

text \<open>
  What the tracker pushes reaches the proxy: state transitions, and frames through the dispatcher, whose raw
  callback is the proxy's from its setup on.
\<close>

fun hub_pushes :: "env \<Rightarrow> bool \<Rightarrow> tracker_out list \<Rightarrow> proxy \<Rightarrow> proxy" where
  "hub_pushes env hub_active [] p = p"
| "hub_pushes env hub_active (Scanner_state st # xs) p =
     hub_pushes env hub_active xs (send_scanner_state env st hub_active p)"
| "hub_pushes env hub_active (Dispatch f # xs) p =
     hub_pushes env hub_active xs (on_raw_advertisement env (raw_of f) p)"
| "hub_pushes env hub_active (_ # xs) p = hub_pushes env hub_active xs p"

definition proxy_setup :: "world \<Rightarrow> world" where
  "proxy_setup w =
     (let p = prx w;
          n = of_nat (max_connections p);
          p = p\<lparr>free_response := (free_response p)\<lparr>cf_limit := n, cf_free := n\<rparr>,
                configured_scan_active := scan_active (hub w)\<rparr>
      in w\<lparr>prx := p, hub := set_scanner_state_callback True (hub w)\<rparr>)"

definition bluetooth_scanner_set_mode :: "env \<Rightarrow> bool \<Rightarrow> world \<Rightarrow> world" where
  "bluetooth_scanner_set_mode env act w =
     (if scan_active (hub w) = act then w
      else
        let t = set_scan_active act (hub w);
            (t, out) = stop_scan t;
            p = hub_pushes env (scan_active t) out (prx w)
        in w\<lparr>hub := set_scan_continuous True t, prx := p\<rparr>)"

section \<open>Slots\<close>

fun scan_slots :: "u64 \<Rightarrow> nat \<Rightarrow> conn list \<Rightarrow> nat option \<Rightarrow> nat option \<times> nat option" where
  "scan_slots addr i [] free = (None, free)"
| "scan_slots addr i (c # cs) free =
     (if conn_address c = addr then (Some i, free)
      else scan_slots addr (i + 1) cs (if free = None \<and> conn_address c = 0 then Some i else free))"

definition get_connection :: "u64 \<Rightarrow> bool \<Rightarrow> world \<Rightarrow> nat option \<times> world" where
  "get_connection addr reserve w =
     (case scan_slots addr 0 (take (connection_count (prx w)) (conns w)) None of
        (Some i, _) \<Rightarrow> (Some i, if reserve then on_prx (clear_pending_disconnection addr) w else w)
      | (None, free) \<Rightarrow>
          (case (if reserve then free else None) of
             None \<Rightarrow> (None, w)
           | Some i \<Rightarrow>
               (let w = on_prx (clear_pending_disconnection addr) w;
                    w = at_slot i (\<lambda>(c, p). (c\<lparr>send_service := INIT_SENDING_SERVICES\<rparr>, p)) w;
                    w = at_slot i (set_address addr) w
                in (Some i, at_slot i (\<lambda>(c, p). (c\<lparr>client_state := CS_INIT\<rparr>, p)) w))))"

section \<open>Requests\<close>

datatype device_request_type =
  CONNECT | DISCONNECT | PAIR | UNPAIR | CONNECT_V3_WITH_CACHE | CONNECT_V3_WITHOUT_CACHE | CLEAR_CACHE

text \<open>A connect request; \<open>addr_type\<close>: \<open>has_address_type\<close> and \<open>address_type\<close> (32 bits).\<close>

definition connect_request :: "env \<Rightarrow> bool \<Rightarrow> u64 \<Rightarrow> u32 option \<Rightarrow> world \<Rightarrow> world" where
  "connect_request env with_cache addr addr_type w =
     (case get_connection addr True w of
        (None, w) \<Rightarrow> on_prx (answer_device_disconnected env addr) w
      | (Some i, w) \<Rightarrow>
          (case addr_type of
             None \<Rightarrow> on_prx (answer_device_disconnected env addr) w
           | Some at \<Rightarrow>
               (let st = client_state (conns w ! i) in
                if st = CS_CONNECTED \<or> st = CS_ESTABLISHED then
                  on_prx (send_connections_free env) (at_slot i (send_connected_reply env) w)
                else if st = CS_DISCONNECTING \<and> fst (cancel_teardown (conns w ! i)) then
                  at_slot i (\<lambda>(c, p). (snd (cancel_teardown c), p)) w
                else if st \<noteq> CS_INIT then w
                else
                  let ct = (if with_cache then CONN_V3_WITH_CACHE else CONN_V3_WITHOUT_CACHE);
                      w = at_slot i (\<lambda>(c, p). (hub_set_connection_type ct c, p)) w;
                      w = at_slot i (initiate_connection env (ucast at)) w
                  in on_prx (send_connections_free env) w)))"

definition disconnect_request :: "env \<Rightarrow> u64 \<Rightarrow> world \<Rightarrow> world" where
  "disconnect_request env addr w =
     (case fst (get_connection addr False w) of
        None \<Rightarrow> on_prx (send_connections_free env) (on_prx (answer_device_disconnected env addr) w)
      | Some i \<Rightarrow>
          if client_state (conns w ! i) \<noteq> CS_IDLE then at_slot i (hub_disconnect env) w
          else
            on_prx (send_connections_free env)
              (on_prx (answer_device_disconnected env addr) (at_slot i (set_address 0) w)))"

definition pair_request :: "env \<Rightarrow> u64 \<Rightarrow> world \<Rightarrow> world" where
  "pair_request env addr w =
     (case fst (get_connection addr False w) of
        None \<Rightarrow> on_prx (send_device_pairing env addr False GATT_NOT_CONNECTED) w
      | Some i \<Rightarrow>
          if paired (conns w ! i) then on_prx (send_device_pairing env addr True CONN_OK) w
          else
            (let (err, c) = hub_pair env (conns w ! i);
                 w = at_slot i (\<lambda>(_, p). (c, p)) w
             in if err \<noteq> CONN_OK then on_prx (send_device_pairing env addr False err) w else w))"

definition unpair_request :: "env \<Rightarrow> u64 \<Rightarrow> world \<Rightarrow> world" where
  "unpair_request env addr w =
     (let ret = unpair_device env addr;
          w = (if ret = CONN_OK then
                 (case fst (get_connection addr False w) of
                    None \<Rightarrow> w
                  | Some i \<Rightarrow> at_slot i (\<lambda>(c, p). (c\<lparr>paired := False\<rparr>, p)) w)
               else w)
      in on_prx (send_device_unpairing env addr (ret = CONN_OK) ret) w)"

definition bluetooth_device_request ::
  "env \<Rightarrow> device_request_type \<Rightarrow> u64 \<Rightarrow> u32 option \<Rightarrow> world \<Rightarrow> world" where
  "bluetooth_device_request env ty addr addr_type w = (case ty of
     CONNECT_V3_WITH_CACHE \<Rightarrow> connect_request env True addr addr_type w
   | CONNECT_V3_WITHOUT_CACHE \<Rightarrow> connect_request env False addr addr_type w
   | DISCONNECT \<Rightarrow> disconnect_request env addr w
   | PAIR \<Rightarrow> pair_request env addr w
   | UNPAIR \<Rightarrow> unpair_request env addr w
   | CLEAR_CACHE \<Rightarrow>
       (let ret = clear_gatt_cache addr
        in on_prx (send_device_clear_cache env addr (ret = CONN_OK) ret) w)
   | CONNECT \<Rightarrow> on_prx (answer_device_disconnected env addr) w)"

text \<open>The requests that read or write: the shape they share.\<close>

definition gatt_op_request :: "env \<Rightarrow> u64 \<Rightarrow> u16 \<Rightarrow> (link \<Rightarrow> int \<times> link) \<Rightarrow> world \<Rightarrow> world" where
  "gatt_op_request env addr h f w =
     (case fst (get_connection addr False w) of
        None \<Rightarrow> on_prx (handle_gatt_not_connected env addr h) w
      | Some i \<Rightarrow>
          at_slot i (\<lambda>l. let (err, l) = f l in if err \<noteq> CONN_OK then hub_send_gatt_error env h err l else l) w)"

definition bluetooth_gatt_read :: "env \<Rightarrow> u64 \<Rightarrow> u16 \<Rightarrow> world \<Rightarrow> world" where
  "bluetooth_gatt_read env addr h w = gatt_op_request env addr h (hub_read_characteristic env h) w"

definition bluetooth_gatt_write :: "env \<Rightarrow> u64 \<Rightarrow> u16 \<Rightarrow> bytes \<Rightarrow> bool \<Rightarrow> world \<Rightarrow> world" where
  "bluetooth_gatt_write env addr h data response w =
     gatt_op_request env addr h (hub_write_characteristic env h data response) w"

definition bluetooth_gatt_read_descriptor :: "env \<Rightarrow> u64 \<Rightarrow> u16 \<Rightarrow> world \<Rightarrow> world" where
  "bluetooth_gatt_read_descriptor env addr h w = gatt_op_request env addr h (hub_read_descriptor env h) w"

definition bluetooth_gatt_write_descriptor :: "env \<Rightarrow> u64 \<Rightarrow> u16 \<Rightarrow> bytes \<Rightarrow> world \<Rightarrow> world" where
  "bluetooth_gatt_write_descriptor env addr h data w =
     gatt_op_request env addr h (hub_write_descriptor env h data True) w"

definition bluetooth_gatt_notify :: "env \<Rightarrow> u64 \<Rightarrow> u16 \<Rightarrow> bool \<Rightarrow> world \<Rightarrow> world" where
  "bluetooth_gatt_notify env addr h enable w =
     gatt_op_request env addr h (hub_notify_characteristic env h enable) w"

definition bluetooth_gatt_send_services :: "env \<Rightarrow> u64 \<Rightarrow> world \<Rightarrow> world" where
  "bluetooth_gatt_send_services env addr w =
     (case fst (get_connection addr False w) of
        None \<Rightarrow> on_prx (handle_gatt_not_connected env addr 0) w
      | Some i \<Rightarrow>
          if \<not> hub_connected (conns w ! i) then on_prx (handle_gatt_not_connected env addr 0) w
          else at_slot i (gatt_send_services env) w)"

text \<open>The API's 32-bit parameters are clamped to 16 bits.\<close>

definition clamp16 :: "u32 \<Rightarrow> u16" where "clamp16 v = ucast (min v 0xFFFF)"

definition bluetooth_set_connection_params ::
  "env \<Rightarrow> u64 \<Rightarrow> u32 \<Rightarrow> u32 \<Rightarrow> u32 \<Rightarrow> u32 \<Rightarrow> world \<Rightarrow> world" where
  "bluetooth_set_connection_params env addr min_i max_i lat tmo w =
     (case api_connection (prx w) of
        None \<Rightarrow> w
      | Some cl \<Rightarrow>
          (case fst (get_connection addr False w) of
             None \<Rightarrow> on_prx (\<lambda>p. snd (send_message env cl (Connection_params addr GATT_NOT_CONNECTED) p)) w
           | Some i \<Rightarrow>
               if \<not> hub_connected (conns w ! i) then
                 on_prx (\<lambda>p. snd (send_message env cl (Connection_params addr GATT_NOT_CONNECTED) p)) w
               else
                 at_slot i (\<lambda>l.
                   let (err, c, p) = hub_update_connection_params env (clamp16 min_i) (clamp16 max_i)
                                       (clamp16 lat) (clamp16 tmo) l
                   in (c, snd (send_message env cl (Connection_params addr err) p))) w))"

section \<open>Subscription\<close>

definition reset_owed_replies :: "world \<Rightarrow> world" where
  "reset_owed_replies w =
     (let w = on_prx (\<lambda>p. p\<lparr>connections_free_pending := False, scanner_state_pending := False,
                            pending_unpairing := reply_clear,
                            pending_disconnections := replicate (length (pending_disconnections p)) 0\<rparr>) w
      in for_slots [0..<connection_count (prx w)]
           (\<lambda>i. at_slot i (\<lambda>(c, p). (clear_owed_flags (park_service_stream c), p))) w)"

definition subscribe_api_connection :: "env \<Rightarrow> client \<Rightarrow> world \<Rightarrow> world" where
  "subscribe_api_connection env cl w =
     (let w = (if api_connection (prx w) \<noteq> Some cl then reset_owed_replies w else w);
          w = on_prx (\<lambda>p. p\<lparr>api_connection := Some cl\<rparr>) w
      in on_prx (send_scanner_state env (scanner_state (hub w)) (scan_active (hub w))) w)"

definition unsubscribe_api_connection :: "client \<Rightarrow> world \<Rightarrow> world" where
  "unsubscribe_api_connection cl w =
     (if api_connection (prx w) \<noteq> Some cl then w
      else reset_owed_replies (on_prx (\<lambda>p. p\<lparr>api_connection := None\<rparr>) w))"

section \<open>The loop\<close>

definition drain_disconnections :: "env \<Rightarrow> proxy \<Rightarrow> proxy" where
  "drain_disconnections env p =
     fold (\<lambda>i p. let owed = pending_disconnections p ! i
                 in if reply_empty owed then p
                    else send_device_disconnected env (reply_address owed) (reply_error owed) p)
       [0..<connection_count p] p"

definition drain_unpairing :: "env \<Rightarrow> proxy \<Rightarrow> proxy" where
  "drain_unpairing env p =
     (let owed = pending_unpairing p
      in if reply_empty owed then p
         else send_device_unpairing env (reply_address owed) (reply_error owed = CONN_OK) (reply_error owed) p)"

definition flush_advertisements_tick :: "env \<Rightarrow> client \<Rightarrow> proxy \<Rightarrow> proxy" where
  "flush_advertisements_tick env cl p =
     (if use_wifi p then
        if advertisements p \<noteq> [] then
          let p = (if adv_flush_toggle p then flush_pending_advertisements env cl p else p)
          in p\<lparr>adv_flush_toggle := \<not> adv_flush_toggle p\<rparr>
        else p\<lparr>adv_flush_toggle := True\<rparr>
      else flush_pending_advertisements env cl p)"

definition proxy_loop :: "env \<Rightarrow> world \<Rightarrow> world" where
  "proxy_loop env w =
     (let slots = [0..<connection_count (prx w)];
          w = for_slots slots (\<lambda>i. at_slot i (process_pending_services env)) w
      in if clock env - last_advertisement_flush_time (prx w) < 100 then w
         else
           let w = on_prx (\<lambda>p. p\<lparr>last_advertisement_flush_time := clock env\<rparr>) w;
               w = (case api_connection (prx w) of
                      Some cl \<Rightarrow>
                        if connections_free_pending (prx w) then
                          on_prx (\<lambda>p. send_connections_free_to env cl (p\<lparr>connections_free_pending := False\<rparr>)) w
                        else w
                    | None \<Rightarrow> w)
           in (case (if server_connected env then api_connection (prx w) else None) of
                 None \<Rightarrow>
                   for_slots slots (\<lambda>i w. if conn_address (conns w ! i) \<noteq> 0
                                          then at_slot i (hub_disconnect env) w else w) w
               | Some cl \<Rightarrow>
                   let w = for_slots slots (\<lambda>i. at_slot i (flush_owed_replies env)) w;
                       w = on_prx (drain_disconnections env) w;
                       w = on_prx (drain_unpairing env) w;
                       w = on_prx (\<lambda>p. if scanner_state_pending p
                             then send_scanner_state env (scanner_state (hub w)) (scan_active (hub w)) p else p) w
                   in on_prx (flush_advertisements_tick env cl) w))"

section \<open>Capabilities\<close>

definition get_legacy_version :: "proxy \<Rightarrow> u32" where
  "get_legacy_version p =
     (if \<not> active p then 1
      else if SUPPORTS_CACHE_CLEARING then 5 else if SUPPORTS_PAIRING then 4 else 3)"

definition get_feature_flags :: "proxy \<Rightarrow> u32" where
  "get_feature_flags p =
     (let flags = push_bit 0 1 OR push_bit 5 1 OR push_bit 6 1
      in if active p then
           flags OR push_bit 1 1 OR push_bit 2 1 OR push_bit 7 1
             OR (if SUPPORTS_PAIRING then push_bit 3 1 else 0)
             OR (if SUPPORTS_CACHE_CLEARING then push_bit 4 1 else 0)
         else flags)"

end
