(* ===== verification/ProxySlots.thy ===== *)
theory ProxySlots
  imports BluetoothProxy
begin

text \<open>
  The slot accounting of the proxy: the connections-free message always agrees with the slots, whatever
  sequence of requests, loops, backend events and subscription changes is run, and no device is ever
  given two slots. The theorems of this theory also cover requests on a slot and the batching of raw
  advertisements.
\<close>

section \<open>Runs of the proxy\<close>

datatype world_op =
  Device_request env device_request_type u64 "u32 option"
| Read_request env u64 u16
| Write_request env u64 u16 bytes bool
| Read_descriptor_request env u64 u16
| Write_descriptor_request env u64 u16 bytes
| Notify_request env u64 u16 bool
| Services_request env u64
| Params_request env u64 u32 u32 u32 u32
| Subscribe env client
| Unsubscribe client
| Proxy_loop env
| Raw_advertisement env raw_advertisement
| Hub_step env tracker_op
| Set_mode env bool
| Backend_event env nat gatt_event
| Backend_poll env nat

text \<open>An event whose handling is undefined (\<open>None\<close>) leaves the state as it is.\<close>

fun world_next :: "world_op \<Rightarrow> world \<Rightarrow> world" where
  "world_next (Device_request env ty addr at) w = bluetooth_device_request env ty addr at w"
| "world_next (Read_request env addr h) w = bluetooth_gatt_read env addr h w"
| "world_next (Write_request env addr h d r) w = bluetooth_gatt_write env addr h d r w"
| "world_next (Read_descriptor_request env addr h) w = bluetooth_gatt_read_descriptor env addr h w"
| "world_next (Write_descriptor_request env addr h d) w = bluetooth_gatt_write_descriptor env addr h d w"
| "world_next (Notify_request env addr h b) w = bluetooth_gatt_notify env addr h b w"
| "world_next (Services_request env addr) w = bluetooth_gatt_send_services env addr w"
| "world_next (Params_request env addr a b c d) w = bluetooth_set_connection_params env addr a b c d w"
| "world_next (Subscribe env cl) w = subscribe_api_connection env cl w"
| "world_next (Unsubscribe cl) w = unsubscribe_api_connection cl w"
| "world_next (Proxy_loop env) w = proxy_loop env w"
| "world_next (Raw_advertisement env raw) w = on_prx (on_raw_advertisement env raw) w"
| "world_next (Hub_step env x) w =
     (let (t, out) = tracker_step x (hub w)
      in w\<lparr>hub := t, prx := hub_pushes env (scan_active t) out (prx w)\<rparr>)"
| "world_next (Set_mode env b) w = bluetooth_scanner_set_mode env b w"
| "world_next (Backend_event env i ev) w =
     (if i < length (conns w) then
        at_slot i (\<lambda>l. case backend_event env ev l of None \<Rightarrow> l | Some l' \<Rightarrow> l') w else w)"
| "world_next (Backend_poll env i) w = (if i < length (conns w) then at_slot i (backend_poll env) w else w)"

definition world_step :: "world_op \<Rightarrow> world \<Rightarrow> world \<times> (client \<times> api_message \<times> bool) list" where
  "world_step x w = (world_next x w, drop (length (offered (prx w))) (offered (prx (world_next x w))))"

text \<open>The world after code generation and setup: \<open>n\<close> connections registered, nothing connected.\<close>

definition world_init :: "nat \<Rightarrow> nat \<Rightarrow> nat \<Rightarrow> bool \<Rightarrow> bool \<Rightarrow> tracker \<Rightarrow> world" where
  "world_init n slots batch wifi act t =
     proxy_setup ((register_connection conn_init ^^ n)
       \<lparr>prx = proxy_init slots batch wifi act, conns = [], hub = t\<rparr>)"

section \<open>The books\<close>

definition dev :: "u64 \<Rightarrow> u64 multiset" where "dev a = (if a = 0 then {#} else {#a#})"

text \<open>The connections-free message says \<open>A\<close>: those devices are allocated, the rest is free.\<close>

definition books :: "u64 multiset \<Rightarrow> proxy \<Rightarrow> bool" where
  "books A p \<longleftrightarrow> max_connections p < 2 ^ 32 \<and> size A \<le> max_connections p \<and>
     cf_limit (free_response p) = of_nat (max_connections p) \<and>
     cf_free (free_response p) = of_nat (max_connections p - size A) \<and>
     mset (cf_allocated (free_response p)) = A + replicate_mset (max_connections p - size A) 0"

lemma mset_replace_first:
  "a \<in> set xs \<Longrightarrow> mset (replace_first a b xs) + {#a#} = mset xs + {#b#}"
  by (induction xs) auto

lemma books_release:
  assumes "books (add_mset a A) p" and "a \<noteq> 0"
  shows "books A (update_address_slot a 0 p)"
proof -
  let ?r = "free_response p" and ?n = "max_connections p"
  have b: "?n < 2 ^ 32" "Suc (size A) \<le> ?n" "cf_limit ?r = of_nat ?n" "cf_free ?r = of_nat (?n - Suc (size A))"
    "mset (cf_allocated ?r) = add_mset a (A + replicate_mset (?n - Suc (size A)) 0)"
    using assms(1) by (auto simp: books_def)
  have lt: "cf_free ?r < of_nat ?n"
    unfolding b(4) by (rule of_nat_u32_less) (use b(1,2) in auto)
  have f: "cf_free ?r + 1 = of_nat (?n - size A)"
    using b(2,4) by (metis Suc_diff_Suc Suc_le_eq add.commute of_nat_Suc)
  have "a \<in> set (cf_allocated ?r)" using b(5) by (metis set_mset_mset union_single_eq_member)
  from mset_replace_first [OF this, of 0] b(5)
  have "mset (replace_first a 0 (cf_allocated ?r)) = A + add_mset 0 (replicate_mset (?n - Suc (size A)) 0)" by simp
  also have "add_mset 0 (replicate_mset (?n - Suc (size A)) (0 :: u64)) = replicate_mset (?n - size A) 0"
    using b(2) by (metis Suc_diff_Suc Suc_le_eq replicate_mset_Suc)
  finally show ?thesis
    using b f lt assms(2) by (simp add: books_def update_address_slot_def replace_allocated_slot_def Let_def)
qed

lemma books_reserve:
  assumes "books A p" and "a \<noteq> 0" and "size A < max_connections p"
  shows "books (add_mset a A) (update_address_slot 0 a p)"
proof -
  let ?r = "free_response p" and ?n = "max_connections p"
  have b: "?n < 2 ^ 32" "cf_limit ?r = of_nat ?n" "cf_free ?r = of_nat (?n - size A)"
    "mset (cf_allocated ?r) = A + replicate_mset (?n - size A) 0"
    using assms(1) by (auto simp: books_def)
  have k: "replicate_mset (?n - size A) (0 :: u64) = add_mset 0 (replicate_mset (?n - Suc (size A)) 0)"
    using assms(3) by (metis Suc_diff_Suc replicate_mset_Suc)
  have gt: "0 < cf_free ?r"
    using of_nat_u32_less [of 0 "?n - size A"] b(1) assms(3) unfolding b(3) by simp
  have f: "cf_free ?r - 1 = of_nat (?n - Suc (size A))"
    using b(3) assms(3) by (metis Suc_diff_Suc add_diff_cancel_left' of_nat_Suc)
  have "0 \<in> set (cf_allocated ?r)" using b(4) k by (metis set_mset_mset union_iff insert_iff set_mset_add_mset_insert)
  from mset_replace_first [OF this, of a] b(4) k
  have "mset (replace_first 0 a (cf_allocated ?r)) = add_mset a (A + replicate_mset (?n - Suc (size A)) 0)" by simp
  then show ?thesis
    using b f gt assms(2,3) by (simp add: books_def update_address_slot_def replace_allocated_slot_def Let_def)
qed

lemma update_address_slot_sizes [simp]:
  "connection_count (update_address_slot a b p) = connection_count p"
  "max_connections (update_address_slot a b p) = max_connections p"
  "pending_disconnections (update_address_slot a b p) = pending_disconnections p"
  "api_connection (update_address_slot a b p) = api_connection p"
  "offered (update_address_slot a b p) = offered p"
  by (auto simp: update_address_slot_def replace_allocated_slot_def Let_def)

text \<open>Nothing else touches the books.\<close>

definition same_books :: "proxy \<Rightarrow> proxy \<Rightarrow> bool" where
  "same_books p p' \<longleftrightarrow> free_response p' = free_response p \<and> max_connections p' = max_connections p \<and>
     connection_count p' = connection_count p \<and>
     length (pending_disconnections p') = length (pending_disconnections p)"

lemma same_books_refl [simp]: "same_books p p" by (simp add: same_books_def)

lemma same_books_trans: "same_books p q \<Longrightarrow> same_books q r \<Longrightarrow> same_books p r" by (simp add: same_books_def)

lemma books_same: "same_books p p' \<Longrightarrow> books A p' = books A p"
  by (simp add: same_books_def books_def)

lemma same_books_send: "same_books p (snd (send_message env c m p))"
  by (simp add: send_message_def same_books_def Let_def)

lemma same_books_senders [simp]:
  "same_books p (snd (send_or_nobody env m p))"
  "same_books p (snd (send_device_connection env a b q e p))"
  "same_books p (snd (send_gatt_services_done env a p))"
  "same_books p (snd (send_gatt_error env a h e p))"
  "same_books p (snd (try_send_ack env a kind h e p))"
  "same_books p (send_connections_free env p)"
  "same_books p (send_connections_free_to env c p)"
  "same_books p (send_device_pairing env a b e p)"
  "same_books p (send_device_clear_cache env a b e p)"
  "same_books p (send_device_unpairing env a b e p)"
  "same_books p (latch_pending_disconnection a e p)"
  "same_books p (clear_pending_disconnection a p)"
  by (auto simp: send_or_nobody_def send_device_connection_def send_gatt_services_done_def send_gatt_error_def
      try_send_ack_def send_connections_free_def send_connections_free_to_def send_device_pairing_def
      send_device_clear_cache_def send_device_unpairing_def latch_pending_disconnection_def
      clear_pending_disconnection_def set_entry_def send_message_def same_books_def Let_def
      split: option.splits pending_ack.splits prod.splits)

lemma same_books_disconnected [simp]:
  "same_books p (send_device_disconnected env a e p)"
  "same_books p (answer_device_disconnected env a p)"
  "same_books p (handle_gatt_not_connected env a h p)"
proof -
  have s: "send_device_connection env a False 0 x p = (ok, q) \<Longrightarrow> same_books p q" for x ok q
    by (metis same_books_senders(2) snd_conv)
  have c: "same_books q (clear_pending_disconnection a q)" "same_books q (latch_pending_disconnection a e q)" for q
    by simp_all
  show "same_books p (send_device_disconnected env a e p)"
    by (auto simp: send_device_disconnected_def split: prod.splits
        intro: same_books_trans [OF s c(1)] same_books_trans [OF s c(2)])
  show "same_books p (answer_device_disconnected env a p)"
    by (auto simp: answer_device_disconnected_def split: prod.splits
        intro: s same_books_trans [OF s c(1)])
qed (simp add: handle_gatt_not_connected_def)

section \<open>Operations of a slot\<close>

text \<open>
  What an operation of a slot may do to the slot's address and the books: it never takes an address,
  only gives its own up, and then the books say so, whatever the other slots hold.
\<close>

definition slot_rel :: "link \<Rightarrow> link \<Rightarrow> bool" where
  "slot_rel l l' \<longleftrightarrow>
     (conn_address (fst l') = conn_address (fst l) \<or> conn_address (fst l') = 0) \<and>
     connection_count (snd l') = connection_count (snd l) \<and>
     max_connections (snd l') = max_connections (snd l) \<and>
     length (pending_disconnections (snd l')) = length (pending_disconnections (snd l)) \<and>
     (\<forall>A. books (A + dev (conn_address (fst l))) (snd l) \<longrightarrow> books (A + dev (conn_address (fst l'))) (snd l'))"

lemma slot_rel_refl [simp]: "slot_rel l l" by (simp add: slot_rel_def)

lemma slot_rel_trans: "slot_rel l l1 \<Longrightarrow> slot_rel l1 l2 \<Longrightarrow> slot_rel l l2"
  unfolding slot_rel_def by fastforce

lemma slot_rel_plain:
  "conn_address c' = conn_address c \<Longrightarrow> same_books p p' \<Longrightarrow> slot_rel (c, p) (c', p')"
  unfolding slot_rel_def by (simp add: books_same) (simp add: same_books_def)

lemma slot_rel_pre:
  assumes "slot_rel (c1, p1) l'" and "conn_address c1 = conn_address c" and "same_books p p1"
  shows "slot_rel (c, p) l'"
  by (rule slot_rel_trans [OF slot_rel_plain [OF assms(2,3)] assms(1)])

lemma slot_rel_post:
  assumes "slot_rel l (c1, p1)" and "conn_address c' = conn_address c1" and "same_books p1 p'"
  shows "slot_rel l (c', p')"
  by (rule slot_rel_trans [OF assms(1) slot_rel_plain [OF assms(2,3)]])

lemma slot_rel_free: "slot_rel l (set_address 0 l)"
proof -
  obtain c p where l: "l = (c, p)" by fastforce
  let ?p = "update_address_slot (conn_address c) 0 p"
  have "books A ?p" if "books (A + dev (conn_address c)) p" for A
    using that books_release [of "conn_address c" A p]
    by (cases "conn_address c = 0") (auto simp: dev_def update_address_slot_def)
  then show ?thesis by (simp add: slot_rel_def l set_address_def dev_def)
qed

lemma call_backend_address:
  "call_backend f c = (rc, c', calls) \<Longrightarrow> conn_address c' = conn_address c"
  by (auto simp: call_backend_def split: prod.splits)

lemma conn_address_simps [simp]:
  "conn_address (latch_pending_error e c) = conn_address c"
  "conn_address (latch_pending_ack k h e c) = conn_address c"
  "conn_address (clear_pending_ack c) = conn_address c"
  "conn_address (supersede_pending_ack h k c) = conn_address c"
  "conn_address (clear_owed_flags c) = conn_address c"
  "conn_address (note_batch_stalled c) = conn_address c"
  "conn_address (age_pending_ack c) = conn_address c"
  "conn_address (age_services_done c) = conn_address c"
  "conn_address (hub_release_services c) = conn_address c"
  "conn_address (hub_set_connection_type ct c) = conn_address c"
  "conn_address (park_service_stream c) = conn_address c"
  "conn_address (snd (cancel_teardown c)) = conn_address c"
  "conn_address (fst (snd (call_backend f c))) = conn_address c"
  "conn_address (snd (hub_pair env c)) = conn_address c"
  by (simp_all add: latch_pending_error_def latch_pending_ack_def clear_pending_ack_def supersede_pending_ack_def
      clear_owed_flags_def note_batch_stalled_def age_pending_ack_def age_services_done_def hub_pair_def
      hub_release_services_def hub_set_connection_type_def park_service_stream_def cancel_teardown_def
      call_backend_def split_beta Let_def)

lemma slot_rel_reset_slot: "slot_rel l (reset_connection_slot env r l)"
proof -
  obtain c p where l: "l = (c, p)" by fastforce
  let ?p = "send_device_disconnected env (conn_address c) r p"
  obtain c1 p1 where f: "set_address 0 (c, ?p) = (c1, p1)" by fastforce
  have "slot_rel (c, p) (c1, p1)"
    by (rule slot_rel_pre [of c ?p]) (use slot_rel_free [of "(c, ?p)"] f in simp_all)
  then have "slot_rel (c, p) (c1\<lparr>send_service := INIT_SENDING_SERVICES\<rparr>, send_connections_free env p1)"
    by (rule slot_rel_post) simp_all
  then show ?thesis using f by (simp add: l reset_connection_slot_def Let_def)
qed

lemma slot_rel_reset: "slot_rel l (reset_connection env reason l)"
proof -
  obtain c p where l: "l = (c, p)" by fastforce
  let ?r = "if pending_error c \<noteq> 0 then pending_error c else reason"
  let ?c = "hub_release_services (clear_owed_flags ((if pending_error c \<noteq> 0 then c\<lparr>pending_error := 0\<rparr> else c)
      \<lparr>client_state := CS_IDLE, services_discovered := False, paired := False\<rparr>))"
  have e: "reset_connection env reason (c, p) = reset_connection_slot env ?r (?c, p)"
    "conn_address ?c = conn_address c"
    by (simp_all add: reset_connection_def Let_def)
  show ?thesis unfolding l e(1) by (rule slot_rel_pre [OF slot_rel_reset_slot e(2) same_books_refl])
qed

lemma slot_rel_disconnect: "slot_rel l (hub_disconnect env l)"
proof -
  obtain c p where l: "l = (c, p)" by fastforce
  obtain err c1 calls where b: "call_backend (gatt_disconnect (stk env) (clock env)) c = (err, c1, calls)"
    by (metis prod_cases3)
  note a = call_backend_address [OF b]
  show ?thesis
    using b a by (auto simp: l hub_disconnect_def Let_def intro: slot_rel_plain slot_rel_pre [OF slot_rel_reset])
qed

lemma slot_rel_abort: "slot_rel l (abort_service_stream env e l)"
  by (cases l) (auto simp: abort_service_stream_def intro: slot_rel_pre [OF slot_rel_disconnect])

lemma slot_rel_initiate: "slot_rel l (initiate_connection env at l)"
proof -
  obtain c p where l: "l = (c, p)" by fastforce
  obtain err c1 calls where b: "call_backend (connect (stk env) (clock env) (conn_address (c\<lparr>client_state := CS_CONNECTING\<rparr>)) at)
      (c\<lparr>client_state := CS_CONNECTING\<rparr>) = (err, c1, calls)"
    by (metis prod_cases3)
  have "conn_address c1 = conn_address c" using call_backend_address [OF b] by simp
  then show ?thesis
    using b by (auto simp: l initiate_connection_def Let_def intro: slot_rel_plain slot_rel_pre [OF slot_rel_reset])
qed

lemma same_books_pair [simp]:
  "send_device_connection env a b q e p = (ok, p') \<Longrightarrow> same_books p p'"
  "send_gatt_services_done env a p = (ok, p') \<Longrightarrow> same_books p p'"
  "send_gatt_error env a h e p = (ok, p') \<Longrightarrow> same_books p p'"
  "try_send_ack env a k h e p = (ok, p') \<Longrightarrow> same_books p p'"
  "send_message env cl m p = (ok, p') \<Longrightarrow> same_books p p'"
  using same_books_senders same_books_send by (metis snd_conv)+

lemma slot_rel_connected_reply: "slot_rel l (send_connected_reply env l)"
  by (cases l) (auto simp: send_connected_reply_def split: prod.splits intro!: slot_rel_plain)

lemma slot_rel_ack: "slot_rel l (send_ack env k h e l)"
  by (cases l) (auto simp: send_ack_def split: prod.splits intro!: slot_rel_plain)

lemma slot_rel_error: "slot_rel l (hub_send_gatt_error env h e l)"
  by (simp add: hub_send_gatt_error_def slot_rel_ack)

lemma slot_rel_flush_ack: "slot_rel l (flush_pending_ack env l)"
  by (cases l) (auto simp: flush_pending_ack_def split: prod.splits intro!: slot_rel_plain)

lemma slot_rel_services_done: "slot_rel l (send_services_done env l)"
  by (cases l) (auto simp: send_services_done_def split: prod.splits intro!: slot_rel_plain)

lemma slot_rel_owed: "slot_rel l (flush_owed_replies env l)"
proof -
  obtain c p where l: "l = (c, p)" by fastforce
  obtain c1 p1 where 1: "(if connected_reply_owed c then send_connected_reply env (c, p) else (c, p)) = (c1, p1)"
    by fastforce
  obtain c2 p2 where 2: "(if send_service c1 = SERVICES_DONE_PENDING then send_services_done env (c1, p1) else (c1, p1)) = (c2, p2)"
    by fastforce
  have r1: "slot_rel (c, p) (c1, p1)" using slot_rel_connected_reply [of "(c, p)" env] 1 by (auto split: if_splits)
  have r2: "slot_rel (c1, p1) (c2, p2)" using slot_rel_services_done [of "(c1, p1)" env] 2 by (auto split: if_splits)
  have "slot_rel (c1, p1) (flush_pending_ack env (c2, p2))" by (rule slot_rel_trans [OF r2 slot_rel_flush_ack])
  then show ?thesis
    using 1 2 r2
    by (auto simp: l flush_owed_replies_def Let_def intro!: slot_rel_trans [OF r1] intro: slot_rel_plain)
qed

lemma slot_rel_connection_state: "slot_rel l (on_connection_state env b m e l)"
proof -
  obtain c p where l: "l = (c, p)" by fastforce
  consider (freed) "b \<and> conn_address c = 0" | (race) "b \<and> conn_address c \<noteq> 0 \<and> client_state c = CS_DISCONNECTING"
    | (cached) "b \<and> conn_address c \<noteq> 0 \<and> client_state c \<noteq> CS_DISCONNECTING \<and> conn_type c = CONN_V3_WITH_CACHE"
    | (discover) "b \<and> conn_address c \<noteq> 0 \<and> client_state c \<noteq> CS_DISCONNECTING \<and> conn_type c \<noteq> CONN_V3_WITH_CACHE"
    | (down) "\<not> b" by blast
  then show ?thesis
  proof cases
    case freed
    then show ?thesis
      by (auto simp: l on_connection_state_def Let_def call_backend_def split: prod.splits intro: slot_rel_plain)
  next
    case race
    obtain rc c1 calls where k: "call_backend (gatt_disconnect (stk env) (clock env)) c = (rc, c1, calls)"
      by (metis prod_cases3)
    show ?thesis
      using race k call_backend_address [OF k]
      by (auto simp: l on_connection_state_def Let_def intro: slot_rel_plain slot_rel_pre [OF slot_rel_reset])
  next
    case cached
    let ?c = "c\<lparr>att_mtu := m, client_state := CS_ESTABLISHED\<rparr>"
    obtain rc c1 calls where k: "call_backend (update_connection_params (stk env) MEDIUM_MIN_CONN_INTERVAL
        MEDIUM_MAX_CONN_INTERVAL 0 MEDIUM_CONN_TIMEOUT) ?c = (rc, c1, calls)" by (metis prod_cases3)
    have a: "conn_address c1 = conn_address c" using call_backend_address [OF k] by simp
    obtain c2 p2 where r: "send_connected_reply env (c1, p) = (c2, p2)" by fastforce
    have "slot_rel (c1, p) (c2, p2)" using slot_rel_connected_reply [of "(c1, p)" env] r by simp
    then have "slot_rel (c, p) (c2, p2)" by (rule slot_rel_pre [OF _ a same_books_refl])
    then have "slot_rel (c, p) (c2, send_connections_free env p2)" by (rule slot_rel_post) simp_all
    then show ?thesis using cached k r by (simp add: l on_connection_state_def Let_def)
  next
    case discover
    let ?c = "c\<lparr>att_mtu := m, client_state := CS_CONNECTED\<rparr>"
    obtain rc c1 calls where k: "call_backend (discover_services (stk env)) ?c = (rc, c1, calls)" by (metis prod_cases3)
    have a: "conn_address c1 = conn_address c" using call_backend_address [OF k] by simp
    show ?thesis
      using discover k a
      by (auto simp: l on_connection_state_def Let_def intro: slot_rel_plain slot_rel_pre [OF slot_rel_disconnect])
  next
    case down
    then show ?thesis by (simp add: l on_connection_state_def slot_rel_reset)
  qed
qed

lemma slot_rel_discovery_done: "slot_rel l (on_service_discovery_done env e l)"
proof -
  obtain c p where l: "l = (c, p)" by fastforce
  let ?c = "c\<lparr>client_state := CS_ESTABLISHED, services_discovered := True\<rparr>"
  obtain c2 p2 where r: "send_connected_reply env (?c, p) = (c2, p2)" by fastforce
  have "slot_rel (?c, p) (c2, p2)" using slot_rel_connected_reply [of "(?c, p)" env] r by simp
  then have "slot_rel (c, p) (c2, p2)" by (rule slot_rel_pre) simp_all
  then have "slot_rel (c, p) (c2, send_connections_free env p2)" by (rule slot_rel_post) simp_all
  then show ?thesis
    using r by (auto simp: l on_service_discovery_done_def Let_def intro: slot_rel_pre [OF slot_rel_disconnect])
qed

lemma slot_rel_listener: "slot_rel l (on_listener_call env call l)"
  by (cases l; cases call)
    (auto simp: on_listener_call_def slot_rel_connection_state slot_rel_discovery_done on_read_result_def
      on_write_result_def on_notify_state_def on_notify_data_def on_pairing_result_def slot_rel_error slot_rel_ack
      same_books_send split: option.splits intro!: slot_rel_plain)

lemma slot_rel_listeners: "slot_rel l (on_listener_calls env calls l)"
proof (induction calls arbitrary: l)
  case (Cons x xs)
  show ?case using slot_rel_trans [OF slot_rel_listener Cons.IH] by simp
qed simp

lemma slot_rel_event: "slot_rel l (case backend_event env ev l of None \<Rightarrow> l | Some l' \<Rightarrow> l')"
  by (cases l) (auto simp: backend_event_def split: option.splits prod.splits intro!: slot_rel_pre [OF slot_rel_listeners])

lemma slot_rel_poll: "slot_rel l (backend_poll env l)"
  by (cases l) (auto simp: backend_poll_def Let_def split: prod.splits intro!: slot_rel_pre [OF slot_rel_listeners])

lemma slot_rel_request: "gatt_request env h kind f l = (rc, l') \<Longrightarrow> slot_rel l l'"
proof -
  assume r: "gatt_request env h kind f l = (rc, l')"
  obtain c p where l: "l = (c, p)" by fastforce
  obtain rc1 c1 calls where k: "call_backend f (supersede_pending_ack h kind c) = (rc1, c1, calls)" by (metis prod_cases3)
  have a: "conn_address c1 = conn_address c" using call_backend_address [OF k] by simp
  show ?thesis
    using r k a by (auto simp: l gatt_request_def Let_def split: if_splits
        intro: slot_rel_plain slot_rel_pre [OF slot_rel_listeners])
qed

lemma slot_rel_process: "slot_rel l (process_pending_services env l)"
proof -
  obtain c p where l: "l = (c, p)" by fastforce
  have b: "slot_rel (c, p) (case fill_batch env eff tbl k [] z of
        Batch_abort cursor \<Rightarrow> abort_service_stream env GATT_ERR_UNLIKELY (c\<lparr>send_service := cursor\<rparr>, p)
      | Batch resp cursor \<Rightarrow>
          (let c = c\<lparr>send_service := cursor\<rparr>;
               (ok, p) = send_message env cl (Get_services (conn_address c) resp) p
           in if \<not> ok then ((note_batch_stalled c)\<lparr>send_service := k\<rparr>, p) else (c\<lparr>batch_stalled := False\<rparr>, p)))"
    for eff tbl k z cl
    by (auto simp: Let_def split: batch.splits prod.splits intro: slot_rel_pre [OF slot_rel_abort] intro!: slot_rel_plain)
  show ?thesis
    using b by (auto simp: l process_pending_services_def send_service_for_discovery_def Let_def
        split: option.splits intro: slot_rel_pre [OF slot_rel_services_done] slot_rel_plain)
qed

lemma slot_rel_services: "slot_rel l (gatt_send_services env l)"
  by (cases l) (auto simp: gatt_send_services_def slot_rel_services_done intro!: slot_rel_plain)

lemma slot_rel_params:
  "hub_update_connection_params env a b q d l = (rc, l') \<Longrightarrow> slot_rel l l'"
  by (cases l) (auto simp: hub_update_connection_params_def call_backend_def Let_def split: if_splits prod.splits
      intro!: slot_rel_plain)

section \<open>The invariant of the slots\<close>

definition addresses :: "world \<Rightarrow> u64 multiset" where
  "addresses w = (\<Sum>\<^sub># (mset (map (\<lambda>c. dev (conn_address c)) (conns w))))"

text \<open>
  The build has \<open>N\<close> slots and every registered connection is counted; the books say what
  the slots hold; no device is on two slots.
\<close>

definition slots_wf :: "nat \<Rightarrow> world \<Rightarrow> bool" where
  "slots_wf N w \<longleftrightarrow> max_connections (prx w) = N \<and> length (pending_disconnections (prx w)) = N \<and>
     connection_count (prx w) = length (conns w) \<and> length (conns w) \<le> max_connections (prx w) \<and>
     books (addresses w) (prx w) \<and>
     (\<forall>i < length (conns w). \<forall>j < length (conns w).
        conn_address (conns w ! i) = conn_address (conns w ! j) \<and> conn_address (conns w ! i) \<noteq> 0 \<longrightarrow> i = j)"

lemma addresses_at:
  assumes "i < length cs"
  shows "\<Sum>\<^sub># (mset (map (\<lambda>c. dev (conn_address c)) (cs[i := c]))) + dev (conn_address (cs ! i))
       = \<Sum>\<^sub># (mset (map (\<lambda>c. dev (conn_address c)) cs)) + dev (conn_address c)"
  using assms
proof (induction cs arbitrary: i)
  case (Cons x xs)
  then show ?case
    by (cases i) (auto simp: ac_simps)
qed simp

lemma slots_wf_slot:
  assumes wf: "slots_wf N w" and i: "i < length (conns w)" and r: "slot_rel (conns w ! i, prx w) (c', p')"
  shows "slots_wf N (w\<lparr>conns := (conns w)[i := c'], prx := p'\<rparr>)"
proof -
  let ?c = "conns w ! i" and ?w = "w\<lparr>conns := (conns w)[i := c'], prx := p'\<rparr>"
  have R: "conn_address c' = conn_address ?c \<or> conn_address c' = 0" "connection_count p' = connection_count (prx w)"
    "max_connections p' = max_connections (prx w)"
    "length (pending_disconnections p') = length (pending_disconnections (prx w))"
    "\<And>A. books (A + dev (conn_address ?c)) (prx w) \<Longrightarrow> books (A + dev (conn_address c')) p'"
    using r by (auto simp: slot_rel_def)
  define A where "A = \<Sum>\<^sub># (mset (map (\<lambda>c. dev (conn_address c)) ((conns w)[i := conn_init])))"
  have "A + dev (conn_address ?c) = addresses w"
    using addresses_at [OF i, of conn_init] by (simp add: A_def addresses_def conn_init_def dev_def)
  moreover have "A + dev (conn_address c') = addresses ?w"
    using addresses_at [of i "(conns w)[i := conn_init]" c'] i
    by (simp add: A_def addresses_def conn_init_def dev_def)
  ultimately have "books (addresses ?w) p'" using R(5) [of A] wf by (simp add: slots_wf_def)
  moreover have D: "conn_address (conns w ! j) = conn_address (conns w ! k) \<Longrightarrow> conn_address (conns w ! k) \<noteq> 0 \<Longrightarrow> j = k"
    if "j < length (conns w)" "k < length (conns w)" for j k
    using wf that by (auto simp: slots_wf_def)
  moreover have "\<forall>j < length (conns w). \<forall>k < length (conns w).
      conn_address ((conns w)[i := c'] ! j) = conn_address ((conns w)[i := c'] ! k) \<and>
      conn_address ((conns w)[i := c'] ! j) \<noteq> 0 \<longrightarrow> j = k"
    using R(1) i by (auto simp: nth_list_update) (metis D)+
  ultimately show ?thesis using wf R(2,3,4) by (simp add: slots_wf_def)
qed

lemma slots_wf_at:
  assumes "slots_wf N w" and "i < length (conns w)" and "\<And>l. slot_rel l (f l)"
  shows "slots_wf N (at_slot i f w)"
proof -
  obtain c' p' where f: "f (conns w ! i, prx w) = (c', p')" by fastforce
  with assms(3) [of "(conns w ! i, prx w)"] slots_wf_slot [OF assms(1,2)] show ?thesis
    by (simp add: at_slot_def)
qed

lemma slots_wf_prx:
  assumes "slots_wf N w" and "\<And>p. same_books p (f p)"
  shows "slots_wf N (on_prx f w)"
  using assms(1) assms(2) [of "prx w"]
  by (auto simp: slots_wf_def on_prx_def books_same addresses_def) (auto simp: same_books_def)

lemma length_at_slot [simp]: "length (conns (at_slot i f w)) = length (conns w)"
  by (simp add: at_slot_def split: prod.splits)

lemma conns_on_prx [simp]: "conns (on_prx f w) = conns w" "hub (on_prx f w) = hub w"
  by (simp_all add: on_prx_def)

lemma slots_wf_for:
  assumes "\<And>i w. slots_wf N w \<Longrightarrow> i < length (conns w) \<Longrightarrow> slots_wf N (f i w) \<and> length (conns (f i w)) = length (conns w)"
  shows "slots_wf N w \<Longrightarrow> \<forall>i \<in> set is. i < length (conns w) \<Longrightarrow>
     slots_wf N (for_slots is f w) \<and> length (conns (for_slots is f w)) = length (conns w)"
proof (induction "is" arbitrary: w)
  case (Cons i xs)
  have "slots_wf N (f i w) \<and> length (conns (f i w)) = length (conns w)"
    by (rule assms) (use Cons.prems in auto)
  then show ?case using Cons.IH [of "f i w"] Cons.prems by simp
qed simp

section \<open>Finding and reserving a slot\<close>

lemma scan_slots_found:
  "scan_slots addr i cs free = (Some k, fr) \<Longrightarrow>
     i \<le> k \<and> k - i < length cs \<and> conn_address (cs ! (k - i)) = addr"
proof (induction cs arbitrary: i free)
  case (Cons c cs)
  show ?case
  proof (cases "conn_address c = addr")
    case False
    then have "scan_slots addr (i + 1) cs (if free = None \<and> conn_address c = 0 then Some i else free) = (Some k, fr)"
      using Cons.prems by simp
    from Cons.IH [OF this] show ?thesis by (auto simp: nth_Cons')
  qed (use Cons.prems in simp)
qed simp

lemma scan_slots_none:
  "scan_slots addr i cs free = (None, fr) \<Longrightarrow> \<forall>c \<in> set cs. conn_address c \<noteq> addr"
  by (induction cs arbitrary: i free) (auto split: if_splits)

lemma scan_slots_free:
  "scan_slots addr i cs free = (None, Some k) \<Longrightarrow>
     free = Some k \<or> (i \<le> k \<and> k - i < length cs \<and> conn_address (cs ! (k - i)) = 0)"
proof (induction cs arbitrary: i free)
  case (Cons c cs)
  then have "scan_slots addr (i + 1) cs (if free = None \<and> conn_address c = 0 then Some i else free) = (None, Some k)"
    by (auto split: if_splits)
  from Cons.IH [OF this] show ?case by (auto simp: nth_Cons' split: if_splits)
qed simp

lemma scan_slots_full:
  "scan_slots addr i cs free = (None, None) \<Longrightarrow> free = None \<and> (\<forall>c \<in> set cs. conn_address c \<noteq> 0)"
  by (induction cs arbitrary: i free) (fastforce split: if_splits)+

lemma slots_wf_count: "slots_wf N w \<Longrightarrow> take (connection_count (prx w)) (conns w) = conns w"
  by (simp add: slots_wf_def)

lemma get_connection_found:
  assumes "slots_wf N w" and "fst (get_connection addr False w) = Some i"
  shows "i < length (conns w) \<and> conn_address (conns w ! i) = addr"
  using assms scan_slots_found [of addr 0 "conns w" None i]
  by (auto simp: get_connection_def slots_wf_count split: prod.splits option.splits)

text \<open>A free slot takes an address no slot has: the books follow.\<close>

lemma slots_wf_reserve:
  assumes wf: "slots_wf N w" and i: "i < length (conns w)" and fr: "conn_address (conns w ! i) = 0"
    and new: "\<forall>c \<in> set (conns w). conn_address c \<noteq> addr" and a: "addr \<noteq> 0"
  shows "slots_wf N (at_slot i (set_address addr) w)"
proof -
  let ?c = "(clear_owed_flags (conns w ! i))\<lparr>conn_address := addr\<rparr>"
  let ?p = "update_address_slot 0 addr (prx w)"
  have w: "at_slot i (set_address addr) w = w\<lparr>conns := (conns w)[i := ?c], prx := ?p\<rparr>"
    using fr by (simp add: at_slot_def set_address_def)
  have "addresses w + dev addr = addresses (w\<lparr>conns := (conns w)[i := ?c], prx := ?p\<rparr>)"
    using addresses_at [OF i, of ?c] fr by (simp add: addresses_def dev_def)
  then have add: "addresses (w\<lparr>conns := (conns w)[i := ?c], prx := ?p\<rparr>) = add_mset addr (addresses w)"
    using a by (simp add: dev_def)
  have "size (\<Sum>\<^sub># (mset (map (\<lambda>c. dev (conn_address c)) cs))) + length (filter (\<lambda>c. conn_address c = 0) cs) = length cs" for cs
    by (induction cs) (auto simp: dev_def)
  from this [of "conns w"]
  have "size (addresses w) + length (filter (\<lambda>c. conn_address c = 0) (conns w)) = length (conns w)"
    by (simp add: addresses_def)
  moreover have "filter (\<lambda>c. conn_address c = 0) (conns w) \<noteq> []"
    using i fr by (auto simp: filter_empty_conv)
  ultimately have "size (addresses w) < max_connections (prx w)"
    using wf by (cases "filter (\<lambda>c. conn_address c = 0) (conns w)") (auto simp: slots_wf_def)
  then have "books (add_mset addr (addresses w)) ?p"
    using books_reserve [OF _ a] wf by (simp add: slots_wf_def)
  moreover have "\<forall>j < length (conns w). conn_address (conns w ! j) \<noteq> addr" using new by simp
  ultimately show ?thesis
    unfolding w using wf i by (auto simp: slots_wf_def add nth_list_update)
qed

lemma get_connection_reserve:
  assumes wf: "slots_wf N w" and g: "get_connection addr True w = (r, w')"
  shows "slots_wf N w' \<and> length (conns w') = length (conns w) \<and>
         (case r of None \<Rightarrow> w' = w \<and> (\<forall>c \<in> set (conns w). conn_address c \<noteq> addr \<and> conn_address c \<noteq> 0)
          | Some i \<Rightarrow> i < length (conns w) \<and> conn_address (conns w' ! i) = addr)"
proof -
  obtain same free where s: "scan_slots addr 0 (conns w) None = (same, free)" by fastforce
  have clr: "slots_wf N (on_prx (clear_pending_disconnection addr) w)" by (rule slots_wf_prx [OF wf]) simp
  show ?thesis
  proof (cases same)
    case (Some i)
    then show ?thesis using g s clr scan_slots_found [of addr 0 "conns w" None i free]
      by (auto simp: get_connection_def slots_wf_count [OF wf])
  next
    case None
    then have new: "\<forall>c \<in> set (conns w). conn_address c \<noteq> addr" using s scan_slots_none by blast
    show ?thesis
    proof (cases free)
      case None2: None
      then show ?thesis using g s None new wf scan_slots_full [of addr 0 "conns w" None]
        by (auto simp: get_connection_def slots_wf_count [OF wf])
    next
      case (Some i)
      then have i: "i < length (conns w)" "conn_address (conns w ! i) = 0"
        using s None scan_slots_free [of addr 0 "conns w" None i] by auto
      then have a: "addr \<noteq> 0" using new by auto
      define w1 where "w1 = on_prx (clear_pending_disconnection addr) w"
      define w2 where "w2 = at_slot i (\<lambda>(c, p). (c\<lparr>send_service := INIT_SENDING_SERVICES\<rparr>, p)) w1"
      define w3 where "w3 = at_slot i (set_address addr) w2"
      have w': "w' = at_slot i (\<lambda>(c, p). (c\<lparr>client_state := CS_INIT\<rparr>, p)) w3" "r = Some i"
        using g s None Some by (auto simp: get_connection_def slots_wf_count [OF wf] w1_def w2_def w3_def)
      have l: "length (conns w2) = length (conns w)" "length (conns w3) = length (conns w)"
        by (simp_all add: w1_def w2_def w3_def)
      have c2: "conns w2 = (conns w)[i := (conns w ! i)\<lparr>send_service := INIT_SENDING_SERVICES\<rparr>]"
        by (simp add: w2_def at_slot_def w1_def)
      have wf2: "slots_wf N w2" unfolding w2_def
        by (rule slots_wf_at) (use clr i in \<open>auto simp: w1_def intro: slot_rel_plain\<close>)
      have n2: "\<forall>c \<in> set (conns w2). conn_address c \<noteq> addr"
        using new i c2 by (auto dest!: set_update_subset_insert [THEN subsetD])
      have wf3: "slots_wf N w3" unfolding w3_def
        by (rule slots_wf_reserve [OF wf2 _ _ n2 a]) (use i l c2 in auto)
      have "slots_wf N w'" unfolding w'(1)
        by (rule slots_wf_at [OF wf3]) (use i l in \<open>auto intro: slot_rel_plain\<close>)
      moreover have "conn_address (conns w' ! i) = addr"
        using i l by (simp add: w'(1) w3_def at_slot_def set_address_def split_beta)
      ultimately show ?thesis using w' l i by simp
    qed
  qed
qed

section \<open>Every operation of the proxy keeps the invariant\<close>

abbreviation ok_from :: "nat \<Rightarrow> world \<Rightarrow> world \<Rightarrow> bool" where
  "ok_from N w w' \<equiv> slots_wf N w' \<and> length (conns w') = length (conns w)"

lemma ok_prx: "ok_from N w0 w \<Longrightarrow> (\<And>p. same_books p (f p)) \<Longrightarrow> ok_from N w0 (on_prx f w)"
  by (simp add: slots_wf_prx)

lemma ok_at: "ok_from N w0 w \<Longrightarrow> i < length (conns w0) \<Longrightarrow> (\<And>l. slot_rel l (f l)) \<Longrightarrow> ok_from N w0 (at_slot i f w)"
  by (simp add: slots_wf_at)

lemma slot_rel_conn: "(\<And>c. conn_address (f c) = conn_address c) \<Longrightarrow> slot_rel l ((\<lambda>(c, p). (f c, p)) l)"
  by (cases l) (simp add: slot_rel_plain)

lemma ok_connect:
  assumes "slots_wf N w"
  shows "ok_from N w (connect_request env wc addr at w)"
proof -
  obtain r w1 where g: "get_connection addr True w = (r, w1)" by fastforce
  note G = get_connection_reserve [OF assms g]
  show ?thesis
  proof (cases r)
    case None
    have "ok_from N w (on_prx (answer_device_disconnected env addr) w1)"
      by (rule ok_prx) (use G None assms in auto)
    then show ?thesis using None g by (simp add: connect_request_def)
  next
    case (Some i)
    have w1: "ok_from N w w1" and i: "i < length (conns w)" using G Some by auto
    have a: "ok_from N w (on_prx (answer_device_disconnected env addr) w1)" by (rule ok_prx [OF w1]) simp
    show ?thesis
    proof (cases at)
      case None
      then show ?thesis using a g Some by (simp add: connect_request_def)
    next
      case at: (Some ty)
      have r1: "ok_from N w (on_prx (send_connections_free env) (at_slot i (send_connected_reply env) w1))"
        by (rule ok_prx [OF ok_at [OF w1 i slot_rel_connected_reply]]) simp
      have r2: "ok_from N w (at_slot i (\<lambda>(c, p). (snd (cancel_teardown c), p)) w1)"
        by (rule ok_at [OF w1 i slot_rel_conn]) simp
      have r3: "ok_from N w (on_prx (send_connections_free env) (at_slot i (initiate_connection env k)
          (at_slot i (\<lambda>(c, p). (hub_set_connection_type ct c, p)) w1)))" for ct k
        by (rule ok_prx [OF ok_at [OF ok_at [OF w1 i slot_rel_conn] i slot_rel_initiate]]) simp_all
      show ?thesis
        using g Some at r1 r2 r3 w1 by (simp add: connect_request_def Let_def)
    qed
  qed
qed

lemma ok_disconnect:
  assumes "slots_wf N w"
  shows "ok_from N w (disconnect_request env addr w)"
proof (cases "fst (get_connection addr False w)")
  case None
  then show ?thesis
    using assms by (simp add: disconnect_request_def slots_wf_prx)
next
  case (Some i)
  have i: "i < length (conns w)" using get_connection_found [OF assms Some] by simp
  have w: "ok_from N w w" using assms by simp
  have 1: "ok_from N w (at_slot i (hub_disconnect env) w)" by (rule ok_at [OF w i slot_rel_disconnect])
  have 2: "ok_from N w (on_prx (send_connections_free env)
      (on_prx (answer_device_disconnected env addr) (at_slot i (set_address 0) w)))"
    by (intro ok_prx ok_at [OF w i slot_rel_free]) simp_all
  show ?thesis using Some 1 2 by (simp add: disconnect_request_def)
qed

lemma ok_pair:
  assumes "slots_wf N w"
  shows "ok_from N w (pair_request env addr w)"
proof (cases "fst (get_connection addr False w)")
  case None
  then show ?thesis using assms by (simp add: pair_request_def slots_wf_prx)
next
  case (Some i)
  have i: "i < length (conns w)" using get_connection_found [OF assms Some] by simp
  have w: "ok_from N w w" using assms by simp
  obtain err c where h: "hub_pair env (conns w ! i) = (err, c)" by fastforce
  have "conn_address c = conn_address (conns w ! i)" using conn_address_simps(14) [of env "conns w ! i"] h by simp
  then have "slot_rel (conns w ! i, prx w) (c, prx w)" by (simp add: slot_rel_plain)
  from slots_wf_slot [OF assms i this] have 1: "ok_from N w (at_slot i (\<lambda>(_, p). (c, p)) w)"
    by (simp add: at_slot_def)
  have 2: "ok_from N w (on_prx (send_device_pairing env addr b e) (at_slot i (\<lambda>(_, p). (c, p)) w))" for b e
    by (rule ok_prx [OF 1]) simp
  have 3: "ok_from N w (on_prx (send_device_pairing env addr b e) w)" for b e
    by (rule ok_prx [OF w]) simp
  show ?thesis using Some h 1 2 3 by (simp add: pair_request_def Let_def)
qed

lemma ok_unpair:
  assumes "slots_wf N w"
  shows "ok_from N w (unpair_request env addr w)"
proof -
  have w: "ok_from N w w" using assms by simp
  have 1: "ok_from N w (at_slot i (\<lambda>(c, p). (c\<lparr>paired := False\<rparr>, p)) w)"
    if "fst (get_connection addr False w) = Some i" for i
    by (rule ok_at [OF w _ slot_rel_conn]) (use get_connection_found [OF assms that] in simp_all)
  have "ok_from N w (if unpair_device env addr = CONN_OK then
                 (case fst (get_connection addr False w) of None \<Rightarrow> w
                  | Some i \<Rightarrow> at_slot i (\<lambda>(c, p). (c\<lparr>paired := False\<rparr>, p)) w) else w)"
    using w 1 by (simp split: option.split)
  then have "ok_from N w (on_prx (send_device_unpairing env addr b e) (if unpair_device env addr = CONN_OK then
                 (case fst (get_connection addr False w) of None \<Rightarrow> w
                  | Some i \<Rightarrow> at_slot i (\<lambda>(c, p). (c\<lparr>paired := False\<rparr>, p)) w) else w))" for b e
    by (rule ok_prx) simp
  then show ?thesis by (simp add: unpair_request_def Let_def)
qed

lemma ok_device_request: "slots_wf N w \<Longrightarrow> ok_from N w (bluetooth_device_request env ty addr at w)"
  by (cases ty)
    (simp_all add: bluetooth_device_request_def ok_connect ok_disconnect ok_pair ok_unpair slots_wf_prx Let_def)

lemma ok_gatt_op:
  assumes wf: "slots_wf N w" and f: "\<And>l rc l'. f l = (rc, l') \<Longrightarrow> slot_rel l l'"
  shows "ok_from N w (gatt_op_request env addr h f w)"
proof (cases "fst (get_connection addr False w)")
  case None
  then show ?thesis using wf by (simp add: gatt_op_request_def slots_wf_prx)
next
  case (Some i)
  have i: "i < length (conns w)" using get_connection_found [OF wf Some] by simp
  have "slot_rel l (let (err, l) = f l in if err \<noteq> CONN_OK then hub_send_gatt_error env h err l else l)" for l
    using f [of l] slot_rel_trans [OF _ slot_rel_error] by (auto simp: Let_def split: prod.splits)
  from ok_at [OF _ i this] wf show ?thesis using Some by (simp add: gatt_op_request_def)
qed

lemma ok_gatt_ops:
  assumes "slots_wf N w"
  shows "ok_from N w (bluetooth_gatt_read env addr h w)" "ok_from N w (bluetooth_gatt_write env addr h d r w)"
    "ok_from N w (bluetooth_gatt_read_descriptor env addr h w)"
    "ok_from N w (bluetooth_gatt_write_descriptor env addr h d w)" "ok_from N w (bluetooth_gatt_notify env addr h b w)"
  unfolding bluetooth_gatt_read_def bluetooth_gatt_write_def bluetooth_gatt_read_descriptor_def
    bluetooth_gatt_write_descriptor_def bluetooth_gatt_notify_def
  by (rule ok_gatt_op [OF assms]; simp add: hub_read_characteristic_def hub_write_characteristic_def
      hub_read_descriptor_def hub_write_descriptor_def hub_notify_characteristic_def slot_rel_request)+

lemma ok_services_request:
  assumes wf: "slots_wf N w"
  shows "ok_from N w (bluetooth_gatt_send_services env addr w)"
proof -
  have 1: "ok_from N w (at_slot i (gatt_send_services env) w)" if "fst (get_connection addr False w) = Some i" for i
    by (rule ok_at [OF _ _ slot_rel_services]) (use wf get_connection_found [OF wf that] in simp_all)
  show ?thesis
    using wf 1 by (auto simp: bluetooth_gatt_send_services_def slots_wf_prx split: option.split)
qed

lemma ok_params_request:
  assumes wf: "slots_wf N w"
  shows "ok_from N w (bluetooth_set_connection_params env addr a b d e w)"
proof -
  have s: "ok_from N w (on_prx (\<lambda>p. snd (send_message env cl m p)) w)" for cl m
    by (rule ok_prx) (use wf in \<open>simp_all add: same_books_send\<close>)
  have 1: "ok_from N w (at_slot i (\<lambda>l. let (err, c, p) = hub_update_connection_params env x y z t l
             in (c, snd (send_message env cl (Connection_params addr err) p))) w)"
    if "fst (get_connection addr False w) = Some i" for i x y z t cl
  proof (rule ok_at)
    show "slot_rel l (let (err, c, p) = hub_update_connection_params env x y z t l
             in (c, snd (send_message env cl (Connection_params addr err) p)))" for l
      using slot_rel_params [of env x y z t l]
      by (auto simp: Let_def split: prod.splits intro: slot_rel_post same_books_send)
  qed (use wf get_connection_found [OF wf that] in simp_all)
  show ?thesis
    using s 1 wf by (auto simp: bluetooth_set_connection_params_def split: option.split)
qed

lemma ok_for:
  assumes "ok_from N w0 w" and "set is \<subseteq> {..<length (conns w0)}"
    and "\<And>i w. slots_wf N w \<Longrightarrow> i < length (conns w) \<Longrightarrow> ok_from N w (f i w)"
  shows "ok_from N w0 (for_slots is f w)"
  using slots_wf_for [of N f w "is"] assms by auto

lemma ok_reset_owed: "slots_wf N w \<Longrightarrow> ok_from N w (reset_owed_replies w)"
proof -
  assume wf: "slots_wf N w"
  let ?w = "on_prx (\<lambda>p. p\<lparr>connections_free_pending := False, scanner_state_pending := False,
                            pending_unpairing := reply_clear,
                            pending_disconnections := replicate (length (pending_disconnections p)) 0\<rparr>) w"
  have 1: "ok_from N w ?w" by (rule ok_prx) (use wf in \<open>simp_all add: same_books_def\<close>)
  then have n: "connection_count (prx ?w) = length (conns w)" by (simp add: slots_wf_def)
  have "ok_from N w (for_slots [0..<connection_count (prx ?w)]
           (\<lambda>i. at_slot i (\<lambda>(c, p). (clear_owed_flags (park_service_stream c), p))) ?w)"
    by (rule ok_for [OF 1]) (use n in \<open>auto intro!: slots_wf_at slot_rel_plain\<close>)
  then show ?thesis by (simp add: reset_owed_replies_def Let_def)
qed

lemma same_books_scanner [simp]: "same_books p (send_scanner_state env st b p)"
proof -
  obtain ok q where s: "send_or_nobody env (Scanner_state_msg st b (configured_scan_active p)) p = (ok, q)" by fastforce
  have "same_books p q" using same_books_senders(1) [of p env "Scanner_state_msg st b (configured_scan_active p)"] s by simp
  then show ?thesis using s
    by (simp add: send_scanner_state_def send_bluetooth_scanner_state_def same_books_def)
qed

lemma same_books_adv [simp]:
  "same_books p (flush_pending_advertisements env cl p)"
  "same_books p (on_raw_advertisement env raw p)"
  "same_books p (flush_advertisements_tick env cl p)"
  by (auto simp: flush_pending_advertisements_def on_raw_advertisement_def flush_advertisements_tick_def
      send_message_def same_books_def Let_def split: option.splits)

lemma same_books_hub [simp]: "same_books p (hub_pushes env b xs p)"
  by (induction env b xs p rule: hub_pushes.induct) (auto intro: same_books_trans [OF same_books_scanner] same_books_trans [OF same_books_adv(2)])

lemma same_books_drain [simp]: "same_books p (drain_disconnections env p)"
proof -
  have "same_books p (fold (\<lambda>i p. let owed = pending_disconnections p ! i
                 in if reply_empty owed then p
                    else send_device_disconnected env (reply_address owed) (reply_error owed) p) is p)" for "is"
    by (induction "is" arbitrary: p) (auto simp: Let_def intro: same_books_trans [OF same_books_disconnected(1)])
  then show ?thesis by (simp add: drain_disconnections_def)
qed

lemma same_books_drain_unpair [simp]: "same_books p (drain_unpairing env p)"
  by (simp add: drain_unpairing_def Let_def)

lemma ok_loop:
  assumes wf: "slots_wf N w"
  shows "ok_from N w (proxy_loop env w)"
proof -
  have s: "set [0..<connection_count (prx w)] \<subseteq> {..<length (conns w)}" using wf by (simp add: slots_wf_def lessThan_atLeast0)
  define w1 where "w1 = for_slots [0..<connection_count (prx w)] (\<lambda>i. at_slot i (process_pending_services env)) w"
  have 1: "ok_from N w w1" unfolding w1_def
    by (rule ok_for [OF _ s]) (use wf in \<open>auto intro!: slots_wf_at slot_rel_process\<close>)
  define w2 where "w2 = on_prx (\<lambda>p. p\<lparr>last_advertisement_flush_time := clock env\<rparr>) w1"
  have 2: "ok_from N w w2" unfolding w2_def by (rule ok_prx [OF 1]) (simp add: same_books_def)
  define w3 where "w3 = (case api_connection (prx w2) of
                      Some cl \<Rightarrow> if connections_free_pending (prx w2) then
                          on_prx (\<lambda>p. send_connections_free_to env cl (p\<lparr>connections_free_pending := False\<rparr>)) w2 else w2
                    | None \<Rightarrow> w2)"
  have "same_books p (send_connections_free_to env cl (p\<lparr>connections_free_pending := False\<rparr>))" for p cl
    by (rule same_books_trans [of _ "p\<lparr>connections_free_pending := False\<rparr>"]) (simp_all add: same_books_def [of p])
  from ok_prx [OF 2 this] 2 have 3: "ok_from N w w3" unfolding w3_def by (simp split: option.split)
  have down: "ok_from N w (for_slots [0..<connection_count (prx w)]
      (\<lambda>i w. if conn_address (conns w ! i) \<noteq> 0 then at_slot i (hub_disconnect env) w else w) w3)"
    by (rule ok_for [OF 3 s]) (auto intro!: slots_wf_at slot_rel_disconnect)
  define w4 where "w4 = for_slots [0..<connection_count (prx w)] (\<lambda>i. at_slot i (flush_owed_replies env)) w3"
  have 4: "ok_from N w w4" unfolding w4_def
    by (rule ok_for [OF 3 s]) (auto intro!: slots_wf_at slot_rel_owed)
  have up: "ok_from N w (on_prx (flush_advertisements_tick env cl) (on_prx (\<lambda>p. if scanner_state_pending p
       then send_scanner_state env (scanner_state (hub v)) (scan_active (hub v)) p else p)
       (on_prx (drain_unpairing env) (on_prx (drain_disconnections env) w4))))" for cl and v :: world
    by (intro ok_prx 4) simp_all
  show ?thesis
    using 1 down up
    by (simp add: proxy_loop_def Let_def w1_def [symmetric] w2_def [symmetric] w3_def [symmetric]
        w4_def [symmetric] split: option.split)
qed

lemma ok_next: "slots_wf N w \<Longrightarrow> ok_from N w (world_next x w)"
proof (cases x)
  case (Subscribe env cl)
  assume wf: "slots_wf N w"
  define w1 where "w1 = (if api_connection (prx w) \<noteq> Some cl then reset_owed_replies w else w)"
  have 1: "ok_from N w w1" using wf ok_reset_owed by (simp add: w1_def)
  have "ok_from N w (on_prx (\<lambda>p. p\<lparr>api_connection := Some cl\<rparr>) w1)"
    by (rule ok_prx [OF 1]) (simp add: same_books_def)
  then have "ok_from N w (on_prx (send_scanner_state env st b) (on_prx (\<lambda>p. p\<lparr>api_connection := Some cl\<rparr>) w1))" for st b
    by (rule ok_prx) simp
  then show ?thesis
    using Subscribe by (simp add: subscribe_api_connection_def w1_def [symmetric] Let_def)
next
  case (Unsubscribe cl)
  assume wf: "slots_wf N w"
  have "ok_from N w (on_prx (\<lambda>p. p\<lparr>api_connection := None\<rparr>) w)"
    by (rule ok_prx) (use wf in \<open>simp_all add: same_books_def\<close>)
  with ok_reset_owed [of N "on_prx (\<lambda>p. p\<lparr>api_connection := None\<rparr>) w"] wf show ?thesis
    using Unsubscribe by (simp add: unsubscribe_api_connection_def)
next
  case (Hub_step env op)
  assume "slots_wf N w"
  then show ?thesis
    using Hub_step
    by (auto simp: slots_wf_def addresses_def books_same [OF same_books_hub] same_books_hub [unfolded same_books_def]
        split: prod.splits)
next
  case (Set_mode env b)
  assume "slots_wf N w"
  then show ?thesis
    using Set_mode
    by (auto simp: bluetooth_scanner_set_mode_def slots_wf_def addresses_def books_same [OF same_books_hub] Let_def
        same_books_hub [unfolded same_books_def] split: prod.splits)
next
  case (Backend_event env i ev)
  assume "slots_wf N w"
  then show ?thesis using Backend_event slots_wf_at [OF _ _ slot_rel_event] by simp
next
  case (Backend_poll env i)
  assume "slots_wf N w"
  then show ?thesis using Backend_poll slots_wf_at [OF _ _ slot_rel_poll] by simp
qed (simp_all add: ok_device_request ok_services_request ok_params_request ok_loop ok_gatt_ops slots_wf_prx)

interpretation proxy: kept world_step "\<lambda>w. slots_wf N w \<and> length (conns w) = n" for N n
  by unfold_locales (metis fst_conv ok_next world_step_def)

end
