(* ===== verification/NimbleEngine.thy ===== *)
theory NimbleEngine
  imports NimbleGattc
begin

text \<open>
  Runs of the engine of \<open>NimbleGattc\<close>: its API calls, event handlers and deadline poll as the
  steps of one machine, the loop that drives it, and what holds over every run: how often an
  attempt's outcome is reported and when, and how attribute operations and their completions pair.
\<close>

section \<open>Steps and runs\<close>

datatype engine_call =
  Connect u64 u8 | RetryConnect u64 u8 | GattDisconnect | DiscoverServices
| ReadCharacteristic u16 | ReadDescriptor u16 | WriteCharacteristic u16 bytes bool
| WriteDescriptor u16 bytes | NotifyCharacteristic u16 bool | PairRequest
| UpdateConnectionParams u16 u16 u16 u16 | ReleaseServices
| Event gatt_event | PollDeadline

fun is_connect :: "engine_call \<Rightarrow> bool" where
  "is_connect (Connect _ _) \<longleftrightarrow> True"
| "is_connect (RetryConnect _ _) \<longleftrightarrow> True"
| "is_connect _ \<longleftrightarrow> False"

fun engine_step :: "host \<Rightarrow> u32 \<Rightarrow> engine_call \<Rightarrow> engine \<Rightarrow> (engine \<times> effect list) option" where
  "engine_step stk now (Connect a t) e = Some (snd (connect stk now a t e))"
| "engine_step stk now (RetryConnect a t) e = Some (snd (retry_connect stk now a t e))"
| "engine_step stk now GattDisconnect e = Some (snd (gatt_disconnect stk now e))"
| "engine_step stk now DiscoverServices e = Some (snd (discover_services stk e))"
| "engine_step stk now (ReadCharacteristic h) e = Some (snd (read_characteristic stk h e))"
| "engine_step stk now (ReadDescriptor h) e = Some (snd (read_descriptor stk h e))"
| "engine_step stk now (WriteCharacteristic h d r) e = Some (snd (write_characteristic stk h d r e))"
| "engine_step stk now (WriteDescriptor h d) e = Some (snd (write_descriptor stk h d e))"
| "engine_step stk now (NotifyCharacteristic h b) e = Some (snd (notify_characteristic h b e))"
| "engine_step stk now PairRequest e = Some (snd (pair stk e))"
| "engine_step stk now (UpdateConnectionParams a b l t) e
     = Some (snd (update_connection_params stk a b l t e))"
| "engine_step stk now ReleaseServices e = Some (release_services e, [])"
| "engine_step stk now (Event ev) e = handle_gatt_event stk now ev e"
| "engine_step stk now PollDeadline e = Some (poll_deadline now e)"

fun engine_run ::
  "host \<Rightarrow> (u32 \<times> engine_call) list \<Rightarrow> engine \<Rightarrow> (engine \<times> effect list) option" where
  "engine_run stk [] e = Some (e, [])"
| "engine_run stk ((now, c) # cs) e =
     (case engine_step stk now c e of
        None \<Rightarrow> None
      | Some (e, out) \<Rightarrow> map_option (apsnd ((@) out)) (engine_run stk cs e))"

text \<open>
  A tick of the owner's loop: what happens while the queue is drained (events, and the calls
  listeners make in reaction), then the poll. \<open>loop_steps\<close> spells a sequence of ticks out.
\<close>

definition loop_steps :: "(u32 \<times> engine_call list) list \<Rightarrow> (u32 \<times> engine_call) list" where
  "loop_steps ticks = concat (map (\<lambda>(now, cs). map (Pair now) (cs @ [PollDeadline])) ticks)"

section \<open>Counting reports\<close>

fun is_conn_report :: "effect \<Rightarrow> bool" where
  "is_conn_report (Listener (ON_CONNECTION_STATE _ _ _)) \<longleftrightarrow> True"
| "is_conn_report _ \<longleftrightarrow> False"

fun is_connected_report :: "effect \<Rightarrow> bool" where
  "is_connected_report (Listener (ON_CONNECTION_STATE c _ _)) \<longleftrightarrow> c"
| "is_connected_report _ \<longleftrightarrow> False"

definition conn_reports :: "effect list \<Rightarrow> nat" where
  "conn_reports out = length (filter is_conn_report out)"

definition connected_reports :: "effect list \<Rightarrow> nat" where
  "connected_reports out = length (filter is_connected_report out)"

fun is_disconnect_event :: "engine_call \<Rightarrow> bool" where
  "is_disconnect_event (Event ev) \<longleftrightarrow> ge_type ev = EV_DISCONNECT"
| "is_disconnect_event _ \<longleftrightarrow> False"

definition disconnect_events :: "(u32 \<times> engine_call) list \<Rightarrow> nat" where
  "disconnect_events cs = length (filter (is_disconnect_event \<circ> snd) cs)"

lemma conn_reports_simps [simp]:
  "conn_reports [] = 0"
  "conn_reports (x # out) = (if is_conn_report x then 1 else 0) + conn_reports out"
  "conn_reports (out @ out') = conn_reports out + conn_reports out'"
  "connected_reports [] = 0"
  "connected_reports (x # out) = (if is_connected_report x then 1 else 0) + connected_reports out"
  "connected_reports (out @ out') = connected_reports out + connected_reports out'"
  by (simp_all add: conn_reports_def connected_reports_def)

text \<open>
  What every handler but the connection ones leaves alone: the listener, the flag, the reports;
  and the events it can fire at the state machine.
\<close>

definition quiet :: "u32 \<Rightarrow> engine \<Rightarrow> engine \<times> effect list \<Rightarrow> bool" where
  "quiet now e r \<longleftrightarrow> listener (fst r) = listener e
     \<and> connect_result_reported (fst r) = connect_result_reported e
     \<and> conn_reports (snd r) = 0 \<and> connected_reports (snd r) = 0
     \<and> (\<exists>es. CONNECT_REQUEST \<notin> set es \<and> set es \<subseteq> {DISCOVER_DONE, DISCOVER_TIMEOUT, DISCONNECT_REQUEST}
          \<and> fsm (fst r) = fsm_events now es (fsm e))"

lemma fsm_events_simps [simp]:
  "fsm_events now [] f = f"
  "fsm_events now (ev # es) f = fsm_events now es (fst (handle_event ev now f))"
  "fsm_events now (es @ es') f = fsm_events now es' (fsm_events now es f)"
  by (simp_all add: fsm_events_def)

lemma quiet_same:
  "fsm e' = fsm e \<Longrightarrow> listener e' = listener e \<Longrightarrow>
   connect_result_reported e' = connect_result_reported e \<Longrightarrow>
   conn_reports out = 0 \<Longrightarrow> connected_reports out = 0 \<Longrightarrow> quiet now e (e', out)"
  unfolding quiet_def by (auto intro: exI [of _ "[]"])

lemma quiet_fire:
  "fsm e' = fst (handle_event ev now (fsm e)) \<Longrightarrow> ev \<in> {DISCOVER_DONE, DISCOVER_TIMEOUT, DISCONNECT_REQUEST} \<Longrightarrow>
   listener e' = listener e \<Longrightarrow> connect_result_reported e' = connect_result_reported e \<Longrightarrow>
   conn_reports out = 0 \<Longrightarrow> connected_reports out = 0 \<Longrightarrow> quiet now e (e', out)"
  unfolding quiet_def by (auto intro!: exI [of _ "[ev]"])

lemma quiet_finish_discovery: "quiet now e (finish_discovery now rc e)"
  by (auto simp: finish_discovery_def fsm_fire_def tell_def Let_def intro!: quiet_fire)

lemma quiet_cong:
  "quiet now e' r \<Longrightarrow> fsm e' = fsm e \<Longrightarrow> listener e' = listener e \<Longrightarrow>
   connect_result_reported e' = connect_result_reported e \<Longrightarrow> quiet now e r"
  by (simp add: quiet_def)

lemma quiet_stack:
  "quiet now e r \<Longrightarrow> quiet now e (case r of (e', out) \<Rightarrow> (e', Stack c # out))"
  by (cases r) (simp add: quiet_def)

lemma quiet_chr_dsc: "quiet now e (start_next_chr_dsc_discovery stk now e)"
proof (induction stk now e rule: start_next_chr_dsc_discovery.induct)
  case (1 stk now e)
  let ?i = "discover_chr_index e" and ?c = "characteristics e ! discover_chr_index e"
  show ?case
  proof (cases "?i < length (characteristics e) \<and> \<not> value_handle ?c < chr_end_handle ?c")
    case True
    then have "quiet now (e\<lparr>discover_chr_index := ?i + 1\<rparr>)
        (start_next_chr_dsc_discovery stk now (e\<lparr>discover_chr_index := ?i + 1\<rparr>))"
      using 1 by blast
    moreover have "start_next_chr_dsc_discovery stk now e
        = start_next_chr_dsc_discovery stk now (e\<lparr>discover_chr_index := ?i + 1\<rparr>)"
      using True by (subst start_next_chr_dsc_discovery.simps) (simp add: Let_def)
    ultimately show ?thesis by (auto elim: quiet_cong)
  next
    case False
    then show ?thesis
      by (subst start_next_chr_dsc_discovery.simps)
        (auto simp: Let_def quiet_finish_discovery intro!: quiet_stack quiet_same
          quiet_cong [OF quiet_finish_discovery])
  qed
qed

lemma quiet_service_chr: "quiet now e (start_next_service_chr_discovery stk now e)"
  unfolding start_next_service_chr_discovery_def
  by (auto simp: Let_def intro!: quiet_stack quiet_same quiet_cong [OF quiet_finish_discovery]
      quiet_cong [OF quiet_chr_dsc])

lemma set_back_end_frame:
  "set_back_end_handle h e = Some e' \<Longrightarrow> fsm e' = fsm e \<and> listener e' = listener e
     \<and> connect_result_reported e' = connect_result_reported e"
  by (auto simp: set_back_end_handle_def split: if_splits)

lemma on_disc_frames:
  "on_disc_chr ev e = Some e' \<Longrightarrow> fsm e' = fsm e \<and> listener e' = listener e
     \<and> connect_result_reported e' = connect_result_reported e"
  "on_disc_chr_done e = Some e' \<Longrightarrow> fsm e' = fsm e \<and> listener e' = listener e
     \<and> connect_result_reported e' = connect_result_reported e"
  "on_disc_dsc ev e = Some e' \<Longrightarrow> fsm e' = fsm e \<and> listener e' = listener e
     \<and> connect_result_reported e' = connect_result_reported e"
  by (auto simp: on_disc_chr_def on_disc_chr_done_def on_disc_dsc_def Let_def
      split: option.splits if_splits dest: set_back_end_frame)

lemma quiet_event:
  assumes "handle_gatt_event stk now ev e = Some r" "ge_type ev \<noteq> EV_CONNECT" "ge_type ev \<noteq> EV_DISCONNECT"
  shows "quiet now e r"
  using assms
  by (auto simp: handle_gatt_event_def on_attr_op_def tell_def Let_def
      intro!: quiet_same quiet_cong [OF quiet_service_chr] quiet_cong [OF quiet_chr_dsc]
      split: gatt_event_type.splits pending_op.splits if_splits dest: on_disc_frames)

lemma quiet_disconnect: "quiet now e (snd (gatt_disconnect stk now e))"
proof (cases "fsm_state (fsm e) = CONNECTING \<or> conn_handle e = BLE_HS_CONN_HANDLE_NONE")
  case True
  then show ?thesis by (auto simp: gatt_disconnect_def intro!: quiet_same)
next
  case False
  then show ?thesis
    by (auto simp: gatt_disconnect_def fsm_fire_def Let_def intro!: quiet_fire [of _ DISCONNECT_REQUEST])
qed

lemma quiet_calls:
  assumes "engine_step stk now c e = Some r" "\<not> is_connect c" "\<And>ev. c \<noteq> Event ev" "c \<noteq> PollDeadline"
  shows "quiet now e r"
  using assms
  by (cases c) (auto simp: quiet_disconnect discover_services_def read_characteristic_def
      read_descriptor_def write_characteristic_def write_descriptor_def notify_characteristic_def
      pair_def update_connection_params_def release_services_def attr_op_def tell_def
      Let_def intro!: quiet_same)

section \<open>Reports of an attempt\<close>

text \<open>One step of the accounting: the only reports are the attempt's outcome and disconnections.\<close>

lemma step_reports:
  assumes "engine_step stk now c e = Some (e', out)" "\<not> is_connect c" "listener e"
  shows "listener e' \<and> (connect_result_reported e \<longrightarrow> connect_result_reported e')
    \<and> conn_reports out = (if is_disconnect_event c then 1 else 0)
        + (if \<not> connect_result_reported e \<and> connect_result_reported e' then 1 else 0)
    \<and> (connect_result_reported e \<longrightarrow> connected_reports out = 0) \<and> connected_reports out \<le> 1"
proof (cases "\<exists>ev. c = Event ev")
  case True
  then obtain ev where c: "c = Event ev" by blast
  show ?thesis
  proof (cases "ge_type ev = EV_CONNECT \<or> ge_type ev = EV_DISCONNECT")
    case True
    then show ?thesis
      using assms c
      by (auto simp: handle_gatt_event_def finish_connect_def finish_disconnect_def fsm_fire_def
          tell_def Let_def split: if_splits)
  next
    case False
    then have "quiet now e (e', out)" using quiet_event assms(1) c by auto
    with False c assms(3) show ?thesis by (simp add: quiet_def)
  qed
next
  case False
  show ?thesis
  proof (cases "c = PollDeadline")
    case True
    then show ?thesis
      using assms
      by (auto simp: poll_deadline_def tell_def Let_def split: if_splits prod.splits)
  next
    case n: False
    then have "quiet now e (e', out)" using quiet_calls assms(1,2) False by auto
    moreover have "\<not> is_disconnect_event c" using False by (cases c) auto
    ultimately show ?thesis using assms(3) by (simp add: quiet_def)
  qed
qed

lemma connected_flag:
  assumes "engine_step stk now c e = Some (e', out)" "connected_reports out \<noteq> 0"
  shows "connect_result_reported e'"
proof (rule ccontr)
  assume n: "\<not> connect_result_reported e'"
  have "\<not> is_connect c" using assms n
    by (cases c) (auto simp: connect_def retry_connect_def Let_def split: if_splits)
  consider ev where "c = Event ev" "ge_type ev = EV_CONNECT \<or> ge_type ev = EV_DISCONNECT"
    | "c = PollDeadline" | "quiet now e (e', out)"
    using quiet_event quiet_calls assms(1) \<open>\<not> is_connect c\<close> by (metis engine_step.simps(13))
  then show False
    using assms n
    by cases (auto simp: quiet_def handle_gatt_event_def finish_connect_def finish_disconnect_def
        poll_deadline_def fsm_fire_def tell_def Let_def split: if_splits prod.splits)
qed

lemma run_reports:
  assumes "engine_run stk cs e = Some (e', out)" "\<forall>(now, c) \<in> set cs. \<not> is_connect c" "listener e"
  shows "listener e' \<and> (connect_result_reported e \<longrightarrow> connect_result_reported e')
    \<and> conn_reports out = disconnect_events cs
        + (if \<not> connect_result_reported e \<and> connect_result_reported e' then 1 else 0)
    \<and> (connect_result_reported e \<longrightarrow> connected_reports out = 0) \<and> connected_reports out \<le> 1"
  using assms
proof (induction cs arbitrary: e out)
  case Nil
  then show ?case by (simp add: disconnect_events_def)
next
  case (Cons q cs)
  obtain now c where q: "q = (now, c)" by (cases q)
  from Cons.prems(1) q obtain e1 out1 out2 where
    st: "engine_step stk now c e = Some (e1, out1)" and
    rn: "engine_run stk cs e1 = Some (e', out2)" and out: "out = out1 @ out2"
    by (auto split: option.splits)
  have s: "\<not> is_connect c" using Cons.prems(2) q by auto
  note h = step_reports [OF st s Cons.prems(3)]
  then have l: "listener e1" by blast
  have r: "\<forall>(now, c) \<in> set cs. \<not> is_connect c" using Cons.prems(2) by auto
  have "conn_reports out1 \<le> 1 \<or> is_disconnect_event c" using h by auto
  moreover have "connected_reports out1 = 1 \<longrightarrow> connect_result_reported e1"
  proof
    assume "connected_reports out1 = 1"
    then show "connect_result_reported e1"
      using st s Cons.prems(3) connected_flag [OF st] by simp
  qed
  ultimately show ?case
    using h Cons.IH [OF rn r l] q out
    by (auto simp: disconnect_events_def)
qed

lemma connect_accepted:
  assumes "connect stk now a t e = (0, e0, out)"
  shows "\<not> connect_result_reported e0" "listener e0 = listener e"
    "fsm e0 = fst (handle_event CONNECT_REQUEST now (fsm e))"
  using assms
  by (auto simp: connect_def fsm_fire_def error_codes Let_def split: if_splits)

text \<open>
  C15. An attempt's outcome is reported once. After an accepted \<open>connect\<close>, whatever events arrive,
  whatever else is called and however often the deadline is polled, until the next connect
  request the listener's \<open>on_connection_state\<close> is called once per disconnection of the link and
  at most once more, exactly when the attempt has been resolved; it never hears of two
  established connections.
\<close>
theorem attempt_reported_once:
  assumes "connect stk t0 a t e = (0, e0, out0)" "listener e"
    and "\<forall>(now, c) \<in> set cs. \<not> is_connect c"
    and "engine_run stk cs e0 = Some (e', out)"
  shows "conn_reports out = disconnect_events cs + (if connect_result_reported e' then 1 else 0)
    \<and> connected_reports out \<le> 1"
  using run_reports [OF assms(4,3)] connect_accepted [OF assms(1)] assms(2) by simp

definition connect_example :: "(u32 \<times> engine_call) list" where
  "connect_example =
     [(150, Event ((gatt_event0 (Some 0) EV_CONNECT 1)\<lparr>ge_status := 0\<rparr>)),
      (180, Event ((gatt_event0 (Some 0) EV_CONNECT 1)\<lparr>ge_status := 13\<rparr>)),
      (200, Event ((gatt_event0 (Some 0) EV_DISCONNECT 1)\<lparr>ge_status := 8\<rparr>))]"

theorem attempt_reported_once_witness:
  "\<exists>e' out. engine_run (\<lambda>_. 0) connect_example
      (fst (snd (connect (\<lambda>_. 0) 100 0xA1 0 (engine_init\<lparr>listener := True\<rparr>)))) = Some (e', out)
    \<and> conn_reports out = 2 \<and> connected_reports out \<le> 1"
proof -
  define e where "e = engine_init\<lparr>listener := True\<rparr>"
  define e0 where "e0 = fst (snd (connect (\<lambda>_. 0) 100 0xA1 0 e))"
  have c: "connect (\<lambda>_. 0) 100 0xA1 0 e = (0, e0, snd (snd (connect (\<lambda>_. 0) 100 0xA1 0 e)))"
    by (simp add: e0_def connect_def e_def engine_init_def fsm_init_def Let_def)
  have r: "connect_result_reported (fst r)" if "engine_run (\<lambda>_. 0) connect_example e0 = Some r" for r
    using that
    by (auto simp: connect_example_def handle_gatt_event_def gatt_event0_def finish_connect_def
        finish_disconnect_def fsm_fire_def Let_def split: if_splits)
  have "engine_run (\<lambda>_. 0) connect_example e0 \<noteq> None"
    by (simp add: connect_example_def handle_gatt_event_def gatt_event0_def case_prod_beta)
  then obtain e' out where x: "engine_run (\<lambda>_. 0) connect_example e0 = Some (e', out)"
    by fastforce
  have "disconnect_events connect_example = 1"
    by (simp add: disconnect_events_def connect_example_def gatt_event0_def)
  with attempt_reported_once [OF c _ _ x] r [OF x] x show ?thesis
    by (auto simp: connect_example_def e_def e0_def)
qed

section \<open>The bounded wait, seen from the listener\<close>

lemma step_fsm_events:
  assumes "engine_step stk now c e = Some (e', out)" "\<not> is_connect c" "c \<noteq> PollDeadline"
  shows "\<exists>es. CONNECT_REQUEST \<notin> set es \<and> fsm e' = fsm_events now es (fsm e)"
proof -
  consider ev where "c = Event ev" "ge_type ev = EV_CONNECT" | ev where "c = Event ev" "ge_type ev = EV_DISCONNECT"
    | "quiet now e (e', out)"
    using quiet_event quiet_calls assms by (metis engine_step.simps(13))
  then show ?thesis
  proof cases
    case (1 ev)
    then show ?thesis
      using assms(1)
      by (auto simp: handle_gatt_event_def finish_connect_def fsm_fire_def Let_def split: if_splits
          intro: exI [of _ "[]"] exI [of _ "[GAP_CONNECT_OK]"] exI [of _ "[GAP_CONNECT_FAIL]"])
  next
    case (2 ev)
    then show ?thesis
      using assms(1)
      by (auto simp: handle_gatt_event_def finish_disconnect_def fsm_fire_def Let_def
          intro: exI [of _ "[GAP_DISCONNECT_EVT]"])
  qed (auto simp: quiet_def)
qed

lemma connecting_stays:
  "fsm_state f = CONNECTING \<Longrightarrow> set es \<subseteq> {DISCOVER_DONE, DISCOVER_TIMEOUT, DISCONNECT_REQUEST}
    \<Longrightarrow> fsm_state (fsm_events now es f) = CONNECTING"
proof (induction es arbitrary: f)
  case (Cons ev es)
  then have "fsm_state (fst (handle_event ev now f)) = CONNECTING"
    by (auto simp: handle_event_def)
  with Cons show ?case by simp
qed simp

text \<open>An attempt is still being waited for, or its outcome has been reported.\<close>

definition awaited :: "engine \<Rightarrow> bool" where
  "awaited e \<longleftrightarrow> fsm_state (fsm e) = CONNECTING \<or> connect_result_reported e"

lemma step_awaited:
  assumes "engine_step stk now c e = Some (e', out)" "\<not> is_connect c" "awaited e"
  shows "awaited e'"
proof -
  consider ev where "c = Event ev" "ge_type ev = EV_CONNECT" | ev where "c = Event ev" "ge_type ev = EV_DISCONNECT"
    | "c = PollDeadline" | "quiet now e (e', out)"
    using quiet_event quiet_calls assms by (metis engine_step.simps(13))
  then show ?thesis
  proof cases
    case 4
    then show ?thesis
      using assms(3) connecting_stays by (auto simp: quiet_def awaited_def)
  next
    case 3
    then show ?thesis
      using assms(1,3)
      by (auto simp: awaited_def poll_deadline_def poll_timeout_def handle_event_def Let_def
          split: if_splits prod.splits)
  qed (use assms(1,3) in \<open>auto simp: awaited_def handle_gatt_event_def finish_connect_def
        finish_disconnect_def fsm_fire_def handle_event_def Let_def split: if_splits\<close>)
qed

lemma run_awaited:
  "engine_run stk cs e = Some (e', out) \<Longrightarrow> \<forall>(now, c) \<in> set cs. \<not> is_connect c \<Longrightarrow> awaited e \<Longrightarrow> awaited e'"
proof (induction cs arbitrary: e out)
  case (Cons q cs)
  then show ?case by (cases q) (auto split: option.splits dest: step_awaited)
qed simp

lemma engine_run_append:
  "engine_run stk (cs @ cs') e = (case engine_run stk cs e of
     None \<Rightarrow> None
   | Some (e1, out1) \<Rightarrow> map_option (apsnd ((@) out1)) (engine_run stk cs' e1))"
proof (induction cs arbitrary: e)
  case Nil
  then show ?case by (cases "engine_run stk cs' e") auto
next
  case (Cons q cs)
  then show ?case
    by (cases q) (auto split: option.splits simp: option.map_comp comp_def intro!: option.map_cong0)
qed

lemma run_fsm_events:
  assumes "engine_run stk (map (Pair now) cs) e = Some (e', out)"
    and "\<forall>c \<in> set cs. \<not> is_connect c \<and> c \<noteq> PollDeadline"
  shows "\<exists>es. CONNECT_REQUEST \<notin> set es \<and> fsm e' = fsm_events now es (fsm e)"
  using assms
proof (induction cs arbitrary: e out)
  case Nil
  then show ?case by (auto intro: exI [of _ "[]"])
next
  case (Cons c cs)
  then obtain e1 out1 out2 where "engine_step stk now c e = Some (e1, out1)"
    "engine_run stk (map (Pair now) cs) e1 = Some (e', out2)"
    by (auto split: option.splits)
  with Cons.prems(2) step_fsm_events [of stk now c e e1 out1] Cons.IH [of e1 out2]
  obtain es es' where "CONNECT_REQUEST \<notin> set es" "fsm e1 = fsm_events now es (fsm e)"
    "CONNECT_REQUEST \<notin> set es'" "fsm e' = fsm_events now es' (fsm e1)"
    by auto
  then show ?case by (intro exI [of _ "es @ es'"]) simp
qed

lemma poll_deadline_fsm: "fsm (fst (poll_deadline now e)) = fst (poll_timeout now (fsm e))"
  by (simp add: poll_deadline_def Let_def split: prod.split)

lemma loop_steps_simps [simp]:
  "loop_steps [] = []"
  "loop_steps ((now, cs) # ticks) = map (Pair now) cs @ (now, PollDeadline) # loop_steps ticks"
  by (simp_all add: loop_steps_def)

lemma loop_fsm_run:
  assumes "engine_run stk (loop_steps ticks) e = Some (e', out)"
    and "\<forall>(now, cs) \<in> set ticks. \<forall>c \<in> set cs. \<not> is_connect c \<and> c \<noteq> PollDeadline"
  shows "\<exists>fticks. map fst fticks = map fst ticks \<and> (\<forall>tk \<in> set fticks. CONNECT_REQUEST \<notin> set (snd tk))
    \<and> fsm e' = fsm_run fticks (fsm e)"
  using assms
proof (induction ticks arbitrary: e out)
  case Nil
  then show ?case by (simp add: fsm_run_def)
next
  case (Cons tk ticks)
  obtain now cs where tk: "tk = (now, cs)" by (cases tk)
  from Cons.prems(1) tk obtain e1 out1 out2 where
    r: "engine_run stk (map (Pair now) cs) e = Some (e1, out1)" and
    q: "engine_run stk (loop_steps ticks) (fst (poll_deadline now e1)) = Some (e', out2)"
    by (auto simp: engine_run_append split: option.splits prod.splits)
  obtain es where es: "CONNECT_REQUEST \<notin> set es" "fsm e1 = fsm_events now es (fsm e)"
    using run_fsm_events [OF r] Cons.prems(2) tk by auto
  obtain fticks where "map fst fticks = map fst ticks" "\<forall>tk \<in> set fticks. CONNECT_REQUEST \<notin> set (snd tk)"
    "fsm e' = fsm_run fticks (fsm (fst (poll_deadline now e1)))"
    using Cons.IH [OF q] Cons.prems(2) by auto
  with es tk show ?case
    by (intro exI [of _ "(now, es) # fticks"])
      (simp add: fsm_run_def fsm_tick_def poll_deadline_fsm)
qed

lemma paced_fst: "map fst xs = map fst ys \<Longrightarrow> paced P t xs = paced P t ys"
proof (induction xs arbitrary: t ys)
  case (Cons x xs)
  then show ?case by (cases x; cases ys) auto
qed simp

lemma last_fst: "map fst xs = map fst ys \<Longrightarrow> xs \<noteq> [] \<Longrightarrow> fst (last xs) = fst (last ys)"
  by (metis last_map map_is_Nil_conv)

lemma loop_no_connect:
  "\<forall>(now, cs) \<in> set ticks. \<forall>c \<in> set cs. \<not> is_connect c \<and> c \<noteq> PollDeadline \<Longrightarrow>
   \<forall>(now, c) \<in> set (loop_steps ticks). \<not> is_connect c"
  by (induction ticks) auto

text \<open>
  The attempts the machine supervises: one by \<open>connect\<close> from \<open>Idle\<close>, and one by \<open>retry_connect\<close> from
  \<open>Backoff\<close>, which passes through \<open>Idle\<close>.
\<close>

definition supervised_attempt ::
  "host \<Rightarrow> u32 \<Rightarrow> u64 \<Rightarrow> u8 \<Rightarrow> engine \<Rightarrow> int \<times> engine \<times> effect list \<Rightarrow> bool" where
  "supervised_attempt stk now a t e r \<longleftrightarrow>
     fsm_state (fsm e) = IDLE \<and> r = connect stk now a t e \<or>
     fsm_state (fsm e) = BACKOFF \<and> r = retry_connect stk now a t e"

lemma supervised_from_idle:
  assumes "supervised_attempt stk now a t e r"
  obtains e1 where "connect stk now a t e1 = r" "fsm_state (fsm e1) = IDLE" "listener e1 = listener e"
proof (cases "fsm_state (fsm e) = IDLE")
  case True
  then show ?thesis using assms that [of e] by (simp add: supervised_attempt_def)
next
  case False
  then show ?thesis
    using assms that [of "fsm_fire BACKOFF_ELAPSED now e"]
    by (simp add: supervised_attempt_def retry_connect_def fsm_fire_def handle_event_def enter_def)
qed

text \<open>
  C12. A listener learns how a supervised connection attempt ended. An attempt the host accepted at
  \<open>t0\<close>, by \<open>connect\<close> from \<open>Idle\<close> or by \<open>retry_connect\<close> from \<open>Backoff\<close>, with a loop that ticks at
  least every \<open>P\<close> ms (its events and the calls made in between arbitrary, short of another connect
  request) and a clock that stays 8 s away from its wrap-around, has been resolved by
  \<open>t0 + 13000 + P\<close>: \<open>on_connection_state\<close> was called exactly once for it, beyond the calls for
  disconnections, and the machine is in neither state that waits for the stack. (A \<open>connect\<close> from
  \<open>Backoff\<close> is accepted too and not supervised: \<open>connect_from_backoff_unsupervised\<close>.)
\<close>
theorem connect_outcome_delivered:
  assumes "supervised_attempt stk t0 a t e (0, e0, out0)" "listener e"
    and "paced P (unat t0) ticks" "unat t0 + 8000 < 2 ^ 32"
    and "\<forall>(now, cs) \<in> set ticks. \<forall>c \<in> set cs. \<not> is_connect c \<and> c \<noteq> PollDeadline"
    and "ticks \<noteq> []" "unat t0 + 13000 + P \<le> unat (fst (last ticks))"
    and "engine_run stk (loop_steps ticks) e0 = Some (e', out)"
  shows "conn_reports out = 1 + disconnect_events (loop_steps ticks) \<and> connected_reports out \<le> 1
    \<and> fsm_state (fsm e') \<noteq> CONNECTING \<and> fsm_state (fsm e') \<noteq> DISCOVERING"
proof -
  obtain e1 where e1: "connect stk t0 a t e1 = (0, e0, out0)" "fsm_state (fsm e1) = IDLE" "listener e1"
    using supervised_from_idle [OF assms(1)] assms(2) by metis
  note acc = connect_accepted [OF e1(1)]
  have h: "handle_event CONNECT_REQUEST t0 (fsm e1) = (fsm e0, True)"
    using acc(3) e1(2) by (simp add: handle_event_def)
  obtain fticks where f: "map fst fticks = map fst ticks"
    "\<forall>tk \<in> set fticks. CONNECT_REQUEST \<notin> set (snd tk)" "fsm e' = fsm_run fticks (fsm e0)"
    using loop_fsm_run [OF assms(8,5)] by blast
  then have "fticks \<noteq> []" using assms(6) by auto
  then have "\<not> has_deadline (fsm e')"
    using attempt_leaves_deadline_states [OF h _ assms(4) f(2)] paced_fst [OF f(1)] assms(3,7)
      last_fst [OF f(1)] f(3) by simp
  moreover have "awaited e0"
    using acc(3) e1(2) by (simp add: awaited_def handle_event_def enter_def)
  then have "awaited e'"
    using run_awaited [OF assms(8) loop_no_connect [OF assms(5)]] by blast
  ultimately have "connect_result_reported e'" "\<not> has_deadline (fsm e')"
    by (auto simp: awaited_def has_deadline_def)
  with run_reports [OF assms(8) loop_no_connect [OF assms(5)]] acc e1(3) show ?thesis
    by (simp add: has_deadline_def)
qed

theorem connect_outcome_delivered_witness:
  "\<exists>e' out. engine_run (\<lambda>_. 0) (loop_steps [(1000, [Event (gatt_event0 (Some 0) EV_CONNECT 1)]),
        (9000, []), (15000, []), (21500, [])])
      (fst (snd (retry_connect (\<lambda>_. 0) 500 0xA1 0 (engine_init\<lparr>listener := True,
        fsm := \<lparr>fsm_state = BACKOFF, deadline_ms = 0, backoff_count = 1\<rparr>\<rparr>)))) = Some (e', out)
    \<and> conn_reports out = 1"
proof -
  let ?t = "[(1000, [Event (gatt_event0 (Some 0) EV_CONNECT 1)]), (9000, []), (15000, []), (21500, [])]"
  define e where "e = engine_init\<lparr>listener := True, fsm := \<lparr>fsm_state = BACKOFF, deadline_ms = 0, backoff_count = 1\<rparr>\<rparr>"
  define e0 where "e0 = fst (snd (retry_connect (\<lambda>_. 0) 500 0xA1 0 e))"
  have "retry_connect (\<lambda>_. 0) 500 0xA1 0 e = (0, e0, snd (snd (retry_connect (\<lambda>_. 0) 500 0xA1 0 e)))"
    by (simp add: e0_def retry_connect_def connect_def e_def engine_init_def fsm_fire_def step_simps Let_def)
  then have c: "supervised_attempt (\<lambda>_. 0) 500 0xA1 0 e (0, e0, snd (snd (retry_connect (\<lambda>_. 0) 500 0xA1 0 e)))"
    by (simp add: supervised_attempt_def e_def)
  have "engine_run (\<lambda>_. 0) (loop_steps ?t) e0 \<noteq> None"
    by (simp add: handle_gatt_event_def gatt_event0_def case_prod_beta)
  then obtain e' out where x: "engine_run (\<lambda>_. 0) (loop_steps ?t) e0 = Some (e', out)"
    by fastforce
  have "disconnect_events (loop_steps ?t) = 0"
    by (simp add: disconnect_events_def gatt_event0_def)
  moreover have "listener e" by (simp add: e_def)
  ultimately show ?thesis
    using connect_outcome_delivered [OF c _ _ _ _ _ _ x, where P = 8000] x
    by (auto simp: e_def e0_def)
qed

section \<open>Attribute operations\<close>

fun starts_attr_op :: "engine_call \<Rightarrow> pending_op" where
  "starts_attr_op (ReadCharacteristic _) = READ_CHR"
| "starts_attr_op (ReadDescriptor _) = READ_DSC"
| "starts_attr_op (WriteCharacteristic _ _ response) = (if response then WRITE_CHR else OP_NONE)"
| "starts_attr_op (WriteDescriptor _ _) = WRITE_DSC"
| "starts_attr_op _ = OP_NONE"

fun ends_attr_op :: "engine_call \<Rightarrow> bool" where
  "ends_attr_op (Event ev) \<longleftrightarrow> ge_type ev \<in> {EV_ATTR_OP, EV_DISCONNECT}"
| "ends_attr_op _ \<longleftrightarrow> False"

fun is_attr_call :: "effect \<Rightarrow> bool" where
  "is_attr_call (Stack (BLE_GATTC_READ _ _)) \<longleftrightarrow> True"
| "is_attr_call (Stack (BLE_GATTC_WRITE _ _ _)) \<longleftrightarrow> True"
| "is_attr_call _ \<longleftrightarrow> False"

lemma tell_no_attr_call: "\<not> list_ex is_attr_call (tell e c)"
  by (simp add: tell_def)

lemma finish_discovery_pending:
  "pending_op (fst (finish_discovery now rc e)) = pending_op e \<and>
   \<not> list_ex is_attr_call (snd (finish_discovery now rc e))"
  by (simp add: finish_discovery_def fsm_fire_def tell_def Let_def)

lemma chr_dsc_pending:
  "pending_op (fst (start_next_chr_dsc_discovery stk now e)) = pending_op e \<and>
   \<not> list_ex is_attr_call (snd (start_next_chr_dsc_discovery stk now e))"
proof (induction stk now e rule: start_next_chr_dsc_discovery.induct)
  case (1 stk now e)
  then show ?case
    by (subst (1 2) start_next_chr_dsc_discovery.simps)
      (auto simp: Let_def finish_discovery_pending case_prod_beta)
qed

lemma service_chr_pending:
  "pending_op (fst (start_next_service_chr_discovery stk now e)) = pending_op e \<and>
   \<not> list_ex is_attr_call (snd (start_next_service_chr_discovery stk now e))"
  by (simp add: start_next_service_chr_discovery_def Let_def finish_discovery_pending
      chr_dsc_pending case_prod_beta)

lemma set_back_end_pending: "set_back_end_handle h e = Some e' \<Longrightarrow> pending_op e' = pending_op e"
  by (auto simp: set_back_end_handle_def split: if_splits)

lemma on_disc_pending:
  "on_disc_chr ev e = Some e' \<Longrightarrow> pending_op e' = pending_op e"
  "on_disc_chr_done e = Some e' \<Longrightarrow> pending_op e' = pending_op e"
  "on_disc_dsc ev e = Some e' \<Longrightarrow> pending_op e' = pending_op e"
  by (auto simp: on_disc_chr_def on_disc_chr_done_def on_disc_dsc_def Let_def
      split: option.splits if_splits dest: set_back_end_pending)

lemma event_pending:
  assumes "handle_gatt_event stk now ev e = Some (e', out)" "ge_type ev \<notin> {EV_ATTR_OP, EV_DISCONNECT}"
  shows "pending_op e' = pending_op e \<and> \<not> list_ex is_attr_call out"
proof -
  have s: "pending_op e' = pending_op e0 \<and> \<not> list_ex is_attr_call out"
    if "start_next_service_chr_discovery stk now e0 = (e', out)" for e0
    using service_chr_pending [of stk now e0] that by simp
  have c: "pending_op e' = pending_op e0 \<and> \<not> list_ex is_attr_call out"
    if "start_next_chr_dsc_discovery stk now e0 = (e', out)" for e0
    using chr_dsc_pending [of stk now e0] that by simp
  show ?thesis using assms
    by (auto simp: handle_gatt_event_def finish_connect_def fsm_fire_def tell_def Let_def
        split: gatt_event_type.splits if_splits dest!: s c on_disc_pending)
qed

text \<open>
  A poll before the deadline, or without one. From an engine that is not \<open>Connecting\<close>, with no connect
  request, the machine can keep the deadline it has or lose it, not get another: \<open>calm D e\<close>.
\<close>

definition early :: "ble_fsm \<Rightarrow> u32 \<Rightarrow> bool" where
  "early f now \<longleftrightarrow> \<not> has_deadline f \<or> now < deadline_ms f"

definition calm :: "ble_fsm \<Rightarrow> engine \<Rightarrow> bool" where
  "calm f e \<longleftrightarrow> fsm_state (fsm e) \<noteq> CONNECTING \<and>
     (has_deadline (fsm e) \<longrightarrow> has_deadline f \<and> deadline_ms (fsm e) = deadline_ms f)"

lemma calm_poll: "calm f e \<Longrightarrow> early f now \<Longrightarrow> poll_deadline now e = (e, [])"
  by (auto simp: calm_def early_def poll_deadline_def poll_timeout_def)

lemma calm_events: "calm f e \<Longrightarrow> CONNECT_REQUEST \<notin> set es \<Longrightarrow> calm f (e\<lparr>fsm := fsm_events now es (fsm e)\<rparr>)"
proof (induction es arbitrary: e)
  case (Cons ev es)
  have "calm f (e\<lparr>fsm := fst (handle_event ev now (fsm e))\<rparr>)"
    using Cons.prems
    by (auto simp: calm_def has_deadline_def handle_event_def enter_def split: ble_conn_state.splits ble_conn_event.splits)
  from Cons.IH [OF this] Cons.prems(2) show ?case by simp
qed simp

lemma step_pending:
  assumes "engine_step stk now c e = Some (e', out)" "pending_op e \<noteq> OP_NONE" "\<not> ends_attr_op c"
    and "\<not> is_connect c" "calm f e" "c = PollDeadline \<longrightarrow> early f now"
  shows "pending_op e' = pending_op e \<and> \<not> list_ex is_attr_call out \<and> calm f e'"
proof (cases "c = PollDeadline")
  case True
  then show ?thesis using assms calm_poll by simp
next
  case False
  obtain es where "CONNECT_REQUEST \<notin> set es" "fsm e' = fsm_events now es (fsm e)"
    using step_fsm_events [OF assms(1,4) False] by blast
  then have "calm f e'" using calm_events [OF assms(5), of es now] by (simp add: calm_def)
  moreover have "pending_op e' = pending_op e \<and> \<not> list_ex is_attr_call out"
  proof (cases "\<exists>ev. c = Event ev")
    case True
    then show ?thesis using event_pending assms by auto
  next
    case False
    then show ?thesis
      using assms \<open>c \<noteq> PollDeadline\<close>
      by (cases c) (auto simp: gatt_disconnect_def discover_services_def
          read_characteristic_def read_descriptor_def write_characteristic_def write_descriptor_def
          notify_characteristic_def pair_def update_connection_params_def release_services_def
          attr_op_def tell_def fsm_fire_def Let_def split: if_splits)
  qed
  ultimately show ?thesis by blast
qed

lemma run_pending:
  assumes "engine_run stk cs e = Some (e', out)" "pending_op e \<noteq> OP_NONE" "calm f e"
    and "\<forall>(now, c) \<in> set cs. \<not> ends_attr_op c \<and> \<not> is_connect c \<and> (c = PollDeadline \<longrightarrow> early f now)"
  shows "pending_op e' = pending_op e \<and> \<not> list_ex is_attr_call out"
  using assms
proof (induction cs arbitrary: e out)
  case (Cons q cs)
  obtain now c where q: "q = (now, c)" by (cases q)
  from Cons.prems(1) q obtain e1 out1 out2 where
    st: "engine_step stk now c e = Some (e1, out1)" and
    rn: "engine_run stk cs e1 = Some (e', out2)" and out: "out = out1 @ out2"
    by (auto split: option.splits)
  have "pending_op e1 = pending_op e \<and> \<not> list_ex is_attr_call out1 \<and> calm f e1"
    using step_pending [OF st Cons.prems(2)] Cons.prems(3,4) q by auto
  with Cons.IH [OF rn] Cons.prems(2,4) out show ?case by auto
qed simp

definition completion :: "pending_op \<Rightarrow> gatt_event \<Rightarrow> listener_call" where
  "completion op ev = (if op = READ_CHR \<or> op = READ_DSC
     then ON_READ_RESULT (ge_handle ev) (ge_data ev) (ge_status ev)
     else ON_WRITE_RESULT (ge_handle ev) (ge_status ev))"



section \<open>Attempts nobody supervises\<close>

text \<open>
  An attempt made from \<open>Backoff\<close> with \<open>connect\<close> is accepted and started, but the machine stays
  where it is: the attempt has no deadline (the poll never fires, whatever the time), a second
  \<open>connect\<close> starts another one, and \<open>gatt_disconnect\<close> cannot cancel it, answering that there is
  no connection. Only \<open>retry_connect\<close> leaves \<open>Backoff\<close>.
\<close>
theorem connect_from_backoff_unsupervised:
  assumes "fsm_state (fsm e) = BACKOFF" "conn_handle e = BLE_HS_CONN_HANDLE_NONE" "\<And>c. stk c = 0"
  shows "\<exists>e0 out. connect stk now a t e = (0, e0, out) \<and> fsm_state (fsm e0) = BACKOFF
    \<and> (\<forall>now'. poll_deadline now' e0 = (e0, []))
    \<and> (\<exists>out'. connect stk now' a t e0 = (0, e0, out'))
    \<and> gatt_disconnect stk now' e0 = (GATT_ERR_NOT_CONNECTED, e0, [])
    \<and> fsm_state (fsm (fst (snd (retry_connect stk now a t e)))) = CONNECTING"
  using assms
  by (simp add: connect_def retry_connect_def fsm_fire_def handle_event_def poll_deadline_def
      poll_timeout_def has_deadline_def gatt_disconnect_def enter_def Let_def)

theorem connect_from_backoff_unsupervised_witness:
  "\<exists>e0 out. connect (\<lambda>_. 0) 100 0xA1 0
      (engine_init\<lparr>fsm := \<lparr>fsm_state = BACKOFF, deadline_ms = 0, backoff_count = 1\<rparr>\<rparr>) = (0, e0, out)
    \<and> gatt_disconnect (\<lambda>_. 0) 200 e0 = (GATT_ERR_NOT_CONNECTED, e0, [])"
  using connect_from_backoff_unsupervised
    [of "engine_init\<lparr>fsm := \<lparr>fsm_state = BACKOFF, deadline_ms = 0, backoff_count = 1\<rparr>\<rparr>" "\<lambda>_. 0"]
  by (fastforce simp: engine_init_def)

text \<open>
  A link that comes up after the attempt's own deadline is kept: the engine records its
  handle, tells the listener nothing and tears nothing down, and from then on every \<open>connect\<close>
  and every \<open>retry_connect\<close> is refused with \<open>BLE_HS_EALREADY\<close>.
\<close>
theorem late_connection_leaks:
  assumes "fsm_state (fsm e) = CONNECTING" "\<not> connect_result_reported e"
    and "conn_handle e = BLE_HS_CONN_HANDLE_NONE"
    and "deadline_ms (fsm e) \<noteq> 0" "deadline_ms (fsm e) \<le> now"
    and "ge_type ev = EV_CONNECT" "ge_status ev = 0" "ge_conn_handle ev \<noteq> BLE_HS_CONN_HANDLE_NONE"
  shows "\<exists>e1. engine_run stk [(now, PollDeadline), (now', Event ev)] e
        = Some (e1, Stack BLE_GAP_CONN_CANCEL # tell e (ON_CONNECTION_STATE False 0 BLE_HS_ETIMEOUT))
    \<and> conn_handle e1 = ge_conn_handle ev \<and> fsm_state (fsm e1) = BACKOFF
    \<and> connect stk t a ty e1 = (BLE_HS_EALREADY, e1, [])
    \<and> fst (retry_connect stk t a ty e1) = BLE_HS_EALREADY"
  using assms
  by (auto simp: poll_deadline_def poll_timeout_def has_deadline_def handle_event_def enter_def
      handle_gatt_event_def finish_connect_def connect_def retry_connect_def fsm_fire_def tell_def Let_def
      not_less)

theorem late_connection_leaks_witness:
  "\<exists>e1. engine_run (\<lambda>_. 0) [(5100, PollDeadline), (5200, Event (gatt_event0 (Some 0) EV_CONNECT 1))]
      (engine_init\<lparr>listener := True, fsm := \<lparr>fsm_state = CONNECTING, deadline_ms = 5000, backoff_count = 0\<rparr>\<rparr>)
      = Some (e1, [Stack BLE_GAP_CONN_CANCEL, Listener (ON_CONNECTION_STATE False 0 BLE_HS_ETIMEOUT)])
    \<and> fst (connect (\<lambda>_. 0) 9000 0xA1 0 e1) = BLE_HS_EALREADY"
proof -
  let ?e = "engine_init\<lparr>listener := True, fsm := \<lparr>fsm_state = CONNECTING, deadline_ms = 5000, backoff_count = 0\<rparr>\<rparr>"
  show ?thesis
    using late_connection_leaks [where e = ?e and now = 5100 and ev = "gatt_event0 (Some 0) EV_CONNECT 1"
        and stk = "\<lambda>_. 0" and now' = 5200 and t = 9000 and a = "0xA1" and ty = 0]
    by (auto simp: engine_init_def gatt_event0_def BLE_HS_CONN_HANDLE_NONE_def tell_def)
qed

end
