(* ===== verification/SlotWatch.thy ===== *)
theory SlotWatch
  imports ProxySlots NimbleEngine
begin

text \<open>
  One slot of the proxy with its engine, watched from a connect request on while the rest of the
  proxy runs: whatever the other slots, the API and the host do, the client has been told how the
  request ended, or the slot is still in a phase that the engine's deadline ends
  (\<open>watched_next\<close>). The properties are in \<open>ProxyLiveness\<close>.
\<close>

section \<open>What every operation does to the messages\<close>

text \<open>The advertisements offered so far, taken or refused, and those that wait for a batch.\<close>

fun advs_in :: "client \<times> api_message \<times> bool \<Rightarrow> advertisement_msg list" where
  "advs_in (cl, Raw_advertisements b, ok) = b"
| "advs_in _ = []"

definition adv_log :: "proxy \<Rightarrow> advertisement_msg list" where
  "adv_log p = concat (map advs_in (offered p)) @ advertisements p"

text \<open>What was offered about the scanner, and whether a refused message about it is owed.\<close>

fun scans_in :: "client \<times> api_message \<times> bool \<Rightarrow> (client \<times> scanner_state \<times> bool) list" where
  "scans_in (cl, Scanner_state_msg st act conf, ok) = [(cl, st, ok)]"
| "scans_in _ = []"

definition scan_log :: "proxy \<Rightarrow> (client \<times> scanner_state \<times> bool) list" where
  "scan_log p = concat (map scans_in (offered p))"

fun plain_message :: "api_message \<Rightarrow> bool" where
  "plain_message (Raw_advertisements b) \<longleftrightarrow> False"
| "plain_message (Scanner_state_msg st act conf) \<longleftrightarrow> False"
| "plain_message m \<longleftrightarrow> True"

text \<open>
  The subscriber stays, and messages are only added to those already offered (\<open>offers_more\<close>); but for a
  report of the radio, no advertisement is added to the log (\<open>adds\<close>); but for the reports of the scanner, what is
  said about it stays too (\<open>grows\<close>).
\<close>

definition offers_more :: "proxy \<Rightarrow> proxy \<Rightarrow> bool" where
  "offers_more p p' \<longleftrightarrow> api_connection p' = api_connection p \<and> (\<exists>new. offered p' = offered p @ new)"

definition adds :: "proxy \<Rightarrow> proxy \<Rightarrow> bool" where
  "adds p p' \<longleftrightarrow> offers_more p p' \<and> adv_log p' = adv_log p"

definition grows :: "proxy \<Rightarrow> proxy \<Rightarrow> bool" where
  "grows p p' \<longleftrightarrow> adds p p' \<and> scan_log p' = scan_log p \<and> scanner_state_pending p' = scanner_state_pending p"

named_theorems grow_intros \<open>operations that only add messages\<close>

lemmas grow_defs = grows_def adds_def offers_more_def adv_log_def scan_log_def

lemma adds_offers_more: "adds p p' \<Longrightarrow> offers_more p p'" by (simp add: adds_def)

lemma grows_adds: "grows p p' \<Longrightarrow> adds p p'" by (simp add: grows_def)

lemmas grows_offers_more = adds_offers_more [OF grows_adds]

lemma offers_more_trans: "offers_more p q \<Longrightarrow> offers_more q r \<Longrightarrow> offers_more p r"
  by (auto simp: offers_more_def)

lemma grows_refl [simp]: "grows p p" by (simp add: grow_defs)

lemma grows_trans: "grows p q \<Longrightarrow> grows q r \<Longrightarrow> grows p r"
  by (auto simp: grows_def adds_def intro: offers_more_trans)

lemma adds_trans: "adds p q \<Longrightarrow> adds q r \<Longrightarrow> adds p r"
  by (auto simp: adds_def intro: offers_more_trans)

lemma grows_same:
  "api_connection p' = api_connection p \<Longrightarrow> offered p' = offered p \<Longrightarrow> advertisements p' = advertisements p \<Longrightarrow>
   scanner_state_pending p' = scanner_state_pending p \<Longrightarrow> grows p p'"
  by (simp add: grow_defs)

lemma grows_send: "send_message env c m p = (ok, p') \<Longrightarrow> plain_message m \<Longrightarrow> grows p p'"
  by (cases m) (auto simp: send_message_def grow_defs Let_def)

lemma grows_senders:
  "send_or_nobody env m p = (ok, p') \<Longrightarrow> plain_message m \<Longrightarrow> grows p p'"
  "send_device_connection env a b q e p = (ok, p') \<Longrightarrow> grows p p'"
  "send_gatt_services_done env a p = (ok, p') \<Longrightarrow> grows p p'"
  "send_gatt_error env a h e p = (ok, p') \<Longrightarrow> grows p p'"
  "try_send_ack env a k h e p = (ok, p') \<Longrightarrow> grows p p'"
proof -
  have n: "grows p p'" if "send_or_nobody env m p = (ok, p')" "plain_message m" for m p p' ok
    using that by (cases m) (auto simp: send_or_nobody_def dest: grows_send split: option.splits)
  show "send_or_nobody env m p = (ok, p') \<Longrightarrow> plain_message m \<Longrightarrow> grows p p'" by (rule n)
  show "send_device_connection env a b q e p = (ok, p') \<Longrightarrow> grows p p'"
    "send_gatt_services_done env a p = (ok, p') \<Longrightarrow> grows p p'"
    "send_gatt_error env a h e p = (ok, p') \<Longrightarrow> grows p p'"
    by (auto simp: send_device_connection_def send_gatt_services_done_def send_gatt_error_def dest: n)
  show "try_send_ack env a k h e p = (ok, p') \<Longrightarrow> grows p p'"
    by (auto simp: try_send_ack_def send_gatt_error_def dest: n grows_send split: option.splits pending_ack.splits)
qed

lemma grows_snd [simp, grow_intros]:
  "plain_message m \<Longrightarrow> grows p (snd (send_message env c m p))"
  "grows p (snd (send_gatt_error env a h e p))"
  using grows_send grows_senders(4) by (metis surjective_pairing)+

lemma grows_connections_free [simp, grow_intros]:
  "grows p (send_connections_free_to env cl p)"
  "grows p (send_connections_free env p)"
  by (auto simp: send_connections_free_def send_connections_free_to_def send_message_def grow_defs Let_def
      split: option.splits)

lemma grows_replies [simp, grow_intros]:
  "grows p (send_device_pairing env a b e p)"
  "grows p (send_device_clear_cache env a b e p)"
  "grows p (send_device_unpairing env a b e p)"
  "grows p (clear_pending_disconnection a p)"
  "grows p (latch_pending_disconnection a e p)"
  "grows p (update_address_slot a a' p)"
  by (auto simp: send_device_pairing_def send_device_clear_cache_def send_device_unpairing_def send_message_def
      clear_pending_disconnection_def latch_pending_disconnection_def set_entry_def grow_defs Let_def
      update_address_slot_def replace_allocated_slot_def split: option.splits prod.splits)

lemma grows_told [simp, grow_intros]:
  "grows p (answer_device_disconnected env a p)"
  "grows p (send_device_disconnected env a e p)"
  "grows p (handle_gatt_not_connected env a h p)"
  by (auto simp: answer_device_disconnected_def send_device_disconnected_def handle_gatt_not_connected_def
      split: prod.splits dest!: grows_senders(2) intro: grows_trans)

lemma adds_scanner [simp]: "adds p (send_scanner_state env st b p)"
  by (auto simp: send_scanner_state_def send_bluetooth_scanner_state_def send_or_nobody_def send_message_def adds_def
      offers_more_def adv_log_def Let_def split: option.split)

lemma grows_adv [simp, grow_intros]:
  "grows p (flush_pending_advertisements env cl p)"
  "grows p (flush_advertisements_tick env cl p)"
  by (auto simp: flush_pending_advertisements_def flush_advertisements_tick_def
      send_message_def grow_defs Let_def split: option.splits)

lemma offers_more_raw: "offers_more p (on_raw_advertisement env raw p)"
  by (auto simp: on_raw_advertisement_def flush_pending_advertisements_def send_message_def offers_more_def Let_def
      split: option.splits)

lemma offers_more_pushes: "offers_more p (hub_pushes env b xs p)"
proof (induction env b xs p rule: hub_pushes.induct)
  case (2 env b st xs p)
  then show ?case using offers_more_trans [OF adds_offers_more [OF adds_scanner]] by simp
next
  case (3 env b f xs p)
  then show ?case using offers_more_trans [OF offers_more_raw] by simp
qed (simp_all add: offers_more_def)

text \<open>Under a subscriber, what the hub pushes adds exactly its frames to the log, in order.\<close>

definition advert_msg :: "raw_advertisement \<Rightarrow> advertisement_msg" where
  "advert_msg raw = \<lparr>am_address = ra_address raw, am_rssi = ra_rssi raw, am_address_type = ra_addr_type raw,
     am_data = take 62 (ra_data raw)\<rparr>"

lemma adv_log_raw:
  assumes "server_connected env" and "api_connection p = Some cl"
  shows "adv_log (on_raw_advertisement env raw p) = adv_log p @ [advert_msg raw]"
  using assms
  by (auto simp: on_raw_advertisement_def flush_pending_advertisements_def send_message_def adv_log_def advert_msg_def
      ADV_DATA_SIZE_def take_all_iff Let_def)

lemma adv_log_pushes:
  assumes "server_connected env" and "api_connection p = Some cl"
  shows "adv_log (hub_pushes env b xs p) = adv_log p @ map (\<lambda>f. advert_msg (raw_of f)) (frames_of xs)"
  using assms
proof (induction env b xs p rule: hub_pushes.induct)
  case (2 env b st xs p)
  have "adds p (send_scanner_state env st b p)" by simp
  then show ?case using 2 by (simp add: adds_def offers_more_def)
next
  case (3 env b f xs p)
  have "api_connection (on_raw_advertisement env (raw_of f) p) = Some cl"
    using offers_more_raw [of p env "raw_of f"] "3.prems" by (simp add: offers_more_def)
  then show ?case using 3 adv_log_raw by simp
qed simp_all

lemma grows_drain [simp, grow_intros]: "grows p (drain_disconnections env p)"
proof -
  have "grows p (fold (\<lambda>i p. let owed = pending_disconnections p ! i
                 in if reply_empty owed then p
                    else send_device_disconnected env (reply_address owed) (reply_error owed) p) is p)" for "is"
    by (induction "is" arbitrary: p) (auto simp: Let_def intro: grows_trans [OF grows_told(2)])
  then show ?thesis by (simp add: drain_disconnections_def)
qed

lemma grows_drain_unpair [simp, grow_intros]: "grows p (drain_unpairing env p)"
  by (simp add: drain_unpairing_def Let_def)

section \<open>The watched slot\<close>

text \<open>
  \<open>w_from\<close>, \<open>w_calls\<close>: how many messages had been offered, and how many calls made to the host, when
  the watch began; \<open>w_time\<close>, \<open>w_pace\<close>: when the request was made, and how often the loop runs.
  \<open>w_up\<close>: whether being told "connected" counts (the answer to a request), or only "disconnected" (the
  end of a connection).
\<close>

record watch =
  w_address :: u64
  w_client :: client
  w_from :: nat
  w_calls :: nat
  w_up :: bool
  w_pace :: nat
  w_time :: nat

definition told :: "watch \<Rightarrow> proxy \<Rightarrow> bool" where
  "told W p \<longleftrightarrow> (\<exists>up m e ok. (w_client W, Device_connection (w_address W) up m e, ok)
     \<in> set (drop (w_from W) (offered p)) \<and> (w_up W \<or> \<not> up))"

definition torn_down :: "watch \<Rightarrow> conn \<Rightarrow> bool" where
  "torn_down W c \<longleftrightarrow> (\<exists>h. BLE_GAP_TERMINATE h HCI_ERR_REM_USER_CONN_TERM \<in> set (drop (w_calls W) (host_calls c)))"

text \<open>
  The slot belongs to the request, and its engine, polled at \<open>t\<close>, is on time. The phases: the attempt;
  the link is up and the engine waits for a discovery; a teardown was handed to the host.
\<close>

definition bare :: "watch \<Rightarrow> nat \<Rightarrow> link \<Rightarrow> bool" where
  "bare W t l \<longleftrightarrow> w_address W \<noteq> 0 \<and> conn_address (fst l) = w_address W \<and>
     api_connection (snd l) = Some (w_client W) \<and> w_from W \<le> length (offered (snd l)) \<and>
     w_calls W \<le> length (host_calls (fst l)) \<and> listener (backend (fst l)) \<and>
     settled (w_pace W) (w_time W) t (fsm (backend (fst l)))"

definition phase :: "watch \<Rightarrow> conn \<Rightarrow> bool" where
  "phase W c \<longleftrightarrow>
     (client_state c \<in> {CS_CONNECTING, CS_DISCONNECTING} \<and> fsm_state (fsm (backend c)) = CONNECTING \<and>
        \<not> connect_result_reported (backend c)) \<or>
     (client_state c \<in> {CS_CONNECTED, CS_ESTABLISHED} \<and> fsm_state (fsm (backend c)) = DISCOVERING \<and>
        connect_result_reported (backend c)) \<or>
     (client_state c = CS_DISCONNECTING \<and> connect_result_reported (backend c) \<and> torn_down W c)"

definition alive :: "watch \<Rightarrow> nat \<Rightarrow> link \<Rightarrow> bool" where
  "alive W t l \<longleftrightarrow> bare W t l \<and> phase W (fst l)"

definition attends :: "watch \<Rightarrow> nat \<Rightarrow> link \<Rightarrow> link \<Rightarrow> bool" where
  "attends W t l l' \<longleftrightarrow> grows (snd l) (snd l') \<and> (alive W t l \<longrightarrow> told W (snd l') \<or> alive W t l')"

lemma told_offers_more: "told W p \<Longrightarrow> offers_more p p' \<Longrightarrow> told W p'"
  unfolding told_def offers_more_def by (metis Un_iff drop_append set_append)

lemma told_grows: "told W p \<Longrightarrow> grows p p' \<Longrightarrow> told W p'"
  by (rule told_offers_more [OF _ grows_offers_more])

lemma told_send:
  "send_message env (w_client W) (Device_connection (w_address W) up m e) p = (ok, p') \<Longrightarrow>
   w_from W \<le> length (offered p) \<Longrightarrow> w_up W \<or> \<not> up \<Longrightarrow> told W p'"
  by (fastforce simp: told_def send_message_def Let_def)

lemma attends_refl [simp]: "attends W t l l" by (simp add: attends_def)

lemma attends_trans: "attends W t l l1 \<Longrightarrow> attends W t l1 l2 \<Longrightarrow> attends W t l l2"
  by (auto simp: attends_def intro: grows_trans told_grows)

text \<open>What leaves the state of the connection and its engine's state machine alone.\<close>

definition same_core :: "conn \<Rightarrow> conn \<Rightarrow> bool" where
  "same_core c c' \<longleftrightarrow> conn_address c' = conn_address c \<and> client_state c' = client_state c \<and>
     fsm (backend c') = fsm (backend c) \<and> listener (backend c') = listener (backend c) \<and>
     connect_result_reported (backend c') = connect_result_reported (backend c) \<and>
     (\<exists>cs. host_calls c' = host_calls c @ cs)"

lemma same_core_refl [simp]: "same_core c c" by (simp add: same_core_def)

lemma same_core_trans: "same_core c c1 \<Longrightarrow> same_core c1 c2 \<Longrightarrow> same_core c c2"
  by (auto simp: same_core_def)

lemma torn_down_more: "torn_down W c \<Longrightarrow> host_calls c' = host_calls c @ cs \<Longrightarrow> torn_down W c'"
  by (auto simp: torn_down_def)

lemma alive_offers_more: "same_core c c' \<Longrightarrow> offers_more p p' \<Longrightarrow> alive W t (c, p) \<Longrightarrow> alive W t (c', p')"
  by (auto simp: alive_def bare_def phase_def same_core_def offers_more_def intro: torn_down_more)

lemma alive_same: "same_core c c' \<Longrightarrow> grows p p' \<Longrightarrow> alive W t (c, p) \<Longrightarrow> alive W t (c', p')"
  by (rule alive_offers_more [OF _ grows_offers_more])

lemma attends_plain: "same_core c c' \<Longrightarrow> grows p p' \<Longrightarrow> attends W t (c, p) (c', p')"
  by (auto simp: attends_def alive_same)

lemma attends_pre: "attends W t (c1, p1) l' \<Longrightarrow> same_core c c1 \<Longrightarrow> grows p p1 \<Longrightarrow> attends W t (c, p) l'"
  by (rule attends_trans [OF attends_plain])

lemma attends_post: "attends W t l (c1, p1) \<Longrightarrow> same_core c1 c' \<Longrightarrow> grows p1 p' \<Longrightarrow> attends W t l (c', p')"
  by (rule attends_trans [OF _ attends_plain])

lemma same_core_simps [simp]:
  "same_core c (latch_pending_error e c)"
  "same_core c (latch_pending_ack k h e c)"
  "same_core c (clear_pending_ack c)"
  "same_core c (supersede_pending_ack h k c)"
  "same_core c (clear_owed_flags c)"
  "same_core c (note_batch_stalled c)"
  "same_core c (age_pending_ack c)"
  "same_core c (age_services_done c)"
  "same_core c (hub_release_services c)"
  "same_core c (park_service_stream c)"
  "same_core c (c\<lparr>send_service := s\<rparr>)"
  "same_core c (c\<lparr>paired := b\<rparr>)"
  "same_core c (c\<lparr>connected_reply_owed := b\<rparr>)"
  "same_core c (c\<lparr>batch_stalled := b\<rparr>)"
  by (auto simp: same_core_def latch_pending_error_def latch_pending_ack_def clear_pending_ack_def
      supersede_pending_ack_def clear_owed_flags_def note_batch_stalled_def age_pending_ack_def
      age_services_done_def hub_release_services_def release_services_def park_service_stream_def Let_def)

section \<open>Calls of the backend\<close>

definition same_engine :: "engine \<Rightarrow> engine \<Rightarrow> bool" where
  "same_engine e e' \<longleftrightarrow> fsm e' = fsm e \<and> listener e' = listener e \<and>
     connect_result_reported e' = connect_result_reported e"

lemma same_engine_ops [simp]:
  "same_engine e (fst (snd (read_characteristic host h e)))"
  "same_engine e (fst (snd (read_descriptor host h e)))"
  "same_engine e (fst (snd (write_characteristic host h d r e)))"
  "same_engine e (fst (snd (write_descriptor host h d e)))"
  "same_engine e (fst (snd (notify_characteristic h b e)))"
  "same_engine e (fst (snd (pair host e)))"
  "same_engine e (fst (snd (update_connection_params host i j k t e)))"
  "same_engine e (fst (snd (discover_services host e)))"
  by (auto simp: same_engine_def read_characteristic_def read_descriptor_def write_characteristic_def
      write_descriptor_def notify_characteristic_def pair_def update_connection_params_def
      discover_services_def attr_op_def Let_def)

lemma call_backend_core:
  assumes "call_backend f c = (rc, c', calls)" "\<And>e. same_engine e (fst (snd (f e)))"
  shows "same_core c c'"
proof -
  obtain rc' e out where f: "f (backend c) = (rc', e, out)" by (metis prod_cases3)
  have "same_engine (backend c) e" using assms(2) [of "backend c"] f by simp
  then show ?thesis using assms(1) f by (auto simp: call_backend_def same_core_def same_engine_def)
qed

lemma hub_pair_core: "hub_pair env c = (rc, c') \<Longrightarrow> same_core c c'"
  by (auto simp: hub_pair_def split: prod.splits intro!: call_backend_core)

text \<open>What the backend's disconnect does: cancel, nothing, or a teardown of the link.\<close>

lemma call_disconnect:
  assumes "call_backend (gatt_disconnect (stk env) now) c = (rc, c', calls)"
  shows "conn_address c' = conn_address c \<and> client_state c' = client_state c \<and>
     listener (backend c') = listener (backend c) \<and>
     connect_result_reported (backend c') = connect_result_reported (backend c) \<and>
     (\<exists>cs. host_calls c' = host_calls c @ cs \<and>
        (fsm (backend c') = fsm (backend c) \<and> (rc = 0 \<longrightarrow> fsm_state (fsm (backend c)) = CONNECTING) \<or>
         fsm (backend c') = fst (handle_event DISCONNECT_REQUEST now (fsm (backend c))) \<and>
         fsm_state (fsm (backend c)) \<noteq> CONNECTING \<and>
         (\<exists>h. BLE_GAP_TERMINATE h HCI_ERR_REM_USER_CONN_TERM \<in> set cs)))"
  using assms
  by (auto simp: call_backend_def gatt_disconnect_def fsm_fire_def GATT_ERR_NOT_CONNECTED_def Let_def
      split: if_splits prod.splits)

section \<open>The slot is freed\<close>

lemma grows_reset [simp, grow_intros]: "grows p (snd (reset_connection env r (c, p)))"
proof -
  define p1 where "p1 = send_device_disconnected env (conn_address c)
    (if pending_error c \<noteq> 0 then pending_error c else r) p"
  define p2 where "p2 = update_address_slot (conn_address c) 0 p1"
  have "snd (reset_connection env r (c, p)) = send_connections_free env p2"
    by (simp add: reset_connection_def reset_connection_slot_def set_address_def p1_def p2_def clear_owed_flags_def
        hub_release_services_def Let_def)
  moreover have "grows p p1" "grows p1 p2" by (simp_all add: p1_def p2_def)
  ultimately show ?thesis using grows_connections_free(2) [of p2 env] by (metis grows_trans)
qed

lemma reset_told:
  assumes "conn_address c = w_address W" "api_connection p = Some (w_client W)" "w_from W \<le> length (offered p)"
  shows "told W (snd (reset_connection env r (c, p)))"
proof -
  let ?r = "if pending_error c \<noteq> 0 then pending_error c else r"
  obtain ok q where s: "send_message env (w_client W) (Device_connection (w_address W) False 0 ?r) p = (ok, q)"
    by fastforce
  have t: "told W q" by (rule told_send [OF s assms(3)]) simp
  define p1 where "p1 = send_device_disconnected env (conn_address c) ?r p"
  define p2 where "p2 = update_address_slot (conn_address c) 0 p1"
  have "grows q p1"
    using s assms(1,2) by (simp add: p1_def send_device_disconnected_def send_device_connection_def send_or_nobody_def)
  moreover have "grows p1 p2" by (simp add: p2_def)
  ultimately have "told W (send_connections_free env p2)"
    using t grows_connections_free(2) [of p2 env] by (metis told_grows)
  moreover have "snd (reset_connection env r (c, p)) = send_connections_free env p2"
    by (simp add: reset_connection_def reset_connection_slot_def set_address_def p1_def p2_def clear_owed_flags_def
        hub_release_services_def Let_def)
  ultimately show ?thesis by simp
qed

lemma reset_bare: "bare W t (c, p) \<Longrightarrow> told W (snd (reset_connection env r (c, p)))"
  by (rule reset_told) (simp_all add: bare_def)

section \<open>A disconnect\<close>

text \<open>An operation between the poll at \<open>t\<close> and the next; nothing is asked when no device is watched.\<close>

definition window :: "watch \<Rightarrow> nat \<Rightarrow> env \<Rightarrow> bool" where
  "window W t env \<longleftrightarrow> w_address W = 0 \<or>
     t \<le> unat (clock env) \<and> unat (clock env) \<le> t + w_pace W \<and> unat (clock env) + 8000 < 2 ^ 32"

lemma settled_fire:
  assumes "settled P t0 t f" "t \<le> unat now" "unat now \<le> t + P" "unat now + 8000 < 2 ^ 32" "ev \<noteq> CONNECT_REQUEST"
  shows "settled P t0 t (fst (handle_event ev now f))"
  using assms
  by (auto simp: settled_def has_deadline_def handle_event_def enter_def unat_add_8000
      split: ble_conn_state.splits ble_conn_event.splits)

lemma settled_window:
  "settled (w_pace W) t0 t f \<Longrightarrow> window W t env \<Longrightarrow> ev \<noteq> CONNECT_REQUEST \<Longrightarrow> w_address W \<noteq> 0 \<Longrightarrow>
   settled (w_pace W) t0 t (fst (handle_event ev (clock env) f))"
  unfolding window_def by (blast intro: settled_fire)

lemma grows_disconnect [simp, grow_intros]: "grows p (snd (hub_disconnect env (c, p)))"
  by (simp add: hub_disconnect_def Let_def split: prod.split)

text \<open>
  Asked of a slot of the request whose attempt is still unreported while the engine is connecting, a
  disconnect ends the watch or leaves a phase.
\<close>

lemma disconnect_attends:
  assumes "bare W t (c, p)" "window W t env"
    and "client_state c \<noteq> CS_IDLE" "client_state c \<noteq> CS_DISCONNECTING"
    and "fsm_state (fsm (backend c)) = CONNECTING \<longleftrightarrow> \<not> connect_result_reported (backend c)"
  shows "told W (snd (hub_disconnect env (c, p))) \<or> alive W t (hub_disconnect env (c, p))"
proof -
  obtain rc c1 calls where k: "call_backend (gatt_disconnect (stk env) (clock env)) c = (rc, c1, calls)"
    by (metis prod_cases3)
  note D = call_disconnect [OF k]
  show ?thesis
  proof (cases "rc = 0")
    case False
    have "conn_address c1 = w_address W" using D assms(1) by (simp add: bare_def)
    then have "told W (snd (reset_connection env rc (c1, p)))"
      by (rule reset_told) (use assms(1) in \<open>simp_all add: bare_def\<close>)
    then show ?thesis using False k assms(3,4) by (simp add: hub_disconnect_def)
  next
    case True
    let ?c = "c1\<lparr>client_state := CS_DISCONNECTING\<rparr>"
    have h: "hub_disconnect env (c, p) = (?c, p)" using True k assms(3,4) by (simp add: hub_disconnect_def)
    have m: "settled (w_pace W) (w_time W) t (fsm (backend c1))"
      using D assms(1) settled_window [OF _ assms(2), of _ _ DISCONNECT_REQUEST] by (auto simp: bare_def)
    obtain cs where cs: "host_calls c1 = host_calls c @ cs" using D by blast
    have "bare W t (?c, p)" using D m assms(1) cs by (simp add: bare_def)
    moreover have "phase W ?c"
      using D assms(1,5) True by (auto simp: phase_def torn_down_def bare_def)
    ultimately show ?thesis unfolding h by (simp add: alive_def)
  qed
qed

lemma attends_disconnect:
  assumes "window W t env"
  shows "attends W t l (hub_disconnect env l)"
proof -
  obtain c p where l: "l = (c, p)" by fastforce
  have "told W (snd (hub_disconnect env (c, p))) \<or> alive W t (hub_disconnect env (c, p))"
    if a: "alive W t (c, p)"
  proof (cases "client_state c = CS_IDLE \<or> client_state c = CS_DISCONNECTING")
    case True
    then show ?thesis using a by (simp add: hub_disconnect_def)
  next
    case False
    show ?thesis
      by (rule disconnect_attends [OF _ assms]) (use a False in \<open>auto simp: alive_def phase_def\<close>)
  qed
  then show ?thesis by (simp add: attends_def l)
qed

lemma attends_abort:
  "window W t env \<Longrightarrow> attends W t l (abort_service_stream env e l)"
proof -
  assume t: "window W t env"
  obtain c p where l: "l = (c, p)" by fastforce
  let ?c = "(latch_pending_error e c)\<lparr>send_service := DONE_SENDING_SERVICES\<rparr>"
  have "same_core c ?c" by (rule same_core_trans [of _ "latch_pending_error e c"]) simp_all
  then show ?thesis
    unfolding l abort_service_stream_def by (auto intro: attends_pre [OF attends_disconnect [OF t]])
qed

section \<open>Replies and requests\<close>

lemma attends_connected_reply: "attends W t l (send_connected_reply env l)"
  by (cases l) (auto simp: send_connected_reply_def split: prod.splits
      intro!: attends_plain dest: grows_senders(2))

lemma attends_ack: "attends W t l (send_ack env k h e l)"
  by (cases l) (auto simp: send_ack_def split: prod.splits intro!: attends_plain dest: grows_senders(5))

lemma attends_error: "attends W t l (hub_send_gatt_error env h e l)"
  by (simp add: hub_send_gatt_error_def attends_ack)

lemma attends_flush_ack: "attends W t l (flush_pending_ack env l)"
  by (cases l) (auto simp: flush_pending_ack_def split: prod.splits intro!: attends_plain dest: grows_senders(5))

lemma same_core_pending: "same_core c (c\<lparr>services_done_retries := r, send_service := s\<rparr>)"
  by (simp add: same_core_def)

lemma attends_services_done: "attends W t l (send_services_done env l)"
  by (cases l) (auto simp: send_services_done_def same_core_pending split: prod.splits
      intro!: attends_plain dest: grows_senders(3))

lemma attends_owed: "attends W t l (flush_owed_replies env l)"
proof -
  obtain c p where l: "l = (c, p)" by fastforce
  obtain c1 p1 where 1: "(if connected_reply_owed c then send_connected_reply env (c, p) else (c, p)) = (c1, p1)"
    by fastforce
  obtain c2 p2 where 2: "(if send_service c1 = SERVICES_DONE_PENDING then send_services_done env (c1, p1) else (c1, p1)) = (c2, p2)"
    by fastforce
  have r1: "attends W t (c, p) (c1, p1)" using attends_connected_reply [of W t "(c, p)" env] 1 by (auto split: if_splits)
  have r2: "attends W t (c1, p1) (c2, p2)" using attends_services_done [of W t "(c1, p1)" env] 2 by (auto split: if_splits)
  have r3: "attends W t (c1, p1) (flush_pending_ack env (c2, p2))" by (rule attends_trans [OF r2 attends_flush_ack])
  have r4: "attends W t (c1, p1) (if has_pending_ack (if b then age_services_done c1 else c1)
      then age_pending_ack (if b then age_services_done c1 else c1) else (if b then age_services_done c1 else c1), p1)" for b
    by (rule attends_plain) (auto simp: same_core_def age_services_done_def age_pending_ack_def clear_pending_ack_def Let_def)
  show ?thesis
    using 1 2 r2 r3 r4 [of "send_service c1 = SERVICES_DONE_PENDING"]
    by (auto simp: l flush_owed_replies_def Let_def intro!: attends_trans [OF r1])
qed

lemma attends_process:
  assumes t: "window W t env"
  shows "attends W t l (process_pending_services env l)"
proof -
  obtain c p where l: "l = (c, p)" by fastforce
  have s: "same_core c ((note_batch_stalled (c\<lparr>send_service := j\<rparr>))\<lparr>send_service := k\<rparr>)"
    "same_core c (c\<lparr>send_service := j, batch_stalled := False\<rparr>)" for j k
    by (auto simp: same_core_def note_batch_stalled_def)
  have b: "attends W t (c, p) (case fill_batch env eff tbl k [] z of
        Batch_abort cursor \<Rightarrow> abort_service_stream env GATT_ERR_UNLIKELY (c\<lparr>send_service := cursor\<rparr>, p)
      | Batch resp cursor \<Rightarrow>
          (let c = c\<lparr>send_service := cursor\<rparr>;
               (ok, p) = send_message env cl (Get_services (conn_address c) resp) p
           in if \<not> ok then ((note_batch_stalled c)\<lparr>send_service := k\<rparr>, p) else (c\<lparr>batch_stalled := False\<rparr>, p)))"
    for eff tbl k z cl
  proof (cases "fill_batch env eff tbl k [] z")
    case (Batch_abort cursor)
    have "attends W t (c\<lparr>send_service := cursor\<rparr>, p)
        (abort_service_stream env GATT_ERR_UNLIKELY (c\<lparr>send_service := cursor\<rparr>, p))" by (rule attends_abort [OF t])
    then have "attends W t (c, p) (abort_service_stream env GATT_ERR_UNLIKELY (c\<lparr>send_service := cursor\<rparr>, p))"
      by (rule attends_pre) simp_all
    then show ?thesis using Batch_abort by simp
  next
    case (Batch resp cursor)
    obtain ok q where m: "send_message env cl (Get_services (conn_address c) resp) p = (ok, q)" by fastforce
    then show ?thesis using Batch s grows_send [OF m] by (auto simp: Let_def intro: attends_plain)
  qed
  have d: "attends W t (c, p) (send_services_done env (hub_release_services c, p))"
    by (rule attends_pre [OF attends_services_done]) simp_all
  have k: "attends W t (c, p) (park_service_stream c, p)" by (rule attends_plain) simp_all
  show ?thesis
    using b d k by (simp add: l process_pending_services_def send_service_for_discovery_def Let_def split: option.split)
qed

lemma attends_services: "attends W t l (gatt_send_services env l)"
  by (cases l) (auto simp: gatt_send_services_def attends_services_done intro!: attends_plain)

lemma attends_params: "hub_update_connection_params env i j k u l = (rc, l') \<Longrightarrow> attends W t l l'"
  by (cases l) (auto simp: hub_update_connection_params_def Let_def split: if_splits prod.splits
      intro!: attends_plain dest!: call_backend_core)

section \<open>What the listener is told\<close>

fun harmless :: "listener_call \<Rightarrow> bool" where
  "harmless (ON_CONNECTION_STATE b m e) \<longleftrightarrow> False"
| "harmless (ON_SERVICE_DISCOVERY_DONE e) \<longleftrightarrow> False"
| "harmless call \<longleftrightarrow> True"

lemma attends_harmless: "harmless call \<Longrightarrow> attends W t l (on_listener_call env call l)"
  by (cases l; cases call)
    (auto simp: on_listener_call_def on_read_result_def on_write_result_def on_notify_state_def on_notify_data_def
      on_pairing_result_def attends_error attends_ack same_core_def split: option.splits intro!: attends_plain)

lemma attends_harmless_calls: "list_all harmless calls \<Longrightarrow> attends W t l (on_listener_calls env calls l)"
proof (induction calls arbitrary: l)
  case (Cons x xs)
  then show ?case using attends_trans [OF attends_harmless Cons.IH] by simp
qed simp

lemma harmless_ops:
  assumes "call_backend f c = (rc, c', calls)" "\<And>e. list_all harmless (listeners_of (snd (snd (f e))))"
  shows "list_all harmless calls"
  using assms by (auto simp: call_backend_def split: prod.splits) (metis snd_conv)

lemma harmless_op_list [simp]:
  "list_all harmless (listeners_of (snd (snd (read_characteristic host h e))))"
  "list_all harmless (listeners_of (snd (snd (read_descriptor host h e))))"
  "list_all harmless (listeners_of (snd (snd (write_characteristic host h d r e))))"
  "list_all harmless (listeners_of (snd (snd (write_descriptor host h d e))))"
  "list_all harmless (listeners_of (snd (snd (notify_characteristic h b e))))"
  by (auto simp: read_characteristic_def read_descriptor_def write_characteristic_def write_descriptor_def
      notify_characteristic_def attr_op_def tell_def Let_def)

lemma attends_request:
  assumes r: "gatt_request env h kind f l = (rc, l')"
    and f: "\<And>e. same_engine e (fst (snd (f e)))" "\<And>e. list_all harmless (listeners_of (snd (snd (f e))))"
  shows "attends W t l l'"
proof -
  obtain c p where l: "l = (c, p)" by fastforce
  obtain rc1 c1 calls where k: "call_backend f (supersede_pending_ack h kind c) = (rc1, c1, calls)" by (metis prod_cases3)
  have s: "same_core c c1" by (rule same_core_trans [OF _ call_backend_core [OF k f(1)]]) simp
  have "attends W t (c1, p) (on_listener_calls env calls (c1, p))"
    by (rule attends_harmless_calls [OF harmless_ops [OF k f(2)]])
  then have "attends W t (c, p) (on_listener_calls env calls (c1, p))" by (rule attends_pre [OF _ s]) simp
  then show ?thesis
    using r k by (auto simp: l gatt_request_def Let_def split: if_splits intro: attends_plain)
qed

section \<open>Events of the engine\<close>

text \<open>A completed step of the discovery: nothing for the listener yet, or the discovery is over.\<close>

definition disc_outcome :: "u32 \<Rightarrow> engine \<Rightarrow> engine \<times> effect list \<Rightarrow> bool" where
  "disc_outcome now e r \<longleftrightarrow> listener (fst r) = listener e \<and>
     connect_result_reported (fst r) = connect_result_reported e \<and>
     (fsm (fst r) = fsm e \<and> listeners_of (snd r) = [] \<or>
      (\<exists>rc. fsm (fst r) = fst (handle_event (if rc = 0 then DISCOVER_DONE else DISCOVER_TIMEOUT) now (fsm e)) \<and>
         listeners_of (snd r) = (if listener e then [ON_SERVICE_DISCOVERY_DONE rc] else [])))"

lemma disc_outcome_cong:
  "disc_outcome now e' r \<Longrightarrow> fsm e' = fsm e \<Longrightarrow> listener e' = listener e \<Longrightarrow>
   connect_result_reported e' = connect_result_reported e \<Longrightarrow> disc_outcome now e r"
  by (simp add: disc_outcome_def)

lemma disc_outcome_stack: "disc_outcome now e r \<Longrightarrow> disc_outcome now e (case r of (e', out) \<Rightarrow> (e', Stack c # out))"
  by (cases r) (simp add: disc_outcome_def)

lemma disc_outcome_same:
  "fsm e' = fsm e \<Longrightarrow> listener e' = listener e \<Longrightarrow> connect_result_reported e' = connect_result_reported e \<Longrightarrow>
   listeners_of out = [] \<Longrightarrow> disc_outcome now e (e', out)"
  by (simp add: disc_outcome_def)

lemma disc_finish: "disc_outcome now e (finish_discovery now rc e)"
  by (auto simp: disc_outcome_def finish_discovery_def fsm_fire_def tell_def Let_def intro: exI [of _ rc])

lemma disc_chr_dsc: "disc_outcome now e (start_next_chr_dsc_discovery host now e)"
proof (induction host now e rule: start_next_chr_dsc_discovery.induct)
  case (1 host now e)
  let ?i = "discover_chr_index e" and ?c = "characteristics e ! discover_chr_index e"
  show ?case
  proof (cases "?i < length (characteristics e) \<and> \<not> value_handle ?c < chr_end_handle ?c")
    case True
    then have "disc_outcome now (e\<lparr>discover_chr_index := ?i + 1\<rparr>)
        (start_next_chr_dsc_discovery host now (e\<lparr>discover_chr_index := ?i + 1\<rparr>))"
      using 1 by blast
    moreover have "start_next_chr_dsc_discovery host now e
        = start_next_chr_dsc_discovery host now (e\<lparr>discover_chr_index := ?i + 1\<rparr>)"
      using True by (subst start_next_chr_dsc_discovery.simps) (simp add: Let_def)
    ultimately show ?thesis by (auto elim: disc_outcome_cong)
  next
    case False
    then show ?thesis
      by (subst start_next_chr_dsc_discovery.simps)
        (auto simp: Let_def disc_finish intro!: disc_outcome_stack disc_outcome_same
          disc_outcome_cong [OF disc_finish])
  qed
qed

lemma disc_service_chr: "disc_outcome now e (start_next_service_chr_discovery host now e)"
  unfolding start_next_service_chr_discovery_def
  by (auto simp: Let_def intro!: disc_outcome_stack disc_outcome_same disc_outcome_cong [OF disc_finish]
      disc_outcome_cong [OF disc_chr_dsc])

definition disc_step :: "gatt_event \<Rightarrow> bool" where
  "disc_step ev \<longleftrightarrow> ge_type ev \<in> {EV_DISC_SVC_DONE, EV_DISC_CHR_DONE, EV_DISC_DSC_DONE}"

lemma event_discovery:
  assumes "handle_gatt_event host now ev e = Some r" "disc_step ev"
  shows "disc_outcome now e r"
  using assms
  by (auto simp: handle_gatt_event_def disc_step_def intro!: disc_outcome_cong [OF disc_service_chr]
      disc_outcome_cong [OF disc_chr_dsc] dest: on_disc_frames)

lemma event_harmless:
  assumes "handle_gatt_event host now ev e = Some (e', out)" "\<not> disc_step ev"
    and "ge_type ev \<noteq> EV_CONNECT" "ge_type ev \<noteq> EV_DISCONNECT"
  shows "same_engine e e' \<and> list_all harmless (listeners_of out)"
  using assms
  by (auto simp: handle_gatt_event_def disc_step_def on_attr_op_def tell_def same_engine_def Let_def
      split: gatt_event_type.splits pending_op.splits if_splits dest: on_disc_frames)

text \<open>The discovery ended: the request is answered, or the link is torn down.\<close>

lemma grows_connected_reply [simp, grow_intros]: "grows p (snd (send_connected_reply env (c, p)))"
  by (auto simp: send_connected_reply_def split: prod.splits dest: grows_senders(2))

lemma grows_discovery_done [simp, grow_intros]: "grows p (snd (on_service_discovery_done env rc (c, p)))"
proof -
  obtain c1 p1 where r: "send_connected_reply env (c\<lparr>client_state := CS_ESTABLISHED, services_discovered := True\<rparr>, p) = (c1, p1)"
    by fastforce
  then have "grows p p1" using grows_connected_reply by (metis snd_conv)
  then have "grows p (send_connections_free env p1)" by (rule grows_trans) simp
  then show ?thesis using r by (simp add: on_service_discovery_done_def Let_def)
qed

lemma discovery_done_told:
  assumes "bare W t (c, p)" "w_up W"
  shows "told W (snd (on_service_discovery_done env 0 (c, p)))"
proof -
  let ?c = "c\<lparr>client_state := CS_ESTABLISHED, services_discovered := True\<rparr>"
  obtain ok q where s: "send_message env (w_client W) (Device_connection (w_address W) True (att_mtu c) CONN_OK) p = (ok, q)"
    by fastforce
  have "told W q" by (rule told_send [OF s]) (use assms in \<open>simp_all add: bare_def\<close>)
  moreover have "send_connected_reply env (?c, p) = (?c\<lparr>connected_reply_owed := \<not> ok\<rparr>, q)"
    using s assms(1) by (simp add: send_connected_reply_def send_device_connection_def send_or_nobody_def bare_def)
  ultimately show ?thesis
    by (auto simp: on_service_discovery_done_def intro: told_grows)
qed

lemma discovery_failed:
  assumes "bare W t (c, p)" "window W t env" "rc \<noteq> 0" "client_state c \<noteq> CS_IDLE"
    and "client_state c = CS_DISCONNECTING \<longrightarrow> phase W c"
    and "client_state c \<noteq> CS_DISCONNECTING \<longrightarrow>
      (fsm_state (fsm (backend c)) = CONNECTING \<longleftrightarrow> \<not> connect_result_reported (backend c))"
  shows "told W (snd (on_service_discovery_done env rc (c, p))) \<or> alive W t (on_service_discovery_done env rc (c, p))"
proof -
  let ?c = "latch_pending_error rc c"
  have s: "same_core c ?c" by simp
  then have e: "client_state ?c = client_state c" "fsm (backend ?c) = fsm (backend c)"
    "connect_result_reported (backend ?c) = connect_result_reported (backend c)"
    by (auto simp: same_core_def)
  have b: "bare W t (?c, p)" using assms(1) by (auto simp: bare_def latch_pending_error_def)
  have "told W (snd (hub_disconnect env (?c, p))) \<or> alive W t (hub_disconnect env (?c, p))"
  proof (cases "client_state c = CS_DISCONNECTING")
    case True
    then have "alive W t (c, p)" using assms(1,5) by (simp add: alive_def)
    then have "alive W t (?c, p)" by (rule alive_same [OF s, rotated]) simp
    then show ?thesis using True e(1) by (simp add: hub_disconnect_def)
  next
    case False
    show ?thesis by (rule disconnect_attends [OF b assms(2)]) (use False assms(4,6) e in auto)
  qed
  then show ?thesis using assms(3) by (simp add: on_service_discovery_done_def)
qed

text \<open>The link went down, or came up.\<close>

lemma connection_down: "bare W t (c, p) \<Longrightarrow> told W (snd (on_connection_state env False m rc (c, p)))"
  using reset_bare by (simp add: on_connection_state_def bare_def)

lemma connection_up:
  assumes b: "bare W t (c, p)" and win: "window W t env" and st: "client_state c \<in> {CS_CONNECTING, CS_DISCONNECTING}"
    and up: "fsm_state (fsm (backend c)) = DISCOVERING" "connect_result_reported (backend c)"
  shows "told W (snd (on_connection_state env True m rc (c, p))) \<or> alive W t (on_connection_state env True m rc (c, p))"
proof -
  have a: "conn_address c \<noteq> 0" using b by (simp add: bare_def)
  consider (race) "client_state c = CS_DISCONNECTING"
    | (cached) "client_state c = CS_CONNECTING" "conn_type c = CONN_V3_WITH_CACHE"
    | (discover) "client_state c = CS_CONNECTING" "conn_type c \<noteq> CONN_V3_WITH_CACHE" using st by blast
  then show ?thesis
  proof cases
    case race
    obtain rc c1 calls where k: "call_backend (gatt_disconnect (stk env) (clock env)) c = (rc, c1, calls)"
      by (metis prod_cases3)
    note D = call_disconnect [OF k]
    show ?thesis
    proof (cases "rc = 0")
      case False
      have "told W (snd (reset_connection env rc (c1, p)))"
        by (rule reset_told) (use D b in \<open>simp_all add: bare_def\<close>)
      then show ?thesis using race a k False by (simp add: on_connection_state_def)
    next
      case True
      obtain cs where cs: "host_calls c1 = host_calls c @ cs" using D by blast
      have "bare W t (c1, p)"
        using D b cs settled_window [OF _ win, of _ _ DISCONNECT_REQUEST] by (auto simp: bare_def)
      moreover have "phase W c1"
        using D b up race True by (auto simp: phase_def torn_down_def bare_def)
      ultimately show ?thesis using race a k True by (simp add: on_connection_state_def alive_def)
    qed
  next
    case cached
    let ?c = "c\<lparr>att_mtu := m, client_state := CS_ESTABLISHED\<rparr>"
    obtain rc c1 calls where k: "call_backend (update_connection_params (stk env) MEDIUM_MIN_CONN_INTERVAL
        MEDIUM_MAX_CONN_INTERVAL 0 MEDIUM_CONN_TIMEOUT) ?c = (rc, c1, calls)" by (metis prod_cases3)
    obtain c2 p2 where r: "send_connected_reply env (c1, p) = (c2, p2)" by fastforce
    have "alive W t (?c, p)" using b up by (simp add: alive_def bare_def phase_def)
    then have "alive W t (c1, p)" by (rule alive_same [OF call_backend_core [OF k same_engine_ops(7)] grows_refl])
    then have "told W p2 \<or> alive W t (c2, p2)"
      using attends_connected_reply [of W t "(c1, p)" env] r by (simp add: attends_def)
    then have "told W (send_connections_free env p2) \<or> alive W t (c2, send_connections_free env p2)"
      by (metis told_grows alive_same same_core_refl grows_connections_free(2))
    then show ?thesis using cached a k r by (simp add: on_connection_state_def)
  next
    case discover
    let ?c = "c\<lparr>att_mtu := m, client_state := CS_CONNECTED\<rparr>"
    obtain rc c1 calls where k: "call_backend (discover_services (stk env)) ?c = (rc, c1, calls)" by (metis prod_cases3)
    have al: "alive W t (?c, p)" using b up by (simp add: alive_def bare_def phase_def)
    have s1: "same_core ?c c1" by (rule call_backend_core [OF k same_engine_ops(8)])
    have "attends W t (?c, p) (hub_disconnect env (latch_pending_error rc c1, p))"
      by (rule attends_pre [OF attends_disconnect [OF win]]) (auto intro: same_core_trans [OF s1])
    moreover have "alive W t (c1, p)" by (rule alive_same [OF s1 grows_refl al])
    ultimately show ?thesis using discover a k al by (auto simp: on_connection_state_def attends_def)
  qed
qed

lemma grows_connection_state [simp, grow_intros]: "grows p (snd (on_connection_state env b m rc (c, p)))"
proof -
  have k: "grows p (send_connections_free env q)" if "send_connected_reply env (a, p) = (a', q)" for a a' q
  proof -
    have "grows p q" using grows_connected_reply that by (metis snd_conv)
    then show ?thesis by (rule grows_trans) simp
  qed
  show ?thesis
    by (auto simp: on_connection_state_def Let_def k split: prod.split)
qed

lemma grows_harmless: "harmless call \<Longrightarrow> grows (snd l) (snd (on_listener_call env call l))"
  using attends_harmless by (simp add: attends_def)

lemma grows_listener: "grows (snd l) (snd (on_listener_call env call l))"
proof (cases "harmless call")
  case False
  then show ?thesis by (cases l; cases call) (simp_all add: on_listener_call_def)
qed (rule grows_harmless)

lemma grows_listeners: "grows (snd l) (snd (on_listener_calls env calls l))"
proof (induction calls arbitrary: l)
  case (Cons x xs)
  show ?case using grows_trans [OF grows_listener Cons.IH] by simp
qed simp

text \<open>One event of the engine, whatever it is; without \<open>w_up\<close>, no discovery was asked for.\<close>

definition event_ok :: "watch \<Rightarrow> gatt_event \<Rightarrow> bool" where
  "event_ok W ev \<longleftrightarrow> w_up W \<or> \<not> disc_step ev"

lemma bare_engine:
  assumes "bare W t (c, p)" "listener e" "settled (w_pace W) (w_time W) t (fsm e)"
  shows "bare W t (c\<lparr>backend := e, host_calls := host_calls c @ cs\<rparr>, p)"
  using assms by (simp add: bare_def)

lemma connect_event_alive:
  assumes al: "alive W t (c, p)" and win: "window W t env" and ev: "ge_type ev = EV_CONNECT"
    and h: "handle_gatt_event (stk env) (clock env) ev (backend c) = Some (e, out)"
  shows "told W (snd (on_listener_calls env (listeners_of out) (c\<lparr>backend := e, host_calls := host_calls c @ stacks out\<rparr>, p)))
    \<or> alive W t (on_listener_calls env (listeners_of out) (c\<lparr>backend := e, host_calls := host_calls c @ stacks out\<rparr>, p))"
proof (cases "connect_result_reported (backend c)")
  case True
  then have "same_core c (c\<lparr>backend := e, host_calls := host_calls c @ stacks out\<rparr>)" "listeners_of out = []"
    using h ev by (auto simp: handle_gatt_event_def finish_connect_def same_core_def)
  then show ?thesis using alive_same [OF _ grows_refl al] by simp
next
  case rep: False
  let ?c = "c\<lparr>backend := e, host_calls := host_calls c @ stacks out\<rparr>"
  have b: "bare W t (c, p)" using al by (simp add: alive_def)
  have ph: "client_state c \<in> {CS_CONNECTING, CS_DISCONNECTING}" "fsm_state (fsm (backend c)) = CONNECTING"
    using al rep by (auto simp: alive_def phase_def)
  show ?thesis
  proof (cases "ge_status ev = 0")
    case True
    then have e: "fsm e = fst (handle_event GAP_CONNECT_OK (clock env) (fsm (backend c)))" "listener e"
      "connect_result_reported e" "\<exists>m. listeners_of out = [ON_CONNECTION_STATE True m 0]"
      using h ev rep b by (auto simp: handle_gatt_event_def finish_connect_def fsm_fire_def tell_def bare_def Let_def)
    have "bare W t (?c, p)"
      by (rule bare_engine [OF b e(2)]) (use b e(1) settled_window [OF _ win] in \<open>auto simp: bare_def\<close>)
    moreover have "fsm_state (fsm e) = DISCOVERING" using e(1) ph(2) by (simp add: handle_event_def enter_def)
    moreover obtain m where "listeners_of out = [ON_CONNECTION_STATE True m 0]" using e(4) by blast
    moreover have "client_state ?c \<in> {CS_CONNECTING, CS_DISCONNECTING}" using ph(1) by simp
    ultimately show ?thesis
      using connection_up [of W t ?c p env m 0] win e(3) by (simp add: on_listener_call_def)
  next
    case False
    then have e: "fsm e = fst (handle_event GAP_CONNECT_FAIL (clock env) (fsm (backend c)))" "listener e"
      "\<exists>rc. listeners_of out = [ON_CONNECTION_STATE False 0 rc]"
      using h ev rep b by (auto simp: handle_gatt_event_def finish_connect_def fsm_fire_def tell_def bare_def Let_def)
    have "bare W t (?c, p)"
      by (rule bare_engine [OF b e(2)]) (use b e(1) settled_window [OF _ win] in \<open>auto simp: bare_def\<close>)
    then show ?thesis using connection_down e(3) by (auto simp: on_listener_call_def)
  qed
qed

lemma disconnect_event_told:
  assumes al: "alive W t (c, p)" and win: "window W t env" and ev: "ge_type ev = EV_DISCONNECT"
    and h: "handle_gatt_event (stk env) (clock env) ev (backend c) = Some (e, out)"
  shows "told W (snd (on_listener_calls env (listeners_of out) (c\<lparr>backend := e, host_calls := host_calls c @ stacks out\<rparr>, p)))"
proof -
  let ?c = "c\<lparr>backend := e, host_calls := host_calls c @ stacks out\<rparr>"
  have b: "bare W t (c, p)" using al by (simp add: alive_def)
  then have e: "fsm e = fst (handle_event GAP_DISCONNECT_EVT (clock env) (fsm (backend c)))" "listener e"
    "\<exists>rc. listeners_of out = [ON_CONNECTION_STATE False 0 rc]"
    using h ev by (auto simp: handle_gatt_event_def finish_disconnect_def fsm_fire_def tell_def bare_def Let_def)
  have "bare W t (?c, p)"
    by (rule bare_engine [OF b e(2)]) (use b e(1) settled_window [OF _ win] in \<open>auto simp: bare_def\<close>)
  then show ?thesis using connection_down e(3) by (auto simp: on_listener_call_def)
qed

lemma discovery_event_alive:
  assumes al: "alive W t (c, p)" and win: "window W t env" and ev: "disc_step ev" and up: "w_up W"
    and h: "handle_gatt_event (stk env) (clock env) ev (backend c) = Some (e, out)"
  shows "told W (snd (on_listener_calls env (listeners_of out) (c\<lparr>backend := e, host_calls := host_calls c @ stacks out\<rparr>, p)))
    \<or> alive W t (on_listener_calls env (listeners_of out) (c\<lparr>backend := e, host_calls := host_calls c @ stacks out\<rparr>, p))"
proof -
  let ?c = "c\<lparr>backend := e, host_calls := host_calls c @ stacks out\<rparr>"
  have b: "bare W t (c, p)" using al by (simp add: alive_def)
  have o: "listener e" "connect_result_reported e = connect_result_reported (backend c)"
    using event_discovery [OF h ev] b by (simp_all add: disc_outcome_def bare_def)
  consider (more) "fsm e = fsm (backend c)" "listeners_of out = []"
    | (over) rc where "fsm e = fst (handle_event (if rc = 0 then DISCOVER_DONE else DISCOVER_TIMEOUT) (clock env) (fsm (backend c)))"
        "listeners_of out = [ON_SERVICE_DISCOVERY_DONE rc]"
    using event_discovery [OF h ev] b by (auto simp: disc_outcome_def bare_def)
  then show ?thesis
  proof cases
    case more
    then have "same_core c ?c" using o b by (simp add: same_core_def bare_def)
    then show ?thesis using alive_same [OF _ grows_refl al] more by simp
  next
    case over
    have b': "bare W t (?c, p)"
      by (rule bare_engine [OF b o(1)]) (use b over(1) settled_window [OF _ win] in \<open>auto simp: bare_def\<close>)
    show ?thesis
    proof (cases "rc = 0")
      case True
      then show ?thesis using discovery_done_told [OF b' up] over(2) by (simp add: on_listener_call_def)
    next
      case False
      have "fsm e = fst (handle_event DISCOVER_TIMEOUT (clock env) (fsm (backend c)))" using over(1) False by simp
      then have f: "fsm_state (fsm e) = CONNECTING \<longleftrightarrow> fsm_state (fsm (backend c)) = CONNECTING"
        "fsm_state (fsm (backend c)) = CONNECTING \<longrightarrow> fsm e = fsm (backend c)"
        by (auto simp: handle_event_def enter_def split: ble_conn_state.split)
      have ph: "phase W c" using al by (simp add: alive_def)
      have "client_state ?c = CS_DISCONNECTING \<longrightarrow> phase W ?c"
        using ph f o(2) by (auto simp: phase_def torn_down_def)
      moreover have "client_state ?c \<noteq> CS_DISCONNECTING \<longrightarrow>
          (fsm_state (fsm (backend ?c)) = CONNECTING \<longleftrightarrow> \<not> connect_result_reported (backend ?c))"
        using ph f o(2) by (auto simp: phase_def)
      moreover have "client_state ?c \<noteq> CS_IDLE" using ph by (auto simp: phase_def)
      ultimately show ?thesis
        using discovery_failed [OF b' win False] over(2) by (simp add: on_listener_call_def)
    qed
  qed
qed

lemma attends_event:
  assumes win: "window W t env" and ok: "event_ok W ev"
  shows "attends W t l (case backend_event env ev l of None \<Rightarrow> l | Some l' \<Rightarrow> l')"
proof -
  obtain c p where l: "l = (c, p)" by fastforce
  show ?thesis
  proof (cases "handle_gatt_event (stk env) (clock env) ev (backend c)")
    case None
    then show ?thesis by (simp add: l backend_event_def)
  next
    case (Some r)
    obtain e out where r: "r = (e, out)" by fastforce
    note h = Some [unfolded r]
    let ?c = "c\<lparr>backend := e, host_calls := host_calls c @ stacks out\<rparr>"
    let ?l = "on_listener_calls env (listeners_of out) (?c, p)"
    have "told W (snd ?l) \<or> alive W t ?l" if al: "alive W t (c, p)"
    proof -
      consider "ge_type ev = EV_CONNECT" | "ge_type ev = EV_DISCONNECT" | "disc_step ev"
        | "\<not> disc_step ev" "ge_type ev \<noteq> EV_CONNECT" "ge_type ev \<noteq> EV_DISCONNECT" by blast
      then show ?thesis
      proof cases
        case 4
        note H = event_harmless [OF h 4]
        then have "same_core c ?c" by (auto simp: same_engine_def same_core_def)
        then have "attends W t (c, p) ?l"
          using attends_pre [OF attends_harmless_calls] H by (metis grows_refl)
        then show ?thesis using al by (simp add: attends_def)
      qed (use connect_event_alive [OF al win _ h] disconnect_event_told [OF al win _ h]
          discovery_event_alive [OF al win _ _ h] ok in \<open>auto simp: event_ok_def\<close>)
    qed
    moreover have "grows p (snd ?l)" using grows_listeners [of "(?c, p)"] by simp
    ultimately show ?thesis using h by (simp add: l backend_event_def attends_def)
  qed
qed

text \<open>A poll at its time: the watch ends, or the engine is on time from then on.\<close>

lemma settled_no_deadline: "\<not> has_deadline f \<Longrightarrow> settled P t0 t f"
  by (auto simp: settled_def has_deadline_def)

lemma poll_attends:
  assumes win: "window W t env"
  shows "grows (snd l) (snd (backend_poll env l)) \<and>
    (alive W t l \<longrightarrow> told W (snd (backend_poll env l)) \<or> alive W (unat (clock env)) (backend_poll env l))"
proof -
  obtain c p where l: "l = (c, p)" by fastforce
  let ?now = "unat (clock env)" and ?f = "fsm (backend c)"
  obtain e out where h: "poll_deadline (clock env) (backend c) = (e, out)" by fastforce
  define c1 where "c1 = c\<lparr>backend := e, host_calls := host_calls c @ stacks out\<rparr>"
  have r: "backend_poll env l = on_listener_calls env (listeners_of out) (c1, p)"
    using h by (simp add: backend_poll_def l c1_def)
  have g: "grows p (snd (backend_poll env l))"
    unfolding r using grows_listeners [of "(c1, p)"] by simp
  have "told W (snd (backend_poll env l)) \<or> alive W ?now (backend_poll env l)" if al: "alive W t l"
  proof -
    have b: "bare W t (c, p)" and ph: "phase W c" using al by (simp_all add: alive_def l)
    have lst: "listener (backend c)" using b by (simp add: bare_def)
    have win': "window W ?now env" using win by (auto simp: window_def)
    show ?thesis
    proof (cases "snd (poll_timeout (clock env) ?f)")
      case False
      then have f: "fst (poll_timeout (clock env) ?f) = ?f" "\<not> has_deadline ?f \<or> deadline_ms ?f = 0 \<or> clock env < deadline_ms ?f"
        by (auto simp: poll_timeout_def has_deadline_def handle_event_def split: if_splits ble_conn_state.splits)
      have e: "e = (backend c)\<lparr>fsm := ?f\<rparr>" "out = []"
        using h False f(1) by (simp_all add: poll_deadline_def Let_def split: prod.splits)
      have "settled (w_pace W) (w_time W) t ?f" using b by (simp add: bare_def)
      then have "settled (w_pace W) (w_time W) ?now ?f"
        using f(2) by (auto simp: settled_def has_deadline_def word_less_nat_alt)
      then have "alive W ?now (c1, p)"
        using b ph e by (auto simp: alive_def bare_def phase_def torn_down_def c1_def)
      then show ?thesis unfolding r by (simp add: e(2))
    next
      case True
      then have dl: "has_deadline ?f" by (auto simp: poll_timeout_def split: if_splits)
      have e: "listener e" "\<not> has_deadline (fsm e)" "fsm_state (fsm e) = BACKOFF"
        "listeners_of out = (if fsm_state ?f = CONNECTING
            then (if connect_result_reported (backend c) then [] else [ON_CONNECTION_STATE False 0 BLE_HS_ETIMEOUT])
            else [ON_SERVICE_DISCOVERY_DONE BLE_HS_ETIMEOUT])"
        "connect_result_reported (backend c) \<longrightarrow> connect_result_reported e"
        using h True lst dl
        by (auto simp: poll_deadline_def poll_timeout_def handle_event_def enter_def has_deadline_def tell_def Let_def
            split: if_splits prod.splits)
      have b1: "bare W ?now (c1, p)"
        using b e(1) settled_no_deadline [OF e(2)] by (simp add: bare_def c1_def)
      consider (attempt) "fsm_state ?f = CONNECTING" "\<not> connect_result_reported (backend c)"
        | (late) "fsm_state ?f = CONNECTING" "connect_result_reported (backend c)"
        | (discovery) "fsm_state ?f = DISCOVERING" using dl by (auto simp: has_deadline_def)
      then show ?thesis
      proof cases
        case attempt
        then show ?thesis unfolding r using connection_down [OF b1] e(4) by (simp add: on_listener_call_def)
      next
        case late
        then have "phase W c1" using ph e(5) by (auto simp: phase_def torn_down_def c1_def)
        then show ?thesis unfolding r using late e(4) b1 by (simp add: alive_def)
      next
        case discovery
        have rep: "connect_result_reported (backend c)" using ph discovery by (auto simp: phase_def)
        have n: "BLE_HS_ETIMEOUT \<noteq> 0" by (simp add: BLE_HS_ETIMEOUT_def)
        have "client_state c1 = CS_DISCONNECTING \<longrightarrow> phase W c1"
          using ph discovery rep e(5) by (auto simp: phase_def torn_down_def c1_def)
        moreover have "client_state c1 \<noteq> CS_IDLE" using ph by (auto simp: phase_def c1_def)
        moreover have "fsm_state (fsm (backend c1)) = CONNECTING \<longleftrightarrow> \<not> connect_result_reported (backend c1)"
          using e(3,5) rep by (simp add: c1_def)
        ultimately have "told W (snd (on_service_discovery_done env BLE_HS_ETIMEOUT (c1, p))) \<or>
            alive W ?now (on_service_discovery_done env BLE_HS_ETIMEOUT (c1, p))"
          using discovery_failed [OF b1 win' n] by blast
        then show ?thesis unfolding r using discovery e(4) by (simp add: on_listener_call_def)
      qed
    qed
  qed
  then show ?thesis using g l by simp
qed

section \<open>The slot among the others\<close>

definition stays :: "watch \<Rightarrow> nat \<Rightarrow> nat \<Rightarrow> world \<Rightarrow> world \<Rightarrow> bool" where
  "stays W t i w w' \<longleftrightarrow> length (conns w') = length (conns w) \<and> grows (prx w) (prx w') \<and>
     (alive W t (conns w ! i, prx w) \<longrightarrow> told W (prx w') \<or> alive W t (conns w' ! i, prx w'))"

lemma stays_refl [simp]: "stays W t i w w" by (simp add: stays_def)

lemma stays_trans: "stays W t i w w1 \<Longrightarrow> stays W t i w1 w2 \<Longrightarrow> stays W t i w w2"
  by (auto simp: stays_def intro: grows_trans told_grows)

lemma alive_grows: "grows p p' \<Longrightarrow> alive W t (c, p) \<Longrightarrow> alive W t (c, p')"
  by (rule alive_same [OF same_core_refl])

lemma stays_slot:
  assumes "attends W t (conns w ! j, prx w) (c', p')"
  shows "stays W t i w (w\<lparr>conns := (conns w)[j := c'], prx := p'\<rparr>)"
proof (cases "i = j \<and> i < length (conns w)")
  case True
  then show ?thesis using assms by (auto simp: stays_def attends_def)
next
  case False
  then have "(conns w)[j := c'] ! i = conns w ! i" by (cases "i = j") (simp_all add: list_update_beyond)
  then show ?thesis using assms alive_grows by (auto simp: stays_def attends_def)
qed

lemma stays_other:
  assumes "grows (prx w) p'" "j = i \<longrightarrow> \<not> alive W t (conns w ! i, prx w)"
  shows "stays W t i w (w\<lparr>conns := (conns w)[j := c'], prx := p'\<rparr>)"
  using assms alive_grows by (cases "j = i") (auto simp: stays_def)

lemma stays_at: "(\<And>l. attends W t l (f l)) \<Longrightarrow> stays W t i w (at_slot j f w)"
proof -
  assume "\<And>l. attends W t l (f l)"
  then have "attends W t (conns w ! j, prx w) (fst (f (conns w ! j, prx w)), snd (f (conns w ! j, prx w)))" by simp
  from stays_slot [OF this] show ?thesis by (simp add: at_slot_def split_beta)
qed

lemma stays_conn: "(\<And>c. same_core c (f c)) \<Longrightarrow> stays W t i w (at_slot j (\<lambda>(c, p). (f c, p)) w)"
  by (rule stays_at) (auto intro: attends_plain)

lemma stays_prx: "grows (prx w) (f (prx w)) \<Longrightarrow> stays W t i w (on_prx f w)"
  using alive_grows by (auto simp: stays_def on_prx_def)

lemma stays_then_prx: "stays W t i w w1 \<Longrightarrow> (\<And>p. grows p (f p)) \<Longrightarrow> stays W t i w (on_prx f w1)"
  by (rule stays_trans [OF _ stays_prx])

lemma stays_then_at: "stays W t i w w1 \<Longrightarrow> (\<And>l. attends W t l (f l)) \<Longrightarrow> stays W t i w (at_slot j f w1)"
  by (rule stays_trans [OF _ stays_at])

lemma stays_for:
  assumes "\<And>j w. stays W t i w (f j w)"
  shows "stays W t i w (for_slots js f w)"
proof (induction js arbitrary: w)
  case (Cons j js)
  show ?case using stays_trans [OF assms Cons.IH] by simp
qed simp

lemma stays_then_for: "stays W t i w w1 \<Longrightarrow> (\<And>j w. stays W t i w (f j w)) \<Longrightarrow> stays W t i w (for_slots js f w1)"
  by (rule stays_trans [OF _ stays_for])

text \<open>A slot reserved for another device is another slot.\<close>

lemma stays_get_connection:
  assumes wf: "slots_wf N w" and g: "get_connection addr True w = (r, w')"
  shows "stays W t i w w'"
proof -
  obtain same free where s: "scan_slots addr 0 (conns w) None = (same, free)" by fastforce
  have clr: "stays W t i w (on_prx (clear_pending_disconnection addr) w)" by (rule stays_prx) simp
  consider (found) k where "same = Some k" | (full) "same = None" "free = None" | (free) k where "same = None" "free = Some k"
    by (cases same; cases free) auto
  then show ?thesis
  proof cases
    case found
    then show ?thesis using g s clr by (auto simp: get_connection_def slots_wf_count [OF wf])
  next
    case full
    then show ?thesis using g s by (auto simp: get_connection_def slots_wf_count [OF wf])
  next
    case (free k)
    then have k: "k < length (conns w)" "conn_address (conns w ! k) = 0"
      using s scan_slots_free [of addr 0 "conns w" None k] by auto
    let ?p = "clear_pending_disconnection addr (prx w)"
    let ?c = "(clear_owed_flags ((conns w ! k)\<lparr>send_service := INIT_SENDING_SERVICES\<rparr>))
      \<lparr>conn_address := addr, client_state := CS_INIT\<rparr>"
    have "w' = w\<lparr>conns := (conns w)[k := ?c], prx := update_address_slot 0 addr ?p\<rparr>"
      using g s free k by (auto simp: get_connection_def slots_wf_count [OF wf] at_slot_def on_prx_def set_address_def Let_def)
    moreover have "grows (prx w) (update_address_slot 0 addr ?p)" by (rule grows_trans [of _ ?p]) simp_all
    moreover have "k = i \<longrightarrow> \<not> alive W t (conns w ! i, prx w)" using k by (auto simp: alive_def bare_def)
    ultimately show ?thesis by (simp add: stays_other)
  qed
qed

lemma grows_initiate: "grows p (snd (initiate_connection env at (c, p)))"
  by (simp add: initiate_connection_def Let_def split: prod.split)

lemma stays_initiate:
  assumes "client_state (conns w ! j) = CS_INIT" "j < length (conns w)"
  shows "stays W t i w (at_slot j (initiate_connection env at) (at_slot j (\<lambda>(c, p). (hub_set_connection_type ct c, p)) w))"
proof -
  let ?c = "hub_set_connection_type ct (conns w ! j)"
  let ?l = "initiate_connection env at (?c, prx w)"
  have "at_slot j (initiate_connection env at) (at_slot j (\<lambda>(c, p). (hub_set_connection_type ct c, p)) w)
      = w\<lparr>conns := (conns w)[j := fst ?l], prx := snd ?l\<rparr>"
    using assms(2) by (simp add: at_slot_def split_beta)
  moreover have "j = i \<longrightarrow> \<not> alive W t (conns w ! i, prx w)" using assms(1) by (auto simp: alive_def phase_def)
  ultimately show ?thesis by (simp add: stays_other grows_initiate)
qed

lemma stays_connect:
  assumes wf: "slots_wf N w"
  shows "stays W t i w (connect_request env wc addr at w)"
proof -
  obtain r w1 where g: "get_connection addr True w = (r, w1)" by fastforce
  have w1: "stays W t i w w1" by (rule stays_get_connection [OF wf g])
  have a: "stays W t i w (on_prx (answer_device_disconnected env addr) w1)" by (rule stays_then_prx [OF w1]) simp
  show ?thesis
  proof (cases r)
    case None
    then show ?thesis using a g by (simp add: connect_request_def)
  next
    case (Some j)
    have j: "j < length (conns w1)" using get_connection_reserve [OF wf g] Some by simp
    show ?thesis
    proof (cases at)
      case None
      then show ?thesis using a g Some by (simp add: connect_request_def)
    next
      case ty: (Some ty)
      have r1: "stays W t i w (on_prx (send_connections_free env) (at_slot j (send_connected_reply env) w1))"
        by (intro stays_then_prx stays_then_at w1 attends_connected_reply) simp
      have r3: "stays W t i w (on_prx (send_connections_free env) (at_slot j (initiate_connection env k)
          (at_slot j (\<lambda>(c, p). (hub_set_connection_type ct c, p)) w1)))"
        if "client_state (conns w1 ! j) = CS_INIT" for ct k
        by (intro stays_then_prx stays_trans [OF w1 stays_initiate] that j) simp
      show ?thesis
        using g Some ty r1 r3 w1
        by (simp add: connect_request_def cancel_teardown_def cancel_gatt_disconnect_def Let_def)
    qed
  qed
qed

text \<open>The other requests.\<close>

lemma stays_disconnect_slot:
  assumes "window W t env"
  shows "stays W t i w (at_slot j (hub_disconnect env) w)"
  by (rule stays_at [OF attends_disconnect [OF assms]])

lemma stays_disconnect:
  assumes wf: "slots_wf N w" and win: "window W t env"
  shows "stays W t i w (disconnect_request env addr w)"
proof (cases "fst (get_connection addr False w)")
  case None
  have "stays W t i w (on_prx (send_connections_free env) (on_prx (answer_device_disconnected env addr) w))"
    by (intro stays_then_prx stays_prx) simp_all
  then show ?thesis using None by (simp add: disconnect_request_def)
next
  case (Some j)
  show ?thesis
  proof (cases "client_state (conns w ! j) = CS_IDLE")
    case True
    let ?l = "set_address 0 (conns w ! j, prx w)"
    have at: "at_slot j (set_address 0) w = w\<lparr>conns := (conns w)[j := fst ?l], prx := snd ?l\<rparr>"
      by (simp add: at_slot_def split_beta)
    have "j = i \<longrightarrow> \<not> alive W t (conns w ! i, prx w)" using True by (auto simp: alive_def phase_def)
    then have "stays W t i w (at_slot j (set_address 0) w)" unfolding at
      by (intro stays_other) (simp_all add: set_address_def)
    then have "stays W t i w (on_prx (send_connections_free env)
        (on_prx (answer_device_disconnected env addr) (at_slot j (set_address 0) w)))"
      by (intro stays_then_prx) simp_all
    then show ?thesis using Some True by (simp add: disconnect_request_def)
  next
    case False
    then show ?thesis using Some stays_disconnect_slot [OF win] by (simp add: disconnect_request_def)
  qed
qed

lemma stays_pair: "stays W t i w (pair_request env addr w)"
proof (cases "fst (get_connection addr False w)")
  case None
  then show ?thesis by (simp add: pair_request_def stays_prx)
next
  case (Some j)
  obtain err c where h: "hub_pair env (conns w ! j) = (err, c)" by fastforce
  have "attends W t (conns w ! j, prx w) (c, prx w)" by (rule attends_plain [OF hub_pair_core [OF h]]) simp
  from stays_slot [OF this] have 1: "stays W t i w (at_slot j (\<lambda>(_, p). (c, p)) w)" by (simp add: at_slot_def)
  have "stays W t i w (on_prx (send_device_pairing env addr b e) (at_slot j (\<lambda>(_, p). (c, p)) w))" for b e
    by (rule stays_then_prx [OF 1]) simp
  then show ?thesis using Some h 1 by (simp add: pair_request_def stays_prx Let_def)
qed

lemma stays_unpair: "stays W t i w (unpair_request env addr w)"
proof -
  have "stays W t i w (if unpair_device env addr = CONN_OK then
                 (case fst (get_connection addr False w) of None \<Rightarrow> w
                  | Some j \<Rightarrow> at_slot j (\<lambda>(c, p). (c\<lparr>paired := False\<rparr>, p)) w) else w)"
    by (auto split: option.split intro!: stays_conn)
  from stays_then_prx [OF this] show ?thesis by (simp add: unpair_request_def Let_def)
qed

lemma stays_device_request:
  assumes "slots_wf N w" "window W t env"
  shows "stays W t i w (bluetooth_device_request env ty addr at w)"
  using stays_connect [OF assms(1)] stays_disconnect [OF assms(1,2)] stays_pair stays_unpair
  by (cases ty) (simp_all add: bluetooth_device_request_def stays_prx Let_def)

lemma stays_gatt_op:
  assumes f: "\<And>l rc l'. f l = (rc, l') \<Longrightarrow> attends W t l l'"
  shows "stays W t i w (gatt_op_request env addr h f w)"
proof -
  have "attends W t l (let (err, l) = f l in if err \<noteq> CONN_OK then hub_send_gatt_error env h err l else l)" for l
    using f [of l] attends_trans [OF _ attends_error] by (auto simp: Let_def split: prod.splits)
  from stays_at [OF this] show ?thesis by (auto simp: gatt_op_request_def intro: stays_prx split: option.split)
qed

lemma stays_gatt_ops:
  "stays W t i w (bluetooth_gatt_read env addr h w)"
  "stays W t i w (bluetooth_gatt_write env addr h d r w)"
  "stays W t i w (bluetooth_gatt_read_descriptor env addr h w)"
  "stays W t i w (bluetooth_gatt_write_descriptor env addr h d w)"
  "stays W t i w (bluetooth_gatt_notify env addr h b w)"
  unfolding bluetooth_gatt_read_def bluetooth_gatt_write_def bluetooth_gatt_read_descriptor_def
    bluetooth_gatt_write_descriptor_def bluetooth_gatt_notify_def
  by (rule stays_gatt_op; unfold hub_read_characteristic_def hub_write_characteristic_def
      hub_read_descriptor_def hub_write_descriptor_def hub_notify_characteristic_def;
      erule attends_request; simp)+

lemma stays_services: "stays W t i w (bluetooth_gatt_send_services env addr w)"
  by (auto simp: bluetooth_gatt_send_services_def stays_prx split: option.split
      intro: stays_at [OF attends_services])

lemma stays_params: "stays W t i w (bluetooth_set_connection_params env addr x y z u w)"
proof -
  have s: "stays W t i w (on_prx (\<lambda>p. snd (send_message env cl (Connection_params addr e) p)) w)" for cl e
    by (rule stays_prx) simp
  have "attends W t l (let (err, c, p) = hub_update_connection_params env x' y' z' u' l
             in (c, snd (send_message env cl (Connection_params addr err) p)))" for l x' y' z' u' cl
    using attends_params [of env x' y' z' u' l _ _ W t]
    by (auto simp: Let_def split: prod.splits intro: attends_post)
  from stays_at [OF this] s show ?thesis by (auto simp: bluetooth_set_connection_params_def split: option.split)
qed

text \<open>
  The loop, whose one message about the scanner is the one it owes: up to that message, and from
  it on, it is like the others.
\<close>

lemma hub_at_slot [simp]: "hub (at_slot i f w) = hub w"
  by (simp add: at_slot_def split_beta)

lemma hub_for_slots: "(\<And>i w. hub (f i w) = hub w) \<Longrightarrow> hub (for_slots js f w) = hub w"
  by (induction js arbitrary: w) auto

definition resend_scanner :: "env \<Rightarrow> world \<Rightarrow> world" where
  "resend_scanner env w = on_prx (\<lambda>p. if scanner_state_pending p
     then send_scanner_state env (scanner_state (hub w)) (scan_active (hub w)) p else p) w"

lemma loop_shape:
  assumes win: "window W t env"
  shows "\<exists>v. hub v = hub w \<and> stays W t i w v \<and>
     (proxy_loop env w = v \<or> stays W t i (resend_scanner env v) (proxy_loop env w))"
proof -
  define w1 where "w1 = for_slots [0..<connection_count (prx w)] (\<lambda>i. at_slot i (process_pending_services env)) w"
  have 1: "stays W t i w w1" "hub w1 = hub w" unfolding w1_def
    by (rule stays_for, rule stays_at [OF attends_process [OF win]]) (simp add: hub_for_slots)
  define w2 where "w2 = on_prx (\<lambda>p. p\<lparr>last_advertisement_flush_time := clock env\<rparr>) w1"
  have 2: "stays W t i w w2" "hub w2 = hub w"
    unfolding w2_def by (rule stays_then_prx [OF 1(1)], simp add: grows_same) (simp add: 1)
  define w3 where "w3 = (case api_connection (prx w2) of
                      Some cl \<Rightarrow> if connections_free_pending (prx w2) then
                          on_prx (\<lambda>p. send_connections_free_to env cl (p\<lparr>connections_free_pending := False\<rparr>)) w2 else w2
                    | None \<Rightarrow> w2)"
  have "grows p (send_connections_free_to env cl (p\<lparr>connections_free_pending := False\<rparr>))" for p cl
    by (rule grows_trans [of _ "p\<lparr>connections_free_pending := False\<rparr>"]) (simp_all add: grows_same)
  from stays_then_prx [OF 2(1) this] 2 have 3: "stays W t i w w3" "hub w3 = hub w"
    unfolding w3_def by (simp_all split: option.split)
  define down where "down = for_slots [0..<connection_count (prx w)]
      (\<lambda>i w. if conn_address (conns w ! i) \<noteq> 0 then at_slot i (hub_disconnect env) w else w) w3"
  have down: "stays W t i w down" "hub down = hub w" unfolding down_def
    by (rule stays_then_for [OF 3(1)], simp add: stays_disconnect_slot [OF win]) (simp add: hub_for_slots 3)
  define w4 where "w4 = for_slots [0..<connection_count (prx w)] (\<lambda>i. at_slot i (flush_owed_replies env)) w3"
  have 4: "stays W t i w w4" "hub w4 = hub w" unfolding w4_def
    by (rule stays_then_for [OF 3(1)], rule stays_at [OF attends_owed]) (simp add: hub_for_slots 3)
  define w5 where "w5 = on_prx (drain_unpairing env) (on_prx (drain_disconnections env) w4)"
  have 5: "stays W t i w w5" "hub w5 = hub w"
    unfolding w5_def by (intro stays_then_prx 4) (simp_all add: 4)
  have up: "stays W t i (resend_scanner env w5) (on_prx (flush_advertisements_tick env cl) (resend_scanner env w5))" for cl
    by (rule stays_prx) simp
  have "proxy_loop env w = (if clock env - last_advertisement_flush_time (prx w1) < 100 then w1
      else case (if server_connected env then api_connection (prx w3) else None) of None \<Rightarrow> down
        | Some cl \<Rightarrow> on_prx (flush_advertisements_tick env cl) (resend_scanner env w5))"
    by (simp only: proxy_loop_def Let_def w1_def w2_def w3_def down_def w4_def w5_def resend_scanner_def)
  then consider "proxy_loop env w = w1" | "proxy_loop env w = down"
    | cl where "proxy_loop env w = on_prx (flush_advertisements_tick env cl) (resend_scanner env w5)"
    by (metis (no_types, lifting) option.case_eq_if)
  then show ?thesis
  proof cases
    case 1
    then show ?thesis using \<open>stays W t i w w1\<close> \<open>hub w1 = hub w\<close> by blast
  next
    case 2
    then show ?thesis using down by blast
  next
    case (3 cl)
    then show ?thesis using 5 up [of cl] by auto
  qed
qed

text \<open>What every operation keeps: messages about the scanner may be added.\<close>

definition stays_on :: "watch \<Rightarrow> nat \<Rightarrow> nat \<Rightarrow> world \<Rightarrow> world \<Rightarrow> bool" where
  "stays_on W t i w w' \<longleftrightarrow> length (conns w') = length (conns w) \<and> adds (prx w) (prx w') \<and>
     (alive W t (conns w ! i, prx w) \<longrightarrow> told W (prx w') \<or> alive W t (conns w' ! i, prx w'))"

lemma stays_is_on: "stays W t i w w' \<Longrightarrow> stays_on W t i w w'"
  by (auto simp: stays_def stays_on_def intro: grows_adds)

lemma told_adds: "told W p \<Longrightarrow> adds p p' \<Longrightarrow> told W p'"
  by (rule told_offers_more [OF _ adds_offers_more])

lemma stays_on_trans: "stays_on W t i w w1 \<Longrightarrow> stays_on W t i w1 w2 \<Longrightarrow> stays_on W t i w w2"
  by (auto simp: stays_on_def intro: adds_trans told_adds)

lemma stays_on_prx: "adds (prx w) (f (prx w)) \<Longrightarrow> stays_on W t i w (on_prx f w)"
  using alive_offers_more [OF same_core_refl adds_offers_more] by (auto simp: stays_on_def on_prx_def)

lemma stays_resend: "stays_on W t i w (resend_scanner env w)"
  unfolding resend_scanner_def by (rule stays_on_prx) (simp add: grows_adds)

lemma stays_loop:
  assumes "window W t env"
  shows "stays_on W t i w (proxy_loop env w)"
  using loop_shape [OF assms] stays_on_trans [OF stays_is_on stays_on_trans [OF stays_resend stays_is_on]] stays_is_on
  by metis

end
