(* ===== verification/OwedReplies.thy ===== *)
theory OwedReplies
  imports ProxyConnection
begin

text \<open>
  The replies a slot owes after the API refused them (bluetooth_connection_hub.cpp): they are offered
  again at every drain, a bounded number of times, and the connected reply always goes first. The
  budget is one interface (\<open>retry_latch\<close>), which both the acknowledgement latch and the owed
  services-done implement.
\<close>

section \<open>A bounded retry budget\<close>

text \<open>
  \<open>owed\<close>: a reply is owed; \<open>used\<close>: refusals counted so far; \<open>age\<close>: one more refusal; \<open>limit\<close>: the refusal
  that ends it.
\<close>

locale retry_latch =
  fixes owed :: "'s \<Rightarrow> bool" and used :: "'s \<Rightarrow> nat" and age :: "'s \<Rightarrow> 's" and limit :: nat
  assumes age_counts: "owed s \<Longrightarrow> Suc (used s) < limit \<Longrightarrow> owed (age s) \<and> used (age s) = Suc (used s)"
    and age_ends: "owed s \<Longrightarrow> Suc (used s) = limit \<Longrightarrow> \<not> owed (age s)"
begin

lemma after_refusals:
  assumes "owed s" and "used s < limit" and "k < limit - used s"
  shows "owed ((age ^^ k) s) \<and> used ((age ^^ k) s) = used s + k"
  using assms(3)
proof (induction k)
  case 0
  then show ?case using assms(1) by simp
next
  case (Suc k)
  then have "owed ((age ^^ k) s) \<and> used ((age ^^ k) s) = used s + k" by simp
  with age_counts [of "(age ^^ k) s"] Suc.prems show ?case by simp
qed

lemma abandoned:
  assumes "owed s" and "used s < limit"
  shows "\<not> owed ((age ^^ (limit - used s)) s)"
proof -
  obtain k where k: "limit - used s = Suc k" using assms(2) by (metis Suc_diff_Suc)
  then have "owed ((age ^^ k) s) \<and> used ((age ^^ k) s) = used s + k"
    using after_refusals [OF assms, of k] by simp
  with age_ends [of "(age ^^ k) s"] k show ?thesis by simp
qed

end

text \<open>The two latches of a connection.\<close>

interpretation ack: retry_latch has_pending_ack "\<lambda>c. unat (pending_ack_retries c)" age_pending_ack 250
proof
  fix c :: conn
  show "has_pending_ack c \<Longrightarrow> Suc (unat (pending_ack_retries c)) < 250 \<Longrightarrow>
      has_pending_ack (age_pending_ack c) \<and>
      unat (pending_ack_retries (age_pending_ack c)) = Suc (unat (pending_ack_retries c))"
    using unat_add_no_wrap [of "pending_ack_retries c" 1]
    by (auto simp: age_pending_ack_def has_pending_ack_def PENDING_ACK_RETRY_LIMIT_def word_le_nat_alt)
  show "has_pending_ack c \<Longrightarrow> Suc (unat (pending_ack_retries c)) = 250 \<Longrightarrow> \<not> has_pending_ack (age_pending_ack c)"
    using unat_add_no_wrap [of "pending_ack_retries c" 1]
    by (auto simp: age_pending_ack_def has_pending_ack_def PENDING_ACK_RETRY_LIMIT_def word_le_nat_alt
        clear_pending_ack_def)
qed

interpretation services_done: retry_latch "\<lambda>c. send_service c = SERVICES_DONE_PENDING"
    "\<lambda>c. unat (services_done_retries c)" age_services_done 30
proof
  fix c :: conn
  show "send_service c = SERVICES_DONE_PENDING \<Longrightarrow> Suc (unat (services_done_retries c)) < 30 \<Longrightarrow>
      send_service (age_services_done c) = SERVICES_DONE_PENDING \<and>
      unat (services_done_retries (age_services_done c)) = Suc (unat (services_done_retries c))"
    using unat_add_no_wrap [of "services_done_retries c" 1]
    by (auto simp: age_services_done_def SERVICES_DONE_RETRY_LIMIT_def word_le_nat_alt Let_def)
  show "send_service c = SERVICES_DONE_PENDING \<Longrightarrow> Suc (unat (services_done_retries c)) = 30 \<Longrightarrow>
      send_service (age_services_done c) \<noteq> SERVICES_DONE_PENDING"
    using unat_add_no_wrap [of "services_done_retries c" 1]
    by (auto simp: age_services_done_def SERVICES_DONE_RETRY_LIMIT_def word_le_nat_alt Let_def cursor_codes)
qed

section \<open>The drain under refusal\<close>

text \<open>The message of an owed acknowledgement; no other reply of a drain has its form.\<close>

definition ack_message :: "conn \<Rightarrow> api_message" where
  "ack_message c = (case pending_ack c of
     PENDING_ACK_WRITE \<Rightarrow> Gatt_write (conn_address c) (pending_ack_handle c)
   | PENDING_ACK_NOTIFY \<Rightarrow> Gatt_notify (conn_address c) (pending_ack_handle c)
   | _ \<Rightarrow> Gatt_error (conn_address c) (pending_ack_handle c) (pending_ack_error c))"

fun is_ack :: "client \<times> api_message \<times> bool \<Rightarrow> bool" where
  "is_ack (cl, Gatt_write a h, ok) \<longleftrightarrow> True"
| "is_ack (cl, Gatt_notify a h, ok) \<longleftrightarrow> True"
| "is_ack (cl, Gatt_error a h e, ok) \<longleftrightarrow> True"
| "is_ack x \<longleftrightarrow> False"

text \<open>An API connection that takes nothing.\<close>

definition refusing :: "env \<Rightarrow> client \<Rightarrow> link \<Rightarrow> bool" where
  "refusing env cl l \<longleftrightarrow> api_connection (snd l) = Some cl \<and> (\<forall>n m. \<not> accepts env n cl m)"

definition ack_state :: "conn \<Rightarrow> pending_ack \<times> u8 \<times> u16 \<times> int \<times> u64" where
  "ack_state c = (pending_ack c, pending_ack_retries c, pending_ack_handle c, pending_ack_error c, conn_address c)"

text \<open>One drain ages the acknowledgement, and offers it unless a connected reply is owed.\<close>

lemma drain_refused:
  assumes "refusing env cl (c, p)" and "flush_owed_replies env (c, p) = (c', p')"
  shows "refusing env cl (c', p') \<and> connected_reply_owed c' = connected_reply_owed c \<and>
     ack_state c' = ack_state (if has_pending_ack c then age_pending_ack c else c) \<and>
     (\<exists>new. offered p' = offered p @ new \<and>
        filter is_ack new = (if has_pending_ack c \<and> \<not> connected_reply_owed c then [(cl, ack_message c, False)] else []))"
proof (cases "connected_reply_owed c")
  case True
  then show ?thesis
    using assms
    by (auto simp: refusing_def flush_owed_replies_def send_connected_reply_def send_device_connection_def
        send_or_nobody_def send_message_def ack_state_def age_services_done_def age_pending_ack_def
        clear_pending_ack_def has_pending_ack_def Let_def split: if_splits)
next
  case False
  define l where "l = (if send_service c = SERVICES_DONE_PENDING then send_services_done env (c, p) else (c, p))"
  obtain c1 p1 where l: "l = (c1, p1)" by fastforce
  have 1: "ack_state c1 = ack_state c" "connected_reply_owed c1 = connected_reply_owed c"
    "api_connection p1 = Some cl" "\<exists>new. offered p1 = offered p @ new \<and> filter is_ack new = []"
    using l assms(1)
    by (auto simp: l_def refusing_def send_services_done_def send_gatt_services_done_def send_or_nobody_def
        send_message_def ack_state_def age_services_done_def Let_def split: if_splits)
  have same: "has_pending_ack c1 = has_pending_ack c" "ack_message c1 = ack_message c"
    "ack_state (age_pending_ack c1) = ack_state (age_pending_ack c)"
    using 1(1) by (auto simp: ack_state_def has_pending_ack_def ack_message_def age_pending_ack_def clear_pending_ack_def Let_def
        split: pending_ack.splits)
  have "flush_owed_replies env (c, p) = (if has_pending_ack c1
      then (age_pending_ack c1, p1\<lparr>offered := offered p1 @ [(cl, ack_message c1, False)]\<rparr>) else (c1, p1))"
    using False assms(1) 1(3) l unfolding l_def
    by (auto simp: refusing_def flush_owed_replies_def flush_pending_ack_def try_send_ack_def send_gatt_error_def
        send_or_nobody_def send_message_def has_pending_ack_def ack_message_def Let_def split: pending_ack.splits)
  moreover have "is_ack (cl, ack_message c, False)" by (cases "pending_ack c") (simp_all add: ack_message_def)
  moreover have "connected_reply_owed (age_pending_ack c1) = connected_reply_owed c1"
    by (simp add: age_pending_ack_def clear_pending_ack_def Let_def)
  ultimately show ?thesis
    using assms 1 same False by (auto simp: refusing_def split: if_splits)
qed

text \<open>So the drain itself is a bounded retry, whatever else is owed.\<close>

definition ack_owed :: "env \<Rightarrow> client \<Rightarrow> link \<Rightarrow> bool" where
  "ack_owed env cl l \<longleftrightarrow> refusing env cl l \<and> has_pending_ack (fst l)"

lemma ack_state_eq:
  assumes "ack_state c = ack_state d"
  shows "has_pending_ack c = has_pending_ack d" "pending_ack_retries c = pending_ack_retries d"
    and "ack_message c = ack_message d"
  using assms by (simp_all add: ack_state_def has_pending_ack_def) (simp add: ack_message_def split: pending_ack.splits)

lemma age_keeps_message: "has_pending_ack (age_pending_ack c) \<Longrightarrow> ack_message (age_pending_ack c) = ack_message c"
  by (auto simp: age_pending_ack_def clear_pending_ack_def has_pending_ack_def ack_message_def Let_def
      split: if_splits pending_ack.splits)

lemma drain_ages:
  assumes "ack_owed env cl l"
  shows "refusing env cl (flush_owed_replies env l)"
    and "has_pending_ack (fst (flush_owed_replies env l)) = has_pending_ack (age_pending_ack (fst l))"
    and "pending_ack_retries (fst (flush_owed_replies env l)) = pending_ack_retries (age_pending_ack (fst l))"
proof -
  obtain c p c' p' where l: "l = (c, p)" "flush_owed_replies env l = (c', p')" by fastforce
  then have *: "refusing env cl (c', p')" "ack_state c' = ack_state (age_pending_ack c)"
    using drain_refused [of env cl c p c' p'] assms by (auto simp: ack_owed_def)
  show "refusing env cl (flush_owed_replies env l)"
    "has_pending_ack (fst (flush_owed_replies env l)) = has_pending_ack (age_pending_ack (fst l))"
    "pending_ack_retries (fst (flush_owed_replies env l)) = pending_ack_retries (age_pending_ack (fst l))"
    using *(1) ack_state_eq [OF *(2)] l by simp_all
qed

interpretation drains: retry_latch "ack_owed env cl" "\<lambda>l. unat (pending_ack_retries (fst l))" "flush_owed_replies env" 250
  for env cl
proof
  fix l
  assume owed: "ack_owed env cl l"
  note ages = drain_ages [OF owed]
  have has: "has_pending_ack (fst l)" using owed by (simp add: ack_owed_def)
  show "ack_owed env cl (flush_owed_replies env l) \<and>
      unat (pending_ack_retries (fst (flush_owed_replies env l))) = Suc (unat (pending_ack_retries (fst l)))"
    if "Suc (unat (pending_ack_retries (fst l))) < 250"
    using ack.age_counts [OF has that] ages by (simp add: ack_owed_def)
  show "\<not> ack_owed env cl (flush_owed_replies env l)" if "Suc (unat (pending_ack_retries (fst l))) = 250"
    using ack.age_ends [OF has that] ages by (simp add: ack_owed_def)
qed

lemma drains_owed:
  assumes "ack_owed env cl l" and "pending_ack_retries (fst l) = 0"
  shows "refusing env cl ((flush_owed_replies env ^^ k) l) \<and>
     has_pending_ack (fst ((flush_owed_replies env ^^ k) l)) = (k < 250)"
proof (induction k)
  case 0
  then show ?case using assms(1) by (simp add: ack_owed_def)
next
  case (Suc k)
  obtain c p c' p' where l: "(flush_owed_replies env ^^ k) l = (c, p)" "flush_owed_replies env (c, p) = (c', p')"
    by fastforce
  have D: "refusing env cl (c', p')" "ack_state c' = ack_state (if has_pending_ack c then age_pending_ack c else c)"
    using drain_refused [OF _ l(2), of cl] Suc l(1) by auto
  consider "Suc k < 250" | "Suc k = 250" | "250 \<le> k" by linarith
  then show ?case
  proof cases
    case 1
    then show ?thesis using drains.after_refusals [OF assms(1), of "Suc k"] assms(2) by (simp add: ack_owed_def)
  next
    case 2
    then show ?thesis using drains.abandoned [OF assms(1)] assms(2) l D(1) by (simp add: ack_owed_def flip: 2)
  next
    case 3
    then show ?thesis using ack_state_eq(1) [OF D(2)] D(1) Suc l by simp
  qed
qed

lemma drains_offer:
  assumes "ack_owed env cl (c, p)" and "pending_ack_retries c = 0" and "(flush_owed_replies env ^^ k) (c, p) = (c', p')"
  shows "connected_reply_owed c' = connected_reply_owed c \<and> (k < 250 \<longrightarrow> ack_message c' = ack_message c) \<and>
     (\<exists>new. offered p' = offered p @ new \<and> filter is_ack new
        = (if connected_reply_owed c then [] else replicate (min k 250) (cl, ack_message c, False)))"
  using assms(3)
proof (induction k arbitrary: c' p')
  case (Suc k)
  obtain c1 p1 where l: "(flush_owed_replies env ^^ k) (c, p) = (c1, p1)" "flush_owed_replies env (c1, p1) = (c', p')"
    using Suc.prems by (metis funpow.simps(2) comp_apply surj_pair)
  have H: "refusing env cl (c1, p1)" "has_pending_ack c1 = (k < 250)" "has_pending_ack c' = (Suc k < 250)"
    using drains_owed [OF assms(1), of k] drains_owed [OF assms(1), of "Suc k"] assms(2) l by simp_all
  obtain new where IH: "connected_reply_owed c1 = connected_reply_owed c"
    "k < 250 \<longrightarrow> ack_message c1 = ack_message c" "offered p1 = offered p @ new"
    "filter is_ack new = (if connected_reply_owed c then [] else replicate (min k 250) (cl, ack_message c, False))"
    using Suc.IH [OF l(1)] by blast
  obtain new' where D: "connected_reply_owed c' = connected_reply_owed c1"
    "ack_state c' = ack_state (if has_pending_ack c1 then age_pending_ack c1 else c1)" "offered p' = offered p1 @ new'"
    "filter is_ack new' = (if has_pending_ack c1 \<and> \<not> connected_reply_owed c1 then [(cl, ack_message c1, False)] else [])"
    using drain_refused [OF H(1) l(2)] by blast
  have "ack_message c' = ack_message c" if "Suc k < 250"
    using ack_state_eq [OF D(2)] age_keeps_message [of c1] H(2,3) IH(2) that by simp
  moreover have "filter is_ack (new @ new')
      = (if connected_reply_owed c then [] else replicate (min (Suc k) 250) (cl, ack_message c, False))"
    using IH D(4) H(2) by (auto simp: min_def replicate_append_same)
  ultimately show ?case using D(1,3) IH(1,3) by (auto intro!: exI [of _ "new @ new'"])
qed simp

section \<open>Properties\<close>

text \<open>
  C32. An acknowledgement the API refuses is owed for exactly 250 drains. While the API keeps refusing
  whatever it is offered, it is still owed after any 249 drains and is abandoned at the 250th, whatever
  else the slot owes. If a connected reply is owed too, the budget runs out without one offer of the
  acknowledgement; otherwise each of these drains offers it once more, the same message, and no
  later drain does.
\<close>

theorem ack_retry_bounded:
  assumes "has_pending_ack c" and "pending_ack_retries c = 0"
    and "api_connection p = Some cl" and "\<forall>n m. \<not> accepts env n cl m"
  shows "case (flush_owed_replies env ^^ k) (c, p) of (c', p') \<Rightarrow>
     has_pending_ack c' = (k < 250) \<and>
     (\<exists>new. offered p' = offered p @ new \<and> filter is_ack new
        = (if connected_reply_owed c then [] else replicate (min k 250) (cl, ack_message c, False)))"
proof -
  have "ack_owed env cl (c, p)" using assms by (simp add: ack_owed_def refusing_def)
  from drains_owed [OF this, of k] drains_offer [OF this assms(2), of k] assms(2) show ?thesis
    by (auto split: prod.split)
qed

definition acked_example :: conn where
  "acked_example = latch_pending_ack PENDING_ACK_WRITE 42 0
     (conn_init\<lparr>client_state := CS_ESTABLISHED, conn_address := 5\<rparr>)"

theorem ack_retry_bounded_witness:
  "case (flush_owed_replies (env_example False) ^^ 300) (acked_example, proxy_example) of (c', p') \<Rightarrow>
     \<not> has_pending_ack c' \<and> length (filter is_ack (offered p')) = 250"
proof -
  have h: "has_pending_ack acked_example" "pending_ack_retries acked_example = 0"
    "\<not> connected_reply_owed acked_example"
    by (simp_all add: acked_example_def latch_pending_ack_def has_pending_ack_def conn_init_def)
  obtain c' p' where e: "(flush_owed_replies (env_example False) ^^ 300) (acked_example, proxy_example) = (c', p')"
    by fastforce
  have "\<forall>n m. \<not> accepts (env_example False) n 1 m" by (simp add: env_example_def)
  from ack_retry_bounded [OF h(1,2) proxy_example_facts(3) this, of 300] show ?thesis
    using h(3) unfolding e by (auto simp: proxy_example_facts)
qed

text \<open>
  C31. While a connected reply is owed it goes first: a drain offers it, and if it is refused
  nothing else is offered in that drain; so no acknowledgement and no services-done reaches the client
  before it was told of the link.
\<close>

theorem connected_reply_first:
  assumes "connected_reply_owed c" and "api_connection p = Some cl"
  shows "case flush_owed_replies env (c, p) of (c', p') \<Rightarrow>
     (\<exists>taken rest. offered p' = offered p @ (cl, Device_connection (conn_address c) True (att_mtu c) CONN_OK, taken) # rest \<and>
        connected_reply_owed c' = (\<not> taken) \<and> (taken \<or> rest = []))"
proof -
  let ?m = "Device_connection (conn_address c) True (att_mtu c) CONN_OK"
  let ?ok = "accepts env (length (offered p)) cl ?m"
  let ?p = "p\<lparr>offered := offered p @ [(cl, ?m, ?ok)]\<rparr>"
  have r: "send_connected_reply env (c, p) = (c\<lparr>connected_reply_owed := \<not> ?ok\<rparr>, ?p)"
    using assms(2) by (simp add: send_connected_reply_def send_device_connection_def send_or_nobody_def
        send_message_def Let_def)
  have grow: "\<exists>rest. offered (snd (flush_pending_ack env (x, q))) = offered q @ rest \<and>
      connected_reply_owed (fst (flush_pending_ack env (x, q))) = connected_reply_owed x" for x q
    by (auto simp: flush_pending_ack_def try_send_ack_def send_gatt_error_def send_or_nobody_def send_message_def
        clear_pending_ack_def age_pending_ack_def Let_def split: pending_ack.splits option.splits)
  have grow2: "\<exists>rest. offered (snd (send_services_done env (x, q))) = offered q @ rest \<and>
      connected_reply_owed (fst (send_services_done env (x, q))) = connected_reply_owed x" for x q
    by (auto simp: send_services_done_def send_gatt_services_done_def send_or_nobody_def send_message_def
        age_services_done_def Let_def split: option.splits)
  show ?thesis
  proof (cases ?ok)
    case False
    then show ?thesis using r assms(1)
      by (auto simp: flush_owed_replies_def Let_def age_services_done_def age_pending_ack_def clear_pending_ack_def)
  next
    case True
    let ?c = "c\<lparr>connected_reply_owed := False\<rparr>" and ?p = "p\<lparr>offered := offered p @ [(cl, ?m, True)]\<rparr>"
    define l2 where "l2 = (if send_service ?c = SERVICES_DONE_PENDING then send_services_done env (?c, ?p) else (?c, ?p))"
    obtain c2 p2 where 2: "l2 = (c2, p2)" by fastforce
    have o2: "\<exists>rest. offered p2 = offered ?p @ rest \<and> \<not> connected_reply_owed c2"
      using grow2 [of ?c ?p] 2 by (auto simp: l2_def split: if_splits)
    have f: "flush_owed_replies env (c, p) = (if has_pending_ack c2 then flush_pending_ack env (c2, p2) else (c2, p2))"
      using r True assms(1) 2 by (simp add: flush_owed_replies_def l2_def Let_def)
    obtain ra where ra: "offered p2 = offered p @ (cl, ?m, True) # ra" "\<not> connected_reply_owed c2"
      using o2 by auto
    obtain rb where rb: "offered (snd (flush_pending_ack env (c2, p2))) = offered p2 @ rb"
      "connected_reply_owed (fst (flush_pending_ack env (c2, p2))) = connected_reply_owed c2"
      using grow [of c2 p2] by blast
    obtain rest where R: "offered (snd (flush_owed_replies env (c, p))) = offered p @ (cl, ?m, True) # rest"
      "\<not> connected_reply_owed (fst (flush_owed_replies env (c, p)))"
      using ra rb unfolding f by (cases "has_pending_ack c2") simp_all
    obtain c3 p3 where 3: "flush_owed_replies env (c, p) = (c3, p3)" by fastforce
    show ?thesis unfolding 3 using R unfolding 3 by auto
  qed
qed

theorem connected_reply_first_witness:
  "case flush_owed_replies (env_example False) (acked_example\<lparr>connected_reply_owed := True\<rparr>, proxy_example) of (c', p') \<Rightarrow>
     (\<exists>taken rest. offered p' = offered proxy_example @ (1, Device_connection 5 True 23 CONN_OK, taken) # rest)"
  using connected_reply_first [of "acked_example\<lparr>connected_reply_owed := True\<rparr>" proxy_example 1 "env_example False"]
  by (auto simp: acked_example_def latch_pending_ack_def conn_init_def DEFAULT_ATT_MTU_def proxy_example_facts
      split: prod.splits)

end
