(* ===== verification/ProxyProperties.thy ===== *)
theory ProxyProperties
  imports ProxySlots OwedReplies
begin

text \<open>
  The properties of the proxy as a whole: the slot accounting over any history, the loss of a link as the
  composition of the backend, the connection and the proxy, the change of subscriber, the batching of raw
  advertisements, and the slot a connect request without an address type keeps.
\<close>

section \<open>The initial world\<close>

lemma registered:
  assumes "prx w = proxy_init slots batch wifi act" and "conns w = []" and "n \<le> slots"
  shows "prx ((register_connection conn_init ^^ n) w) = (proxy_init slots batch wifi act)\<lparr>connection_count := n\<rparr> \<and>
         conns ((register_connection conn_init ^^ n) w) = map (\<lambda>i. conn_init\<lparr>connection_index := i\<rparr>) [0..<n]"
  using assms(3)
proof (induction n)
  case 0
  then show ?case using assms(1,2) by (simp add: proxy_init_def)
next
  case (Suc n)
  define v where "v = (register_connection conn_init ^^ n) w"
  have "prx v = (proxy_init slots batch wifi act)\<lparr>connection_count := n\<rparr>"
    "conns v = map (\<lambda>i. conn_init\<lparr>connection_index := i\<rparr>) [0..<n]"
    using Suc unfolding v_def by simp_all
  moreover have e: "(register_connection conn_init ^^ Suc n) w = register_connection conn_init v"
    by (simp add: v_def)
  ultimately show ?case
    unfolding e using Suc.prems by (simp add: register_connection_def Let_def proxy_init_def)
qed

lemma slots_wf_init:
  assumes "n \<le> slots" and "slots < 2 ^ 32"
  shows "slots_wf slots (world_init n slots batch wifi act t) \<and>
         length (conns (world_init n slots batch wifi act t)) = n"
proof -
  define w where "w = (register_connection conn_init ^^ n) \<lparr>prx = proxy_init slots batch wifi act, conns = [], hub = t\<rparr>"
  have W: "prx w = (proxy_init slots batch wifi act)\<lparr>connection_count := n\<rparr>"
    "conns w = map (\<lambda>i. conn_init\<lparr>connection_index := i\<rparr>) [0..<n]"
    unfolding w_def using registered [of "\<lparr>prx = proxy_init slots batch wifi act, conns = [], hub = t\<rparr>"] assms(1)
    by simp_all
  have z: "conn_address c = 0" if "c \<in> set (conns w)" for c
    using that unfolding W(2) by (auto simp: conn_init_def)
  have "\<Sum>\<^sub># (mset (map (\<lambda>c. dev (conn_address c)) cs)) = {#}" if "\<forall>c \<in> set cs. conn_address c = 0" for cs
    using that by (induction cs) (simp_all add: dev_def)
  then have "addresses w = {#}" unfolding addresses_def using z by blast
  then have a: "addresses (proxy_setup w) = {#}" by (simp add: addresses_def proxy_setup_def Let_def)
  have i: "world_init n slots batch wifi act t = proxy_setup w" by (simp add: world_init_def w_def)
  have "conn_address (conns w ! j) = 0" if "j < n" for j
    using z [of "conns w ! j"] that unfolding W(2) by (metis W(2) diff_zero length_map length_upt nth_mem)
  then show ?thesis
    unfolding i slots_wf_def a books_def using assms W
    by (simp add: proxy_setup_def Let_def proxy_init_def)
qed

section \<open>What the books say\<close>

lemma addresses_occupied:
  "addresses w = mset (filter (\<lambda>a. a \<noteq> 0) (map conn_address (conns w)))"
proof -
  have "\<Sum>\<^sub># (mset (map (\<lambda>c. dev (conn_address c)) cs)) = mset (filter (\<lambda>a. a \<noteq> 0) (map conn_address cs))" for cs
    by (induction cs) (simp_all add: dev_def)
  then show ?thesis by (simp add: addresses_def)
qed

definition occupied :: "world \<Rightarrow> u64 list" where
  "occupied w = filter (\<lambda>a. a \<noteq> 0) (map conn_address (conns w))"

lemma slots_wf_says:
  assumes "slots_wf N w"
  shows "unat (cf_free (free_response (prx w))) = N - length (occupied w)"
    and "mset (filter (\<lambda>a. a \<noteq> 0) (cf_allocated (free_response (prx w)))) = mset (occupied w)"
    and "length (cf_allocated (free_response (prx w))) = N"
    and "distinct (occupied w)"
    and "length (occupied w) \<le> N"
proof -
  have b: "books (addresses w) (prx w)" using assms by (simp add: slots_wf_def)
  have o: "addresses w = mset (occupied w)" by (simp add: addresses_occupied occupied_def)
  have N: "max_connections (prx w) = N" using assms by (simp add: slots_wf_def)
  have n: "N - length (occupied w) < 2 ^ 32" using b N by (simp add: books_def less_imp_diff_less)
  show "unat (cf_free (free_response (prx w))) = N - length (occupied w)"
    using b n unfolding books_def o N by (metis size_mset unat_of_nat_u32)
  show le: "length (occupied w) \<le> N" using b unfolding books_def o N by simp
  have A: "mset (cf_allocated (free_response (prx w)))
      = mset (occupied w) + replicate_mset (N - length (occupied w)) 0"
    using b unfolding books_def o N by simp
  then have "size (mset (cf_allocated (free_response (prx w)))) = N"
    using le by simp
  then show "length (cf_allocated (free_response (prx w))) = N" by simp
  have "mset (filter (\<lambda>a. a \<noteq> 0) (cf_allocated (free_response (prx w)))) = filter_mset (\<lambda>a. a \<noteq> 0) (mset (occupied w))"
    unfolding mset_filter A by simp
  also have "\<dots> = mset (occupied w)" by (simp add: occupied_def flip: mset_filter)
  finally show "mset (filter (\<lambda>a. a \<noteq> 0) (cf_allocated (free_response (prx w)))) = mset (occupied w)" .
  have "distinct (filter (\<lambda>a. a \<noteq> 0) xs)"
    if "\<forall>i < length xs. \<forall>j < length xs. xs ! i = xs ! j \<and> xs ! i \<noteq> 0 \<longrightarrow> i = j" for xs :: "u64 list"
    using that
  proof (induction xs)
    case (Cons x xs)
    have "\<forall>i < length xs. \<forall>j < length xs. xs ! i = xs ! j \<and> xs ! i \<noteq> 0 \<longrightarrow> i = j"
    proof (intro allI impI)
      fix i j assume "i < length xs" "j < length xs" "xs ! i = xs ! j \<and> xs ! i \<noteq> 0"
      then show "i = j" using Cons.prems [rule_format, of "Suc i" "Suc j"] by auto
    qed
    moreover have "x \<notin> set xs" if "x \<noteq> 0"
    proof
      assume "x \<in> set xs"
      then obtain i where "i < length xs" "xs ! i = x" by (auto simp: in_set_conv_nth)
      then show False using Cons.prems [rule_format, of 0 "Suc i"] that by simp
    qed
    ultimately show ?case using Cons.IH by auto
  qed simp
  moreover have "\<forall>i < length (map conn_address (conns w)). \<forall>j < length (map conn_address (conns w)).
      map conn_address (conns w) ! i = map conn_address (conns w) ! j \<and> map conn_address (conns w) ! i \<noteq> 0 \<longrightarrow> i = j"
  proof -
    have "\<forall>i < length (conns w). \<forall>j < length (conns w).
        conn_address (conns w ! i) = conn_address (conns w ! j) \<and> conn_address (conns w ! i) \<noteq> 0 \<longrightarrow> i = j"
      using assms unfolding slots_wf_def by blast
    then show ?thesis by simp
  qed
  ultimately show "distinct (occupied w)" unfolding occupied_def by blast
qed

text \<open>
  C2. The connections-free message is right at every moment. From the start, after any sequence of API
  requests, subscriptions, loops, advertisements, backend events and timeouts, it says exactly which
  devices hold a slot and how many slots are free; its count never leaves its range, and no device is
  ever given two slots.
\<close>

theorem slots_accounted:
  assumes "n \<le> slots" and "slots < 2 ^ 32"
  shows "let w = fst (run_ops world_step xs (world_init n slots batch wifi act t)); r = free_response (prx w) in
     unat (cf_free r) = slots - length (occupied w) \<and> length (occupied w) \<le> n \<and>
     cf_limit r = of_nat slots \<and> length (cf_allocated r) = slots \<and>
     mset (filter (\<lambda>a. a \<noteq> 0) (cf_allocated r)) = mset (occupied w) \<and> distinct (occupied w)"
proof -
  define w where "w = fst (run_ops world_step xs (world_init n slots batch wifi act t))"
  have w: "slots_wf slots w" "length (conns w) = n"
    unfolding w_def using proxy.run_inv slots_wf_init [OF assms] by blast+
  have "length (occupied w) \<le> n" unfolding occupied_def using w(2) by (metis length_filter_le length_map)
  moreover have "cf_limit (free_response (prx w)) = of_nat slots" using w(1) by (simp add: slots_wf_def books_def)
  ultimately show ?thesis
    unfolding w_def [symmetric] Let_def using slots_wf_says [OF w(1)] by simp
qed

theorem slots_accounted_witness:
  "let w = fst (run_ops world_step
         [Subscribe (env_example True) 1, Device_request (env_example True) CONNECT_V3_WITHOUT_CACHE 5 (Some 0)]
         (world_init 2 3 16 True True tracker_init));
       r = free_response (prx w) in
     unat (cf_free r) = 3 - length (occupied w) \<and> length (occupied w) \<le> 2 \<and>
     cf_limit r = of_nat 3 \<and> length (cf_allocated r) = 3 \<and>
     mset (filter (\<lambda>a. a \<noteq> 0) (cf_allocated r)) = mset (occupied w) \<and> distinct (occupied w)"
  by (rule slots_accounted) simp_all

section \<open>The loss of a link\<close>

text \<open>
  When the backend of a slot finds its link or its attempt gone, and with which reason: a disconnect
  event, a connect event with an error not yet reported, a connect deadline that passed.
\<close>

fun down_reason :: "world_op \<Rightarrow> engine \<Rightarrow> int option" where
  "down_reason (Backend_event env i ev) e =
     (if ge_type ev = EV_DISCONNECT then Some (ge_status ev)
      else if ge_type ev = EV_CONNECT \<and> ge_status ev \<noteq> 0 \<and> \<not> connect_result_reported e then Some (ge_status ev)
      else None)"
| "down_reason (Backend_poll env i) e =
     (if fsm_state (fsm e) = CONNECTING \<and> deadline_ms (fsm e) \<noteq> 0 \<and> deadline_ms (fsm e) \<le> clock env \<and>
         \<not> connect_result_reported e then Some BLE_HS_ETIMEOUT else None)"
| "down_reason _ e = None"

fun op_slot :: "world_op \<Rightarrow> nat" where
  "op_slot (Backend_event env i ev) = i"
| "op_slot (Backend_poll env i) = i"
| "op_slot _ = 0"

fun op_env :: "world_op \<Rightarrow> env option" where
  "op_env (Backend_event env i ev) = Some env"
| "op_env (Backend_poll env i) = Some env"
| "op_env _ = None"

lemma goes_down:
  assumes "down_reason x (backend (conns w ! op_slot x)) = Some err" and "op_slot x < length (conns w)"
    and "listener (backend (conns w ! op_slot x))"
  shows "\<exists>env e calls. op_env x = Some env \<and> world_next x w =
     at_slot (op_slot x) (\<lambda>(c, p). on_connection_state env False 0 err (c\<lparr>backend := e, host_calls := calls\<rparr>, p)) w"
proof -
  let ?e = "backend (conns w ! op_slot x)"
  have at: "at_slot i f w = at_slot i (\<lambda>(c, p). on_connection_state env False 0 err
        (c\<lparr>backend := e, host_calls := calls\<rparr>, p)) w"
    if "f (conns w ! i, prx w) = on_connection_state env False 0 err ((conns w ! i)\<lparr>backend := e, host_calls := calls\<rparr>, prx w)"
    for f env e calls i
    using that by (simp add: at_slot_def)
  show ?thesis
  proof (cases x)
    case (Backend_event env i ev)
    then have "\<exists>e out. handle_gatt_event (stk env) (clock env) ev ?e = Some (e, out) \<and>
        listeners_of out = [ON_CONNECTION_STATE False 0 err]"
      using assms by (auto simp: handle_gatt_event_def finish_connect_def finish_disconnect_def tell_def fsm_fire_def
          Let_def split: if_splits)
    then obtain e out where "handle_gatt_event (stk env) (clock env) ev ?e = Some (e, out)"
      "listeners_of out = [ON_CONNECTION_STATE False 0 err]" by blast
    then have "(case backend_event env ev (conns w ! i, prx w) of None \<Rightarrow> (conns w ! i, prx w) | Some l' \<Rightarrow> l')
        = on_connection_state env False 0 err
            ((conns w ! i)\<lparr>backend := e, host_calls := host_calls (conns w ! i) @ stacks out\<rparr>, prx w)"
      using Backend_event by (simp add: backend_event_def on_listener_call_def)
    from at [where f = "\<lambda>l. case backend_event env ev l of None \<Rightarrow> l | Some l' \<Rightarrow> l'", OF this]
    show ?thesis using Backend_event assms(2) by auto
  next
    case (Backend_poll env i)
    then have "\<exists>e out. poll_deadline (clock env) ?e = (e, out) \<and>
        listeners_of out = [ON_CONNECTION_STATE False 0 err]"
      using assms by (auto simp: poll_deadline_def poll_timeout_def has_deadline_def handle_event_def tell_def
          Let_def split: if_splits)
    then obtain e out where "poll_deadline (clock env) ?e = (e, out)"
      "listeners_of out = [ON_CONNECTION_STATE False 0 err]" by blast
    then have "backend_poll env (conns w ! i, prx w) = on_connection_state env False 0 err
            ((conns w ! i)\<lparr>backend := e, host_calls := host_calls (conns w ! i) @ stacks out\<rparr>, prx w)"
      using Backend_poll by (simp add: backend_poll_def on_listener_call_def)
    from at [where f = "backend_poll env", OF this] show ?thesis using Backend_poll assms(2) by auto
  qed (use assms(1) in simp_all)
qed


lemma latched:
  assumes "0 < connection_count p" and "connection_count p \<le> length (pending_disconnections p)"
  shows "\<exists>k < length (pending_disconnections (latch_pending_disconnection addr err p)).
     pending_disconnections (latch_pending_disconnection addr err p) ! k = reply_set addr err"
proof -
  have "\<exists>k < connection_count p. latch_pending_disconnection addr err p = set_entry k (reply_set addr err) p"
    using find_entry_Some [of "reply_matches addr" p] find_entry_Some [of reply_empty p] assms(1)
    by (auto simp: latch_pending_disconnection_def split: option.split)
  then obtain k where "k < connection_count p" "latch_pending_disconnection addr err p = set_entry k (reply_set addr err) p"
    by blast
  then show ?thesis using assms(2) by (intro exI [of _ k]) (simp add: set_entry_def)
qed

lemma connections_free_offered:
  assumes "api_connection p = Some cl"
  shows "\<exists>counted. offered (send_connections_free env p) = offered p @ [(cl, Connections_free (free_response p), counted)] \<and>
     (\<not> counted \<longrightarrow> connections_free_pending (send_connections_free env p)) \<and>
     free_response (send_connections_free env p) = free_response p \<and>
     pending_disconnections (send_connections_free env p) = pending_disconnections p"
  using assms by (auto simp: send_connections_free_def send_connections_free_to_def send_message_def Let_def)

lemma disconnect_offered:
  assumes "api_connection p = Some cl" and "0 < connection_count p"
    and "connection_count p \<le> length (pending_disconnections p)"
  shows "\<exists>told. offered (send_device_disconnected env a err p) = offered p @ [(cl, Device_connection a False 0 err, told)] \<and>
     (\<not> told \<longrightarrow> (\<exists>k < length (pending_disconnections (send_device_disconnected env a err p)).
        pending_disconnections (send_device_disconnected env a err p) ! k = reply_set a err)) \<and>
     api_connection (send_device_disconnected env a err p) = Some cl"
proof -
  define ok where "ok = accepts env (length (offered p)) cl (Device_connection a False 0 err)"
  define q where "q = p\<lparr>offered := offered p @ [(cl, Device_connection a False 0 err, ok)]\<rparr>"
  have s: "send_device_disconnected env a err p
      = (if ok then clear_pending_disconnection a q else latch_pending_disconnection a err q)"
    using assms(1) by (simp add: send_device_disconnected_def send_device_connection_def send_or_nobody_def
        send_message_def q_def ok_def Let_def)
  have "offered (clear_pending_disconnection a q) = offered q" "offered (latch_pending_disconnection a err q) = offered q"
    "api_connection (clear_pending_disconnection a q) = api_connection q"
    "api_connection (latch_pending_disconnection a err q) = api_connection q"
    by (simp_all add: clear_pending_disconnection_def latch_pending_disconnection_def split: option.splits)
  moreover have "offered q = offered p @ [(cl, Device_connection a False 0 err, ok)]" "api_connection q = Some cl"
    using assms(1) by (simp_all add: q_def)
  moreover have "\<exists>k < length (pending_disconnections (latch_pending_disconnection a err q)).
      pending_disconnections (latch_pending_disconnection a err q) ! k = reply_set a err"
    by (rule latched) (use assms(2,3) in \<open>simp_all add: q_def\<close>)
  ultimately show ?thesis unfolding s by (intro exI [of _ ok]) simp
qed

text \<open>An emptied slot, in the books and among the occupied slots.\<close>

lemma slot_emptied:
  assumes "slots_wf N w" and "slots_wf N w'" and "i < length (conns w)" and "conn_address (conns w ! i) \<noteq> 0"
    and "conns w' = (conns w)[i := c']" and "conn_address c' = 0"
  shows "unat (cf_free (free_response (prx w'))) = unat (cf_free (free_response (prx w))) + 1 \<and>
     conn_address (conns w ! i) \<notin> set (cf_allocated (free_response (prx w')))"
proof -
  let ?a = "conn_address (conns w ! i)"
  have o: "occupied w' = filter (\<lambda>a. a \<noteq> 0) ((map conn_address (conns w))[i := 0])"
    using assms(5,6) by (simp add: occupied_def map_update)
  have "length (occupied w') + 1 = length (occupied w)"
    using length_filter_update [of i "map conn_address (conns w)" "\<lambda>a. a \<noteq> 0" 0] assms(3,4)
    unfolding o by (simp add: occupied_def)
  moreover have "?a \<notin> set (occupied w')"
  proof
    assume "?a \<in> set (occupied w')"
    then obtain j where j: "j < length (conns w)" "conn_address ((conns w)[i := c'] ! j) = ?a"
      unfolding occupied_def assms(5) by (auto simp: in_set_conv_nth)
    then have "j \<noteq> i" using assms(3,4,6) by auto
    then show False using j assms(1,3,4) by (auto simp: slots_wf_def)
  qed
  moreover have "?a \<in> set (occupied w')" if "?a \<in> set (cf_allocated (free_response (prx w')))"
    using that assms(4) slots_wf_says(2) [OF assms(2)] by (metis (mono_tags, lifting) mem_Collect_eq set_filter set_mset_mset)
  ultimately show ?thesis
    using slots_wf_says(1) [OF assms(1)] slots_wf_says(1) [OF assms(2)] slots_wf_says(5) [OF assms(1)] by auto
qed

text \<open>
  C3. A lost link or a failed attempt always gives the slot back and tells the client, once. Whenever
  the backend of an occupied slot is told of a disconnect, of a failed connect, or times out, the slot is
  empty and idle afterwards, no longer allocated, with one more slot free; and exactly two messages are
  offered: the disconnect, with the first error that was recorded for the connection (else the
  reason of the loss), then the new connections-free state. Either of them, if refused, is owed.
\<close>

theorem link_loss_frees_slot:
  assumes "slots_wf N w" and "op_slot x < length (conns w)"
    and "c = conns w ! op_slot x" and "conn_address c \<noteq> 0" and "listener (backend c)"
    and "down_reason x (backend c) = Some err" and "api_connection (prx w) = Some cl"
  shows "let w' = world_next x w; p' = prx w'; r = free_response p';
             reason = (if pending_error c \<noteq> 0 then pending_error c else err) in
     conn_address (conns w' ! op_slot x) = 0 \<and> client_state (conns w' ! op_slot x) = CS_IDLE \<and>
     unat (cf_free r) = unat (cf_free (free_response (prx w))) + 1 \<and>
     conn_address c \<notin> set (cf_allocated r) \<and>
     (\<exists>told counted. offered p' = offered (prx w) @
          [(cl, Device_connection (conn_address c) False 0 reason, told), (cl, Connections_free r, counted)] \<and>
        (\<not> told \<longrightarrow> (\<exists>k < length (pending_disconnections p'). pending_disconnections p' ! k = reply_set (conn_address c) reason)) \<and>
        (\<not> counted \<longrightarrow> connections_free_pending p'))"
proof -
  obtain env e calls where w': "world_next x w = at_slot (op_slot x)
      (\<lambda>(c, p). on_connection_state env False 0 err (c\<lparr>backend := e, host_calls := calls\<rparr>, p)) w"
    using goes_down [of x w err] assms(2,3,5,6) by blast
  let ?a = "conn_address c" and ?r = "if pending_error c \<noteq> 0 then pending_error c else err"
  define p1 where "p1 = send_device_disconnected env ?a ?r (prx w)"
  define p2 where "p2 = update_address_slot ?a 0 p1"
  define p3 where "p3 = send_connections_free env p2"
  have "\<exists>c'. on_connection_state env False 0 err (c\<lparr>backend := e, host_calls := calls\<rparr>, prx w) = (c', p3) \<and>
      conn_address c' = 0 \<and> client_state c' = CS_IDLE"
    using assms(4)
    by (auto simp: on_connection_state_def reset_connection_def reset_connection_slot_def set_address_def
        hub_release_services_def clear_owed_flags_def p1_def p2_def p3_def Let_def)
  then obtain c' where c': "conns (world_next x w) = (conns w)[op_slot x := c']" "prx (world_next x w) = p3"
    "conn_address c' = 0" "client_state c' = CS_IDLE"
    using w' assms(3) by (auto simp: at_slot_def)
  have wf': "slots_wf N (world_next x w)" using ok_next [OF assms(1)] by simp
  have cnt: "0 < connection_count (prx w)" "connection_count (prx w) \<le> length (pending_disconnections (prx w))"
    using assms(1,2) by (auto simp: slots_wf_def)
  obtain told where 1: "offered p1 = offered (prx w) @ [(cl, Device_connection ?a False 0 ?r, told)]"
    "\<not> told \<longrightarrow> (\<exists>k < length (pending_disconnections p1). pending_disconnections p1 ! k = reply_set ?a ?r)"
    "api_connection p1 = Some cl"
    using disconnect_offered [OF assms(7) cnt, of env ?a ?r] unfolding p1_def by blast
  have "api_connection p2 = Some cl" using 1(3) by (simp add: p2_def)
  from connections_free_offered [OF this, of env] obtain counted where
    3: "offered p3 = offered p2 @ [(cl, Connections_free (free_response p2), counted)]"
    "\<not> counted \<longrightarrow> connections_free_pending p3" "free_response p3 = free_response p2"
    "pending_disconnections p3 = pending_disconnections p2" unfolding p3_def by blast
  have 2: "offered p2 = offered p1" "pending_disconnections p2 = pending_disconnections p1" by (simp_all add: p2_def)
  note E = slot_emptied [OF assms(1) wf' assms(2) _ c'(1,3)]
  show ?thesis
    unfolding Let_def c'(2) using E c' 1 2 3 assms(2,3,4)
    by (auto intro!: exI [of _ told] exI [of _ counted])
qed

definition linked_example :: world where
  "linked_example = \<lparr>prx = proxy_example\<lparr>connection_count := 1, max_connections := 1, pending_disconnections := [0],
       free_response := \<lparr>cf_free = 0, cf_limit = 1, cf_allocated = [5]\<rparr>\<rparr>,
     conns = [conn_init\<lparr>conn_address := 5, client_state := CS_ESTABLISHED\<rparr>], hub = tracker_init\<rparr>"

theorem link_loss_frees_slot_witness:
  "let w' = world_next (Backend_event (env_example True) 0 ((gatt_event0 None EV_DISCONNECT 1)\<lparr>ge_status := 19\<rparr>)) linked_example in
     conn_address (conns w' ! 0) = 0 \<and> unat (cf_free (free_response (prx w'))) = 1 \<and>
     (\<exists>told counted. offered (prx w') =
        [(1, Device_connection 5 False 0 19, told), (1, Connections_free (free_response (prx w')), counted)])"
proof -
  let ?x = "Backend_event (env_example True) 0 ((gatt_event0 None EV_DISCONNECT 1)\<lparr>ge_status := 19\<rparr>)"
  have "slots_wf 1 linked_example"
    by (simp add: slots_wf_def linked_example_def books_def addresses_def dev_def conn_init_def)
  moreover have "down_reason ?x (backend (conns linked_example ! 0)) = Some 19"
    by (simp add: gatt_event0_def)
  moreover have "length (conns linked_example) = 1" "conn_address (conns linked_example ! 0) = 5"
    "listener (backend (conns linked_example ! 0))" "api_connection (prx linked_example) = Some 1"
    "pending_error (conns linked_example ! 0) = 0" "cf_free (free_response (prx linked_example)) = 0"
    "offered (prx linked_example) = []"
    by (simp_all add: linked_example_def conn_init_def set_listener_def proxy_example_def)
  ultimately show ?thesis
    using link_loss_frees_slot [of 1 linked_example ?x "conns linked_example ! 0" 19 1]
    by (auto simp del: world_next.simps down_reason.simps simp: Let_def)
qed

section \<open>A change of subscriber\<close>

lemma for_slots_append: "for_slots (is @ js) f w = for_slots js f (for_slots is f w)"
  by (induction "is" arbitrary: w) simp_all

lemma for_slots_map:
  fixes w :: world
  shows "for_slots [0..<length (conns w)] (\<lambda>i. at_slot i (\<lambda>(c, p). (g c, p))) w = w\<lparr>conns := map g (conns w)\<rparr>"
proof -
  have "for_slots [0..<k] (\<lambda>i. at_slot i (\<lambda>(c, p). (g c, p))) w
      = w\<lparr>conns := map g (take k (conns w)) @ drop k (conns w)\<rparr>" if "k \<le> length (conns w)" for k
    using that
  proof (induction k)
    case (Suc k)
    have "drop k (conns w) = conns w ! k # drop (Suc k) (conns w)" using Suc.prems by (simp add: Cons_nth_drop_Suc)
    then show ?case
      using Suc by (simp add: for_slots_append at_slot_def take_Suc_conv_app_nth nth_append list_update_append min_def)
  qed simp
  from this [of "length (conns w)"] show ?thesis by simp
qed

text \<open>
  A new subscriber inherits nothing from the old one: whatever the old one was owed (disconnects,
  an unpair result, acknowledgements, connected replies, a stream of services half sent or its end, the
  connections-free state) is dropped and not sent; the links themselves stay as they are; and the new
  subscriber is offered the scanner state, which stays owed if it is refused.
\<close>

theorem new_subscriber_starts_clean:
  assumes "slots_wf N w" and "api_connection (prx w) \<noteq> Some cl"
  shows "let w' = subscribe_api_connection env cl w; p' = prx w' in
     api_connection p' = Some cl \<and>
     (\<exists>taken. offered p' = offered (prx w) @ [(cl, Scanner_state_msg (scanner_state (hub w)) (scan_active (hub w))
                (configured_scan_active (prx w)), taken)] \<and> scanner_state_pending p' = (\<not> taken)) \<and>
     pending_disconnections p' = replicate N 0 \<and> pending_unpairing p' = reply_clear \<and> \<not> connections_free_pending p' \<and>
     list_all (\<lambda>c. \<not> has_pending_ack c \<and> \<not> connected_reply_owed c \<and> \<not> batch_stalled c \<and>
        send_service c < 0 \<and> send_service c \<noteq> SERVICES_DONE_PENDING) (conns w') \<and>
     map (\<lambda>c. (conn_address c, client_state c)) (conns w') = map (\<lambda>c. (conn_address c, client_state c)) (conns w)"
proof -
  define v where "v = on_prx (\<lambda>p. p\<lparr>connections_free_pending := False, scanner_state_pending := False,
     pending_unpairing := reply_clear, pending_disconnections := replicate (length (pending_disconnections p)) 0\<rparr>) w"
  define g where "g = (\<lambda>c. clear_owed_flags (park_service_stream c))"
  have n: "connection_count (prx v) = length (conns v)" "length (pending_disconnections (prx w)) = N" "conns v = conns w"
    using assms(1) by (simp_all add: slots_wf_def v_def on_prx_def)
  have "reset_owed_replies w = v\<lparr>conns := map g (conns w)\<rparr>"
    using for_slots_map [of v g] n by (simp add: reset_owed_replies_def v_def [symmetric] g_def Let_def)
  then have s: "subscribe_api_connection env cl w = on_prx (send_scanner_state env (scanner_state (hub w)) (scan_active (hub w)))
      (on_prx (\<lambda>p. p\<lparr>api_connection := Some cl\<rparr>) (v\<lparr>conns := map g (conns w)\<rparr>))"
    using assms(2) by (simp add: subscribe_api_connection_def Let_def) (simp add: v_def)
  have g: "\<not> has_pending_ack (g c) \<and> \<not> connected_reply_owed (g c) \<and> \<not> batch_stalled (g c) \<and>
      send_service (g c) < 0 \<and> send_service (g c) \<noteq> SERVICES_DONE_PENDING \<and>
      conn_address (g c) = conn_address c \<and> client_state (g c) = client_state c" for c
    by (auto simp: g_def clear_owed_flags_def park_service_stream_def has_pending_ack_def hub_release_services_def
        cursor_codes Let_def)
  have p: "prx v = (prx w)\<lparr>connections_free_pending := False, scanner_state_pending := False,
     pending_unpairing := reply_clear, pending_disconnections := replicate N 0\<rparr>"
    using n(2) by (simp add: v_def on_prx_def)
  have "list_all (\<lambda>c. \<not> has_pending_ack c \<and> \<not> connected_reply_owed c \<and> \<not> batch_stalled c \<and>
        send_service c < 0 \<and> send_service c \<noteq> SERVICES_DONE_PENDING) (map g (conns w))"
    using g by (simp add: list_all_iff)
  moreover have "map (\<lambda>c. (conn_address c, client_state c)) (map g (conns w)) = map (\<lambda>c. (conn_address c, client_state c)) (conns w)"
    using g by simp
  ultimately show ?thesis
    unfolding s Let_def using p
    by (simp add: on_prx_def send_scanner_state_def send_bluetooth_scanner_state_def send_or_nobody_def send_message_def Let_def)
qed

theorem new_subscriber_starts_clean_witness:
  "let p = prx (subscribe_api_connection (env_example False) 2 linked_example) in
     api_connection p = Some 2 \<and> scanner_state_pending p \<and> pending_disconnections p = [0]"
proof -
  have "slots_wf 1 linked_example" "api_connection (prx linked_example) \<noteq> Some 2"
    by (simp_all add: slots_wf_def linked_example_def books_def addresses_def dev_def conn_init_def proxy_example_def)
  from new_subscriber_starts_clean [OF this, of "env_example False"] show ?thesis
    by (auto simp: Let_def) (simp add: subscribe_api_connection_def env_example_def send_scanner_state_def
        send_bluetooth_scanner_state_def send_or_nobody_def send_message_def on_prx_def Let_def)
qed

section \<open>Batches of raw advertisements\<close>

datatype adv_op = Advert env raw_advertisement | Adv_tick env

text \<open>The advertisement path under a subscriber \<open>cl\<close>: what the hub delivers, and the 100 ms tick.\<close>

fun adv_step :: "client \<Rightarrow> proxy \<Rightarrow> adv_op \<Rightarrow> proxy" where
  "adv_step cl p (Advert env raw) = on_raw_advertisement env raw p"
| "adv_step cl p (Adv_tick env) = flush_advertisements_tick env cl p"

fun adv_sent :: "adv_op \<Rightarrow> advertisement_msg list" where
  "adv_sent (Advert env raw) = (if server_connected env then
     [\<lparr>am_address = ra_address raw, am_rssi = ra_rssi raw, am_address_type = ra_addr_type raw,
       am_data = take 62 (ra_data raw)\<rparr>] else [])"
| "adv_sent (Adv_tick env) = []"

definition batches_ok :: "client \<Rightarrow> proxy \<Rightarrow> proxy \<Rightarrow> advertisement_msg list \<Rightarrow> bool" where
  "batches_ok cl p p' new \<longleftrightarrow> api_connection p' = Some cl \<and> batch_size p' = batch_size p \<and>
     length (advertisements p') < batch_size p \<and>
     (\<exists>bs. offered p' = offered p @ map (\<lambda>(b, taken). (cl, Raw_advertisements b, taken)) bs \<and>
        (\<forall>(b, taken) \<in> set bs. b \<noteq> [] \<and> length b \<le> batch_size p) \<and>
        concat (map fst bs) @ advertisements p' = advertisements p @ new)"

lemma batches_ok_trans:
  assumes "batches_ok cl p p1 new1" and "batches_ok cl p1 p2 new2"
  shows "batches_ok cl p p2 (new1 @ new2)"
proof -
  obtain bs1 where 1: "offered p1 = offered p @ map (\<lambda>(b, taken). (cl, Raw_advertisements b, taken)) bs1"
    "\<forall>(b, taken) \<in> set bs1. b \<noteq> [] \<and> length b \<le> batch_size p"
    "concat (map fst bs1) @ advertisements p1 = advertisements p @ new1" "batch_size p1 = batch_size p"
    using assms(1) by (auto simp: batches_ok_def)
  obtain bs2 where 2: "offered p2 = offered p1 @ map (\<lambda>(b, taken). (cl, Raw_advertisements b, taken)) bs2"
    "\<forall>(b, taken) \<in> set bs2. b \<noteq> [] \<and> length b \<le> batch_size p"
    "concat (map fst bs2) @ advertisements p2 = advertisements p1 @ new2"
    using assms(2) 1(4) by (auto simp: batches_ok_def)
  have "concat (map fst (bs1 @ bs2)) @ advertisements p2 = advertisements p @ new1 @ new2"
    using 1(3) 2(3) by (metis append.assoc concat_append map_append)
  then show ?thesis
    using assms 1 2 by (auto simp: batches_ok_def intro!: exI [of _ "bs1 @ bs2"])
qed

lemma flush_batches:
  assumes "api_connection p = Some cl" and "0 < batch_size p" and "length (advertisements p) \<le> batch_size p"
  shows "batches_ok cl p (flush_pending_advertisements env cl p) []"
proof (cases "advertisements p = []")
  case True
  then show ?thesis using assms by (simp add: batches_ok_def flush_pending_advertisements_def)
next
  case False
  define ok where "ok = accepts env (length (offered p)) cl (Raw_advertisements (advertisements p))"
  have "flush_pending_advertisements env cl p = p\<lparr>advertisements := [],
      offered := offered p @ [(cl, Raw_advertisements (advertisements p), ok)]\<rparr>"
    using False by (simp add: flush_pending_advertisements_def send_message_def ok_def Let_def)
  then show ?thesis
    using False assms by (auto simp: batches_ok_def intro!: exI [of _ "[(advertisements p, ok)]"])
qed

lemma adv_step_batches:
  assumes "api_connection p = Some cl" and "length (advertisements p) < batch_size p"
  shows "batches_ok cl p (adv_step cl p x) (adv_sent x)"
proof (cases x)
  case (Advert env raw)
  show ?thesis
  proof (cases "server_connected env")
    case True
    define q where "q = p\<lparr>advertisements := advertisements p @ adv_sent x\<rparr>"
    have q: "adv_step cl p x = (if batch_size q \<le> length (advertisements q) then flush_pending_advertisements env cl q else q)"
      using Advert True assms
      by (simp add: on_raw_advertisement_def q_def ADV_DATA_SIZE_def take_all_iff min_def Let_def cong: if_cong)
    have "batches_ok cl q (flush_pending_advertisements env cl q) []"
      by (rule flush_batches) (use assms Advert True in \<open>auto simp: q_def\<close>)
    then have "batches_ok cl q (adv_step cl p x) []"
      unfolding q using assms by (auto simp: batches_ok_def q_def intro: exI [of _ "[]"])
    then show ?thesis by (simp add: batches_ok_def q_def)
  next
    case False
    then show ?thesis using Advert assms by (simp add: batches_ok_def on_raw_advertisement_def)
  qed
next
  case (Adv_tick env)
  note f = flush_batches [OF assms(1), of env]
  have "batches_ok cl p (q\<lparr>adv_flush_toggle := b\<rparr>) []" if "batches_ok cl p q []" for q b
    using that by (simp add: batches_ok_def)
  moreover have "batches_ok cl p p []" using assms by (simp add: batches_ok_def)
  ultimately show ?thesis
    using Adv_tick f assms by (auto simp: flush_advertisements_tick_def Let_def)
qed

text \<open>
  C27. No raw advertisement is lost, reordered or repeated by the batching. Over any interleaving of
  advertisements and ticks, the batches offered to the subscriber, with what is still queued, are
  the advertisements in order, each with its first 62 bytes; no batch is empty or above the batch
  size, and the queue never fills.
\<close>

theorem advertisements_batched:
  assumes "api_connection p = Some cl" and "length (advertisements p) < batch_size p"
  shows "let p' = foldl (adv_step cl) p xs in
     length (advertisements p') < batch_size p \<and>
     (\<exists>bs. offered p' = offered p @ map (\<lambda>(b, taken). (cl, Raw_advertisements b, taken)) bs \<and>
        list_all (\<lambda>(b, taken). b \<noteq> [] \<and> length b \<le> batch_size p) bs \<and>
        concat (map fst bs) @ advertisements p' = advertisements p @ concat (map adv_sent xs))"
proof -
  have "batches_ok cl p (foldl (adv_step cl) p xs) (concat (map adv_sent xs))"
    using assms
  proof (induction xs arbitrary: p)
    case Nil
    then show ?case by (simp add: batches_ok_def)
  next
    case (Cons x xs)
    note s = adv_step_batches [OF Cons.prems, of x]
    then have "api_connection (adv_step cl p x) = Some cl"
      "length (advertisements (adv_step cl p x)) < batch_size (adv_step cl p x)"
      by (simp_all add: batches_ok_def)
    from batches_ok_trans [OF s Cons.IH [OF this]] show ?case by simp
  qed
  then show ?thesis by (simp add: batches_ok_def Let_def list_all_iff)
qed

theorem advertisements_batched_witness:
  "let p' = foldl (adv_step 1) (proxy_example\<lparr>batch_size := 2\<rparr>)
       (replicate 3 (Advert (env_example True) \<lparr>ra_address = 5, ra_data = [1], ra_rssi = 0, ra_addr_type = 0\<rparr>)) in
     length (advertisements p') < 2 \<and>
     (\<exists>bs. offered p' = map (\<lambda>(b, taken). (1, Raw_advertisements b, taken)) bs \<and>
        length (concat (map fst bs) @ advertisements p') = 3)"
proof -
  let ?p = "proxy_example\<lparr>batch_size := 2\<rparr>"
  let ?xs = "replicate 3 (Advert (env_example True) \<lparr>ra_address = 5, ra_data = [1], ra_rssi = 0, ra_addr_type = 0\<rparr>)"
  have h: "api_connection ?p = Some 1" "length (advertisements ?p) < batch_size ?p"
    by (simp_all add: proxy_example_def)
  have e: "offered ?p = []" "advertisements ?p = []" "batch_size ?p = 2" "length (concat (map adv_sent ?xs)) = 3"
    by (simp_all add: proxy_example_def env_example_def numeral_3_eq_3)
  define p' where "p' = foldl (adv_step 1) ?p ?xs"
  from advertisements_batched [OF h, of ?xs] obtain bs where "length (advertisements p') < 2"
    "offered p' = map (\<lambda>(b, taken). (1, Raw_advertisements b, taken)) bs"
    "concat (map fst bs) @ advertisements p' = concat (map adv_sent ?xs)"
    unfolding p'_def [symmetric] Let_def e by auto
  then show ?thesis unfolding p'_def [symmetric] Let_def using e(4) by metis
qed

section \<open>A connect request without an address type\<close>

lemma on_prx_prx [simp]: "prx (on_prx f w) = f (prx w)"
  by (simp add: on_prx_def)

lemma get_connection_offers:
  assumes "get_connection addr True w = (r, w')"
  shows "offered (prx w') = offered (prx w) \<and> api_connection (prx w') = api_connection (prx w)"
proof -
  have c: "offered (clear_pending_disconnection a p) = offered p \<and>
      api_connection (clear_pending_disconnection a p) = api_connection p" for a p
    by (simp add: clear_pending_disconnection_def split: option.split)
  show ?thesis
    using assms c by (auto simp: get_connection_def at_slot_def set_address_def Let_def split: option.splits prod.splits if_splits)
qed

lemma get_connection_new:
  assumes "slots_wf N w" and "addr \<notin> set (map conn_address (conns w))" and "get_connection addr True w = (Some i, w')"
  shows "i < length (conns w) \<and> conn_address (conns w ! i) = 0 \<and>
         map conn_address (conns w') = (map conn_address (conns w))[i := addr]"
proof -
  obtain same free where s: "scan_slots addr 0 (conns w) None = (same, free)" by fastforce
  have "same = None"
  proof (cases same)
    case (Some j)
    then have "j < length (conns w) \<and> conn_address (conns w ! j) = addr"
      using s scan_slots_found [of addr 0 "conns w" None j free] by simp
    then have "addr \<in> set (map conn_address (conns w))" by (metis length_map nth_map nth_mem)
    then show ?thesis using assms(2) by simp
  qed simp
  then have f: "free = Some i" and w': "conns w' = (conns w)[i := (clear_owed_flags ((conns w ! i)
      \<lparr>send_service := INIT_SENDING_SERVICES\<rparr>))\<lparr>conn_address := addr, client_state := CS_INIT\<rparr>] \<or> length (conns w) \<le> i"
    using assms(3) s by (auto simp: get_connection_def slots_wf_count [OF assms(1)] at_slot_def set_address_def Let_def
        split: option.splits)
  from f s \<open>same = None\<close> have "i < length (conns w)" "conn_address (conns w ! i) = 0"
    using scan_slots_free [of addr 0 "conns w" None i] by auto
  then show ?thesis using w' by (simp add: map_update)
qed

text \<open>
  A connect request without an address type keeps a slot. The device gets a free slot before the
  type is looked at; the client is answered that the device is disconnected and gets no
  connections-free message, so its last count of free slots is one too many, and the slot stays with
  the device that was never connected.
\<close>

theorem untyped_connect_keeps_slot:
  assumes "slots_wf N w" and "addr \<notin> set (map conn_address (conns w))" and "0 \<in> set (map conn_address (conns w))"
    and "ty = CONNECT_V3_WITH_CACHE \<or> ty = CONNECT_V3_WITHOUT_CACHE" and "api_connection (prx w) = Some cl"
  shows "let w' = bluetooth_device_request env ty addr None w in
     addr \<in> set (occupied w') \<and>
     unat (cf_free (free_response (prx w'))) + 1 = unat (cf_free (free_response (prx w))) \<and>
     (\<exists>taken. offered (prx w') = offered (prx w) @ [(cl, Device_connection addr False 0 CONN_OK, taken)])"
proof -
  obtain r w1 where g: "get_connection addr True w = (r, w1)" by fastforce
  note R = get_connection_reserve [OF assms(1) g]
  obtain i where r: "r = Some i" using R assms(3) by (cases r) auto
  note I = get_connection_new [OF assms(1,2) g [unfolded r]]
  have a: "addr \<noteq> 0" using assms(2,3) by auto
  define p1 where "p1 = answer_device_disconnected env addr (prx w1)"
  have w': "bluetooth_device_request env ty addr None w = w1\<lparr>prx := p1\<rparr>"
    using assms(4) g r by (auto simp: bluetooth_device_request_def connect_request_def on_prx_def p1_def)
  have wf: "slots_wf N (w1\<lparr>prx := p1\<rparr>)"
    using slots_wf_prx [of N w1 "answer_device_disconnected env addr"] R by (simp add: on_prx_def p1_def)
  have o: "occupied (w1\<lparr>prx := p1\<rparr>) = filter (\<lambda>a. a \<noteq> 0) ((map conn_address (conns w))[i := addr])"
    using I by (simp add: occupied_def)
  have "length (occupied (w1\<lparr>prx := p1\<rparr>)) = length (occupied w) + 1"
    using length_filter_update [of i "map conn_address (conns w)" "\<lambda>a. a \<noteq> 0" addr] I a
    unfolding o by (simp add: occupied_def)
  moreover have "addr \<in> set (occupied (w1\<lparr>prx := p1\<rparr>))"
    unfolding o using I a by (auto intro: set_update_memI)
  moreover have "\<exists>taken. offered p1 = offered (prx w1) @ [(cl, Device_connection addr False 0 CONN_OK, taken)]"
    using get_connection_offers [OF g] assms(5)
    by (auto simp: p1_def answer_device_disconnected_def send_device_connection_def send_or_nobody_def send_message_def
        clear_pending_disconnection_def Let_def split: option.split)
  ultimately show ?thesis
    unfolding w' Let_def using slots_wf_says(1,5) [OF wf] slots_wf_says(1) [OF assms(1)] get_connection_offers [OF g] by auto
qed

theorem untyped_connect_keeps_slot_witness:
  "let w = world_init 1 1 16 True True tracker_init; w = subscribe_api_connection (env_example True) 1 w;
       w' = bluetooth_device_request (env_example True) CONNECT_V3_WITH_CACHE 5 None w in
     5 \<in> set (occupied w') \<and> unat (cf_free (free_response (prx w'))) + 1 = unat (cf_free (free_response (prx w)))"
proof -
  define w where "w = subscribe_api_connection (env_example True) 1 (world_init 1 1 16 True True tracker_init)"
  have "slots_wf 1 w"
    using ok_next [OF conjunct1 [OF slots_wf_init [of 1 1 16 True True tracker_init]], of "Subscribe (env_example True) 1"]
    by (simp add: w_def)
  moreover have "map conn_address (conns w) = [0]" "api_connection (prx w) = Some 1"
    by (simp_all add: w_def world_init_def subscribe_api_connection_def reset_owed_replies_def at_slot_def on_prx_def
        register_connection_def proxy_init_def proxy_setup_def conn_init_def clear_owed_flags_def park_service_stream_def
        send_scanner_state_def send_bluetooth_scanner_state_def send_or_nobody_def send_message_def Let_def)
  ultimately show ?thesis
    using untyped_connect_keeps_slot [of 1 w 5 CONNECT_V3_WITH_CACHE 1 "env_example True"]
    unfolding Let_def w_def [symmetric] by simp
qed

end
