(* ===== verification/ProxyLiveness.thy ===== *)
theory ProxyLiveness
  imports SlotWatch ProxyProperties
begin

text \<open>
  The proxy with its engines, from a connect request of the API to what the client is told: every
  request is answered in bounded time, and a connection made with cached services does not last.
\<close>

section \<open>Runs in time\<close>

fun call_env :: "world_op \<Rightarrow> env option" where
  "call_env (Device_request env ty addr at) = Some env"
| "call_env (Read_request env addr h) = Some env"
| "call_env (Write_request env addr h d r) = Some env"
| "call_env (Read_descriptor_request env addr h) = Some env"
| "call_env (Write_descriptor_request env addr h d) = Some env"
| "call_env (Notify_request env addr h b) = Some env"
| "call_env (Services_request env addr) = Some env"
| "call_env (Params_request env addr a b c d) = Some env"
| "call_env (Subscribe env cl) = Some env"
| "call_env (Unsubscribe cl) = None"
| "call_env (Proxy_loop env) = Some env"
| "call_env (Raw_advertisement env raw) = Some env"
| "call_env (Hub_step env x) = Some env"
| "call_env (Set_mode env b) = Some env"
| "call_env (Backend_event env i ev) = Some env"
| "call_env (Backend_poll env i) = Some env"

fun keeps_subscriber :: "client \<Rightarrow> world_op \<Rightarrow> bool" where
  "keeps_subscriber cl (Subscribe env cl') \<longleftrightarrow> cl' = cl"
| "keeps_subscriber cl (Unsubscribe cl') \<longleftrightarrow> cl' \<noteq> cl"
| "keeps_subscriber cl x \<longleftrightarrow> True"

text \<open>The operations in which the tracker pushes to the proxy.\<close>

fun radio :: "world_op \<Rightarrow> bool" where
  "radio (Raw_advertisement env raw) \<longleftrightarrow> True"
| "radio (Hub_step env x) \<longleftrightarrow> True"
| "radio (Set_mode env b) \<longleftrightarrow> True"
| "radio x \<longleftrightarrow> False"

text \<open>The host reports the end of a step of a discovery on slot \<open>i\<close>.\<close>

fun discovery_at :: "nat \<Rightarrow> world_op \<Rightarrow> bool" where
  "discovery_at i (Backend_event env j ev) \<longleftrightarrow> j = i \<and> disc_step ev"
| "discovery_at i x \<longleftrightarrow> False"

text \<open>
  \<open>on_time P i t xs\<close>: the engine of slot \<open>i\<close>, last polled at \<open>t\<close>, is polled again before \<open>P\<close> ms have
  passed, throughout \<open>xs\<close>, and the clock stays 8 s away from its wrap-around; \<open>last_poll\<close>: when it was
  polled last.
\<close>

fun polled :: "nat \<Rightarrow> nat \<Rightarrow> world_op \<Rightarrow> nat" where
  "polled i t (Backend_poll env j) = (if j = i then unat (clock env) else t)"
| "polled i t x = t"

fun on_time :: "nat \<Rightarrow> nat \<Rightarrow> nat \<Rightarrow> world_op list \<Rightarrow> bool" where
  "on_time P i t [] \<longleftrightarrow> True"
| "on_time P i t (x # xs) \<longleftrightarrow>
     (case call_env x of None \<Rightarrow> True
      | Some env \<Rightarrow> t \<le> unat (clock env) \<and> unat (clock env) \<le> t + P \<and> unat (clock env) + 8000 < 2 ^ 32) \<and>
     on_time P i (polled i t x) xs"

fun last_poll :: "nat \<Rightarrow> nat \<Rightarrow> world_op list \<Rightarrow> nat" where
  "last_poll i t [] = t"
| "last_poll i t (x # xs) = last_poll i (polled i t x) xs"

section \<open>One operation\<close>

text \<open>A new subscription and the loop of the proxy may report the state of the scanner.\<close>

fun says_scanner :: "world_op \<Rightarrow> bool" where
  "says_scanner (Subscribe env cl) \<longleftrightarrow> True"
| "says_scanner (Proxy_loop env) \<longleftrightarrow> True"
| "says_scanner x \<longleftrightarrow> False"

lemma quiet_next:
  assumes "slots_wf N w" "\<And>cl. x = Unsubscribe cl \<Longrightarrow> api_connection (prx w) \<noteq> Some cl"
    and "\<And>env. call_env x = Some env \<Longrightarrow> window W t env"
    and "w_up W \<or> \<not> discovery_at i x" "\<And>env. x \<noteq> Backend_poll env i" "\<not> radio x" "\<not> says_scanner x"
  shows "stays W t i w (world_next x w)"
proof (cases x)
  case (Backend_event env j ev)
  show ?thesis
  proof (cases "j = i")
    case True
    have "window W t env" "event_ok W ev" using assms(3,4) Backend_event True by (auto simp: event_ok_def)
    from stays_at [OF attends_event [OF this]] show ?thesis using Backend_event True by simp
  next
    case False
    let ?f = "\<lambda>l. case backend_event env ev l of None \<Rightarrow> l | Some l' \<Rightarrow> l'"
    have "grows (snd l) (snd (?f l))" for l
      using grows_listeners [of "(c, snd l)" for c] by (auto simp: backend_event_def split: prod.splits option.splits)
    then have "stays W t i w (w\<lparr>conns := (conns w)[j := fst (?f (conns w ! j, prx w))], prx := snd (?f (conns w ! j, prx w))\<rparr>)"
      using False by (intro stays_other) (metis snd_conv, simp)
    moreover have "at_slot j ?f w = w\<lparr>conns := (conns w)[j := fst (?f (conns w ! j, prx w))], prx := snd (?f (conns w ! j, prx w))\<rparr>"
      by (simp add: at_slot_def split_beta)
    ultimately show ?thesis using Backend_event by (simp split del: option.splits)
  qed
next
  case (Backend_poll env j)
  let ?l = "backend_poll env (conns w ! j, prx w)"
  have "grows (prx w) (snd ?l)" using poll_attends [of W t env "(conns w ! j, prx w)"] assms(3) Backend_poll by simp
  moreover have "j \<noteq> i" using assms(5) Backend_poll by auto
  ultimately have "stays W t i w (w\<lparr>conns := (conns w)[j := fst ?l], prx := snd ?l\<rparr>)" by (simp add: stays_other)
  then show ?thesis using Backend_poll by (simp add: at_slot_def split_beta)
next
  case (Unsubscribe cl')
  then show ?thesis using assms(2) by (simp add: unsubscribe_api_connection_def)
qed (use assms(1,3,6,7) in \<open>simp_all add: stays_device_request stays_gatt_ops stays_services stays_params stays_prx\<close>)

lemma stays_subscribe:
  assumes "api_connection (prx w) = Some cl"
  shows "stays_on W t i w (subscribe_api_connection env cl w)"
proof -
  have "stays W t i w (on_prx (\<lambda>p. p\<lparr>api_connection := Some cl\<rparr>) w)"
    by (rule stays_prx) (simp add: grows_same assms)
  then have "stays_on W t i w (on_prx (send_scanner_state env st b) (on_prx (\<lambda>p. p\<lparr>api_connection := Some cl\<rparr>) w))" for st b
    by (intro stays_on_trans [OF stays_is_on stays_on_prx]) simp_all
  then show ?thesis using assms by (simp add: subscribe_api_connection_def)
qed

lemma stays_next:
  assumes "slots_wf N w" "api_connection (prx w) = Some cl"
    and "\<And>env. call_env x = Some env \<Longrightarrow> window W t env" "keeps_subscriber cl x"
    and "w_up W \<or> \<not> discovery_at i x" "\<And>env. x \<noteq> Backend_poll env i" "\<not> radio x"
  shows "stays_on W t i w (world_next x w)"
proof (cases "says_scanner x")
  case True
  then show ?thesis using assms(3,4) stays_subscribe [OF assms(2)] by (cases x) (auto intro: stays_loop)
next
  case False
  have "stays W t i w (world_next x w)"
    by (rule quiet_next [OF assms(1)]) (use assms(2-) False in auto)
  then show ?thesis by (rule stays_is_on)
qed

section \<open>A run\<close>

definition watched :: "watch \<Rightarrow> nat \<Rightarrow> nat \<Rightarrow> nat \<Rightarrow> world \<Rightarrow> bool" where
  "watched W N i t w \<longleftrightarrow> slots_wf N w \<and> i < length (conns w) \<and> api_connection (prx w) = Some (w_client W) \<and>
     (told W (prx w) \<or> alive W t (conns w ! i, prx w))"

lemma radio_only_adds:
  assumes "radio x"
  shows "conns (world_next x w) = conns w \<and> offers_more (prx w) (prx (world_next x w))"
  using assms
proof (cases x)
  case (Set_mode env b)
  then show ?thesis using offers_more_pushes
    by (auto simp: bluetooth_scanner_set_mode_def offers_more_def Let_def split: prod.split)
qed (auto simp: on_prx_def offers_more_raw offers_more_pushes split: prod.split)

lemma watched_next:
  assumes "watched W N i t w" "\<And>env. call_env x = Some env \<Longrightarrow> window W t env"
    and "keeps_subscriber (w_client W) x" "w_up W \<or> \<not> discovery_at i x"
  shows "watched W N i (polled i t x) (world_next x w)"
proof -
  have wf: "slots_wf N w" "i < length (conns w)" "api_connection (prx w) = Some (w_client W)"
    and a: "told W (prx w) \<or> alive W t (conns w ! i, prx w)" using assms(1) by (simp_all add: watched_def)
  have wf': "slots_wf N (world_next x w)" "length (conns (world_next x w)) = length (conns w)"
    using ok_next [OF wf(1)] by auto
  show ?thesis
  proof (cases "(\<exists>env. x = Backend_poll env i) \<or> radio x")
    case True
    then consider (poll) env where "x = Backend_poll env i" | (radio) "radio x" by blast
    then show ?thesis
    proof cases
      case radio
      note more = radio_only_adds [OF radio, of w]
      have "polled i t x = t" using radio by (cases x) auto
      then show ?thesis
        using more wf wf' a told_offers_more alive_offers_more [OF same_core_refl]
        by (auto simp: watched_def) (auto simp: offers_more_def)
    next
      case (poll env)
      note x = this
      let ?l = "backend_poll env (conns w ! i, prx w)"
      have "window W t env" using assms(2) x by simp
      from poll_attends [OF this, of "(conns w ! i, prx w)"] a
      have P: "grows (prx w) (snd ?l)" "told W (snd ?l) \<or> alive W (unat (clock env)) ?l"
        by (auto intro: told_grows)
      have "world_next x w = w\<lparr>conns := (conns w)[i := fst ?l], prx := snd ?l\<rparr>"
        using x wf(2) by (simp add: at_slot_def split_beta)
      then show ?thesis using P wf wf' x by (auto simp: watched_def grow_defs)
    qed
  next
    case False
    have "stays_on W t i w (world_next x w)"
      by (rule stays_next [OF wf(1,3) assms(2-4)]) (use False in auto)
    moreover have "polled i t x = t" using False by (cases x) auto
    ultimately show ?thesis using wf wf' a by (auto simp: watched_def stays_on_def adds_def offers_more_def intro: told_adds)
  qed
qed

lemma watched_run:
  assumes "watched W N i t w" "on_time (w_pace W) i t xs"
    and "\<forall>x \<in> set xs. keeps_subscriber (w_client W) x \<and> (w_up W \<or> \<not> discovery_at i x)"
  shows "watched W N i (last_poll i t xs) (fold world_next xs w)"
  using assms
proof (induction xs arbitrary: t w)
  case (Cons x xs)
  have "window W t env" if "call_env x = Some env" for env
    using Cons.prems(2) that by (auto simp: window_def)
  then have "watched W N i (polled i t x) (world_next x w)"
    using Cons.prems by (intro watched_next) auto
  from Cons.IH [OF this] Cons.prems show ?case by simp
qed simp

section \<open>The request\<close>

lemma slot_for_request:
  assumes "slots_wf N w" and "get_connection a True w = (Some i, w0)"
  shows "slots_wf N w0 \<and> i < length (conns w0) \<and> length (conns w0) = length (conns w) \<and>
     conn_address (conns w0 ! i) = a \<and> backend (conns w0 ! i) = backend (conns w ! i) \<and>
     host_calls (conns w0 ! i) = host_calls (conns w ! i) \<and>
     offered (prx w0) = offered (prx w) \<and> api_connection (prx w0) = api_connection (prx w)"
proof -
  note G = get_connection_reserve [OF assms]
  have i: "i < length (conns w)" using G by simp
  obtain same free where s: "scan_slots a 0 (conns w) None = (same, free)" by fastforce
  have "conns w0 = conns w \<or> conns w0 = (conns w)[i := (clear_owed_flags ((conns w ! i)
      \<lparr>send_service := INIT_SENDING_SERVICES\<rparr>))\<lparr>conn_address := a, client_state := CS_INIT\<rparr>]"
    using assms(2) s G by (cases same; cases free)
      (auto simp: get_connection_def slots_wf_count [OF assms(1)] at_slot_def set_address_def on_prx_def Let_def)
  then have "backend (conns w0 ! i) = backend (conns w ! i) \<and> host_calls (conns w0 ! i) = host_calls (conns w ! i)"
    using i by (elim disjE) (simp_all add: clear_owed_flags_def)
  then show ?thesis using G get_connection_offers [OF assms(2)] by simp
qed

text \<open>The engine's answer to a connect request from \<open>Idle\<close>.\<close>

lemma connect_from_idle:
  assumes "connect host now a t e = (0, e', out)" "fsm_state (fsm e) = IDLE" "unat now + 8000 < 2 ^ 32"
  shows "settled P (unat now) (unat now) (fsm e') \<and> fsm_state (fsm e') = CONNECTING \<and>
     listener e' = listener e \<and> \<not> connect_result_reported e'"
  using connect_accepted [OF assms(1)] assms(2,3)
  by (simp add: handle_event_def enter_def settled_def has_deadline_def unat_add_5000)

definition watch_of :: "u64 \<Rightarrow> client \<Rightarrow> bool \<Rightarrow> nat \<Rightarrow> nat \<Rightarrow> world \<Rightarrow> nat \<Rightarrow> watch" where
  "watch_of a cl up P t0 w i = \<lparr>w_address = a, w_client = cl, w_from = length (offered (prx w)),
     w_calls = length (host_calls (conns w ! i)), w_up = up, w_pace = P, w_time = t0\<rparr>"

lemma request_watched:
  assumes "slots_wf N w" "api_connection (prx w) = Some cl" "a \<noteq> 0"
    and g: "get_connection a True w = (Some i, w0)" "client_state (conns w0 ! i) = CS_INIT"
    and e: "fsm_state (fsm (backend (conns w ! i))) = IDLE" "listener (backend (conns w ! i))"
    and ty: "ty = (if cached then CONNECT_V3_WITH_CACHE else CONNECT_V3_WITHOUT_CACHE)"
    and time: "unat (clock env) + 8000 < 2 ^ 32"
  shows "watched (watch_of a cl up P (unat (clock env)) w i) N i (unat (clock env))
           (world_next (Device_request env ty a (Some at)) w)"
proof -
  let ?W = "watch_of a cl up P (unat (clock env)) w i"
  note S = slot_for_request [OF assms(1) g(1)]
  define c where "c = (hub_set_connection_type (if cached then CONN_V3_WITH_CACHE else CONN_V3_WITHOUT_CACHE) (conns w0 ! i))
    \<lparr>client_state := CS_CONNECTING\<rparr>"
  have c: "conn_address c = a" "fsm (backend c) = fsm (backend (conns w ! i))" "listener (backend c)"
    "host_calls c = host_calls (conns w ! i)" "client_state c = CS_CONNECTING"
    using S e(2) by (simp_all add: c_def hub_set_connection_type_def set_connection_type_def)
  obtain rc e' out where k: "connect (stk env) (clock env) a (ucast at) (backend c) = (rc, e', out)" by (metis prod_cases3)
  define c1 where "c1 = c\<lparr>backend := e', host_calls := host_calls c @ stacks out\<rparr>"
  define l where "l = (if rc \<noteq> 0 then reset_connection env rc (c1, prx w0) else (c1, prx w0))"
  have "l = initiate_connection env (ucast at)
      (hub_set_connection_type (if cached then CONN_V3_WITH_CACHE else CONN_V3_WITHOUT_CACHE) (conns w0 ! i), prx w0)"
    using k c(1) by (simp add: initiate_connection_def call_backend_def l_def c1_def c_def)
  then have w': "world_next (Device_request env ty a (Some at)) w
      = w0\<lparr>conns := (conns w0)[i := fst l], prx := send_connections_free env (snd l)\<rparr>"
    using g S ty by (simp add: bluetooth_device_request_def connect_request_def at_slot_def on_prx_def split_beta Let_def)
  have "told ?W (snd l) \<or> alive ?W (unat (clock env)) l"
  proof (cases "rc = 0")
    case False
    have "told ?W (snd (reset_connection env rc (c1, prx w0)))"
      by (rule reset_told) (use c(1) S assms(2) in \<open>simp_all add: c1_def watch_of_def\<close>)
    then show ?thesis using False by (simp add: l_def)
  next
    case True
    have "fsm_state (fsm (backend c)) = IDLE" using c(2) e(1) by simp
    from connect_from_idle [OF k [unfolded True] this time]
    have "alive ?W (unat (clock env)) (c1, prx w0)"
      using c S assms(2,3) by (simp add: alive_def bare_def phase_def c1_def watch_of_def)
    then show ?thesis using True by (simp add: l_def)
  qed
  then have "told ?W (send_connections_free env (snd l)) \<or>
      alive ?W (unat (clock env)) (fst l, send_connections_free env (snd l))"
    by (metis told_grows alive_grows grows_connections_free(2) prod.collapse)
  moreover have "grows (prx w0) (send_connections_free env (snd l))"
    by (rule grows_trans [of _ "snd l"]) (simp_all add: l_def)
  then have "api_connection (send_connections_free env (snd l)) = Some cl" using S assms(2) by (simp add: grow_defs)
  ultimately show ?thesis
    using ok_next [OF assms(1), of "Device_request env ty a (Some at)"] S
    unfolding w' by (auto simp: watched_def watch_of_def)
qed

text \<open>After the last poll, the watch is over or the host has been asked to tear the link down.\<close>

lemma watch_over:
  assumes "watched W N i t w" "w_time W + 13000 + w_pace W \<le> t"
  shows "told W (prx w) \<or> conn_address (conns w ! i) = w_address W \<and> client_state (conns w ! i) = CS_DISCONNECTING \<and>
     torn_down W (conns w ! i) \<and> alive W t (conns w ! i, prx w)"
proof -
  have "\<not> has_deadline (fsm (backend (conns w ! i)))" if "bare W t (conns w ! i, prx w)"
    using that assms(2) by (auto simp: bare_def settled_def has_deadline_def)
  then show ?thesis using assms(1) by (auto simp: watched_def alive_def phase_def bare_def has_deadline_def)
qed

text \<open>The disconnect event of a slot tells its device's client.\<close>

lemma disconnect_event_tells:
  assumes "i < length (conns w)" "conn_address (conns w ! i) = w_address W" "w_address W \<noteq> 0"
    and "api_connection (prx w) = Some (w_client W)" "w_from W \<le> length (offered (prx w))"
    and "listener (backend (conns w ! i))" "ge_type ev = EV_DISCONNECT"
  shows "told W (prx (world_next (Backend_event env i ev) w))"
proof -
  obtain e out where h: "handle_gatt_event (stk env) (clock env) ev (backend (conns w ! i)) = Some (e, out)"
    "listeners_of out = [ON_CONNECTION_STATE False 0 (ge_status ev)]"
    using assms(6,7) by (auto simp: handle_gatt_event_def finish_disconnect_def fsm_fire_def tell_def Let_def)
  let ?c = "(conns w ! i)\<lparr>backend := e, host_calls := host_calls (conns w ! i) @ stacks out\<rparr>"
  have "told W (snd (reset_connection env (ge_status ev) (?c, prx w)))"
    by (rule reset_told) (use assms in simp_all)
  then show ?thesis
    using h assms(1,2,3) by (simp add: at_slot_def backend_event_def on_listener_call_def on_connection_state_def split_beta)
qed

text \<open>A subscribed proxy with one slot, and what happens to a request made at 1000 ms.\<close>

definition idle_example :: world where
  "idle_example = subscribe_api_connection (env_example True) 1 (world_init 1 1 16 True True tracker_init)"

abbreviation at_time :: "u32 \<Rightarrow> env" where "at_time now \<equiv> (env_example True)\<lparr>clock := now\<rparr>"

definition run_example :: "world_op list" where
  "run_example = [Backend_event (at_time 2000) 0 (gatt_event0 (Some 0) EV_CONNECT 1), Backend_poll (at_time 9000) 0,
     Proxy_loop (at_time 9000), Backend_poll (at_time 17000) 0, Backend_poll (at_time 22000) 0]"

lemma idle_example_facts:
  "slots_wf 1 idle_example" "api_connection (prx idle_example) = Some 1"
  "\<exists>w0. get_connection 5 True idle_example = (Some 0, w0) \<and> client_state (conns w0 ! 0) = CS_INIT"
  "fsm_state (fsm (backend (conns idle_example ! 0))) = IDLE" "listener (backend (conns idle_example ! 0))"
proof -
  show "slots_wf 1 idle_example"
    using ok_next [OF conjunct1 [OF slots_wf_init [of 1 1 16 True True tracker_init]], of "Subscribe (env_example True) 1"]
    by (simp add: idle_example_def)
  note defs = idle_example_def world_init_def subscribe_api_connection_def reset_owed_replies_def at_slot_def on_prx_def
    register_connection_def proxy_init_def proxy_setup_def conn_init_def clear_owed_flags_def park_service_stream_def
    send_scanner_state_def send_bluetooth_scanner_state_def send_or_nobody_def send_message_def Let_def
  show "api_connection (prx idle_example) = Some 1" "fsm_state (fsm (backend (conns idle_example ! 0))) = IDLE"
    "listener (backend (conns idle_example ! 0))"
    by (simp_all add: defs engine_init_def fsm_init_def set_listener_def cursor_codes)
  show "\<exists>w0. get_connection 5 True idle_example = (Some 0, w0) \<and> client_state (conns w0 ! 0) = CS_INIT"
    by (simp add: defs get_connection_def set_address_def)
qed

lemma run_example_facts:
  "on_time 8000 0 1000 run_example" "last_poll 0 1000 run_example = 22000"
  "\<forall>x \<in> set run_example. keeps_subscriber 1 x \<and> \<not> discovery_at 0 x"
  by (simp_all add: run_example_def disc_step_def gatt_event0_def)

text \<open>
  C4. Every connect request is answered, in bounded time. When a request is given a slot whose engine is
  idle, then whatever else happens to the proxy afterwards (requests for this or any other device,
  attribute operations, events of the host in any order, loops with or without the API server), as long
  as the client stays subscribed and the engine is polled at least every \<open>P\<close> ms, one of two
  things holds from \<open>13000 + P\<close> ms after the request on: the client has been offered the outcome, a
  connected or a disconnected message for the device; or the link is being closed: the host
  was asked to terminate it, and its disconnect event will offer the disconnected message.
\<close>

theorem connect_request_answered:
  assumes "slots_wf N w" "api_connection (prx w) = Some cl" "a \<noteq> 0"
    and "get_connection a True w = (Some i, w0)" "client_state (conns w0 ! i) = CS_INIT"
    and "fsm_state (fsm (backend (conns w ! i))) = IDLE" "listener (backend (conns w ! i))"
    and "ty = (if cached then CONNECT_V3_WITH_CACHE else CONNECT_V3_WITHOUT_CACHE)"
    and "unat (clock env) + 8000 < 2 ^ 32" "on_time P i (unat (clock env)) xs"
    and "\<forall>x \<in> set xs. keeps_subscriber cl x"
    and "unat (clock env) + 13000 + P \<le> last_poll i (unat (clock env)) xs"
  shows "let w' = fold world_next (Device_request env ty a (Some at) # xs) w;
             new = (\<lambda>v. set (drop (length (offered (prx w))) (offered (prx v)))) in
     (\<exists>up m e ok. (cl, Device_connection a up m e, ok) \<in> new w') \<or>
     (conn_address (conns w' ! i) = a \<and> client_state (conns w' ! i) = CS_DISCONNECTING \<and>
      (\<exists>h. BLE_GAP_TERMINATE h HCI_ERR_REM_USER_CONN_TERM
             \<in> set (drop (length (host_calls (conns w ! i))) (host_calls (conns w' ! i)))) \<and>
      (\<forall>env' ev. ge_type ev = EV_DISCONNECT \<longrightarrow>
         (\<exists>up m e ok. (cl, Device_connection a up m e, ok) \<in> new (world_next (Backend_event env' i ev) w'))))"
proof -
  define W where "W = watch_of a cl True P (unat (clock env)) w i"
  define w' where "w' = fold world_next xs (world_next (Device_request env ty a (Some at)) w)"
  note sel = W_def watch_of_def
  have "watched W N i (unat (clock env)) (world_next (Device_request env ty a (Some at)) w)"
    unfolding W_def by (rule request_watched [OF assms(1-9)])
  then have "watched W N i (last_poll i (unat (clock env)) xs) w'" unfolding w'_def
    by (rule watched_run) (use assms(10,11) in \<open>simp_all add: sel\<close>)
  then have A: "watched W N i (last_poll i (unat (clock env)) xs) w'" "i < length (conns w')"
    "api_connection (prx w') = Some cl"
    by (simp_all add: watched_def sel)
  have B: "told W (prx w') \<or> conn_address (conns w' ! i) = a \<and> client_state (conns w' ! i) = CS_DISCONNECTING \<and>
     torn_down W (conns w' ! i) \<and> alive W (last_poll i (unat (clock env)) xs) (conns w' ! i, prx w')"
    using watch_over [OF A(1)] assms(12) by (simp add: sel)
  have C: "told W (prx (world_next (Backend_event env' i ev) w'))"
    if "alive W (last_poll i (unat (clock env)) xs) (conns w' ! i, prx w')" "ge_type ev = EV_DISCONNECT" for env' ev
    by (rule disconnect_event_tells) (use that A in \<open>simp_all add: alive_def bare_def\<close>)
  show ?thesis
    unfolding Let_def fold_simps comp_def w'_def [symmetric]
    using B C by (auto simp: told_def torn_down_def sel)
qed

theorem connect_request_answered_witness:
  "let w' = fold world_next (Device_request (at_time 1000) CONNECT_V3_WITHOUT_CACHE 5 (Some 0) # run_example) idle_example;
       new = (\<lambda>v. set (drop (length (offered (prx idle_example))) (offered (prx v)))) in
   (\<exists>up m e ok. (1, Device_connection 5 up m e, ok) \<in> new w') \<or>
   (conn_address (conns w' ! 0) = 5 \<and> client_state (conns w' ! 0) = CS_DISCONNECTING \<and>
    (\<exists>h. BLE_GAP_TERMINATE h HCI_ERR_REM_USER_CONN_TERM
           \<in> set (drop (length (host_calls (conns idle_example ! 0))) (host_calls (conns w' ! 0)))) \<and>
    (\<forall>env' ev. ge_type ev = EV_DISCONNECT \<longrightarrow>
       (\<exists>up m e ok. (1, Device_connection 5 up m e, ok) \<in> new (world_next (Backend_event env' 0 ev) w'))))"
proof -
  obtain w0 where "get_connection 5 True idle_example = (Some 0, w0)" "client_state (conns w0 ! 0) = CS_INIT"
    using idle_example_facts(3) by blast
  from connect_request_answered [OF idle_example_facts(1,2) _ this idle_example_facts(4,5),
      where cached = False and env = "at_time 1000" and P = 8000 and xs = run_example]
  show ?thesis using run_example_facts by simp
qed

text \<open>
  C14. A connection with cached services does not last. The engine enters \<open>Discovering\<close> as soon as
  the link is up; for a request with cached services the proxy starts no discovery, so nothing but the
  engine's deadline ends that state. Whatever else happens, as long as the host reports no discovery that
  nobody asked for, at \<open>13000 + P\<close> ms after the request the client has been offered a disconnected
  message or the host has been asked to terminate the link.
\<close>

theorem cached_connection_torn_down:
  assumes "slots_wf N w" "api_connection (prx w) = Some cl" "a \<noteq> 0"
    and "get_connection a True w = (Some i, w0)" "client_state (conns w0 ! i) = CS_INIT"
    and "fsm_state (fsm (backend (conns w ! i))) = IDLE" "listener (backend (conns w ! i))"
    and "unat (clock env) + 8000 < 2 ^ 32" "on_time P i (unat (clock env)) xs"
    and "\<forall>x \<in> set xs. keeps_subscriber cl x \<and> \<not> discovery_at i x"
    and "unat (clock env) + 13000 + P \<le> last_poll i (unat (clock env)) xs"
  shows "let w' = fold world_next (Device_request env CONNECT_V3_WITH_CACHE a (Some at) # xs) w in
     (\<exists>m e ok. (cl, Device_connection a False m e, ok) \<in> set (drop (length (offered (prx w))) (offered (prx w')))) \<or>
     (conn_address (conns w' ! i) = a \<and> client_state (conns w' ! i) = CS_DISCONNECTING \<and>
      (\<exists>h. BLE_GAP_TERMINATE h HCI_ERR_REM_USER_CONN_TERM
             \<in> set (drop (length (host_calls (conns w ! i))) (host_calls (conns w' ! i)))))"
proof -
  define W where "W = watch_of a cl False P (unat (clock env)) w i"
  define w' where "w' = fold world_next xs (world_next (Device_request env CONNECT_V3_WITH_CACHE a (Some at)) w)"
  note sel = W_def watch_of_def
  have "watched W N i (unat (clock env)) (world_next (Device_request env CONNECT_V3_WITH_CACHE a (Some at)) w)"
    unfolding W_def by (rule request_watched [OF assms(1-7) _ assms(8), where cached = True]) simp
  then have "watched W N i (last_poll i (unat (clock env)) xs) w'" unfolding w'_def
    by (rule watched_run) (use assms(9,10) in \<open>simp_all add: sel\<close>)
  from watch_over [OF this] assms(11) show ?thesis
    unfolding Let_def fold_simps comp_def w'_def [symmetric]
    by (auto simp: told_def torn_down_def sel)
qed

theorem cached_connection_torn_down_witness:
  "let w' = fold world_next (Device_request (at_time 1000) CONNECT_V3_WITH_CACHE 5 (Some 0) # run_example) idle_example in
   (\<exists>m e ok. (1, Device_connection 5 False m e, ok)
       \<in> set (drop (length (offered (prx idle_example))) (offered (prx w')))) \<or>
   (conn_address (conns w' ! 0) = 5 \<and> client_state (conns w' ! 0) = CS_DISCONNECTING \<and>
    (\<exists>h. BLE_GAP_TERMINATE h HCI_ERR_REM_USER_CONN_TERM
           \<in> set (drop (length (host_calls (conns idle_example ! 0))) (host_calls (conns w' ! 0)))))"
proof -
  obtain w0 where "get_connection 5 True idle_example = (Some 0, w0)" "client_state (conns w0 ! 0) = CS_INIT"
    using idle_example_facts(3) by blast
  from cached_connection_torn_down [OF idle_example_facts(1,2) _ this idle_example_facts(4,5),
      where env = "at_time 1000" and P = 8000 and xs = run_example]
  show ?thesis using run_example_facts by simp
qed

text \<open>
  On the example run the link comes up at 2000 ms, the client is told so, and the engine's poll at 17000 ms
  asks the host to terminate it, although nobody asked for a discovery or a disconnection.
\<close>

lemma cached_connection_example:
  "let w = fold world_next (Device_request (at_time 1000) CONNECT_V3_WITH_CACHE 5 (Some 0) # take 4 run_example) idle_example in
   offered (prx w) ! 2 = (1, Device_connection 5 True 23 0, True) \<and>
   last (host_calls (conns w ! 0)) = BLE_GAP_TERMINATE 1 HCI_ERR_REM_USER_CONN_TERM \<and>
   client_state (conns w ! 0) = CS_DISCONNECTING"
  by code_simp

end
