(* ===== verification/EventQueues.thy ===== *)
theory EventQueues
  imports NimbleEngine BleTracker "HOL-Library.Sublist"
begin

text \<open>
  The queues between the NimBLE host task, which pushes, and the main loop, which pops:
  \<open>GattEventQueue\<close> (components/nimble_ble/nimble_event.h and .cpp), \<open>AdvQueue\<close>
  (components/esp32_ble_tracker/adv_queue.h and .cpp) and \<open>ServerEventQueue\<close>
  (components/esp32_ble_server/nimble_server_event.h and .cpp); the three classes have one body, here over
  the type of the event. Then what drains them: \<open>drain_gatt_events\<close> (nimble_gattc.cpp) and the loop of
  the tracker, run together with the callbacks that fill its queue.

  The queue itself is FreeRTOS's and not in the repository: the three functions the code calls are
  the record \<open>rtos\<close>, a parameter, and \<open>rtos_queue\<close> states what FreeRTOS documents of them for a
  queue of a given length, seen through \<open>items\<close>, the elements from front to back. \<open>list_rtos\<close> is an
  instance, for the witnesses. A push or a pop on a queue that was never created stops the device
  (\<open>configASSERT\<close>): the value \<open>None\<close>.
\<close>

section \<open>The queue of the RTOS\<close>

record ('q, 'e) rtos =
  xQueueCreate :: "int \<Rightarrow> 'q option"
  xQueueSend :: "'e \<Rightarrow> 'q \<Rightarrow> 'q option"
  xQueueReceive :: "'q \<Rightarrow> ('e \<times> 'q) option"

definition rtos_queue :: "('q, 'e) rtos \<Rightarrow> nat \<Rightarrow> ('q \<Rightarrow> 'e list) \<Rightarrow> bool" where
  "rtos_queue r cap items \<longleftrightarrow>
     (\<forall>q. xQueueCreate r (int cap) = Some q \<longrightarrow> items q = [])
   \<and> (\<forall>q e. length (items q) < cap \<longrightarrow> map_option items (xQueueSend r e q) = Some (items q @ [e]))
   \<and> (\<forall>q e. cap \<le> length (items q) \<longrightarrow> xQueueSend r e q = None)
   \<and> (\<forall>q. items q = [] \<longrightarrow> xQueueReceive r q = None)
   \<and> (\<forall>q e es. items q = e # es \<longrightarrow> map_option (apsnd items) (xQueueReceive r q) = Some (e, es))"

definition list_rtos :: "nat \<Rightarrow> ('e list, 'e) rtos" where
  "list_rtos cap = \<lparr>xQueueCreate = (\<lambda>n. if n = int cap then Some [] else None),
     xQueueSend = (\<lambda>e q. if length q < cap then Some (q @ [e]) else None),
     xQueueReceive = (\<lambda>q. case q of [] \<Rightarrow> None | e # es \<Rightarrow> Some (e, es))\<rparr>"

lemma list_rtos_queue: "rtos_queue (list_rtos cap) cap id"
  by (auto simp: rtos_queue_def list_rtos_def)

lemma send_room:
  assumes "rtos_queue r cap items" and "length (items q) < cap"
  obtains q' where "xQueueSend r e q = Some q'" and "items q' = items q @ [e]"
  using assms unfolding rtos_queue_def by (metis map_option_eq_Some)

lemma send_full: "rtos_queue r cap items \<Longrightarrow> cap \<le> length (items q) \<Longrightarrow> xQueueSend r e q = None"
  unfolding rtos_queue_def by metis

lemma receive_empty: "rtos_queue r cap items \<Longrightarrow> items q = [] \<Longrightarrow> xQueueReceive r q = None"
  unfolding rtos_queue_def by metis

lemma receive_front:
  assumes "rtos_queue r cap items" and "items q = e # es"
  obtains q' where "xQueueReceive r q = Some (e, q')" and "items q' = es"
proof -
  have "map_option (apsnd items) (xQueueReceive r q) = Some (e, es)"
    using assms unfolding rtos_queue_def by blast
  then obtain p where "xQueueReceive r q = Some p" "apsnd items p = (e, es)" by auto
  then show thesis using that by (cases p) auto
qed

section \<open>The event queues\<close>

record 'q event_queue =
  queue_handle :: "'q option"
  dropped_count :: u32

definition event_queue0 :: "'q event_queue" where
  "event_queue0 = \<lparr>queue_handle = None, dropped_count = 0\<rparr>"

text \<open>What a queue operation does besides: an event handed to the loop, a dropped event whose
  payload is freed, the log line of the first drop.\<close>

datatype 'e queue_out = Popped 'e | Freed 'e | Log_queue_full

definition queue_init :: "('q, 'e) rtos \<Rightarrow> int \<Rightarrow> 'q event_queue \<Rightarrow> 'q event_queue" where
  "queue_init r capacity s = s\<lparr>queue_handle := xQueueCreate r capacity\<rparr>"

definition push_from_host_task ::
  "('q, 'e) rtos \<Rightarrow> 'e \<Rightarrow> 'q event_queue \<Rightarrow> ('q event_queue \<times> 'e queue_out list) option" where
  "push_from_host_task r ev s = (case queue_handle s of
     None \<Rightarrow> None
   | Some q \<Rightarrow> Some (case xQueueSend r ev q of
       Some q \<Rightarrow> (s\<lparr>queue_handle := Some q\<rparr>, [])
     | None \<Rightarrow>
         let s = s\<lparr>dropped_count := dropped_count s + 1\<rparr>
         in (s, Freed ev # (if dropped_count s = 1 then [Log_queue_full] else []))))"

definition queue_pop ::
  "('q, 'e) rtos \<Rightarrow> 'q event_queue \<Rightarrow> ('q event_queue \<times> 'e option) option" where
  "queue_pop r s = (case queue_handle s of
     None \<Rightarrow> None
   | Some q \<Rightarrow> Some (case xQueueReceive r q of
       Some (e, q) \<Rightarrow> (s\<lparr>queue_handle := Some q\<rparr>, Some e)
     | None \<Rightarrow> (s, None)))"

text \<open>The queues of the three components.\<close>

definition gatt_queue_init :: "('q, gatt_event) rtos \<Rightarrow> int \<Rightarrow> 'q event_queue \<Rightarrow> 'q event_queue" where
  "gatt_queue_init = queue_init"

definition gatt_queue_push ::
  "('q, gatt_event) rtos \<Rightarrow> gatt_event \<Rightarrow> 'q event_queue
     \<Rightarrow> ('q event_queue \<times> gatt_event queue_out list) option" where
  "gatt_queue_push = push_from_host_task"

definition adv_queue_init :: "('q, adv_queue_event) rtos \<Rightarrow> int \<Rightarrow> 'q event_queue \<Rightarrow> 'q event_queue" where
  "adv_queue_init = queue_init"

definition adv_queue_push ::
  "('q, adv_queue_event) rtos \<Rightarrow> adv_queue_event \<Rightarrow> 'q event_queue
     \<Rightarrow> ('q event_queue \<times> adv_queue_event queue_out list) option" where
  "adv_queue_push = push_from_host_task"

text \<open>
  The lazily created singleton of the GATT clients: \<open>None\<close> before the first call, which creates the
  queue with the capacity of that call. The loop passes the real capacity, the callbacks pass 0.
\<close>

definition gatt_event_queue ::
  "('q, gatt_event) rtos \<Rightarrow> int \<Rightarrow> 'q event_queue option \<Rightarrow> 'q event_queue" where
  "gatt_event_queue r capacity_hint st =
     (case st of Some s \<Rightarrow> s | None \<Rightarrow> gatt_queue_init r capacity_hint event_queue0)"

section \<open>Pushes and pops\<close>

datatype 'e queue_op = Push 'e | Pop

fun queue_step ::
  "('q, 'e) rtos \<Rightarrow> 'e queue_op \<Rightarrow> 'q event_queue \<Rightarrow> ('q event_queue \<times> 'e queue_out list) option" where
  "queue_step r (Push e) s = push_from_host_task r e s"
| "queue_step r Pop s =
     map_option (apsnd (\<lambda>e. case e of Some e \<Rightarrow> [Popped e] | None \<Rightarrow> [])) (queue_pop r s)"

fun queue_run ::
  "('q, 'e) rtos \<Rightarrow> 'e queue_op list \<Rightarrow> 'q event_queue \<Rightarrow> ('q event_queue \<times> 'e queue_out list) option" where
  "queue_run r [] s = Some (s, [])"
| "queue_run r (x # xs) s = (case queue_step r x s of
     None \<Rightarrow> None
   | Some (s, out) \<Rightarrow> map_option (apsnd ((@) out)) (queue_run r xs s))"

fun pushed_events :: "'e queue_op list \<Rightarrow> 'e list" where
  "pushed_events [] = []"
| "pushed_events (Push e # xs) = e # pushed_events xs"
| "pushed_events (Pop # xs) = pushed_events xs"

fun popped_events :: "'e queue_out list \<Rightarrow> 'e list" where
  "popped_events [] = []"
| "popped_events (Popped e # xs) = e # popped_events xs"
| "popped_events (_ # xs) = popped_events xs"

fun freed_events :: "'e queue_out list \<Rightarrow> 'e list" where
  "freed_events [] = []"
| "freed_events (Freed e # xs) = e # freed_events xs"
| "freed_events (_ # xs) = freed_events xs"

lemma popped_append [simp]: "popped_events (xs @ ys) = popped_events xs @ popped_events ys"
  by (induction xs rule: popped_events.induct) auto

lemma freed_append [simp]: "freed_events (xs @ ys) = freed_events xs @ freed_events ys"
  by (induction xs rule: freed_events.induct) auto

text \<open>\<open>queue_ok\<close>: created, holding \<open>xs\<close>, within its capacity.\<close>

definition queue_ok :: "nat \<Rightarrow> ('q \<Rightarrow> 'e list) \<Rightarrow> 'e list \<Rightarrow> 'q event_queue \<Rightarrow> bool" where
  "queue_ok cap items xs s \<longleftrightarrow> (\<exists>q. queue_handle s = Some q \<and> items q = xs) \<and> length xs \<le> cap"

lemma queue_ok_init:
  assumes "rtos_queue r cap items" and "xQueueCreate r (int cap) = Some q"
  shows "queue_ok cap items [] (queue_init r (int cap) s)"
  using assms by (auto simp: queue_ok_def queue_init_def rtos_queue_def)

lemma push_room:
  assumes "rtos_queue r cap items" and "queue_ok cap items xs s" and "length xs < cap"
  obtains s' where "push_from_host_task r e s = Some (s', [])" and "queue_ok cap items (xs @ [e]) s'"
    and "dropped_count s' = dropped_count s"
proof -
  obtain q where q: "queue_handle s = Some q" "items q = xs" using assms(2) by (auto simp: queue_ok_def)
  obtain q' where "xQueueSend r e q = Some q'" "items q' = xs @ [e]"
    using send_room [OF assms(1), of q e] q assms(3) by metis
  then show thesis using that [of "s\<lparr>queue_handle := Some q'\<rparr>"] q assms(3)
    by (auto simp: push_from_host_task_def queue_ok_def)
qed

lemma push_full:
  assumes "rtos_queue r cap items" and "queue_ok cap items xs s" and "length xs = cap"
  obtains s' out where "push_from_host_task r e s = Some (s', out)" and "queue_ok cap items xs s'"
    and "dropped_count s' = dropped_count s + 1" and "freed_events out = [e]" and "popped_events out = []"
proof -
  obtain q where q: "queue_handle s = Some q" "items q = xs" using assms(2) by (auto simp: queue_ok_def)
  have "xQueueSend r e q = None" using send_full [OF assms(1)] q assms(3) by simp
  then show thesis using that [of "s\<lparr>dropped_count := dropped_count s + 1\<rparr>"] q assms(2)
    by (auto simp: push_from_host_task_def queue_ok_def Let_def)
qed

lemma pop_front:
  assumes "rtos_queue r cap items" and "queue_ok cap items (e # es) s"
  obtains s' where "queue_pop r s = Some (s', Some e)" and "queue_ok cap items es s'"
    and "dropped_count s' = dropped_count s"
proof -
  obtain q where q: "queue_handle s = Some q" "items q = e # es" using assms(2) by (auto simp: queue_ok_def)
  obtain q' where "xQueueReceive r q = Some (e, q')" "items q' = es"
    using receive_front [OF assms(1) q(2)] .
  then show thesis using that [of "s\<lparr>queue_handle := Some q'\<rparr>"] q assms(2)
    by (auto simp: queue_pop_def queue_ok_def)
qed

lemma pop_empty:
  assumes "rtos_queue r cap items" and "queue_ok cap items [] s"
  shows "queue_pop r s = Some (s, None)"
  using assms receive_empty [OF assms(1)] by (auto simp: queue_pop_def queue_ok_def)

text \<open>The queue after a run: what it handed out and still holds is what it accepted, in order.\<close>

lemma queue_run_fifo:
  assumes "rtos_queue r cap items" and "queue_ok cap items xs s"
  shows "\<exists>s' out ys kept. queue_run r ops s = Some (s', out) \<and> queue_ok cap items ys s'
           \<and> popped_events out @ ys = xs @ kept \<and> subseq kept (pushed_events ops)
           \<and> mset kept + mset (freed_events out) = mset (pushed_events ops)
           \<and> dropped_count s' = dropped_count s + of_nat (length (freed_events out))
           \<and> (length xs + length (pushed_events ops) \<le> cap \<longrightarrow> freed_events out = [])"
  using assms(2)
proof (induction ops arbitrary: xs s)
  case Nil
  then show ?case by (auto intro!: exI [of _ "[]"])
next
  case (Cons x ops)
  note IH = Cons.IH
  show ?case
  proof (cases x)
    case (Push e)
    show ?thesis
    proof (cases "length xs < cap")
      case True
      obtain s1 where 1: "push_from_host_task r e s = Some (s1, [])" "queue_ok cap items (xs @ [e]) s1"
        "dropped_count s1 = dropped_count s"
        using push_room [OF assms(1) Cons.prems True, of e] .
      from IH [OF 1(2)] obtain s' out ys kept where 2: "queue_run r ops s1 = Some (s', out)"
        "queue_ok cap items ys s'" "popped_events out @ ys = xs @ e # kept"
        "subseq kept (pushed_events ops)" "mset kept + mset (freed_events out) = mset (pushed_events ops)"
        "dropped_count s' = dropped_count s1 + of_nat (length (freed_events out))"
        "Suc (length xs + length (pushed_events ops)) \<le> cap \<longrightarrow> freed_events out = []"
        by (auto simp: add.commute)
      show ?thesis using Push 1 2
        by - (rule exI [of _ s'], rule exI [of _ out], rule exI [of _ ys],
            rule exI [of _ "e # kept"], simp)
    next
      case False
      then have full: "length xs = cap" using Cons.prems by (auto simp: queue_ok_def)
      obtain s1 out1 where 1: "push_from_host_task r e s = Some (s1, out1)" "queue_ok cap items xs s1"
        "dropped_count s1 = dropped_count s + 1" "freed_events out1 = [e]" "popped_events out1 = []"
        using push_full [OF assms(1) Cons.prems full, of e] .
      from IH [OF 1(2)] obtain s' out ys kept where 2: "queue_run r ops s1 = Some (s', out)"
        "queue_ok cap items ys s'" "popped_events out @ ys = xs @ kept"
        "subseq kept (pushed_events ops)" "mset kept + mset (freed_events out) = mset (pushed_events ops)"
        "dropped_count s' = dropped_count s1 + of_nat (length (freed_events out))" by blast
      show ?thesis using Push 1 2 full
        by - (rule exI [of _ s'], rule exI [of _ "out1 @ out"], rule exI [of _ ys],
            rule exI [of _ kept], auto)
    qed
  next
    case Pop
    show ?thesis
    proof (cases xs)
      case Nil
      show ?thesis using IH [OF Cons.prems] pop_empty [OF assms(1)] Cons.prems Pop Nil by auto
    next
      case (Cons e es)
      obtain s1 where 1: "queue_pop r s = Some (s1, Some e)" "queue_ok cap items es s1"
        "dropped_count s1 = dropped_count s"
        using pop_front [OF assms(1)] Cons.prems Cons by blast
      from IH [OF 1(2)] obtain s' out ys kept where 2: "queue_run r ops s1 = Some (s', out)"
        "queue_ok cap items ys s'" "popped_events out @ ys = es @ kept"
        "subseq kept (pushed_events ops)" "mset kept + mset (freed_events out) = mset (pushed_events ops)"
        "dropped_count s' = dropped_count s1 + of_nat (length (freed_events out))"
        "length es + length (pushed_events ops) \<le> cap \<longrightarrow> freed_events out = []" by blast
      show ?thesis using Pop 1 2 Cons
        by - (rule exI [of _ s'], rule exI [of _ "Popped e # out"], rule exI [of _ ys],
            rule exI [of _ kept], auto)
    qed
  qed
qed

section \<open>Draining\<close>

text \<open>
  \<open>while (queue.pop(&event))\<close>: every event the queue holds, front first. Nothing in the code bounds
  the loop but the queue running empty, so it is a partial function: \<open>None\<close> if it never ends. A push of the
  host task during the loop counts as one before it.
\<close>

partial_function (option) drain_queue ::
  "('q, 'e) rtos \<Rightarrow> 'q event_queue \<Rightarrow> ('q event_queue \<times> 'e list) option" where
  "drain_queue r s = Option.bind (queue_pop r s) (\<lambda>(s, e). case e of
     None \<Rightarrow> Some (s, [])
   | Some e \<Rightarrow> Option.bind (drain_queue r s) (\<lambda>(s, es). Some (s, e # es)))"

declare drain_queue.simps [code]

lemma drain_queue_all:
  assumes "rtos_queue r cap items" and "queue_ok cap items xs s"
  shows "\<exists>s'. drain_queue r s = Some (s', xs) \<and> queue_ok cap items [] s' \<and> dropped_count s' = dropped_count s"
  using assms(2)
proof (induction xs arbitrary: s)
  case Nil
  then show ?case using pop_empty [OF assms(1)] by (subst drain_queue.simps) simp
next
  case (Cons x xs)
  obtain s1 where 1: "queue_pop r s = Some (s1, Some x)" "queue_ok cap items xs s1"
    "dropped_count s1 = dropped_count s"
    using pop_front [OF assms(1) Cons.prems] .
  from Cons.IH [OF 1(2)] obtain s' where "drain_queue r s1 = Some (s', xs)" "queue_ok cap items [] s'"
    "dropped_count s' = dropped_count s" using 1(3) by auto
  then show ?case using 1(1) by (subst drain_queue.simps) simp
qed

subsection \<open>The GATT clients\<close>

text \<open>
  \<open>engines\<close>: the engine at each address an event can name as its owner. An event of an owner that
  is not there is a dangling pointer, \<open>None\<close>. The effects are tagged with the engine that has them.
\<close>

type_synonym engines = "owner \<Rightarrow> engine option"

definition deliver_gatt_event ::
  "host \<Rightarrow> u32 \<Rightarrow> gatt_event \<Rightarrow> engines \<Rightarrow> (engines \<times> (owner \<times> effect) list) option" where
  "deliver_gatt_event stk now ev es = (case ge_owner ev of
     None \<Rightarrow> Some (es, [])
   | Some i \<Rightarrow> (case es i of
       None \<Rightarrow> None
     | Some e \<Rightarrow> map_option (\<lambda>(e, out). (es(i \<mapsto> e), map (Pair i) out)) (handle_gatt_event stk now ev e)))"

primrec drain_bounded ::
  "nat \<Rightarrow> ('q, gatt_event) rtos \<Rightarrow> host \<Rightarrow> u32 \<Rightarrow> 'q event_queue \<Rightarrow> engines
     \<Rightarrow> ('q event_queue \<times> engines \<times> (owner \<times> effect) list) option" where
  "drain_bounded 0 r stk now s es = Some (s, es, [])"
| "drain_bounded (Suc n) r stk now s es = (case queue_pop r s of
     None \<Rightarrow> None
   | Some (s, None) \<Rightarrow> Some (s, es, [])
   | Some (s, Some ev) \<Rightarrow> (case deliver_gatt_event stk now ev es of
       None \<Rightarrow> None
     | Some (es, out) \<Rightarrow>
         map_option (\<lambda>(s, es, out'). (s, es, out @ out')) (drain_bounded n r stk now s es)))"

definition MAX_EVENTS_PER_DRAIN :: nat where "MAX_EVENTS_PER_DRAIN = 32"

definition drain_gatt_events ::
  "('q, gatt_event) rtos \<Rightarrow> int \<Rightarrow> host \<Rightarrow> u32 \<Rightarrow> 'q event_queue option \<Rightarrow> engines
     \<Rightarrow> ('q event_queue \<times> engines \<times> (owner \<times> effect) list) option" where
  "drain_gatt_events r n stk now st es =
     drain_bounded MAX_EVENTS_PER_DRAIN r stk now (gatt_event_queue r (n * 16) st) es"

text \<open>The steps an engine makes for its own events, and what it does.\<close>

definition own_steps :: "u32 \<Rightarrow> owner \<Rightarrow> gatt_event list \<Rightarrow> (u32 \<times> engine_call) list" where
  "own_steps now i evs = map (\<lambda>ev. (now, Event ev)) (filter (\<lambda>ev. ge_owner ev = Some i) evs)"

definition own_effects :: "owner \<Rightarrow> (owner \<times> effect) list \<Rightarrow> effect list" where
  "own_effects i out = map snd (filter (\<lambda>x. fst x = i) out)"

lemma own_steps_simps [simp]:
  "own_steps now i [] = []"
  "own_steps now i (ev # evs) =
     (if ge_owner ev = Some i then [(now, Event ev)] else []) @ own_steps now i evs"
  by (auto simp: own_steps_def)

lemma own_effects_simps [simp]:
  "own_effects i [] = []"
  "own_effects i (xs @ ys) = own_effects i xs @ own_effects i ys"
  "own_effects i (map (Pair j) out) = (if i = j then out else [])"
  by (auto simp: own_effects_def comp_def)

text \<open>Every engine an event of \<open>evs\<close> names is there and, alone, gets through its own events.\<close>

definition served :: "host \<Rightarrow> u32 \<Rightarrow> gatt_event list \<Rightarrow> engines \<Rightarrow> bool" where
  "served stk now evs es \<longleftrightarrow> list_all (\<lambda>ev. case ge_owner ev of
     None \<Rightarrow> True
   | Some i \<Rightarrow> (case es i of None \<Rightarrow> False | Some e \<Rightarrow> engine_run stk (own_steps now i evs) e \<noteq> None)) evs"

lemma served_iff:
  "served stk now evs es \<longleftrightarrow> (\<forall>ev \<in> set evs. \<forall>i. ge_owner ev = Some i \<longrightarrow>
     (\<exists>e. es i = Some e \<and> engine_run stk (own_steps now i evs) e \<noteq> None))"
  unfolding served_def list_all_iff by (rule ball_cong [OF refl]) (simp split: option.splits)

lemma served_tail: "served stk now (ev # evs) es \<Longrightarrow> ge_owner ev = None \<Longrightarrow> served stk now evs es"
  unfolding served_iff by simp

lemma served_head:
  assumes "served stk now (ev # evs) es" and "ge_owner ev = Some i"
  obtains e e1 out1 where "es i = Some e" and "handle_gatt_event stk now ev e = Some (e1, out1)"
    and "served stk now evs (es(i \<mapsto> e1))"
proof -
  obtain e where e: "es i = Some e" and run: "engine_run stk ((now, Event ev) # own_steps now i evs) e \<noteq> None"
    using assms unfolding served_iff by auto
  obtain e1 out1 where h: "handle_gatt_event stk now ev e = Some (e1, out1)"
    and run1: "engine_run stk (own_steps now i evs) e1 \<noteq> None"
    using run by (auto split: option.splits)
  have "\<exists>d. (es(i \<mapsto> e1)) j = Some d \<and> engine_run stk (own_steps now j evs) d \<noteq> None"
    if x: "x \<in> set evs" "ge_owner x = Some j" for x j
  proof (cases "j = i")
    case False
    then obtain d where "es j = Some d" "engine_run stk (own_steps now j (ev # evs)) d \<noteq> None"
      using assms(1) x unfolding served_iff by (meson list.set_intros(2))
    then show ?thesis using False assms(2) by simp
  qed (use run1 in simp)
  then show thesis using that [OF e h] unfolding served_iff by blast
qed

lemma drain_bounded_runs:
  assumes "rtos_queue r cap items" and "queue_ok cap items evs s" and "served stk now (take n evs) es"
  shows "\<exists>s' es' out. drain_bounded n r stk now s es = Some (s', es', out)
           \<and> queue_ok cap items (drop n evs) s'
           \<and> (\<forall>i e. es i = Some e \<longrightarrow>
                 map_option (apfst Some) (engine_run stk (own_steps now i (take n evs)) e)
                   = Some (es' i, own_effects i out))"
  using assms(2,3)
proof (induction n arbitrary: evs s es)
  case 0
  then show ?case by simp
next
  case (Suc n)
  show ?case
  proof (cases evs)
    case Nil
    then show ?thesis using pop_empty [OF assms(1)] Suc.prems by simp
  next
    case (Cons ev rest)
    obtain s1 where 1: "queue_pop r s = Some (s1, Some ev)" "queue_ok cap items rest s1"
      using pop_front [OF assms(1)] Suc.prems(1) Cons by blast
    show ?thesis
    proof (cases "ge_owner ev")
      case None
      have "served stk now (take n rest) es"
        using Suc.prems(2) Cons served_tail [OF _ None] by simp
      from Suc.IH [OF 1(2) this] show ?thesis
        using 1 Cons None by (auto simp: deliver_gatt_event_def)
    next
      case (Some i)
      have sv: "served stk now (ev # take n rest) es" using Suc.prems(2) Cons by simp
      obtain e e1 out1 where e: "es i = Some e"
        and h: "handle_gatt_event stk now ev e = Some (e1, out1)"
        and sv1: "served stk now (take n rest) (es(i \<mapsto> e1))"
        using served_head [OF sv Some] .
      from Suc.IH [OF 1(2) sv1] obtain s' es' out where 2:
        "drain_bounded n r stk now s1 (es(i \<mapsto> e1)) = Some (s', es', out)"
        "queue_ok cap items (drop n rest) s'"
        "\<forall>j e. (es(i \<mapsto> e1)) j = Some e \<longrightarrow>
           map_option (apfst Some) (engine_run stk (own_steps now j (take n rest)) e)
             = Some (es' j, own_effects j out)" by blast
      have "drain_bounded (Suc n) r stk now s es = Some (s', es', map (Pair i) out1 @ out)"
        using 1 2(1) Some e h by (simp add: deliver_gatt_event_def)
      moreover have "map_option (apfst Some) (engine_run stk (own_steps now j (take (Suc n) evs)) d)
          = Some (es' j, own_effects j (map (Pair i) out1 @ out))" if "es j = Some d" for j d
        using that 2(3) [rule_format, of j] Cons Some e h by (cases "j = i") auto
      ultimately show ?thesis using 2(2) Cons
        by (intro exI [of _ s'] exI [of _ es'] exI [of _ "map (Pair i) out1 @ out"]) simp
    qed
  qed
qed

subsection \<open>The tracker and its queue\<close>

text \<open>
  The advertisement queue with the tracker it feeds: the host task reports an event of a scan, the
  main loop takes what is queued. \<open>None\<close> is the stop of the device. A loop of a component whose
  parent is not active returns before it pops. The queue is made by the tracker's \<open>setup\<close>.
\<close>

datatype scan_op = Report gap_disc_event | Tick tracker_env | Command tracker_op

type_synonym 'q scan_system = "('q event_queue \<times> tracker) option"

type_synonym scan_out = "adv_queue_event queue_out + tracker_out"

definition ADV_QUEUE_CAPACITY :: int where "ADV_QUEUE_CAPACITY = 64"

definition scan_setup ::
  "('q, adv_queue_event) rtos \<Rightarrow> tracker_env \<Rightarrow> tracker \<Rightarrow> 'q event_queue \<times> tracker \<times> tracker_out list" where
  "scan_setup r env t =
     (if parent_failed env then (event_queue0, tracker_setup env t)
      else (adv_queue_init r ADV_QUEUE_CAPACITY event_queue0, tracker_setup env t))"

definition scan_report ::
  "('q, adv_queue_event) rtos \<Rightarrow> gap_disc_event \<Rightarrow> 'q event_queue
     \<Rightarrow> ('q event_queue \<times> adv_queue_event queue_out list) option" where
  "scan_report r g s = (case tracker_gap_event g of
     None \<Rightarrow> Some (s, [])
   | Some ev \<Rightarrow> adv_queue_push r ev s)"

definition scan_tick ::
  "('q, adv_queue_event) rtos \<Rightarrow> tracker_env \<Rightarrow> 'q event_queue \<Rightarrow> tracker
     \<Rightarrow> ('q event_queue \<times> tracker \<times> tracker_out list) option" where
  "scan_tick r env s t =
     (if \<not> parent_active env then Some (s, t, [])
      else map_option (\<lambda>(s, evs). (s, tracker_loop env evs t)) (drain_queue r s))"

fun scan_step ::
  "('q, adv_queue_event) rtos \<Rightarrow> scan_op \<Rightarrow> 'q scan_system \<Rightarrow> 'q scan_system \<times> scan_out list" where
  "scan_step r x None = (None, [])"
| "scan_step r (Report g) (Some (s, t)) = (case scan_report r g s of
     None \<Rightarrow> (None, [])
   | Some (s, out) \<Rightarrow> (Some (s, t), map Inl out))"
| "scan_step r (Tick env) (Some (s, t)) = (case scan_tick r env s t of
     None \<Rightarrow> (None, [])
   | Some (s, t, out) \<Rightarrow> (Some (s, t), map Inr out))"
| "scan_step r (Command x) (Some (s, t)) =
     (case x of Loop_op _ _ \<Rightarrow> (Some (s, t), [])
      | _ \<Rightarrow> let (t, out) = tracker_step x t in (Some (s, t), map Inr out))"

fun queue_outs :: "('a + 'b) list \<Rightarrow> 'a list" where
  "queue_outs [] = []"
| "queue_outs (Inl x # xs) = x # queue_outs xs"
| "queue_outs (Inr _ # xs) = queue_outs xs"

fun loop_outs :: "('a + 'b) list \<Rightarrow> 'b list" where
  "loop_outs [] = []"
| "loop_outs (Inl _ # xs) = loop_outs xs"
| "loop_outs (Inr x # xs) = x # loop_outs xs"

lemma outs_append [simp]:
  "queue_outs (xs @ ys) = queue_outs xs @ queue_outs ys"
  "loop_outs (xs @ ys) = loop_outs xs @ loop_outs ys"
  by (induction xs rule: queue_outs.induct) auto

lemma outs_map [simp]:
  "queue_outs (map Inl as) = as" "queue_outs (map Inr bs) = []"
  "loop_outs (map Inl as) = []" "loop_outs (map Inr bs) = bs"
  by (induction as) (induction bs, auto)+

definition all_reported :: "adv_queue_event list \<Rightarrow> adv multiset" where
  "all_reported evs = \<Sum>\<^sub># (mset (map reported evs))"

lemma all_reported_simps [simp]:
  "all_reported [] = {#}"
  "all_reported (ev # evs) = reported ev + all_reported evs"
  "all_reported (xs @ ys) = all_reported xs + all_reported ys"
  by (simp_all add: all_reported_def)

fun scan_reports :: "scan_op \<Rightarrow> adv multiset" where
  "scan_reports (Report g) = (case tracker_gap_event g of None \<Rightarrow> {#} | Some ev \<Rightarrow> reported ev)"
| "scan_reports _ = {#}"

text \<open>
  The system as a ledger of the advertisements reported: what it holds is in the merger or in the
  queue, what it has settled was dispatched or freed by a full queue.
\<close>

fun scan_inv :: "nat \<Rightarrow> ('q \<Rightarrow> adv_queue_event list) \<Rightarrow> 'q scan_system \<Rightarrow> bool" where
  "scan_inv cap items None \<longleftrightarrow> False"
| "scan_inv cap items (Some (s, t)) \<longleftrightarrow>
     (case queue_handle s of None \<Rightarrow> False | Some q \<Rightarrow> length (items q) \<le> cap) \<and> ready t"

fun scan_holds :: "('q \<Rightarrow> adv_queue_event list) \<Rightarrow> 'q scan_system \<Rightarrow> adv multiset" where
  "scan_holds items None = {#}"
| "scan_holds items (Some (s, t)) =
     held (merger t) + (case queue_handle s of None \<Rightarrow> {#} | Some q \<Rightarrow> all_reported (items q))"

definition scan_settles :: "adv list \<Rightarrow> scan_out list \<Rightarrow> bool" where
  "scan_settles src out \<longleftrightarrow> (\<exists>d. list_all2 carries d (full_frames (frames_of (loop_outs out)))
     \<and> mset src = mset d + all_reported (freed_events (queue_outs out)))"

lemma scan_inv_ok:
  assumes "scan_inv cap items sys"
  obtains s t xs where "sys = Some (s, t)" and "queue_ok cap items xs s" and "ready t"
    and "scan_holds items sys = held (merger t) + all_reported xs"
proof (cases sys)
  case None
  then show thesis using assms by simp
next
  case (Some st)
  obtain s t where st: "st = (s, t)" by fastforce
  obtain q where "queue_handle s = Some q" "length (items q) \<le> cap" "ready t"
    using assms Some st by (auto split: option.splits)
  then show thesis using that [of s t "items q"] Some st by (auto simp: queue_ok_def)
qed

lemma scan_inv_intro:
  assumes "queue_ok cap items xs s" and "ready t"
  shows "scan_inv cap items (Some (s, t))"
    and "scan_holds items (Some (s, t)) = held (merger t) + all_reported xs"
  using assms by (auto simp: queue_ok_def)

text \<open>What one step does: the new state, the frames it carries out, the reports it drops.\<close>

definition scan_moves ::
  "nat \<Rightarrow> ('q \<Rightarrow> adv_queue_event list) \<Rightarrow> scan_op \<Rightarrow> 'q event_queue \<Rightarrow> adv multiset
     \<Rightarrow> 'q scan_system \<times> scan_out list \<Rightarrow> bool" where
  "scan_moves cap items x s before res \<longleftrightarrow> (\<exists>s' t' d. fst res = Some (s', t')
     \<and> scan_inv cap items (fst res)
     \<and> list_all2 carries d (full_frames (frames_of (loop_outs (snd res))))
     \<and> mset d + all_reported (freed_events (queue_outs (snd res))) + scan_holds items (fst res)
         = before + scan_reports x
     \<and> dropped_count s' = dropped_count s + of_nat (length (freed_events (queue_outs (snd res)))))"

lemma keeps_frames:
  assumes "keeps t new (t', out)"
  obtains d where "list_all2 carries d (full_frames (frames_of out))"
    and "mset d + held (merger t') = held (merger t) + new" and "ready t'"
  using assms keeps_ready [OF assms] unfolding keeps_def conserving_def by auto

lemma scan_moves_report:
  assumes "rtos_queue r cap items" and "queue_ok cap items xs s" and "ready t"
  shows "scan_moves cap items (Report g) s (held (merger t) + all_reported xs)
           (scan_step r (Report g) (Some (s, t)))"
proof (cases "tracker_gap_event g")
  case None
  then show ?thesis using scan_inv_intro [OF assms(2,3)]
    by (simp add: scan_moves_def scan_report_def)
next
  case (Some ev)
  show ?thesis
  proof (cases "length xs < cap")
    case True
    obtain s' where "push_from_host_task r ev s = Some (s', [])" "queue_ok cap items (xs @ [ev]) s'"
      "dropped_count s' = dropped_count s"
      using push_room [OF assms(1,2) True] .
    then show ?thesis using Some scan_inv_intro [OF _ assms(3), of cap items "xs @ [ev]" s']
      by (simp add: scan_moves_def scan_report_def adv_queue_push_def ac_simps)
  next
    case False
    then have full: "length xs = cap" using assms(2) by (auto simp: queue_ok_def)
    obtain s' out where "push_from_host_task r ev s = Some (s', out)" "queue_ok cap items xs s'"
      "dropped_count s' = dropped_count s + 1" "freed_events out = [ev]"
      using push_full [OF assms(1,2) full] .
    then show ?thesis using Some scan_inv_intro [OF _ assms(3), of cap items xs s']
      by (simp add: scan_moves_def scan_report_def adv_queue_push_def ac_simps)
  qed
qed

lemma scan_moves_tick:
  assumes "rtos_queue r cap items" and "queue_ok cap items xs s" and "ready t"
  shows "scan_moves cap items (Tick env) s (held (merger t) + all_reported xs)
           (scan_step r (Tick env) (Some (s, t)))"
proof (cases "parent_active env")
  case False
  then show ?thesis using scan_inv_intro [OF assms(2,3)] by (simp add: scan_moves_def scan_tick_def)
next
  case True
  obtain s' where s': "drain_queue r s = Some (s', xs)" "queue_ok cap items [] s'"
    "dropped_count s' = dropped_count s"
    using drain_queue_all [OF assms(1,2)] by blast
  obtain t' out where l: "tracker_loop env xs t = (t', out)" by fastforce
  have "keeps t (all_reported xs) (t', out)"
    using keeps_loop [OF assms(3), of env xs] True l by (simp add: all_reported_def)
  then obtain d where "list_all2 carries d (full_frames (frames_of out))"
    "mset d + held (merger t') = held (merger t) + all_reported xs" "ready t'"
    by (rule keeps_frames)
  then show ?thesis using True s' l scan_inv_intro [OF s'(2), of t']
    by (auto simp: scan_moves_def scan_tick_def)
qed

lemma scan_moves_command:
  assumes "queue_ok cap items xs s" and "ready t"
  shows "scan_moves cap items (Command x) s (held (merger t) + all_reported xs)
           (scan_step r (Command x) (Some (s, t)))"
proof (cases "\<exists>env evs. x = Loop_op env evs")
  case True
  then show ?thesis using scan_inv_intro [OF assms] by (auto simp: scan_moves_def)
next
  case False
  obtain t' out where l: "tracker_step x t = (t', out)" by fastforce
  have no: "op_reports x = {#}" using False by (cases x) auto
  obtain d where d: "list_all2 carries d (full_frames (frames_of out))"
    "mset d + held (merger t') = held (merger t)" "ready t'"
    using keeps_frames [of t "op_reports x" t' out] keeps_step [OF assms(2), of x] l no by auto
  have "scan_step r (Command x) (Some (s, t)) = (Some (s, t'), map Inr out)"
    using False l by (cases x) auto
  then show ?thesis using d scan_inv_intro [OF assms(1) d(3)]
    by (auto simp: scan_moves_def ac_simps)
qed

lemma scan_step_moves:
  assumes "rtos_queue r cap items" and "scan_inv cap items (Some (s, t))"
  shows "scan_moves cap items x s (scan_holds items (Some (s, t))) (scan_step r x (Some (s, t)))"
proof -
  obtain xs where xs: "queue_ok cap items xs s" "ready t"
    "scan_holds items (Some (s, t)) = held (merger t) + all_reported xs"
    using scan_inv_ok [OF assms(2)] by auto
  show ?thesis unfolding xs(3)
    by (cases x; hypsubst; rule scan_moves_report [OF assms(1) xs(1,2)]
        scan_moves_tick [OF assms(1) xs(1,2)] scan_moves_command [OF xs(1,2)])
qed

lemma scan_ledger:
  assumes "rtos_queue r cap items"
  shows "ledger (scan_step r) (scan_inv cap items) (scan_holds items) scan_reports scan_settles"
proof
  fix sys x assume inv: "scan_inv cap items sys"
  obtain s t where sys: "sys = Some (s, t)" using scan_inv_ok [OF inv] .
  show "scan_inv cap items (fst (scan_step r x sys))"
    using scan_step_moves [OF assms, of s t x] inv sys by (auto simp: scan_moves_def)
next
  show "scan_settles [] []" by (simp add: scan_settles_def)
next
  fix src out src' out'
  assume "scan_settles src out" and "scan_settles src' out'"
  then obtain d d' where
    "list_all2 carries (d @ d') (full_frames (frames_of (loop_outs (out @ out'))))"
    "mset src = mset d + all_reported (freed_events (queue_outs out))"
    "mset src' = mset d' + all_reported (freed_events (queue_outs out'))"
    unfolding scan_settles_def by (auto intro: list_all2_appendI)
  then show "scan_settles (src @ src') (out @ out')"
    unfolding scan_settles_def by (intro exI [of _ "d @ d'"]) simp
next
  fix sys x sys' out assume inv: "scan_inv cap items sys" and st: "scan_step r x sys = (sys', out)"
  obtain s t where sys: "sys = Some (s, t)" using scan_inv_ok [OF inv] .
  obtain d where d: "list_all2 carries d (full_frames (frames_of (loop_outs out)))"
    "mset d + all_reported (freed_events (queue_outs out)) + scan_holds items sys'
       = scan_holds items sys + scan_reports x"
    using scan_step_moves [OF assms, of s t x] inv sys st by (auto simp: scan_moves_def)
  obtain src where "mset src = mset d + all_reported (freed_events (queue_outs out))"
    using ex_mset by blast
  then show "\<exists>src. scan_settles src out \<and> mset src + scan_holds items sys' = scan_holds items sys + scan_reports x"
    using d by (auto simp: scan_settles_def)
qed

lemma scan_run_dropped:
  assumes "rtos_queue r cap items" and "scan_inv cap items (Some (s, t))"
    and "run_ops (scan_step r) ops (Some (s, t)) = (Some (s', t'), out)"
  shows "dropped_count s' = dropped_count s + of_nat (length (freed_events (queue_outs out)))"
  using assms(2,3)
proof (induction ops arbitrary: s t out)
  case (Cons x ops)
  obtain sys1 out1 where st: "scan_step r x (Some (s, t)) = (sys1, out1)" by fastforce
  then obtain s1 t1 where 1: "sys1 = Some (s1, t1)" "scan_inv cap items (Some (s1, t1))"
    "dropped_count s1 = dropped_count s + of_nat (length (freed_events (queue_outs out1)))"
    using scan_step_moves [OF assms(1) Cons.prems(1), of x] unfolding scan_moves_def by auto
  then show ?case using Cons.IH [OF 1(2)] Cons.prems(2) st by (auto split: prod.splits)
qed simp

text \<open>After the tracker's setup nothing is held and the queue is empty.\<close>

lemma scan_setup_ready:
  assumes "rtos_queue r 64 items" and "xQueueCreate r 64 = Some q0"
    and "scan_setup r (env\<lparr>parent_failed := False\<rparr>)
           (tracker_init\<lparr>scan_continuous := cont, scan_active := act\<rparr>) = (s1, t1, out1)"
  shows "queue_ok 64 items [] s1" and "ready t1" and "held (merger t1) = {#}" and "dropped_count s1 = 0"
proof -
  have t1: "merger t1 = bind_merger merger_init" and s1: "s1 = queue_init r (int 64) event_queue0"
    using assms(3) by (auto simp: scan_setup_def tracker_setup_def start_scan_inner_def set_scanner_state_def
        tracker_init_def adv_queue_init_def ADV_QUEUE_CAPACITY_def Let_def split: if_splits)
  show "ready t1" using t1 by (simp add: ready_def merger_wf_init dispatcher_bound_init)
  show "held (merger t1) = {#}" using t1 by (simp add: bind_merger_def held_def merger_init_def)
  show "queue_ok 64 items [] s1" unfolding s1 by (rule queue_ok_init [OF assms(1)]) (simp add: assms(2))
  show "dropped_count s1 = 0" using s1 by (simp add: queue_init_def event_queue0_def)
qed

text \<open>A run from an empty queue and a tracker that holds nothing, of any capacity.\<close>

lemma scan_run_accounted:
  assumes "rtos_queue r cap items" and "queue_ok cap items [] s1" and "ready t1" and "held (merger t1) = {#}"
    and "dropped_count s1 = 0"
  shows "\<exists>s t q d out. run_ops (scan_step r) ops (Some (s1, t1)) = (Some (s, t), out)
           \<and> queue_handle s = Some q \<and> length (items q) \<le> cap
           \<and> list_all2 carries d (full_frames (frames_of (loop_outs out)))
           \<and> mset d + held (merger t) + all_reported (items q)
               + all_reported (freed_events (queue_outs out)) = \<Sum>\<^sub># (mset (map scan_reports ops))
           \<and> dropped_count s = of_nat (length (freed_events (queue_outs out)))"
proof -
  note inv1 = scan_inv_intro [OF assms(2,3)]
  obtain sys out where run: "run_ops (scan_step r) ops (Some (s1, t1)) = (sys, out)" by fastforce
  note led = scan_ledger [OF assms(1)]
  obtain src where src: "scan_settles src out"
    "mset src + scan_holds items sys = \<Sum>\<^sub># (mset (map scan_reports ops))"
    using ledger.run_balance [OF led inv1(1) run] inv1(2) assms(4) by auto
  have "scan_inv cap items sys"
    using kept.run_inv [OF ledger.axioms(1) [OF led] inv1(1), of ops] run by simp
  then obtain s t xs where fin: "sys = Some (s, t)" "queue_ok cap items xs s"
    "scan_holds items sys = held (merger t) + all_reported xs" by (rule scan_inv_ok)
  obtain d where d: "list_all2 carries d (full_frames (frames_of (loop_outs out)))"
    "mset src = mset d + all_reported (freed_events (queue_outs out))"
    using src(1) unfolding scan_settles_def by blast
  have "dropped_count s = dropped_count s1 + of_nat (length (freed_events (queue_outs out)))"
    using scan_run_dropped [OF assms(1) inv1(1)] run fin(1) by blast
  then have "dropped_count s = of_nat (length (freed_events (queue_outs out)))" using assms(5) by simp
  moreover have "mset d + held (merger t) + all_reported xs + all_reported (freed_events (queue_outs out))
      = \<Sum>\<^sub># (mset (map scan_reports ops))"
    using src(2) d(2) fin(3) by (simp add: ac_simps)
  ultimately show ?thesis using fin run d(1) by (auto simp: queue_ok_def)
qed

section \<open>Properties\<close>

text \<open>
  C29. An event queue of capacity \<open>cap\<close>, under any interleaving of pushes by the host task and pops by
  the loop, is a bounded FIFO that never blocks and loses nothing silently: no operation stops the
  device, at most \<open>cap\<close> events are held, what was popped followed by what is held is a subsequence of
  what was pushed, the events missing from it are exactly those whose payload was freed, their
  number is the drop counter, and there are none when no more than \<open>cap\<close> were pushed.
\<close>

theorem event_queue_is_fifo:
  assumes "rtos_queue r cap items" and "xQueueCreate r (int cap) = Some q0"
  shows "\<exists>s' q' out. queue_run r ops (queue_init r (int cap) event_queue0) = Some (s', out)
           \<and> queue_handle s' = Some q' \<and> length (items q') \<le> cap
           \<and> subseq (popped_events out @ items q') (pushed_events ops)
           \<and> mset (popped_events out @ items q') + mset (freed_events out) = mset (pushed_events ops)
           \<and> dropped_count s' = of_nat (length (freed_events out))
           \<and> (length (pushed_events ops) \<le> cap \<longrightarrow> freed_events out = [])"
  using queue_run_fifo [OF assms(1) queue_ok_init [OF assms], of ops event_queue0]
  by (auto simp: queue_ok_def event_queue0_def queue_init_def)

theorem event_queue_is_fifo_witness:
  "queue_run (list_rtos 2) [Push 1, Push 2, Push 3, Pop, Push 4]
       (queue_init (list_rtos 2) 2 event_queue0)
     = Some (\<lparr>queue_handle = Some [2, 4 :: nat], dropped_count = 1\<rparr>, [Freed 3, Log_queue_full, Popped 1])
   \<and> (\<exists>s' q' out. queue_run (list_rtos 2) [Push 1, Push 2, Push 3, Pop, Push 4]
         (queue_init (list_rtos 2) 2 event_queue0) = Some (s', out)
       \<and> mset (popped_events out @ id q') + mset (freed_events out) = mset [1, 2, 3, 4 :: nat])"
proof
  show "queue_run (list_rtos 2) [Push 1, Push 2, Push 3, Pop, Push 4]
       (queue_init (list_rtos 2) 2 event_queue0)
     = Some (\<lparr>queue_handle = Some [2, 4 :: nat], dropped_count = 1\<rparr>, [Freed 3, Log_queue_full, Popped 1])"
    by (simp add: queue_init_def push_from_host_task_def queue_pop_def list_rtos_def event_queue0_def)
next
  show "\<exists>s' q' out. queue_run (list_rtos 2) [Push 1, Push 2, Push 3, Pop, Push 4]
         (queue_init (list_rtos 2) 2 event_queue0) = Some (s', out)
       \<and> mset (popped_events out @ id q') + mset (freed_events out) = mset [1, 2, 3, 4 :: nat]"
    using event_queue_is_fifo [OF list_rtos_queue [of 2], of "[]"
        "[Push 1, Push 2, Push 3, Pop, Push 4 :: nat queue_op]"]
    by (auto simp: list_rtos_def)
qed

text \<open>
  C30. The loop that pops until the queue is empty ends, whatever the queue holds: it returns every
  event held, front first, and leaves the queue empty with its drop counter as it was.
\<close>

theorem drain_terminates:
  assumes "rtos_queue r cap items" and "queue_handle s = Some q" and "length (items q) \<le> cap"
  shows "\<exists>s' q'. drain_queue r s = Some (s', items q) \<and> queue_handle s' = Some q' \<and> items q' = []
           \<and> dropped_count s' = dropped_count s"
proof -
  have "queue_ok cap items (items q) s" using assms(2,3) by (simp add: queue_ok_def)
  from drain_queue_all [OF assms(1) this] show ?thesis by (auto simp: queue_ok_def)
qed

theorem drain_terminates_witness:
  "\<exists>s' q'. drain_queue (list_rtos 3) \<lparr>queue_handle = Some [7 :: nat, 8], dropped_count = 5\<rparr> = Some (s', [7, 8])
     \<and> queue_handle s' = Some q' \<and> q' = [] \<and> dropped_count s' = 5"
  using drain_terminates [OF list_rtos_queue [of 3],
      of "\<lparr>queue_handle = Some [7 :: nat, 8], dropped_count = 5\<rparr>" "[7, 8]"] by simp

text \<open>
  C28. One drain of the GATT clients' shared queue serves its oldest 32 events and leaves the rest:
  each engine makes exactly the steps of its own events, in the order of the queue, and has exactly
  the effects it would have alone, whatever events of other engines lie between them.
\<close>

theorem drain_serves_owners:
  assumes "rtos_queue r cap items" and "queue_handle s = Some q" and "length (items q) \<le> cap"
    and "served stk now (take 32 (items q)) es"
  shows "\<exists>s' q' es' out. drain_gatt_events r n stk now (Some s) es = Some (s', es', out)
           \<and> queue_handle s' = Some q' \<and> items q' = drop 32 (items q)
           \<and> (\<forall>i e. es i = Some e \<longrightarrow>
                 map_option (apfst Some) (engine_run stk (own_steps now i (take 32 (items q))) e)
                   = Some (es' i, own_effects i out))"
proof -
  have "queue_ok cap items (items q) s" using assms(2,3) by (simp add: queue_ok_def)
  from drain_bounded_runs [OF assms(1) this assms(4)] show ?thesis
    by (auto simp: queue_ok_def drain_gatt_events_def MAX_EVENTS_PER_DRAIN_def gatt_event_queue_def)
qed

definition notified :: "owner \<Rightarrow> u16 \<Rightarrow> bytes \<Rightarrow> gatt_event" where
  "notified i h bs = (gatt_event0 (Some i) EV_NOTIFY_RX 1)\<lparr>ge_handle := h, ge_data := bs\<rparr>"

definition two_clients :: engines where
  "two_clients = (\<lambda>i. if i < 2 then Some (engine_init\<lparr>listener := True\<rparr>) else None)"

lemma handle_notified:
  "handle_gatt_event stk now (notified i h bs) e = Some (e, tell e (ON_NOTIFY_DATA h bs))"
  by (simp add: notified_def handle_gatt_event_def gatt_event0_def)

theorem drain_serves_owners_witness:
  "\<exists>s' es' out.
     drain_gatt_events (list_rtos 48) 3 (\<lambda>_. 0) 100
       (Some \<lparr>queue_handle = Some [notified 0 5 [1], notified 1 6 [2], notified 0 7 [3]], dropped_count = 0\<rparr>)
       two_clients = Some (s', es', out)
     \<and> own_effects 0 out = [Listener (ON_NOTIFY_DATA 5 [1]), Listener (ON_NOTIFY_DATA 7 [3])]
     \<and> own_effects 1 out = [Listener (ON_NOTIFY_DATA 6 [2])] \<and> queue_handle s' = Some []"
proof -
  let ?q = "[notified 0 5 [1], notified 1 6 [2], notified 0 7 [3]]"
  have own: "ge_owner (notified i h bs) = Some i" for i h bs
    by (simp add: notified_def gatt_event0_def)
  have "served (\<lambda>_. 0) 100 ?q two_clients"
    by (simp add: served_def own two_clients_def handle_notified)
  then obtain s' q' es' out where d:
    "drain_gatt_events (list_rtos 48) 3 (\<lambda>_. 0) 100
       (Some \<lparr>queue_handle = Some ?q, dropped_count = 0\<rparr>) two_clients = Some (s', es', out)"
    "queue_handle s' = Some q'" "q' = []"
    "\<forall>i e. two_clients i = Some e \<longrightarrow>
       map_option (apfst Some) (engine_run (\<lambda>_. 0) (own_steps 100 i ?q) e) = Some (es' i, own_effects i out)"
    using drain_serves_owners [OF list_rtos_queue [of 48],
        of "\<lparr>queue_handle = Some ?q, dropped_count = 0\<rparr>" ?q "\<lambda>_. 0" 100 two_clients 3] by auto
  have "own_effects 0 out = [Listener (ON_NOTIFY_DATA 5 [1]), Listener (ON_NOTIFY_DATA 7 [3])]"
    using d(4) [rule_format, of 0 "engine_init\<lparr>listener := True\<rparr>"]
    by (simp add: own two_clients_def handle_notified tell_def engine_init_def)
  moreover have "own_effects 1 out = [Listener (ON_NOTIFY_DATA 6 [2])]"
    using d(4) [rule_format, of 1 "engine_init\<lparr>listener := True\<rparr>"]
    by (simp add: own two_clients_def handle_notified tell_def engine_init_def)
  ultimately show ?thesis using d by blast
qed

text \<open>
  From the host task to the dispatcher no advertisement is lost unseen. After the tracker's setup,
  under any sequence of scan reports by the host task, loops and commands, the device does not
  stop, and the advertisements reported are exactly those dispatched (as the frames, in order), those the
  merger holds for a scan response, those waiting in the queue of 64, and those a full queue
  dropped, each of which the drop counter counts.
\<close>

theorem reports_accounted:
  assumes "rtos_queue r 64 items" and "xQueueCreate r 64 = Some q0"
    and "scan_setup r (env\<lparr>parent_failed := False\<rparr>)
           (tracker_init\<lparr>scan_continuous := cont, scan_active := act\<rparr>) = (s1, t1, out1)"
  shows "\<exists>s t q d out. run_ops (scan_step r) ops (Some (s1, t1)) = (Some (s, t), out)
           \<and> queue_handle s = Some q \<and> length (items q) \<le> 64
           \<and> list_all2 carries d (full_frames (frames_of (loop_outs out)))
           \<and> mset d + held (merger t) + all_reported (items q)
               + all_reported (freed_events (queue_outs out)) = \<Sum>\<^sub># (mset (map scan_reports ops))
           \<and> dropped_count s = of_nat (length (freed_events (queue_outs out)))"
  by (rule scan_run_accounted [OF assms(1) scan_setup_ready [OF assms(1,2,3)]])

definition scan_env :: tracker_env where
  "scan_env = \<lparr>parent_active = True, parent_failed = False, disc_rc = 0, millis = 1000\<rparr>"

definition beacon :: gap_disc_event where
  "beacon = GAP_DISC 3 [1, 2, 3, 4, 5, 6] 200 0 [2, 1, 6]"

theorem reports_accounted_witness:
  "\<exists>s t q d out.
     run_ops (scan_step (list_rtos 64)) [Report beacon, Tick scan_env, Report beacon]
       (let (s, t, out) = scan_setup (list_rtos 64) (scan_env\<lparr>parent_failed := False\<rparr>)
                            (tracker_init\<lparr>scan_continuous := True, scan_active := False\<rparr>) in Some (s, t))
       = (Some (s, t), out)
     \<and> queue_handle s = Some q
     \<and> mset d + held (merger t) + all_reported (id q) + all_reported (freed_events (queue_outs out))
       = {#clip_adv [1, 2, 3, 4, 5, 6] 0 200 [2, 1, 6], clip_adv [1, 2, 3, 4, 5, 6] 0 200 [2, 1, 6]#}"
proof -
  obtain s1 t1 out1 where st: "scan_setup (list_rtos 64) (scan_env\<lparr>parent_failed := False\<rparr>)
      (tracker_init\<lparr>scan_continuous := True, scan_active := False\<rparr>) = (s1, t1, out1)"
    using prod_cases3 by blast
  have "xQueueCreate (list_rtos 64) 64 = Some []" by (simp add: list_rtos_def)
  from reports_accounted [OF list_rtos_queue this st, of "[Report beacon, Tick scan_env, Report beacon]"]
  obtain s t q d out where
    "run_ops (scan_step (list_rtos 64)) [Report beacon, Tick scan_env, Report beacon] (Some (s1, t1))
       = (Some (s, t), out)" "queue_handle s = Some q"
    "mset d + held (merger t) + all_reported (id q) + all_reported (freed_events (queue_outs out))
       = \<Sum>\<^sub># (mset (map scan_reports [Report beacon, Tick scan_env, Report beacon]))" by auto
  moreover have "\<Sum>\<^sub># (mset (map scan_reports [Report beacon, Tick scan_env, Report beacon]))
      = {#clip_adv [1, 2, 3, 4, 5, 6] 0 200 [2, 1, 6], clip_adv [1, 2, 3, 4, 5, 6] 0 200 [2, 1, 6]#}"
    by (simp add: beacon_def tracker_gap_event_def reported_def)
  ultimately show ?thesis unfolding st by auto
qed

end
