(* ===== verification/ScanToApi.thy ===== *)
theory ScanToApi
  imports ProxyLiveness EventQueues
begin

text \<open>
  The whole way of an advertisement: reported by the controller on the host task, queued, merged and
  dispatched by the tracker's loop, batched by the proxy and offered to the API client, while the
  proxy serves its requests. The station is the advertisement queue with the proxy's world, whose
  hub is the tracker; it refines the tracker with its queue of \<open>EventQueues\<close>.
\<close>

section \<open>The station\<close>

datatype station_op =
  Radio gap_disc_event
| Tracker_loop env tracker_env
| Api world_op

type_synonym 'q station = "('q event_queue \<times> world) option"

text \<open>What an operation of the proxy's world makes the tracker push.\<close>

fun world_pushes :: "world_op \<Rightarrow> world \<Rightarrow> tracker_out list" where
  "world_pushes (Hub_step env x) w = snd (tracker_step x (hub w))"
| "world_pushes (Set_mode env b) w =
     (if scan_active (hub w) = b then [] else snd (stop_scan (set_scan_active b (hub w))))"
| "world_pushes x w = []"

text \<open>Loops of the tracker take their events from the queue, and raw advertisements come from the tracker only.\<close>

fun from_queue :: "world_op \<Rightarrow> bool" where
  "from_queue (Raw_advertisement env raw) \<longleftrightarrow> True"
| "from_queue (Hub_step env (Loop_op tenv evs)) \<longleftrightarrow> True"
| "from_queue x \<longleftrightarrow> False"

fun station_step ::
  "('q, adv_queue_event) rtos \<Rightarrow> station_op \<Rightarrow> 'q station \<Rightarrow> 'q station \<times> scan_out list" where
  "station_step r x None = (None, [])"
| "station_step r (Radio g) (Some (s, w)) = (case scan_report r g s of
     None \<Rightarrow> (None, [])
   | Some (s, out) \<Rightarrow> (Some (s, w), map Inl out))"
| "station_step r (Tracker_loop env tenv) (Some (s, w)) =
     (if \<not> parent_active tenv then (Some (s, w), [])
      else case drain_queue r s of
        None \<Rightarrow> (None, [])
      | Some (s, evs) \<Rightarrow>
          let x = Hub_step env (Loop_op tenv evs)
          in (Some (s, world_next x w), map Inr (world_pushes x w)))"
| "station_step r (Api x) (Some (s, w)) =
     (if from_queue x then (Some (s, w), [])
      else (Some (s, world_next x w), map Inr (world_pushes x w)))"

fun radio_reports :: "station_op \<Rightarrow> adv multiset" where
  "radio_reports (Radio g) = (case tracker_gap_event g of None \<Rightarrow> {#} | Some ev \<Rightarrow> reported ev)"
| "radio_reports _ = {#}"

section \<open>The tracker inside the proxy's world\<close>

lemma hub_get_connection: "get_connection a b w = (r, w') \<Longrightarrow> hub w' = hub w"
  by (auto simp: get_connection_def Let_def split: option.splits prod.splits if_splits)

lemma hub_device_request: "hub (bluetooth_device_request env ty a at w) = hub w"
proof -
  have "hub (connect_request env b a at w) = hub w" for b
    by (auto simp: connect_request_def Let_def dest: hub_get_connection split: option.splits prod.splits if_splits)
  then show ?thesis
    by (auto simp: bluetooth_device_request_def disconnect_request_def pair_request_def unpair_request_def Let_def
        split: device_request_type.splits option.splits prod.splits if_splits)
qed

lemma hub_reset_owed: "hub (reset_owed_replies w) = hub w"
  by (simp add: reset_owed_replies_def Let_def hub_for_slots)

lemma hub_proxy_loop: "hub (proxy_loop env w) = hub w"
  by (simp add: proxy_loop_def Let_def hub_for_slots split: option.split)

text \<open>Every operation of the world is a run of commands and loops of the tracker, with what it pushes.\<close>

fun hub_ops :: "world_op \<Rightarrow> world \<Rightarrow> tracker_op list" where
  "hub_ops (Hub_step env x) w = [x]"
| "hub_ops (Set_mode env b) w =
     (if scan_active (hub w) = b then [] else [Set_active_op b, Stop_scan_op, Set_continuous_op True])"
| "hub_ops x w = []"

lemma hub_next: "tracker_run (hub_ops x w) (hub w) = (hub (world_next x w), world_pushes x w)"
proof (cases x)
  case (Hub_step env op)
  then show ?thesis by (simp split: prod.split)
next
  case (Set_mode env b)
  then show ?thesis by (simp add: bluetooth_scanner_set_mode_def Let_def split: prod.split)
qed (simp_all add: hub_device_request hub_proxy_loop hub_reset_owed gatt_op_request_def
    bluetooth_gatt_read_def bluetooth_gatt_write_def bluetooth_gatt_read_descriptor_def
    bluetooth_gatt_write_descriptor_def bluetooth_gatt_notify_def bluetooth_gatt_send_services_def
    bluetooth_set_connection_params_def subscribe_api_connection_def unsubscribe_api_connection_def Let_def
    split: option.split)

section \<open>The station refines the tracker with its queue\<close>

definition tracker_part :: "'q station \<Rightarrow> 'q scan_system" where
  "tracker_part = map_option (apsnd hub)"

lemma tracker_part_simps [simp]:
  "tracker_part None = None" "tracker_part (Some (s, w)) = Some (s, hub w)"
  by (simp_all add: tracker_part_def)

lemma run_commands:
  "\<forall>x \<in> set ops. \<forall>env evs. x \<noteq> Loop_op env evs \<Longrightarrow>
     run_ops (scan_step r) (map Command ops) (Some (s, t))
       = (Some (s, fst (tracker_run ops t)), map Inr (snd (tracker_run ops t)))"
proof (induction ops arbitrary: t)
  case (Cons x ops)
  have "scan_step r (Command x) (Some (s, t)) = (Some (s, fst (tracker_step x t)), map Inr (snd (tracker_step x t)))"
    using Cons.prems by (cases x) (auto simp: split_beta)
  then show ?case using Cons by (simp add: split_beta Let_def)
qed simp

lemma commands_report_nothing: "\<Sum>\<^sub># (mset (map scan_reports (map Command ops))) = {#}"
  by (induction ops) auto

lemma hub_ops_no_loop: "\<not> from_queue x \<Longrightarrow> \<forall>y \<in> set (hub_ops x w). \<forall>env evs. y \<noteq> Loop_op env evs"
  by (cases x) auto

lemma station_step_refines:
  assumes "station_step r x sys = (sys', out)"
  shows "\<exists>ops. run_ops (scan_step r) ops (tracker_part sys) = (tracker_part sys', out) \<and>
     \<Sum>\<^sub># (mset (map scan_reports ops)) = radio_reports x"
proof (cases x)
  case (Radio g)
  then show ?thesis using assms
    by (cases sys) (auto intro!: exI [of _ "[Report g]"] split: option.splits)
next
  case (Tracker_loop env tenv)
  have "run_ops (scan_step r) [Tick tenv] (tracker_part sys) = (tracker_part sys', out)"
    using assms Tracker_loop
    by (cases sys) (auto simp: scan_tick_def Let_def split: option.splits prod.splits if_splits)
  then show ?thesis using Tracker_loop by (intro exI [of _ "[Tick tenv]"]) simp
next
  case (Api y)
  show ?thesis
  proof (cases "sys = None \<or> from_queue y")
    case True
    then have "tracker_part sys' = tracker_part sys" "out = []" using assms Api by (cases sys; auto)+
    then show ?thesis using Api by (intro exI [of _ "[]"]) simp
  next
    case False
    then obtain s w where sys: "sys = Some (s, w)" by auto
    then have "sys' = Some (s, world_next y w)" "out = map Inr (world_pushes y w)" using assms Api False by auto
    then have "run_ops (scan_step r) (map Command (hub_ops y w)) (tracker_part sys) = (tracker_part sys', out)"
      using run_commands [OF hub_ops_no_loop [of y w], of r s "hub w"] False sys hub_next [of y w] by simp
    then show ?thesis using Api commands_report_nothing by (metis radio_reports.simps(3))
  qed
qed

lemma station_run_refines:
  assumes "run_ops (station_step r) xs sys = (sys', out)"
  shows "\<exists>ops. run_ops (scan_step r) ops (tracker_part sys) = (tracker_part sys', out) \<and>
     \<Sum>\<^sub># (mset (map scan_reports ops)) = \<Sum>\<^sub># (mset (map radio_reports xs))"
  using assms
proof (induction xs arbitrary: sys out)
  case Nil
  then show ?case by (intro exI [of _ "[]"]) simp
next
  case (Cons x xs)
  obtain sys1 out1 out2 where 1: "station_step r x sys = (sys1, out1)"
    and 2: "run_ops (station_step r) xs sys1 = (sys', out2)" and out: "out = out1 @ out2"
    using Cons.prems by (auto split: prod.splits)
  obtain ops1 ops2 where
    "run_ops (scan_step r) ops1 (tracker_part sys) = (tracker_part sys1, out1)"
    "\<Sum>\<^sub># (mset (map scan_reports ops1)) = radio_reports x"
    "run_ops (scan_step r) ops2 (tracker_part sys1) = (tracker_part sys', out2)"
    "\<Sum>\<^sub># (mset (map scan_reports ops2)) = \<Sum>\<^sub># (mset (map radio_reports xs))"
    using station_step_refines [OF 1] Cons.IH [OF 2] by blast
  then show ?case using out by (intro exI [of _ "ops1 @ ops2"]) (simp add: run_ops_append)
qed

section \<open>What the subscriber is offered\<close>

definition on_air :: "client \<Rightarrow> station_op \<Rightarrow> bool" where
  "on_air cl x \<longleftrightarrow> (case x of
     Radio g \<Rightarrow> True
   | Tracker_loop env tenv \<Rightarrow> server_connected env
   | Api y \<Rightarrow> keeps_subscriber cl y \<and> (radio y \<longrightarrow> (\<forall>env. call_env y = Some env \<longrightarrow> server_connected env)))"

abbreviation advert_of :: "frame \<Rightarrow> advertisement_msg" where "advert_of f \<equiv> advert_msg (raw_of f)"

lemma log_next:
  assumes "slots_wf N w" "api_connection (prx w) = Some cl" "on_air cl (Api x)" "\<And>env raw. x \<noteq> Raw_advertisement env raw"
  shows "slots_wf N (world_next x w) \<and> api_connection (prx (world_next x w)) = Some cl \<and>
     adv_log (prx (world_next x w)) = adv_log (prx w) @ map advert_of (frames_of (world_pushes x w))"
proof -
  have wf: "slots_wf N (world_next x w)" using ok_next [OF assms(1)] by simp
  show ?thesis
  proof (cases "radio x")
    case True
    have a: "api_connection (prx (world_next x w)) = Some cl"
      using radio_only_adds [OF True, of w] assms(2) by (simp add: offers_more_def)
    have "adv_log (prx (world_next x w)) = adv_log (prx w) @ map advert_of (frames_of (world_pushes x w))"
    proof (cases x)
      case (Hub_step env op)
      then show ?thesis using assms(2,3) adv_log_pushes by (simp add: on_air_def split_beta)
    next
      case (Set_mode env b)
      then show ?thesis using assms(2,3) adv_log_pushes
        by (simp add: on_air_def bluetooth_scanner_set_mode_def Let_def split_beta)
    qed (use True assms(4) in auto)
    then show ?thesis using wf a by simp
  next
    case False
    obtain i where i: "\<And>env. x \<noteq> Backend_poll env i"
      using that [of "case x of Backend_poll env j \<Rightarrow> Suc j | _ \<Rightarrow> 0"] by (cases x) auto
    have "stays_on ((undefined :: watch)\<lparr>w_address := 0, w_up := True\<rparr>) 0 i w (world_next x w)"
      by (rule stays_next [OF assms(1,2)]) (use i False assms(3) in \<open>auto simp: window_def on_air_def\<close>)
    then have "adds (prx w) (prx (world_next x w))" by (simp add: stays_on_def)
    moreover have "world_pushes x w = []" using False by (cases x) auto
    ultimately show ?thesis using wf assms(2) by (simp add: adds_def offers_more_def)
  qed
qed

lemma log_step:
  assumes "slots_wf N w" "api_connection (prx w) = Some cl" "on_air cl x"
    and "station_step r x (Some (s, w)) = (Some (s', w'), out)"
  shows "slots_wf N w' \<and> api_connection (prx w') = Some cl \<and>
     adv_log (prx w') = adv_log (prx w) @ map advert_of (frames_of (loop_outs out))"
proof (cases x)
  case (Radio g)
  then show ?thesis using assms by (auto split: option.splits)
next
  case (Tracker_loop env tenv)
  have "on_air cl (Api (Hub_step env (Loop_op tenv evs)))" for evs
    using assms(3) Tracker_loop by (simp add: on_air_def)
  from log_next [OF assms(1,2) this] show ?thesis
    using assms Tracker_loop by (auto simp: Let_def split: if_splits option.splits)
next
  case (Api y)
  show ?thesis
  proof (cases "from_queue y")
    case False
    then have "\<And>env raw. y \<noteq> Raw_advertisement env raw" by auto
    from log_next [OF assms(1,2) _ this] show ?thesis using assms Api False by auto
  qed (use assms Api in simp)
qed

lemma log_run:
  assumes "slots_wf N w" "api_connection (prx w) = Some cl" "\<forall>x \<in> set xs. on_air cl x"
    and "run_ops (station_step r) xs (Some (s, w)) = (Some (s', w'), out)"
  shows "adv_log (prx w') = adv_log (prx w) @ map advert_of (frames_of (loop_outs out))"
  using assms
proof (induction xs arbitrary: s w out)
  case (Cons x xs)
  obtain sys1 out1 out2 where 1: "station_step r x (Some (s, w)) = (sys1, out1)"
    and 2: "run_ops (station_step r) xs sys1 = (Some (s', w'), out2)" and out: "out = out1 @ out2"
    using Cons.prems(4) by (auto split: prod.splits)
  have "run_ops (station_step r) xs None = (None, [])"
    by (induction xs) auto
  then obtain s1 w1 where sys1: "sys1 = Some (s1, w1)" using 2 by (cases sys1) auto
  show ?case
    using log_step [OF Cons.prems(1,2), of x r s s1 w1 out1] Cons.IH [of w1 s1 out2] Cons.prems(3) 1 2
    unfolding sys1 out by simp
qed simp

text \<open>No frame makes the dispatcher read out of bounds, and its raw subscriber gets every frame, in order.\<close>

lemma dispatch_total:
  obtains d' res where "dispatch f d = Some (d', res)" "raw_sent res = (if raw_callback_set d then [raw_of f] else [])"
    "raw_callback_set d' = raw_callback_set d"
proof -
  have "unat (of_nat (length (fr_data f)) :: u16) \<le> length (fr_data f)"
    by (metis mod_less_eq_dividend unat_of_nat)
  then obtain x where x: "from_scan_result (fr_mac f) (sint (fr_rssi f)) (fr_addr_type f) (fr_data f)
      (of_nat (length (fr_data f))) device0 = Some x"
    using from_scan_result_total by blast
  then obtain p where p: "dispatch f d = Some p" by (cases "fr_raw_only f") (simp_all add: dispatch_def Let_def split_beta)
  have "raw_sent (snd p) = (if raw_callback_set d then [raw_of f] else []) \<and> raw_callback_set (fst p) = raw_callback_set d"
    using p x by (auto simp: dispatch_def Let_def split_beta split: if_split_asm)
  then show thesis by (intro that [of "fst p" "snd p"]) (simp_all add: p)
qed

lemma run_dispatcher_total:
  assumes "raw_callback_set d"
  shows "\<exists>d' rs. run_dispatcher out d = Some (d', rs) \<and> concat (map raw_sent rs) = map raw_of (frames_of out)"
  using assms
proof (induction out d rule: run_dispatcher.induct)
  case (2 f xs d)
  obtain d' res where "dispatch f d = Some (d', res)" "raw_sent res = [raw_of f]" "raw_callback_set d'"
    using 2(2) dispatch_total [of f d] by metis
  moreover obtain d'' rs where "run_dispatcher xs d' = Some (d'', rs)"
    "concat (map raw_sent rs) = map raw_of (frames_of xs)"
    using 2(1) calculation by blast
  ultimately show ?case by simp
next
  case (3 xs d)
  then show ?case by (simp add: on_scan_end_def)
qed simp_all

section \<open>The whole way\<close>


text \<open>Two reports, a loop of the tracker and two loops of the proxy, from the world \<open>idle_example\<close>.\<close>

definition air_example :: "station_op list" where
  "air_example = [Radio beacon, Api (Device_request (at_time 1000) CONNECT_V3_WITH_CACHE 5 (Some 0)), Radio beacon,
     Tracker_loop (at_time 1000) scan_env, Api (Proxy_loop (at_time 1200)), Api (Proxy_loop (at_time 1300))]"

definition set_up :: "bool \<Rightarrow> bool \<Rightarrow> adv_queue_event list event_queue \<times> tracker" where
  "set_up cont act = (case scan_setup (list_rtos 64) (scan_env\<lparr>parent_failed := False\<rparr>)
     (tracker_init\<lparr>scan_continuous := cont, scan_active := act\<rparr>) of (s, t, out) \<Rightarrow> (s, t))"

definition on_air_example :: "adv_queue_event list event_queue \<times> world" where
  "on_air_example = (case set_up True False of
     (s, t) \<Rightarrow> (s, idle_example\<lparr>hub := set_scanner_state_callback True t\<rparr>))"


end
