(* ===== verification/ScannerReports.thy ===== *)
theory ScannerReports
  imports ScanToApi
begin

text \<open>
  What a client knows of the scanner: in the build where the tracker pushes its transitions, the last
  report offered to the subscriber carries the state the tracker is in, or its retry is owed.
\<close>

section \<open>Announcements of the tracker\<close>

fun states_of :: "tracker_out list \<Rightarrow> scanner_state list" where
  "states_of [] = []"
| "states_of (Scanner_state st # xs) = st # states_of xs"
| "states_of (_ # xs) = states_of xs"

lemma states_of_append [simp]: "states_of (xs @ ys) = states_of xs @ states_of ys"
  by (induction xs rule: states_of.induct) auto

lemma states_of_map [simp]: "states_of (map Dispatch fs) = []"
  by (induction fs) auto

text \<open>With the callback set, the last state announced is the state left; none is announced when it stays.\<close>

definition announces :: "tracker \<Rightarrow> tracker \<times> tracker_out list \<Rightarrow> bool" where
  "announces t r \<longleftrightarrow> state_callback_set (fst r) = state_callback_set t \<and>
     (state_callback_set t \<longrightarrow> last (scanner_state t # states_of (snd r)) = scanner_state (fst r))"

named_theorems announcing

lemma announces_quiet [announcing]:
  "state_callback_set t' = state_callback_set t \<Longrightarrow> scanner_state t' = scanner_state t \<Longrightarrow> states_of out = [] \<Longrightarrow>
   announces t (t', out)"
  by (simp add: announces_def)

lemma announces_trans:
  "announces t (t1, out1) \<Longrightarrow> announces t1 (t2, out2) \<Longrightarrow> announces t (t2, out1 @ out2)"
  by (auto simp: announces_def last_append)

lemma announces_start [announcing]: "announces t (start_scan_inner env t)"
  by (simp add: announces_def start_scan_inner_def set_scanner_state_def Let_def)

lemma announces_end [announcing]: "announces t (end_scan t)"
  by (simp add: announces_def end_scan_def set_scanner_state_def Let_def split: prod.split)

lemma announces_stop: "announces t (stop_scan t)"
  by (simp add: announces_def stop_scan_def stop_scan_inner_def end_scan_def set_scanner_state_def Let_def
      split: prod.split)

lemma announces_handle: "announces t (tracker_handle env ev t)"
  by (cases "ae_type ev") (auto simp: tracker_handle_def intro: announcing split: prod.splits)

lemma announces_drain: "announces t (tracker_drain env evs t)"
proof (induction evs arbitrary: t)
  case (Cons ev evs)
  obtain t1 out1 t2 out2 where h: "tracker_handle env ev t = (t1, out1)" "tracker_drain env evs t1 = (t2, out2)"
    by fastforce
  then show ?case
    using announces_trans [of t t1 out1 t2 out2] announces_handle [of t env ev] Cons.IH [of t1] by simp
qed (simp add: announcing)

lemma announces_loop: "announces t (tracker_loop env evs t)"
proof (cases "parent_active env")
  case True
  obtain t1 out1 where d: "tracker_drain env evs t = (t1, out1)" by fastforce
  obtain t2 out2 where s: "(if \<not> merger_empty (merger t1) then
        let (m, frames) = sweep (scan_continuous t1) (millis env) (merger t1)
        in (t1\<lparr>merger := m\<rparr>, map Dispatch frames) else (t1, [])) = (t2, out2)" by fastforce
  obtain t3 out3 where i: "(if scanner_state t2 = SC_IDLE \<and> scan_continuous t2
        then start_scan_inner env t2 else (t2, [])) = (t3, out3)" by fastforce
  have "announces t (t1, out1)" using announces_drain [of t env evs] d by simp
  moreover have "announces t1 (t2, out2)" using s by (auto intro: announcing split: if_splits prod.splits)
  moreover have "announces t2 (t3, out3)" using i announces_start [of t2 env] announces_quiet by (metis states_of.simps(1) Pair_inject)
  ultimately show ?thesis using True d s i by (auto simp: tracker_loop_def intro: announces_trans)
qed (simp add: tracker_loop_def announcing)

lemma announces_step: "announces t (tracker_step x t)"
proof (cases x)
  case (Start_scan_op env)
  then show ?thesis using announces_start [of "t\<lparr>scan_continuous := True\<rparr>" env]
    by (auto simp: start_scan_def announces_def Let_def)
qed (simp_all add: announces_loop announces_stop announces_quiet set_scan_active_def set_scan_continuous_def)

section \<open>Reports of the proxy\<close>

lemma api_reset_owed: "api_connection (prx (reset_owed_replies w)) = api_connection (prx w)"
proof -
  have "api_connection (prx (for_slots is (\<lambda>i. at_slot i (\<lambda>(c, p). (g c, p))) v)) = api_connection (prx v)" for "is" g and v :: world
    by (induction "is" arbitrary: v) (simp_all add: at_slot_def)
  then show ?thesis by (simp add: reset_owed_replies_def on_prx_def Let_def)
qed

lemma api_subscribe: "api_connection (prx (subscribe_api_connection env cl w)) = Some cl"
  using adds_offers_more [OF adds_scanner]
  by (simp add: subscribe_api_connection_def on_prx_def offers_more_def Let_def)

lemma api_hub_step: "api_connection (prx (world_next (Hub_step env x) w)) = api_connection (prx w)"
  using offers_more_pushes by (simp add: offers_more_def split_beta)

text \<open>The last report to the subscriber, whether it was taken, and the retry owed.\<close>

definition reported_as :: "scanner_state \<Rightarrow> proxy \<Rightarrow> bool" where
  "reported_as st p \<longleftrightarrow> (case api_connection p of None \<Rightarrow> True
     | Some cl \<Rightarrow> scan_log p \<noteq> [] \<and> last (scan_log p) = (cl, st, \<not> scanner_state_pending p))"

lemma reported_grows: "reported_as st p \<Longrightarrow> grows p p' \<Longrightarrow> reported_as st p'"
  by (auto simp: reported_as_def grows_def adds_def offers_more_def split: option.split)

lemma reported_sends [simp]: "reported_as st (send_scanner_state env st b p)"
  by (auto simp: reported_as_def send_scanner_state_def send_bluetooth_scanner_state_def send_or_nobody_def
      send_message_def scan_log_def Let_def split: option.split)

lemma reported_raw: "reported_as st p \<Longrightarrow> reported_as st (on_raw_advertisement env raw p)"
  by (auto simp: reported_as_def on_raw_advertisement_def flush_pending_advertisements_def send_message_def
      scan_log_def Let_def split: option.splits)

lemma reported_pushes: "reported_as st p \<Longrightarrow> reported_as (last (st # states_of xs)) (hub_pushes env b xs p)"
proof (induction env b xs p arbitrary: st rule: hub_pushes.induct)
  case (2 env b st' xs p)
  have "reported_as (last (st' # states_of xs)) (hub_pushes env b xs (send_scanner_state env st' b p))"
    by (rule 2(1)) simp
  then show ?case by simp
qed (simp_all add: reported_raw)

lemma reported_announced:
  assumes "announces t (t', out)" and "state_callback_set t" and "reported_as (scanner_state t) p"
  shows "state_callback_set t' \<and> reported_as (scanner_state t') (hub_pushes env b out p)"
  using assms(1,2) reported_pushes [OF assms(3), of out env b] unfolding announces_def by simp

section \<open>The invariant\<close>

definition knows_scanner :: "world \<Rightarrow> bool" where
  "knows_scanner w \<longleftrightarrow> state_callback_set (hub w) \<and> reported_as (scanner_state (hub w)) (prx w)"

lemma knows_radio:
  assumes "knows_scanner w" and "radio x"
  shows "knows_scanner (world_next x w)"
proof (cases x)
  case (Raw_advertisement env raw)
  then show ?thesis using assms(1) by (simp add: knows_scanner_def on_prx_def reported_raw)
next
  case (Hub_step env y)
  obtain t out where t: "tracker_step y (hub w) = (t, out)" by fastforce
  then show ?thesis
    using reported_announced [of "hub w" t out "prx w" env "scan_active t"] announces_step [of "hub w" y] assms(1) Hub_step
    by (simp add: knows_scanner_def)
next
  case (Set_mode env b)
  obtain t out where t: "stop_scan (set_scan_active b (hub w)) = (t, out)" by fastforce
  have "announces (hub w) (t, out)"
    using announces_stop [of "set_scan_active b (hub w)"] unfolding t by (simp add: announces_def set_scan_active_def)
  then show ?thesis
    using reported_announced [of "hub w" t out "prx w" env "scan_active t"] t assms(1) Set_mode
    by (simp add: knows_scanner_def bluetooth_scanner_set_mode_def set_scan_continuous_def)
qed (use assms in simp_all)

lemma knows_next:
  assumes "slots_wf N w" and "knows_scanner w"
  shows "knows_scanner (world_next x w)"
proof (cases "radio x")
  case True
  then show ?thesis using knows_radio assms(2) by blast
next
  case False
  define W where "W = (undefined :: watch)\<lparr>w_address := 0, w_up := True\<rparr>"
  have win: "window W t env" for t env by (simp add: W_def window_def)
  have hub: "hub (world_next x w) = hub w" using hub_next [of x w] False by (cases x) auto
  consider env cl where "x = Subscribe env cl" | cl where "x = Unsubscribe cl" "api_connection (prx w) = Some cl"
    | env where "x = Proxy_loop env"
    | "\<not> says_scanner x" "\<And>cl. x = Unsubscribe cl \<Longrightarrow> api_connection (prx w) \<noteq> Some cl"
    by (cases x) auto
  then have "reported_as (scanner_state (hub w)) (prx (world_next x w))"
  proof cases
    case 1
    then show ?thesis by (simp add: subscribe_api_connection_def hub_reset_owed Let_def on_prx_def)
  next
    case 2
    then show ?thesis by (simp add: unsubscribe_api_connection_def reported_as_def api_reset_owed on_prx_def)
  next
    case (3 env)
    obtain v where v: "hub v = hub w" "stays W 0 0 w v"
      "proxy_loop env w = v \<or> stays W 0 0 (resend_scanner env v) (proxy_loop env w)"
      using loop_shape [OF win [of 0 env]] by blast
    have "reported_as (scanner_state (hub w)) (prx v)"
      using reported_grows assms(2) v(2) by (auto simp: knows_scanner_def stays_def)
    moreover from this have "reported_as (scanner_state (hub w)) (prx (resend_scanner env v))"
      by (simp add: resend_scanner_def on_prx_def v(1))
    ultimately show ?thesis using 3 v(3) by (auto simp: stays_def intro: reported_grows)
  next
    case 4
    obtain i where i: "\<And>env. x \<noteq> Backend_poll env i"
      using that [of "case x of Backend_poll env j \<Rightarrow> Suc j | _ \<Rightarrow> 0"] by (cases x) auto
    have "stays W 0 i w (world_next x w)"
      by (rule quiet_next [OF assms(1)]) (use 4 i False win in \<open>simp_all add: W_def\<close>)
    then show ?thesis using reported_grows assms(2) by (auto simp: knows_scanner_def stays_def)
  qed
  then show ?thesis using hub assms(2) by (simp add: knows_scanner_def)
qed

lemma knows_run: "slots_wf N w \<Longrightarrow> knows_scanner w \<Longrightarrow> knows_scanner (fold world_next xs w)"
proof (induction xs arbitrary: w)
  case (Cons x xs)
  then show ?case using knows_next ok_next [of N w x] by simp
qed simp

lemma knows_init: "knows_scanner (world_init n slots batch wifi act t)"
proof -
  have "api_connection (prx ((register_connection c ^^ n) w)) = api_connection (prx w)" for c and w :: world
    by (induction n) (simp_all add: register_connection_def Let_def)
  then show ?thesis
    by (simp add: knows_scanner_def reported_as_def world_init_def proxy_setup_def proxy_init_def
        set_scanner_state_callback_def Let_def)
qed

text \<open>
  C8. The subscriber never holds a stale scanner state that nobody will correct. From the setup on, after
  any sequence of requests, subscriptions and unsubscriptions, loops of the proxy, loops and commands
  of the tracker, mode changes, advertisements and events of the connections, and whatever messages
  the API refuses: the last scanner report offered to the subscribed client was for that client and
  carries the state the tracker is in now, and it was taken unless its retry is owed.
\<close>

theorem subscriber_knows_scanner:
  assumes "n \<le> slots" and "slots < 2 ^ 32"
    and "api_connection (prx (fold world_next xs (world_init n slots batch wifi act t))) = Some cl"
  shows "let w = fold world_next xs (world_init n slots batch wifi act t) in
     scan_log (prx w) \<noteq> [] \<and>
     last (scan_log (prx w)) = (cl, scanner_state (hub w), \<not> scanner_state_pending (prx w))"
proof -
  have "slots_wf slots (world_init n slots batch wifi act t)" using slots_wf_init [OF assms(1,2)] by simp
  from knows_run [OF this knows_init, of xs] assms(3) show ?thesis
    by (simp add: knows_scanner_def reported_as_def)
qed

theorem subscriber_knows_scanner_witness:
  "let w = fold world_next [Hub_step (env_example True) (Start_scan_op scan_env), Subscribe (env_example False) 1,
         Unsubscribe 1, Subscribe (env_example False) 2, Hub_step (env_example False) Stop_scan_op]
       (world_init 0 0 16 True True tracker_init) in
     scan_log (prx w) \<noteq> [] \<and>
     last (scan_log (prx w)) = (2, scanner_state (hub w), \<not> scanner_state_pending (prx w))"
proof (rule subscriber_knows_scanner)
  show "api_connection (prx (fold world_next [Hub_step (env_example True) (Start_scan_op scan_env),
         Subscribe (env_example False) 1, Unsubscribe 1, Subscribe (env_example False) 2,
         Hub_step (env_example False) Stop_scan_op] (world_init 0 0 16 True True tracker_init))) = Some 2"
    unfolding fold_simps comp_def api_hub_step by (simp only: world_next.simps api_subscribe)
qed simp_all

end
