(* ===== verification/GattContract.thy ===== *)
theory GattContract
  imports ProxyProperties NimbleEngine
begin

text \<open>
  The contract between the proxy's connections and their GATT backend: \<open>BLEGattConnectionContract\<close>
  (components/ble_device_base/ble_gatt_client.h). Its laws are the locale \<open>gatt_backend\<close>; the engine
  and the do-nothing backend of the host tests
  (components/bluetooth_connection/bluetooth_connection_gatt_backend.h) are its interpretations. What it
  gives the proxy: every request for an attribute has one of three outcomes.
\<close>

section \<open>The contract\<close>

text \<open>The operations on attributes, with the arguments of the C++ calls.\<close>

datatype gatt_op =
  Op_read u16
| Op_read_descriptor u16
| Op_write u16 bytes bool
| Op_write_descriptor u16 bytes
| Op_notify u16 bool

fun op_handle :: "gatt_op \<Rightarrow> u16" where
  "op_handle (Op_read h) = h"
| "op_handle (Op_read_descriptor h) = h"
| "op_handle (Op_write h d r) = h"
| "op_handle (Op_write_descriptor h d) = h"
| "op_handle (Op_notify h b) = h"

text \<open>An operation that waits for its completion; the others are reported in the call.\<close>

fun op_waits :: "gatt_op \<Rightarrow> bool" where
  "op_waits (Op_write h d r) \<longleftrightarrow> r"
| "op_waits (Op_notify h b) \<longleftrightarrow> False"
| "op_waits x \<longleftrightarrow> True"

fun op_report :: "gatt_op \<Rightarrow> listener_call" where
  "op_report (Op_notify h b) = ON_NOTIFY_STATE h b 0"
| "op_report x = ON_WRITE_RESULT (op_handle x) 0"

definition empty_table :: gatt_service_table where
  "empty_table = \<lparr>tbl_services = [], tbl_characteristics = [], tbl_descriptors = [], service_count = 0,
     tbl_characteristic_count = 0, tbl_descriptor_count = 0\<rparr>"

text \<open>
  Operations return 0 when accepted, with the completion through the listener, or a synchronous error; one
  operation may be outstanding at a time. The table is the backend's until it is released.
\<close>

locale gatt_backend =
  fixes call :: "gatt_op \<Rightarrow> 'b \<Rightarrow> int \<times> 'b \<times> effect list"
    and release :: "'b \<Rightarrow> 'b"
    and tab :: "'b \<Rightarrow> gatt_service_table"
    and wired :: "'b \<Rightarrow> bool"
    and busy :: "'b \<Rightarrow> bool"
  assumes call_wired: "wired b \<Longrightarrow> call x b = (rc, b', out) \<Longrightarrow> wired b'"
    and call_table: "wired b \<Longrightarrow> call x b = (rc, b', out) \<Longrightarrow> tab b' = tab b"
    and refused: "wired b \<Longrightarrow> call x b = (rc, b', out) \<Longrightarrow> rc \<noteq> 0 \<Longrightarrow> listeners_of out = [] \<and> busy b' = busy b"
    and one_at_a_time: "wired b \<Longrightarrow> call x b = (rc, b', out) \<Longrightarrow> op_waits x \<Longrightarrow> busy b \<Longrightarrow> rc \<noteq> 0"
    and accepted_waits: "wired b \<Longrightarrow> call x b = (0, b', out) \<Longrightarrow> op_waits x \<Longrightarrow> listeners_of out = [] \<and> busy b'"
    and accepted_reports: "wired b \<Longrightarrow> call x b = (0, b', out) \<Longrightarrow> \<not> op_waits x \<Longrightarrow>
          listeners_of out = [op_report x] \<and> busy b' = busy b"
    and released: "tab (release b) = empty_table"
    and release_idempotent: "release (release b) = release b"
begin

text \<open>The three outcomes of a call.\<close>

lemma outcome:
  assumes "wired b" and "call x b = (rc, b', out)"
  shows "wired b' \<and> tab b' = tab b \<and>
     (rc \<noteq> 0 \<and> listeners_of out = [] \<and> busy b' = busy b \<or>
      rc = 0 \<and> op_waits x \<and> \<not> busy b \<and> busy b' \<and> listeners_of out = [] \<or>
      rc = 0 \<and> \<not> op_waits x \<and> busy b' = busy b \<and> listeners_of out = [op_report x])"
  using call_wired [OF assms] call_table [OF assms] refused [OF assms] one_at_a_time [OF assms]
    accepted_waits [OF assms(1)] accepted_reports [OF assms(1)] assms(2) by blast

text \<open>
  Calls without a completion between them: at most one that waits is accepted, none when one is
  outstanding, and the listener hears of the others that were accepted, once each and in order.
\<close>

lemma calls_accounted:
  assumes "wired b"
    and "run_ops (\<lambda>x b. case call x b of (rc, b', out) \<Rightarrow> (b', [(x, rc, listeners_of out)])) xs b = (b', log)"
  shows "wired b' \<and> length (filter (\<lambda>(x, rc, ls). rc = 0 \<and> op_waits x) log) = (if busy b' \<and> \<not> busy b then 1 else 0) \<and>
     (busy b \<longrightarrow> busy b') \<and>
     concat (map (\<lambda>(x, rc, ls). ls) log) = map (\<lambda>(x, rc, ls). op_report x) (filter (\<lambda>(x, rc, ls). rc = 0 \<and> \<not> op_waits x) log)"
  using assms
proof (induction xs arbitrary: b log)
  case (Cons x xs)
  obtain rc b1 out where c: "call x b = (rc, b1, out)" by (cases "call x b") auto
  obtain log' where r: "run_ops (\<lambda>x b. case call x b of (rc, b', out) \<Rightarrow> (b', [(x, rc, listeners_of out)])) xs b1 = (b', log')"
    and log: "log = (x, rc, listeners_of out) # log'"
    using Cons.prems(2) c by (auto split: prod.splits)
  note o1 = outcome [OF Cons.prems(1) c]
  then show ?case using Cons.IH [OF _ r] unfolding log by auto
qed simp

end

section \<open>The engine and the do-nothing backend\<close>

fun nimble_call :: "host \<Rightarrow> gatt_op \<Rightarrow> engine \<Rightarrow> int \<times> engine \<times> effect list" where
  "nimble_call ho (Op_read h) e = read_characteristic ho h e"
| "nimble_call ho (Op_read_descriptor h) e = read_descriptor ho h e"
| "nimble_call ho (Op_write h d r) e = write_characteristic ho h d r e"
| "nimble_call ho (Op_write_descriptor h d) e = write_descriptor ho h d e"
| "nimble_call ho (Op_notify h b) e = notify_characteristic h b e"

lemmas nimble_call_defs = read_characteristic_def read_descriptor_def write_characteristic_def write_descriptor_def
  notify_characteristic_def attr_op_def GATT_ERR_NOT_CONNECTED_def BLE_HS_EBUSY_def tell_def Let_def

interpretation nimble: gatt_backend "nimble_call ho" release_services get_service_table listener "\<lambda>e. pending_op e \<noteq> OP_NONE"
  for ho
proof
  fix b b' :: engine and x rc out
  assume w: "listener b" and c: "nimble_call ho x b = (rc, b', out)"
  show "listener b'" "get_service_table b' = get_service_table b"
    using w c by (cases x; auto simp: nimble_call_defs get_service_table_def split: if_splits)+
  show "rc \<noteq> 0 \<Longrightarrow> listeners_of out = [] \<and> (pending_op b' \<noteq> OP_NONE) = (pending_op b \<noteq> OP_NONE)"
    using w c by (cases x) (auto simp: nimble_call_defs split: if_splits)
  show "op_waits x \<Longrightarrow> pending_op b \<noteq> OP_NONE \<Longrightarrow> rc \<noteq> 0"
    using w c by (cases x) (auto simp: nimble_call_defs split: if_splits)
next
  fix b b' :: engine and x out
  assume w: "listener b" and c: "nimble_call ho x b = (0, b', out)"
  show "op_waits x \<Longrightarrow> listeners_of out = [] \<and> pending_op b' \<noteq> OP_NONE"
    using w c by (cases x) (auto simp: nimble_call_defs split: if_splits)
  show "\<not> op_waits x \<Longrightarrow> listeners_of out = [op_report x] \<and> (pending_op b' \<noteq> OP_NONE) = (pending_op b \<noteq> OP_NONE)"
    using w c by (cases x) (auto simp: nimble_call_defs split: if_splits)
qed (simp_all add: release_services_def get_service_table_def empty_table_def)

text \<open>\<open>StubGattBackend\<close>: it has no state and refuses everything.\<close>

definition stub_call :: "gatt_op \<Rightarrow> unit \<Rightarrow> int \<times> unit \<times> effect list" where
  "stub_call x b = (GATT_ERR_NOT_CONNECTED, b, [])"

definition stub_release_services :: "unit \<Rightarrow> unit" where "stub_release_services b = b"

definition stub_get_service_table :: "unit \<Rightarrow> gatt_service_table" where "stub_get_service_table b = empty_table"

interpretation stub: gatt_backend stub_call stub_release_services stub_get_service_table "\<lambda>_. True" "\<lambda>_. False"
  by unfold_locales (auto simp: stub_call_def stub_get_service_table_def GATT_ERR_NOT_CONNECTED_def)

text \<open>
  A law the engine does not keep: a nonzero result of \<open>gatt_disconnect\<close> should mean that there is nothing
  to tear down and that no completion will follow. The engine returns what the host's terminate returned, with
  the link still up, and the end of the link is then reported.
\<close>

lemma disconnect_refused_with_link:
  assumes "conn_handle e \<noteq> BLE_HS_CONN_HANDLE_NONE" "fsm_state (fsm e) \<noteq> CONNECTING" "listener e"
    and "ho (BLE_GAP_TERMINATE (conn_handle e) HCI_ERR_REM_USER_CONN_TERM) = rc" "rc \<noteq> 0"
    and "ge_type ev = EV_DISCONNECT"
  shows "\<exists>e1 out e2 out'. gatt_disconnect ho now e = (rc, e1, out) \<and> conn_handle e1 = conn_handle e \<and>
     handle_gatt_event ho now' ev e1 = Some (e2, out') \<and> listeners_of out' = [ON_CONNECTION_STATE False 0 (ge_status ev)]"
  using assms by (simp add: gatt_disconnect_def fsm_fire_def handle_gatt_event_def finish_disconnect_def tell_def Let_def)

section \<open>What the contract gives the proxy\<close>

text \<open>The API's request for an operation, and the reply an operation that is reported gets.\<close>

fun api_request :: "env \<Rightarrow> u64 \<Rightarrow> gatt_op \<Rightarrow> world \<Rightarrow> world" where
  "api_request env addr (Op_read h) w = bluetooth_gatt_read env addr h w"
| "api_request env addr (Op_read_descriptor h) w = bluetooth_gatt_read_descriptor env addr h w"
| "api_request env addr (Op_write h d r) w = bluetooth_gatt_write env addr h d r w"
| "api_request env addr (Op_write_descriptor h d) w = bluetooth_gatt_write_descriptor env addr h d w"
| "api_request env addr (Op_notify h b) w = bluetooth_gatt_notify env addr h b w"

fun op_ack :: "gatt_op \<Rightarrow> pending_ack" where
  "op_ack (Op_notify h b) = PENDING_ACK_NOTIFY"
| "op_ack (Op_write h d r) = PENDING_ACK_WRITE"
| "op_ack (Op_write_descriptor h d) = PENDING_ACK_WRITE"
| "op_ack x = PENDING_ACK_NONE"

fun ack_message :: "u64 \<Rightarrow> gatt_op \<Rightarrow> api_message" where
  "ack_message addr (Op_notify h b) = Gatt_notify addr h"
| "ack_message addr x = Gatt_write addr (op_handle x)"

text \<open>The length of a write crosses the interface in 16 bits.\<close>

fun clip_length :: "gatt_op \<Rightarrow> gatt_op" where
  "clip_length (Op_write h d r) = Op_write h (take (unat (of_nat (length d) :: u16)) d) r"
| "clip_length (Op_write_descriptor h d) = Op_write_descriptor h (take (unat (of_nat (length d) :: u16)) d)"
| "clip_length x = x"

lemma clip_length_same [simp]:
  "op_handle (clip_length x) = op_handle x" "op_waits (clip_length x) = op_waits x"
  "op_ack (clip_length x) = op_ack x" "op_report (clip_length x) = op_report x"
  by (cases x; simp)+

lemma hub_operations:
  "hub_read_characteristic env h = gatt_request env h PENDING_ACK_NONE (nimble_call (stk env) (Op_read h))"
  "hub_read_descriptor env h = gatt_request env h PENDING_ACK_NONE (nimble_call (stk env) (Op_read_descriptor h))"
  "hub_write_characteristic env h d r =
     gatt_request env h PENDING_ACK_WRITE (nimble_call (stk env) (clip_length (Op_write h d r)))"
  "hub_write_descriptor env h d r =
     gatt_request env h PENDING_ACK_WRITE (nimble_call (stk env) (clip_length (Op_write_descriptor h d)))"
  "hub_notify_characteristic env h b = gatt_request env h PENDING_ACK_NOTIFY (nimble_call (stk env) (Op_notify h b))"
proof -
  have f: "nimble_call ho (Op_read h) = read_characteristic ho h"
    "nimble_call ho (Op_read_descriptor h) = read_descriptor ho h"
    "nimble_call ho (Op_write h d r) = write_characteristic ho h d r"
    "nimble_call ho (Op_write_descriptor h d) = write_descriptor ho h d"
    "nimble_call ho (Op_notify h b) = notify_characteristic h b" for ho h d r b
    by (simp_all add: fun_eq_iff)
  show "hub_read_characteristic env h = gatt_request env h PENDING_ACK_NONE (nimble_call (stk env) (Op_read h))"
    "hub_read_descriptor env h = gatt_request env h PENDING_ACK_NONE (nimble_call (stk env) (Op_read_descriptor h))"
    "hub_write_characteristic env h d r =
       gatt_request env h PENDING_ACK_WRITE (nimble_call (stk env) (clip_length (Op_write h d r)))"
    "hub_write_descriptor env h d r =
       gatt_request env h PENDING_ACK_WRITE (nimble_call (stk env) (clip_length (Op_write_descriptor h d)))"
    "hub_notify_characteristic env h b = gatt_request env h PENDING_ACK_NOTIFY (nimble_call (stk env) (Op_notify h b))"
    by (simp_all add: fun_eq_iff hub_read_characteristic_def hub_read_descriptor_def hub_write_characteristic_def
        hub_write_descriptor_def hub_notify_characteristic_def f)
qed

lemma api_request_is_gatt_request:
  "api_request env addr x w = gatt_op_request env addr (op_handle x)
     (gatt_request env (op_handle x) (op_ack x) (nimble_call (stk env) (clip_length x))) w"
  by (cases x) (simp_all add: bluetooth_gatt_read_def bluetooth_gatt_read_descriptor_def bluetooth_gatt_write_def
      bluetooth_gatt_write_descriptor_def bluetooth_gatt_notify_def hub_operations)

text \<open>A reply is offered to the subscriber, or owed.\<close>

definition replied :: "client \<Rightarrow> api_message \<Rightarrow> pending_ack \<Rightarrow> u16 \<Rightarrow> int \<Rightarrow> proxy \<Rightarrow> link \<Rightarrow> bool" where
  "replied cl m kind h err p l \<longleftrightarrow> (case l of (c', p') \<Rightarrow>
     \<exists>ok. offered p' = offered p @ [(cl, m, ok)] \<and>
       (ok \<or> pending_ack c' = kind \<and> pending_ack_handle c' = h \<and> pending_ack_error c' = err))"

lemma error_replied:
  assumes "api_connection p = Some cl" "hub_send_gatt_error env h err (c, p) = (c', p')"
  shows "replied cl (Gatt_error (conn_address c) h err) PENDING_ACK_ERROR h err p (c', p') \<and> backend c' = backend c"
  using assms
  by (auto simp: hub_send_gatt_error_def send_ack_def try_send_ack_def send_gatt_error_def send_or_nobody_def
      send_message_def replied_def latch_pending_ack_def Let_def split: if_splits)

lemma report_replied:
  assumes "api_connection p = Some cl" "conn_address c \<noteq> 0" "\<not> op_waits x"
    and "on_listener_calls env [op_report x] (c, p) = (c', p')"
  shows "replied cl (ack_message (conn_address c) x) (op_ack x) (op_handle x) 0 p (c', p') \<and> backend c' = backend c"
  using assms
  by (cases x) (auto simp: on_listener_call_def on_write_result_def on_notify_state_def send_ack_def try_send_ack_def
      send_message_def replied_def latch_pending_ack_def Let_def split: if_splits)

section \<open>The outcome of a request\<close>

lemma supersede_same [simp]:
  "backend (supersede_pending_ack h k c) = backend c" "conn_address (supersede_pending_ack h k c) = conn_address c"
  "hub_connected (supersede_pending_ack h k c) = hub_connected c"
  by (simp_all add: supersede_pending_ack_def clear_pending_ack_def hub_connected_def)

text \<open>One request at its slot: the link before and after.\<close>

definition request_at :: "env \<Rightarrow> gatt_op \<Rightarrow> link \<Rightarrow> link" where
  "request_at env x l =
     (let (err, l) = gatt_request env (op_handle x) (op_ack x) (nimble_call (stk env) (clip_length x)) l
      in if err \<noteq> CONN_OK then hub_send_gatt_error env (op_handle x) err l else l)"

lemma request_at_outcome:
  assumes "api_connection p = Some cl" "conn_address c \<noteq> 0" "listener (backend c)" "request_at env x (c, p) = (c', p')"
  shows "get_service_table (backend c') = get_service_table (backend c) \<and>
     ((\<exists>err. err \<noteq> 0 \<and> (pending_op (backend c') \<noteq> OP_NONE) = (pending_op (backend c) \<noteq> OP_NONE) \<and>
         replied cl (Gatt_error (conn_address c) (op_handle x) err) PENDING_ACK_ERROR (op_handle x) err p (c', p')) \<or>
      (op_waits x \<and> hub_connected c \<and> pending_op (backend c) = OP_NONE \<and> pending_op (backend c') \<noteq> OP_NONE \<and>
         offered p' = offered p) \<or>
      (\<not> op_waits x \<and> hub_connected c \<and>
         (pending_op (backend c') \<noteq> OP_NONE) = (pending_op (backend c) \<noteq> OP_NONE) \<and>
         replied cl (ack_message (conn_address c) x) (op_ack x) (op_handle x) 0 p (c', p')))"
proof -
  define c1 where "c1 = supersede_pending_ack (op_handle x) (op_ack x) c"
  have c1: "backend c1 = backend c" "conn_address c1 = conn_address c" "hub_connected c1 = hub_connected c"
    by (simp_all add: c1_def)
  show ?thesis
  proof (cases "hub_connected c")
    case False
    then have "request_at env x (c, p) = hub_send_gatt_error env (op_handle x) GATT_NOT_CONNECTED (c1, p)"
      "GATT_NOT_CONNECTED \<noteq> 0"
      by (simp_all add: request_at_def gatt_request_def check_connected_op_def c1_def [symmetric] c1 CONN_OK_def
          GATT_NOT_CONNECTED_def GATT_ERR_NOT_CONNECTED_def)
    then show ?thesis
      using error_replied [OF assms(1), of env "op_handle x" GATT_NOT_CONNECTED c1 c' p'] assms(4) c1 by auto
  next
    case True
    obtain rc e out where k: "nimble_call (stk env) (clip_length x) (backend c) = (rc, e, out)"
      by (cases "nimble_call (stk env) (clip_length x) (backend c)") auto
    note o = nimble.outcome [OF assms(3) k]
    define c2 where "c2 = c1\<lparr>backend := e, host_calls := host_calls c1 @ stacks out\<rparr>"
    have c2: "backend c2 = e" "conn_address c2 = conn_address c" by (simp_all add: c2_def c1)
    have r: "request_at env x (c, p) =
        (let l = on_listener_calls env (listeners_of out) (c2, p)
         in if rc \<noteq> 0 then hub_send_gatt_error env (op_handle x) rc l else l)"
      using True by (simp add: request_at_def gatt_request_def check_connected_op_def c1_def [symmetric] c1 k
          call_backend_def c2_def CONN_OK_def Let_def)
    show ?thesis
    proof (cases "rc = 0")
      case False
      then show ?thesis
        using o r assms(4) error_replied [OF assms(1), of env "op_handle x" rc c2 c' p'] c2 by auto
    next
      case True
      then show ?thesis
        using o r assms(4) report_replied [OF assms(1), of c2 x env c' p'] c2 assms(2) \<open>hub_connected c\<close> by auto
    qed
  qed
qed

text \<open>
  C17. A request for an attribute (read or write of a characteristic or a descriptor, registration for
  notifications) of a device that holds a slot has one of three outcomes, and the service table of the
  engine is untouched by all of them. It is refused, by the connection or by the engine: one error
  reply for the handle is offered to the client, or owed if the API refuses it, and whether an operation
  is outstanding has not changed. It is accepted and waits for its completion: the
  connection was established, nothing was outstanding, the operation is now, and nothing is offered yet.
  It is accepted and done: one acknowledgement is offered or owed.
\<close>

theorem attribute_request_outcome:
  assumes "slots_wf N w" "fst (get_connection addr False w) = Some i" "addr \<noteq> 0"
    and "api_connection (prx w) = Some cl" "listener (backend (conns w ! i))"
  shows "let w' = api_request env addr x w; e = backend (conns w ! i); e' = backend (conns w' ! i) in
     get_service_table e' = get_service_table e \<and>
     ((\<exists>err. err \<noteq> 0 \<and> (pending_op e' \<noteq> OP_NONE) = (pending_op e \<noteq> OP_NONE) \<and>
         replied cl (Gatt_error addr (op_handle x) err) PENDING_ACK_ERROR (op_handle x) err (prx w) (conns w' ! i, prx w')) \<or>
      (op_waits x \<and> hub_connected (conns w ! i) \<and> pending_op e = OP_NONE \<and> pending_op e' \<noteq> OP_NONE \<and>
         offered (prx w') = offered (prx w)) \<or>
      (\<not> op_waits x \<and> hub_connected (conns w ! i) \<and> (pending_op e' \<noteq> OP_NONE) = (pending_op e \<noteq> OP_NONE) \<and>
         replied cl (ack_message addr x) (op_ack x) (op_handle x) 0 (prx w) (conns w' ! i, prx w')))"
proof -
  note i = get_connection_found [OF assms(1,2)]
  obtain c' p' where r: "request_at env x (conns w ! i, prx w) = (c', p')" by fastforce
  have "api_request env addr x w = at_slot i (request_at env x) w"
    using assms(2) by (simp add: api_request_is_gatt_request gatt_op_request_def request_at_def [abs_def])
  then have "conns (api_request env addr x w) ! i = c'" "prx (api_request env addr x w) = p'"
    using r i by (simp_all add: at_slot_def)
  then show ?thesis
    using request_at_outcome [OF assms(4) _ assms(5) r] i assms(3) unfolding Let_def by metis
qed

theorem attribute_request_outcome_witness:
  "let w' = api_request (env_example True) 5 (Op_read 3) linked_example in
     pending_op (backend (conns linked_example ! 0)) = OP_NONE \<and>
     ((\<exists>err. replied 1 (Gatt_error 5 3 err) PENDING_ACK_ERROR 3 err (prx linked_example) (conns w' ! 0, prx w')) \<or>
      pending_op (backend (conns w' ! 0)) \<noteq> OP_NONE \<and> offered (prx w') = offered (prx linked_example))"
proof -
  have "slots_wf 1 linked_example" "fst (get_connection 5 False linked_example) = Some 0"
    "api_connection (prx linked_example) = Some 1" "listener (backend (conns linked_example ! 0))"
    "pending_op (backend (conns linked_example ! 0)) = OP_NONE"
    by (simp_all add: slots_wf_def linked_example_def books_def addresses_def dev_def conn_init_def proxy_example_def
        get_connection_def engine_init_def set_listener_def)
  with attribute_request_outcome [of 1 linked_example 5 0 1 "env_example True" "Op_read 3"] show ?thesis
    unfolding Let_def by auto
qed

end
