(* ===== verification/PolledHub.thy ===== *)
theory PolledHub
  imports ProxyProperties
begin

text \<open>
  \<open>BluetoothProxy\<close> in the builds for a hub that pushes no scanner state and has no GATT connections
  (components/bluetooth_proxy/bluetooth_proxy.cpp without \<open>USE_ESP32\<close>, \<open>USE_BLE_SCANNER_STATE_CALLBACK\<close> and
  \<open>USE_BLUETOOTH_PROXY_CONNECTIONS\<close>): the loop polls the hub and reports a change. The hub is not in the
  repository; of it the code uses the three operations of \<open>polled_hub\<close>.
\<close>

section \<open>State and operations\<close>

record 'h polled_hub =
  scan_running :: "'h \<Rightarrow> bool"
  scan_mode_active :: "'h \<Rightarrow> bool"
  request_hub_mode :: "bool \<Rightarrow> 'h \<Rightarrow> bool \<times> 'h"

record 'h polled =
  pl_prx :: proxy
  pl_last_running :: bool
  pl_hub :: 'h

definition send_polled_scanner_state :: "'h polled_hub \<Rightarrow> env \<Rightarrow> 'h polled \<Rightarrow> 'h polled" where
  "send_polled_scanner_state ph env s =
     (let running = scan_running ph (pl_hub s);
          (ok, p) = send_bluetooth_scanner_state env (if running then SC_RUNNING else SC_IDLE)
                      (scan_mode_active ph (pl_hub s)) (pl_prx s);
          s = s\<lparr>pl_prx := p\<rparr>
      in if ok then s\<lparr>pl_last_running := running\<rparr> else s)"

definition polled_set_mode :: "'h polled_hub \<Rightarrow> env \<Rightarrow> bool \<Rightarrow> 'h polled \<Rightarrow> 'h polled" where
  "polled_set_mode ph env act s =
     (let s = (if scan_mode_active ph (pl_hub s) \<noteq> act
               then s\<lparr>pl_hub := snd (request_hub_mode ph act (pl_hub s))\<rparr> else s)
      in if api_connection (pl_prx s) \<noteq> None then send_polled_scanner_state ph env s else s)"

definition polled_reset_owed :: "'h polled_hub \<Rightarrow> 'h polled \<Rightarrow> 'h polled" where
  "polled_reset_owed ph s = s\<lparr>pl_last_running := \<not> scan_running ph (pl_hub s)\<rparr>"

definition polled_subscribe :: "'h polled_hub \<Rightarrow> env \<Rightarrow> client \<Rightarrow> 'h polled \<Rightarrow> 'h polled" where
  "polled_subscribe ph env cl s =
     (let s = (if api_connection (pl_prx s) \<noteq> Some cl then polled_reset_owed ph s else s)
      in send_polled_scanner_state ph env (s\<lparr>pl_prx := (pl_prx s)\<lparr>api_connection := Some cl\<rparr>\<rparr>))"

definition polled_unsubscribe :: "'h polled_hub \<Rightarrow> client \<Rightarrow> 'h polled \<Rightarrow> 'h polled" where
  "polled_unsubscribe ph cl s =
     (if api_connection (pl_prx s) \<noteq> Some cl then s
      else polled_reset_owed ph (s\<lparr>pl_prx := (pl_prx s)\<lparr>api_connection := None\<rparr>\<rparr>))"

definition polled_loop :: "'h polled_hub \<Rightarrow> env \<Rightarrow> 'h polled \<Rightarrow> 'h polled" where
  "polled_loop ph env s =
     (if clock env - last_advertisement_flush_time (pl_prx s) < 100 then s
      else
        let s = s\<lparr>pl_prx := (pl_prx s)\<lparr>last_advertisement_flush_time := clock env\<rparr>\<rparr>
        in case (if server_connected env then api_connection (pl_prx s) else None) of
             None \<Rightarrow> s
           | Some cl \<Rightarrow>
               let s = (if scan_running ph (pl_hub s) \<noteq> pl_last_running s
                        then send_polled_scanner_state ph env s else s)
               in s\<lparr>pl_prx := flush_advertisements_tick env cl (pl_prx s)\<rparr>)"

datatype 'h polled_op =
  Hub_becomes 'h
| Polled_subscribe env client
| Polled_unsubscribe client
| Polled_loop env
| Polled_set_mode env bool
| Polled_advertisement env raw_advertisement

fun polled_next :: "'h polled_hub \<Rightarrow> 'h polled_op \<Rightarrow> 'h polled \<Rightarrow> 'h polled" where
  "polled_next ph (Hub_becomes h) s = s\<lparr>pl_hub := h\<rparr>"
| "polled_next ph (Polled_subscribe env cl) s = polled_subscribe ph env cl s"
| "polled_next ph (Polled_unsubscribe cl) s = polled_unsubscribe ph cl s"
| "polled_next ph (Polled_loop env) s = polled_loop ph env s"
| "polled_next ph (Polled_set_mode env b) s = polled_set_mode ph env b s"
| "polled_next ph (Polled_advertisement env raw) s = s\<lparr>pl_prx := on_raw_advertisement env raw (pl_prx s)\<rparr>"

section \<open>What the subscriber knows\<close>

text \<open>The running state in the last scanner message a client took.\<close>

fun scan_news :: "client \<Rightarrow> client \<times> api_message \<times> bool \<Rightarrow> bool list" where
  "scan_news cl (c, Scanner_state_msg st act conf, ok) = (if c = cl \<and> ok then [st = SC_RUNNING] else [])"
| "scan_news cl _ = []"

definition scan_told :: "client \<Rightarrow> proxy \<Rightarrow> bool list" where
  "scan_told cl p = concat (map (scan_news cl) (offered p))"

definition informed :: "client \<Rightarrow> 'h polled \<Rightarrow> bool" where
  "informed cl s \<longleftrightarrow> api_connection (pl_prx s) = Some cl \<and>
     scan_told cl (pl_prx s) \<noteq> [] \<and> last (scan_told cl (pl_prx s)) = pl_last_running s"

fun keeps_client :: "client \<Rightarrow> 'h polled_op \<Rightarrow> bool" where
  "keeps_client cl (Polled_subscribe env cl') \<longleftrightarrow> cl' = cl"
| "keeps_client cl (Polled_unsubscribe cl') \<longleftrightarrow> cl' \<noteq> cl"
| "keeps_client cl x \<longleftrightarrow> True"

lemma scan_told_adv [simp]:
  "scan_told cl (flush_pending_advertisements env c p) = scan_told cl p"
  "scan_told cl (flush_advertisements_tick env c p) = scan_told cl p"
  "scan_told cl (on_raw_advertisement env raw p) = scan_told cl p"
  by (auto simp: scan_told_def flush_pending_advertisements_def flush_advertisements_tick_def on_raw_advertisement_def
      send_message_def Let_def split: option.split)

lemma subscriber_adv [simp]:
  "api_connection (flush_pending_advertisements env c p) = api_connection p"
  "api_connection (flush_advertisements_tick env c p) = api_connection p"
  "api_connection (on_raw_advertisement env raw p) = api_connection p"
  by (auto simp: flush_pending_advertisements_def flush_advertisements_tick_def on_raw_advertisement_def
      send_message_def Let_def split: option.split)

lemma polled_send:
  assumes "api_connection (pl_prx s) = Some cl" "send_polled_scanner_state ph env s = s'"
  shows "api_connection (pl_prx s') = Some cl \<and> pl_hub s' = pl_hub s \<and>
     ((scan_told cl (pl_prx s') = scan_told cl (pl_prx s) \<and> pl_last_running s' = pl_last_running s \<and>
       \<not> (\<forall>n m. accepts env n cl m)) \<or>
      (scan_told cl (pl_prx s') = scan_told cl (pl_prx s) @ [scan_running ph (pl_hub s)] \<and>
       pl_last_running s' = scan_running ph (pl_hub s)))"
  using assms
  by (auto simp: send_polled_scanner_state_def send_bluetooth_scanner_state_def send_or_nobody_def send_message_def
      scan_told_def Let_def split: if_splits)

lemma informed_send: "informed cl s \<Longrightarrow> informed cl (send_polled_scanner_state ph env s)"
  using polled_send [of s cl ph env] by (auto simp: informed_def)

lemma informed_next:
  assumes "informed cl s" "keeps_client cl x"
  shows "informed cl (polled_next ph x s)"
proof (cases x)
  case (Polled_subscribe env cl')
  have "informed cl (s\<lparr>pl_prx := (pl_prx s)\<lparr>api_connection := Some cl\<rparr>\<rparr>)" "api_connection (pl_prx s) = Some cl"
    using assms(1) by (simp_all add: informed_def scan_told_def)
  then show ?thesis
    using Polled_subscribe assms(2) informed_send by (simp add: polled_subscribe_def)
next
  case (Polled_set_mode env b)
  have "informed cl (s\<lparr>pl_hub := h\<rparr>)" for h using assms(1) by (simp add: informed_def)
  then show ?thesis
    using Polled_set_mode assms(1) by (auto simp: polled_set_mode_def Let_def intro: informed_send)
next
  case (Polled_loop env)
  let ?s = "s\<lparr>pl_prx := (pl_prx s)\<lparr>last_advertisement_flush_time := clock env\<rparr>\<rparr>"
  have 1: "informed cl ?s" using assms(1) by (simp add: informed_def scan_told_def)
  have 2: "informed cl (t\<lparr>pl_prx := flush_advertisements_tick env cl (pl_prx t)\<rparr>)" if "informed cl t" for t :: "'a polled"
    using that by (simp add: informed_def)
  show ?thesis
    using Polled_loop assms(1) 1 2 [OF 1] 2 [OF informed_send [OF 1]]
    by (auto simp: polled_loop_def Let_def informed_def [of cl s] split: option.split)
qed (use assms in \<open>auto simp: informed_def polled_unsubscribe_def\<close>)

lemma informed_run: "informed cl s \<Longrightarrow> \<forall>x \<in> set xs. keeps_client cl x \<Longrightarrow> informed cl (fold (polled_next ph) xs s)"
  by (induction xs arbitrary: s) (auto intro: informed_next)

text \<open>
  A subscriber that has been told once stays informed: whatever the hub does and however often the API
  refuses a frame, the change detector holds what the client was told last, and the first loop in which the
  API takes frames brings it up to date.
\<close>

theorem polled_state_reported:
  assumes "informed cl s" "\<forall>x \<in> set xs. keeps_client cl x"
    and "server_connected env" "\<And>n m. accepts env n cl m"
    and "100 \<le> clock env - last_advertisement_flush_time (pl_prx (fold (polled_next ph) xs s))"
  shows "let s' = polled_loop ph env (fold (polled_next ph) xs s) in
     pl_last_running s' = scan_running ph (pl_hub s') \<and> last (scan_told cl (pl_prx s')) = scan_running ph (pl_hub s')"
proof -
  define t where "t = (fold (polled_next ph) xs s)\<lparr>pl_prx :=
     (pl_prx (fold (polled_next ph) xs s))\<lparr>last_advertisement_flush_time := clock env\<rparr>\<rparr>"
  have t: "informed cl t" using informed_run [OF assms(1,2), of ph] by (simp add: t_def informed_def scan_told_def)
  define u where "u = (if scan_running ph (pl_hub t) \<noteq> pl_last_running t then send_polled_scanner_state ph env t else t)"
  have "api_connection (pl_prx t) = Some cl" using t by (simp add: informed_def)
  then have u: "informed cl u" "pl_hub u = pl_hub t" "pl_last_running u = scan_running ph (pl_hub t)"
    using t polled_send [of t cl ph env] informed_send assms(4) by (auto simp: u_def)
  have "polled_loop ph env (fold (polled_next ph) xs s) = u\<lparr>pl_prx := flush_advertisements_tick env cl (pl_prx u)\<rparr>"
    using assms(3,5) t by (auto simp: polled_loop_def t_def u_def informed_def not_less [symmetric] Let_def)
  then show ?thesis using u by (simp add: informed_def Let_def)
qed

text \<open>
  A subscriber whose first frame is refused is not always retried: the mismatch that \<open>polled_reset_owed\<close>
  forces is undone when the hub changes before the next loop, and then no loop reports the state.
\<close>

lemma polled_refusal_forgotten:
  assumes "api_connection (pl_prx s) = Some cl" "pl_last_running s = scan_running ph (pl_hub s)"
  shows "scan_told cl (pl_prx (fold (polled_loop ph) envs s)) = scan_told cl (pl_prx s)"
  using assms
proof (induction envs arbitrary: s)
  case (Cons env envs)
  have "scan_told c (p\<lparr>last_advertisement_flush_time := n\<rparr>) = scan_told c p" for c p n by (simp add: scan_told_def)
  then have "api_connection (pl_prx (polled_loop ph env s)) = Some cl \<and> pl_hub (polled_loop ph env s) = pl_hub s \<and>
      pl_last_running (polled_loop ph env s) = pl_last_running s \<and>
      scan_told cl (pl_prx (polled_loop ph env s)) = scan_told cl (pl_prx s)"
    using Cons.prems by (auto simp: polled_loop_def Let_def split: option.split)
  then show ?case using Cons.IH [of "polled_loop ph env s"] Cons.prems(2) by simp
qed simp

lemma polled_subscriber_starved:
  assumes "api_connection (pl_prx s) \<noteq> Some cl" "scan_told cl (pl_prx s) = []" "\<And>n m. \<not> accepts env n cl m"
    and "scan_running ph h \<noteq> scan_running ph (pl_hub s)"
  shows "scan_told cl (pl_prx (fold (polled_loop ph) envs (polled_next ph (Hub_becomes h) (polled_subscribe ph env cl s)))) = []"
proof -
  define t where "t = polled_subscribe ph env cl s"
  have "api_connection (pl_prx t) = Some cl" "scan_told cl (pl_prx t) = []"
    "pl_last_running t = (\<not> scan_running ph (pl_hub s))"
    using assms(1-3)
    by (auto simp: t_def polled_subscribe_def polled_reset_owed_def send_polled_scanner_state_def
        send_bluetooth_scanner_state_def send_or_nobody_def send_message_def scan_told_def Let_def)
  then show ?thesis
    using polled_refusal_forgotten [of "t\<lparr>pl_hub := h\<rparr>" cl ph envs] assms(4) by (simp add: t_def [symmetric])
qed

end
