(* ===== verification/BleServer.thy ===== *)
theory BleServer
  imports EventQueues
begin

text \<open>
  The GATT server (components/esp32_ble_server/): \<open>BLEServer\<close>, \<open>BLEService\<close>, \<open>BLECharacteristic\<close>,
  \<open>BLEDescriptor\<close> and the actions and triggers of ble_server_automations.h and .cpp.

  The objects live in one record, \<open>server\<close>: a pointer to a characteristic or descriptor is its index in
  \<open>svr_chrs\<close> or \<open>svr_dscs\<close>, in the order of creation; none is ever deleted. The tables the code hands to
  NimBLE are lists with their terminator, the zeroed last element, as \<open>None\<close>; a null pointer to a
  table is \<open>None\<close> too. A user callback is an identity or a flag, its call an element of
  the output. The host is the record \<open>gatts_env\<close>: the return codes of its registration functions, the
  value handle it assigns to each characteristic, and the return code of an append to an mbuf.

  The host task runs \<open>server_gap_event\<close> and the access callbacks, which return the event they push;
  \<open>server_event_queue\<close> and the loop are at the end.
\<close>

section \<open>Constants\<close>

definition PROPERTY_READ :: u32 where "PROPERTY_READ = 0x01"
definition PROPERTY_WRITE :: u32 where "PROPERTY_WRITE = 0x02"
definition PROPERTY_NOTIFY :: u32 where "PROPERTY_NOTIFY = 0x04"
definition PROPERTY_BROADCAST :: u32 where "PROPERTY_BROADCAST = 0x08"
definition PROPERTY_INDICATE :: u32 where "PROPERTY_INDICATE = 0x10"
definition PROPERTY_WRITE_NR :: u32 where "PROPERTY_WRITE_NR = 0x20"

text \<open>NimBLE's, from host/ble_gatt.h and host/ble_att.h.\<close>

definition BLE_GATT_CHR_F_BROADCAST :: u32 where "BLE_GATT_CHR_F_BROADCAST = 0x0001"
definition BLE_GATT_CHR_F_READ :: u32 where "BLE_GATT_CHR_F_READ = 0x0002"
definition BLE_GATT_CHR_F_WRITE_NO_RSP :: u32 where "BLE_GATT_CHR_F_WRITE_NO_RSP = 0x0004"
definition BLE_GATT_CHR_F_WRITE :: u32 where "BLE_GATT_CHR_F_WRITE = 0x0008"
definition BLE_GATT_CHR_F_NOTIFY :: u32 where "BLE_GATT_CHR_F_NOTIFY = 0x0010"
definition BLE_GATT_CHR_F_INDICATE :: u32 where "BLE_GATT_CHR_F_INDICATE = 0x0020"
definition BLE_ATT_F_READ :: u8 where "BLE_ATT_F_READ = 0x01"
definition BLE_ATT_F_WRITE :: u8 where "BLE_ATT_F_WRITE = 0x02"
definition BLE_ATT_ERR_INVALID_ATTR_VALUE_LEN :: int where "BLE_ATT_ERR_INVALID_ATTR_VALUE_LEN = 0x0d"
definition BLE_ATT_ERR_UNLIKELY :: int where "BLE_ATT_ERR_UNLIKELY = 0x0e"
definition BLE_ATT_ERR_INSUFFICIENT_RES :: int where "BLE_ATT_ERR_INSUFFICIENT_RES = 0x11"

lemmas property_defs = PROPERTY_READ_def PROPERTY_WRITE_def PROPERTY_NOTIFY_def
  PROPERTY_BROADCAST_def PROPERTY_INDICATE_def PROPERTY_WRITE_NR_def

lemmas att_errors = BLE_ATT_ERR_INVALID_ATTR_VALUE_LEN_def BLE_ATT_ERR_UNLIKELY_def
  BLE_ATT_ERR_INSUFFICIENT_RES_def

section \<open>The objects and the tables of the host\<close>

record ble_gatt_dsc_def =
  dd_uuid :: "u8 \<times> bytes"
  dd_att_flags :: u8
  dd_arg :: nat

record ble_gatt_chr_def =
  cd_uuid :: "u8 \<times> bytes"
  cd_arg :: nat
  cd_descriptors :: "ble_gatt_dsc_def option list option"
  cd_flags :: u32

record ble_gatt_svc_def =
  sd_uuid :: "u8 \<times> bytes"
  sd_characteristics :: "ble_gatt_chr_def option list option"

record ble_descriptor =
  ds_characteristic :: "nat option"
  ds_uuid :: espbtuuid
  ds_def :: "ble_gatt_dsc_def option"
  ds_max_len :: u16
  ds_att_flags :: u8
  ds_created :: bool
  ds_value :: bytes
  ds_on_write :: bool

record ble_characteristic =
  sc_service :: "nat option"
  sc_uuid :: espbtuuid
  sc_flags :: u32
  sc_val_handle :: u16
  sc_created :: bool
  sc_value :: bytes
  sc_descriptors :: "nat list"
  sc_def :: "ble_gatt_chr_def option"
  sc_clients_to_notify :: "(u16 \<times> bool) list"
  sc_on_write :: bool
  sc_on_read :: "nat option"

record ble_service =
  ss_characteristics :: "nat list"
  ss_last_created :: "nat option"
  ss_uuid :: espbtuuid
  ss_num_handles :: u16
  ss_inst_id :: u8
  ss_advertise :: bool
  ss_def :: "ble_gatt_svc_def option"

datatype callback_type = CB_ON_CONNECT | CB_ON_DISCONNECT

text \<open>\<open>svr_listeners\<close> is the list of the \<open>SetValueActionManager\<close>: a characteristic and its action.\<close>

record server =
  svr_services :: "ble_service list"
  svr_chrs :: "ble_characteristic list"
  svr_dscs :: "ble_descriptor list"
  svr_callbacks :: "(callback_type \<times> nat) list"
  svr_defs :: "ble_gatt_svc_def option list option"
  handle_to_characteristic :: "u16 \<rightharpoonup> nat"
  svr_clients :: "u16 list"
  client_count :: u8
  max_clients :: u8
  svr_started :: bool
  svr_listeners :: "(nat \<times> nat) list"
  svr_manufacturer_data :: bytes

definition MAX_CLIENTS :: nat where "MAX_CLIENTS = 9"

definition server_init :: server where
  "server_init = \<lparr>svr_services = [], svr_chrs = [], svr_dscs = [], svr_callbacks = [],
     svr_defs = None, handle_to_characteristic = Map.empty, svr_clients = replicate MAX_CLIENTS 0,
     client_count = 0, max_clients = 1, svr_started = False, svr_listeners = [],
     svr_manufacturer_data = []\<rparr>"

definition upd_chr :: "nat \<Rightarrow> (ble_characteristic \<Rightarrow> ble_characteristic) \<Rightarrow> server \<Rightarrow> server" where
  "upd_chr i f s = s\<lparr>svr_chrs := (svr_chrs s)[i := f (svr_chrs s ! i)]\<rparr>"

definition upd_dsc :: "nat \<Rightarrow> (ble_descriptor \<Rightarrow> ble_descriptor) \<Rightarrow> server \<Rightarrow> server" where
  "upd_dsc d f s = s\<lparr>svr_dscs := (svr_dscs s)[d := f (svr_dscs s ! d)]\<rparr>"

section \<open>Building the configuration\<close>

definition new_descriptor :: "espbtuuid \<Rightarrow> u16 \<Rightarrow> bool \<Rightarrow> bool \<Rightarrow> ble_descriptor" where
  "new_descriptor uuid max_len readable writable =
     \<lparr>ds_characteristic = None, ds_uuid = uuid, ds_def = None, ds_max_len = max_len,
      ds_att_flags = (if readable then BLE_ATT_F_READ else 0) OR (if writable then BLE_ATT_F_WRITE else 0),
      ds_created = False, ds_value = [], ds_on_write = False\<rparr>"

definition new_ble2902 :: ble_descriptor where
  "new_ble2902 = new_descriptor (from_uint16 0x2902) 2 True True"

definition new_characteristic :: "espbtuuid \<Rightarrow> u32 \<Rightarrow> ble_characteristic" where
  "new_characteristic uuid props =
     \<lparr>sc_service = None, sc_uuid = uuid, sc_flags = props, sc_val_handle = 0xFFFF,
      sc_created = False, sc_value = [], sc_descriptors = [], sc_def = None,
      sc_clients_to_notify = [], sc_on_write = False, sc_on_read = None\<rparr>"

definition create_service :: "espbtuuid \<Rightarrow> bool \<Rightarrow> u16 \<Rightarrow> server \<Rightarrow> server \<times> nat" where
  "create_service uuid advertise num_handles s =
     (let k = length (svr_services s);
          svc = \<lparr>ss_characteristics = [], ss_last_created = None, ss_uuid = uuid,
                 ss_num_handles = num_handles, ss_inst_id = of_nat k, ss_advertise = advertise,
                 ss_def = None\<rparr>
      in (s\<lparr>svr_services := svr_services s @ [svc]\<rparr>, k))"

definition get_service :: "espbtuuid \<Rightarrow> u8 \<Rightarrow> server \<Rightarrow> nat option" where
  "get_service uuid inst_id s =
     map_option fst (List.find (\<lambda>(k, svc). uuid_eq (ss_uuid svc) uuid \<and> ss_inst_id svc = inst_id)
                       (zip [0..<length (svr_services s)] (svr_services s)))"

definition create_characteristic :: "nat \<Rightarrow> espbtuuid \<Rightarrow> u32 \<Rightarrow> server \<Rightarrow> server \<times> nat" where
  "create_characteristic k uuid props s =
     (let i = length (svr_chrs s); svc = svr_services s ! k
      in (s\<lparr>svr_chrs := svr_chrs s @ [new_characteristic uuid props],
            svr_services := (svr_services s)
              [k := svc\<lparr>ss_characteristics := ss_characteristics svc @ [i], ss_last_created := Some i\<rparr>]\<rparr>, i))"

text \<open>A descriptor is made with \<open>new\<close> and then added to its characteristic.\<close>

definition add_descriptor :: "nat \<Rightarrow> ble_descriptor \<Rightarrow> server \<Rightarrow> server \<times> nat" where
  "add_descriptor i dsc s =
     (let d = length (svr_dscs s)
      in (upd_chr i (\<lambda>c. c\<lparr>sc_descriptors := sc_descriptors c @ [d]\<rparr>) (s\<lparr>svr_dscs := svr_dscs s @ [dsc]\<rparr>), d))"

definition set_max_clients :: "u8 \<Rightarrow> server \<Rightarrow> server" where
  "set_max_clients n s = s\<lparr>max_clients := n\<rparr>"

definition set_manufacturer_data :: "bytes \<Rightarrow> server \<Rightarrow> server" where
  "set_manufacturer_data bs s = s\<lparr>svr_manufacturer_data := bs\<rparr>"

definition server_on_connect :: "nat \<Rightarrow> server \<Rightarrow> server" where
  "server_on_connect cb s = s\<lparr>svr_callbacks := svr_callbacks s @ [(CB_ON_CONNECT, cb)]\<rparr>"

definition server_on_disconnect :: "nat \<Rightarrow> server \<Rightarrow> server" where
  "server_on_disconnect cb s = s\<lparr>svr_callbacks := svr_callbacks s @ [(CB_ON_DISCONNECT, cb)]\<rparr>"

definition chr_set_value :: "nat \<Rightarrow> bytes \<Rightarrow> server \<Rightarrow> server" where
  "chr_set_value i bs = upd_chr i (\<lambda>c. c\<lparr>sc_value := bs\<rparr>)"

definition dsc_set_value :: "nat \<Rightarrow> bytes \<Rightarrow> server \<Rightarrow> server" where
  "dsc_set_value d bs = upd_dsc d (\<lambda>x. x\<lparr>ds_value := bs\<rparr>)"

definition chr_on_write :: "nat \<Rightarrow> server \<Rightarrow> server" where
  "chr_on_write i = upd_chr i (\<lambda>c. c\<lparr>sc_on_write := True\<rparr>)"

definition dsc_on_write :: "nat \<Rightarrow> server \<Rightarrow> server" where
  "dsc_on_write d = upd_dsc d (\<lambda>x. x\<lparr>ds_on_write := True\<rparr>)"

definition chr_on_read :: "nat \<Rightarrow> nat \<Rightarrow> server \<Rightarrow> server" where
  "chr_on_read i act = upd_chr i (\<lambda>c. c\<lparr>sc_on_read := Some act\<rparr>)"

section \<open>The table of the host\<close>

definition property_to_nimble_flags :: "u32 \<Rightarrow> u32" where
  "property_to_nimble_flags props =
     (if props AND PROPERTY_READ \<noteq> 0 then BLE_GATT_CHR_F_READ else 0) OR
     (if props AND PROPERTY_WRITE \<noteq> 0 then BLE_GATT_CHR_F_WRITE else 0) OR
     (if props AND PROPERTY_NOTIFY \<noteq> 0 then BLE_GATT_CHR_F_NOTIFY else 0) OR
     (if props AND PROPERTY_INDICATE \<noteq> 0 then BLE_GATT_CHR_F_INDICATE else 0) OR
     (if props AND PROPERTY_BROADCAST \<noteq> 0 then BLE_GATT_CHR_F_BROADCAST else 0) OR
     (if props AND PROPERTY_WRITE_NR \<noteq> 0 then BLE_GATT_CHR_F_WRITE_NO_RSP else 0)"

definition get_uuid16_if_short :: "ble_descriptor \<Rightarrow> u16" where
  "get_uuid16_if_short dsc = (case ds_uuid dsc of UUID16 w \<Rightarrow> w | _ \<Rightarrow> 0)"

definition dsc_do_create :: "nat \<Rightarrow> nat \<Rightarrow> server \<Rightarrow> server" where
  "dsc_do_create i d = upd_dsc d (\<lambda>x. x\<lparr>ds_characteristic := Some i,
     ds_def := Some \<lparr>dd_uuid = espbtuuid_to_nimble_uuid (ds_uuid x), dd_att_flags = ds_att_flags x, dd_arg = d\<rparr>,
     ds_created := True\<rparr>)"

definition real_descriptors :: "nat list \<Rightarrow> server \<Rightarrow> nat list" where
  "real_descriptors ds s = filter (\<lambda>d. get_uuid16_if_short (svr_dscs s ! d) \<noteq> 0x2902) ds"

text \<open>The loop over the descriptors that are registered: create one, copy its native entry.\<close>

fun create_descriptors :: "nat \<Rightarrow> nat list \<Rightarrow> server \<Rightarrow> server \<times> ble_gatt_dsc_def option list" where
  "create_descriptors i [] s = (s, [])"
| "create_descriptors i (d # ds) s =
     (let s = dsc_do_create i d s;
          (s', defs) = create_descriptors i ds s
      in (s', ds_def (svr_dscs s ! d) # defs))"

definition chr_do_create :: "nat \<Rightarrow> nat \<Rightarrow> server \<Rightarrow> server" where
  "chr_do_create k i s =
     (let c = svr_chrs s ! i;
          real = real_descriptors (sc_descriptors c) s;
          (s, table) = (if real \<noteq> [] then
                          let (s, defs) = create_descriptors i real s in (s, Some (defs @ [None]))
                        else (fst (create_descriptors i (sc_descriptors c) s), None))
      in upd_chr i (\<lambda>c. c\<lparr>sc_service := Some k,
           sc_def := Some \<lparr>cd_uuid = espbtuuid_to_nimble_uuid (sc_uuid c), cd_arg = i, cd_descriptors = table,
             cd_flags = property_to_nimble_flags (sc_flags c)\<rparr>,
           sc_created := True\<rparr>) s)"

fun create_chrs :: "nat \<Rightarrow> nat list \<Rightarrow> server \<Rightarrow> server \<times> ble_gatt_chr_def option list" where
  "create_chrs k [] s = (s, [])"
| "create_chrs k (i # is) s =
     (let s = chr_do_create k i s;
          (s', defs) = create_chrs k is s
      in (s', sc_def (svr_chrs s ! i) # defs))"

definition svc_do_create :: "nat \<Rightarrow> server \<Rightarrow> server" where
  "svc_do_create k s =
     (let svc = svr_services s ! k;
          (s, table) = (if ss_characteristics svc \<noteq> [] then
                          let (s, defs) = create_chrs k (ss_characteristics svc) s in (s, Some (defs @ [None]))
                        else (s, None))
      in s\<lparr>svr_services := (svr_services s)
             [k := svc\<lparr>ss_def := Some \<lparr>sd_uuid = espbtuuid_to_nimble_uuid (ss_uuid svc),
                sd_characteristics = table\<rparr>\<rparr>]\<rparr>)"

fun create_services :: "nat list \<Rightarrow> server \<Rightarrow> server \<times> ble_gatt_svc_def option list" where
  "create_services [] s = (s, [])"
| "create_services (k # ks) s =
     (let s = svc_do_create k s;
          (s', defs) = create_services ks s
      in (s', ss_def (svr_services s ! k) # defs))"

record gatts_env =
  count_cfg_rc :: int
  add_svcs_rc :: int
  gatts_start_rc :: int
  assigned_handle :: "nat \<Rightarrow> u16"

datatype server_out =
  Gatts_count_cfg "ble_gatt_svc_def option list"
| Gatts_add_svcs "ble_gatt_svc_def option list"
| Gatts_start
| Start_advertising
| Gatts_notify u16 u16
| Gatts_indicate u16 u16
| On_connect nat u16
| On_disconnect nat u16
| On_chr_write nat bytes u16
| On_dsc_write nat bytes u16
| Free_payload bytes

definition route_handles :: "server \<Rightarrow> u16 \<rightharpoonup> nat" where
  "route_handles s = fold (\<lambda>i m. m(sc_val_handle (svr_chrs s ! i) \<mapsto> i))
     (concat (map ss_characteristics (svr_services s))) (handle_to_characteristic s)"

definition setup_gatt_server :: "gatts_env \<Rightarrow> server \<Rightarrow> server \<times> server_out list" where
  "setup_gatt_server env s =
     (if svr_services s = [] then (s, [])
      else
        let (s, defs) = create_services [0..<length (svr_services s)] s;
            table = defs @ [None];
            s = s\<lparr>svr_defs := Some table\<rparr>
        in if count_cfg_rc env \<noteq> 0 then (s, [Gatts_count_cfg table])
           else if add_svcs_rc env \<noteq> 0 then (s, [Gatts_count_cfg table, Gatts_add_svcs table])
           else
             let s = s\<lparr>svr_chrs := map (\<lambda>(i, c). c\<lparr>sc_val_handle := assigned_handle env i\<rparr>)
                                     (zip [0..<length (svr_chrs s)] (svr_chrs s))\<rparr>;
                 calls = [Gatts_count_cfg table, Gatts_add_svcs table, Gatts_start]
             in if gatts_start_rc env \<noteq> 0 then (s, calls)
                else (s\<lparr>handle_to_characteristic := route_handles s, svr_started := True\<rparr>, calls))"

definition server_setup :: "gatts_env \<Rightarrow> server \<Rightarrow> server \<times> server_out list" where
  "server_setup env s =
     (let (s, out) = setup_gatt_server env s
      in (s, out @ (if svr_started s then [Start_advertising] else [])))"

definition is_running :: "bool \<Rightarrow> server \<Rightarrow> bool" where
  "is_running active s \<longleftrightarrow> active \<and> svr_started s"

section \<open>The host task\<close>

datatype server_event_type = SE_CHR_WRITE | SE_DSC_WRITE | SE_CONNECT | SE_DISCONNECT | SE_SUBSCRIBE

record server_event =
  se_type :: server_event_type
  se_target :: "nat option"
  se_conn_handle :: u16
  se_cur_notify :: bool
  se_cur_indicate :: bool
  se_data :: bytes

definition server_event0 :: "server_event_type \<Rightarrow> u16 \<Rightarrow> server_event" where
  "server_event0 ty conn = \<lparr>se_type = ty, se_target = None, se_conn_handle = conn,
     se_cur_notify = False, se_cur_indicate = False, se_data = []\<rparr>"

text \<open>The GAP events of the server's callback, with the fields it reads.\<close>

datatype server_gap_event =
  SG_CONNECT u16 int
| SG_DISCONNECT u16
| SG_SUBSCRIBE u16 u16 bool bool
| SG_OTHER nat

definition handle_gap_event ::
  "server_gap_event \<Rightarrow> server \<Rightarrow> server_event option \<times> server_out list" where
  "handle_gap_event ev s = (case ev of
     SG_CONNECT conn status \<Rightarrow>
       if status = 0 then (Some (server_event0 SE_CONNECT conn), []) else (None, [Start_advertising])
   | SG_DISCONNECT conn \<Rightarrow> (Some (server_event0 SE_DISCONNECT conn), [Start_advertising])
   | SG_SUBSCRIBE conn attr_handle cur_notify cur_indicate \<Rightarrow>
       (case handle_to_characteristic s attr_handle of
          None \<Rightarrow> (None, [])
        | Some i \<Rightarrow> (Some ((server_event0 SE_SUBSCRIBE conn)
            \<lparr>se_target := Some i, se_cur_notify := cur_notify, se_cur_indicate := cur_indicate\<rparr>), []))
   | SG_OTHER _ \<Rightarrow> (None, []))"

text \<open>
  An access by a peer, and its result: the return code, the bytes appended to the response, the
  event pushed. \<open>append_rc\<close> is what \<open>os_mbuf_append\<close> returns; it takes the length as 16 bits. \<open>eval\<close> is the
  value an action sets when it runs now.
\<close>

datatype access_op = ACCESS_READ | ACCESS_WRITE bytes | ACCESS_OTHER nat

record access_result =
  ar_rc :: int
  ar_response :: bytes
  ar_event :: "server_event option"
  ar_out :: "server_out list"

definition access_result0 :: "int \<Rightarrow> access_result" where
  "access_result0 rc = \<lparr>ar_rc = rc, ar_response = [], ar_event = None, ar_out = []\<rparr>"

definition append_value :: "int \<Rightarrow> bytes \<Rightarrow> access_result" where
  "append_value append_rc bs =
     (if append_rc = 0 then (access_result0 0)\<lparr>ar_response := mbuf_copy (Some bs)\<rparr>
      else access_result0 BLE_ATT_ERR_INSUFFICIENT_RES)"

definition chr_access ::
  "(nat \<Rightarrow> bytes) \<Rightarrow> int \<Rightarrow> nat \<Rightarrow> u16 \<Rightarrow> access_op \<Rightarrow> server \<Rightarrow> server \<times> access_result" where
  "chr_access eval append_rc i conn op s = (case op of
     ACCESS_READ \<Rightarrow>
       let s = (case sc_on_read (svr_chrs s ! i) of
                  Some act \<Rightarrow> chr_set_value i (eval act) s | None \<Rightarrow> s)
       in (s, append_value append_rc (sc_value (svr_chrs s ! i)))
   | ACCESS_WRITE bs \<Rightarrow>
       let buf = mbuf_copy (Some bs);
           s = chr_set_value i buf s
       in if sc_on_write (svr_chrs s ! i)
          then (s, (access_result0 0)\<lparr>ar_event := Some ((server_event0 SE_CHR_WRITE conn)
                 \<lparr>se_target := Some i, se_data := buf\<rparr>)\<rparr>)
          else (s, (access_result0 0)\<lparr>ar_out := [Free_payload buf]\<rparr>)
   | ACCESS_OTHER _ \<Rightarrow> (s, access_result0 BLE_ATT_ERR_UNLIKELY))"

definition dsc_access :: "int \<Rightarrow> nat \<Rightarrow> u16 \<Rightarrow> access_op \<Rightarrow> server \<Rightarrow> server \<times> access_result" where
  "dsc_access append_rc d conn op s = (case op of
     ACCESS_READ \<Rightarrow> (s, append_value append_rc (ds_value (svr_dscs s ! d)))
   | ACCESS_WRITE bs \<Rightarrow>
       let buf = mbuf_copy (Some bs)
       in if of_nat (length buf) > ds_max_len (svr_dscs s ! d)
          then (s, access_result0 BLE_ATT_ERR_INVALID_ATTR_VALUE_LEN)
          else
            let s = dsc_set_value d buf s
            in if ds_on_write (svr_dscs s ! d)
               then (s, (access_result0 0)\<lparr>ar_event := Some ((server_event0 SE_DSC_WRITE conn)
                      \<lparr>se_target := Some d, se_data := buf\<rparr>)\<rparr>)
               else (s, (access_result0 0)\<lparr>ar_out := [Free_payload buf]\<rparr>)
   | ACCESS_OTHER _ \<Rightarrow> (s, access_result0 BLE_ATT_ERR_UNLIKELY))"

section \<open>The main loop\<close>

text \<open>\<open>-1\<close> where there is no such client; the count never exceeds the array, see \<open>clients_ok\<close>.\<close>

definition find_client_index :: "u16 \<Rightarrow> server \<Rightarrow> int" where
  "find_client_index conn s =
     (case List.find (\<lambda>k. svr_clients s ! k = conn) [0..<unat (client_count s)] of
        Some k \<Rightarrow> int k | None \<Rightarrow> -1)"

definition dispatch_callbacks :: "callback_type \<Rightarrow> u16 \<Rightarrow> server \<Rightarrow> server_out list" where
  "dispatch_callbacks ty conn s =
     map (\<lambda>(_, cb). (case ty of CB_ON_CONNECT \<Rightarrow> On_connect | CB_ON_DISCONNECT \<Rightarrow> On_disconnect) cb conn)
       (filter (\<lambda>(t, _). t = ty) (svr_callbacks s))"

definition handle_subscribe :: "u16 \<Rightarrow> bool \<Rightarrow> bool \<Rightarrow> ble_characteristic \<Rightarrow> ble_characteristic" where
  "handle_subscribe conn cur_notify cur_indicate c =
     (let entries = sc_clients_to_notify c;
          it = List.find (\<lambda>k. fst (entries ! k) = conn) [0..<length entries]
      in if \<not> cur_notify \<and> \<not> cur_indicate then
           (case it of Some k \<Rightarrow> c\<lparr>sc_clients_to_notify := take k entries @ drop (Suc k) entries\<rparr> | None \<Rightarrow> c)
         else
           (case it of
              Some k \<Rightarrow> c\<lparr>sc_clients_to_notify := entries[k := (conn, cur_indicate)]\<rparr>
            | None \<Rightarrow> c\<lparr>sc_clients_to_notify := entries @ [(conn, cur_indicate)]\<rparr>))"

definition chr_write_from_queue :: "nat \<Rightarrow> bytes \<Rightarrow> u16 \<Rightarrow> server \<Rightarrow> server_out list" where
  "chr_write_from_queue i data conn s =
     (if sc_on_write (svr_chrs s ! i) then [On_chr_write i data conn] else [])"

definition dsc_write_from_queue :: "nat \<Rightarrow> bytes \<Rightarrow> u16 \<Rightarrow> server \<Rightarrow> server_out list" where
  "dsc_write_from_queue d data conn s =
     (if ds_on_write (svr_dscs s ! d) then [On_dsc_write d data conn] else [])"

text \<open>
  One event of the queue. \<open>clients_[idx] = clients_[count - 1]\<close> is the removal of a client. A null target
  of a write or a subscription would be a dereferenced null pointer: \<open>None\<close>.
\<close>

definition server_handle :: "server_event \<Rightarrow> server \<Rightarrow> (server \<times> server_out list) option" where
  "server_handle ev s = (let conn = se_conn_handle ev in case se_type ev of
     SE_CONNECT \<Rightarrow>
       let s = (if find_client_index conn s < 0 \<and> unat (client_count s) < MAX_CLIENTS
                then s\<lparr>svr_clients := (svr_clients s)[unat (client_count s) := conn],
                       client_count := client_count s + 1\<rparr>
                else s)
       in Some (s, dispatch_callbacks CB_ON_CONNECT conn s)
   | SE_DISCONNECT \<Rightarrow>
       let idx = find_client_index conn s;
           s = (if idx \<ge> 0
                then s\<lparr>svr_clients := (svr_clients s)[nat idx := svr_clients s ! (unat (client_count s) - 1)],
                       client_count := client_count s - 1\<rparr>
                else s)
       in Some (s, dispatch_callbacks CB_ON_DISCONNECT conn s)
   | SE_SUBSCRIBE \<Rightarrow> map_option (\<lambda>i.
       (upd_chr i (handle_subscribe conn (se_cur_notify ev) (se_cur_indicate ev)) s, [])) (se_target ev)
   | SE_CHR_WRITE \<Rightarrow> map_option (\<lambda>i.
       (s, chr_write_from_queue i (se_data ev) conn s @ [Free_payload (se_data ev)])) (se_target ev)
   | SE_DSC_WRITE \<Rightarrow> map_option (\<lambda>d.
       (s, dsc_write_from_queue d (se_data ev) conn s @ [Free_payload (se_data ev)])) (se_target ev))"

fun server_drain :: "server_event list \<Rightarrow> server \<Rightarrow> (server \<times> server_out list) option" where
  "server_drain [] s = Some (s, [])"
| "server_drain (ev # evs) s = (case server_handle ev s of
     None \<Rightarrow> None
   | Some (s, out) \<Rightarrow> map_option (apsnd ((@) out)) (server_drain evs s))"

definition notify :: "nat \<Rightarrow> server \<Rightarrow> server_out list" where
  "notify i s =
     (let c = svr_chrs s ! i
      in if sc_val_handle c = 0xFFFF then []
         else map (\<lambda>(conn, indicate). (if indicate then Gatts_indicate else Gatts_notify) conn (sc_val_handle c))
                (sc_clients_to_notify c))"

section \<open>Actions and triggers\<close>

text \<open>
  \<open>BLECharacteristicSetValueActionManager\<close>, and the three actions. An action is its identity; \<open>eval\<close>
  gives the value its buffer has when it is evaluated. The triggers of \<open>BLETriggers\<close> register themselves
  as callbacks.
\<close>

definition find_listener :: "nat \<Rightarrow> server \<Rightarrow> nat option" where
  "find_listener i s = List.find (\<lambda>k. fst (svr_listeners s ! k) = i) [0..<length (svr_listeners s)]"

definition has_listener :: "nat \<Rightarrow> server \<Rightarrow> bool" where
  "has_listener i s \<longleftrightarrow> find_listener i s \<noteq> None"

definition remove_listener :: "nat \<Rightarrow> server \<Rightarrow> server" where
  "remove_listener i s = (case find_listener i s of
     None \<Rightarrow> s
   | Some k \<Rightarrow> s\<lparr>svr_listeners := butlast ((svr_listeners s)[k := last (svr_listeners s)])\<rparr>)"

definition set_listener_action :: "nat \<Rightarrow> nat \<Rightarrow> server \<Rightarrow> server" where
  "set_listener_action i act s =
     (let s = (if find_listener i s \<noteq> None then remove_listener i s else s)
      in s\<lparr>svr_listeners := svr_listeners s @ [(i, act)]\<rparr>)"

definition emit_pre_notify :: "(nat \<Rightarrow> bytes) \<Rightarrow> nat \<Rightarrow> server \<Rightarrow> server" where
  "emit_pre_notify eval i s = (case find_listener i s of
     Some k \<Rightarrow> chr_set_value i (eval (snd (svr_listeners s ! k))) s
   | None \<Rightarrow> s)"

definition set_value_action :: "(nat \<Rightarrow> bytes) \<Rightarrow> nat \<Rightarrow> nat \<Rightarrow> server \<Rightarrow> server" where
  "set_value_action eval act i s =
     (if has_listener i s then s
      else set_listener_action i act (chr_on_read i act (chr_set_value i (eval act) s)))"

definition notify_action :: "(nat \<Rightarrow> bytes) \<Rightarrow> nat \<Rightarrow> server \<Rightarrow> server \<times> server_out list" where
  "notify_action eval i s = (let s = emit_pre_notify eval i s in (s, notify i s))"

definition descriptor_set_value_action :: "(nat \<Rightarrow> bytes) \<Rightarrow> nat \<Rightarrow> nat \<Rightarrow> server \<Rightarrow> server" where
  "descriptor_set_value_action eval act d s = dsc_set_value d (eval act) s"

definition create_characteristic_on_write_trigger :: "nat \<Rightarrow> server \<Rightarrow> server" where
  "create_characteristic_on_write_trigger i = chr_on_write i"

definition create_descriptor_on_write_trigger :: "nat \<Rightarrow> server \<Rightarrow> server" where
  "create_descriptor_on_write_trigger d = dsc_on_write d"

definition create_server_on_connect_trigger :: "nat \<Rightarrow> server \<Rightarrow> server" where
  "create_server_on_connect_trigger trig = server_on_connect trig"

definition create_server_on_disconnect_trigger :: "nat \<Rightarrow> server \<Rightarrow> server" where
  "create_server_on_disconnect_trigger trig = server_on_disconnect trig"

section \<open>The server with its queue\<close>

definition server_queue_init :: "('q, server_event) rtos \<Rightarrow> int \<Rightarrow> 'q event_queue \<Rightarrow> 'q event_queue" where
  "server_queue_init = queue_init"

definition server_queue_push ::
  "('q, server_event) rtos \<Rightarrow> server_event \<Rightarrow> 'q event_queue
     \<Rightarrow> ('q event_queue \<times> server_event queue_out list) option" where
  "server_queue_push = push_from_host_task"

definition server_event_queue :: "('q, server_event) rtos \<Rightarrow> 'q event_queue option \<Rightarrow> 'q event_queue" where
  "server_event_queue r st =
     (case st of Some s \<Rightarrow> s | None \<Rightarrow> server_queue_init r 16 event_queue0)"

text \<open>\<open>delete[] event.data\<close> of a dropped event is a freed payload like any other.\<close>

fun queue_frees :: "server_event queue_out list \<Rightarrow> server_out list" where
  "queue_frees [] = []"
| "queue_frees (Freed ev # out) = Free_payload (se_data ev) # queue_frees out"
| "queue_frees (_ # out) = queue_frees out"

type_synonym 'q server_state = "'q event_queue option \<times> server"

definition push_event ::
  "('q, server_event) rtos \<Rightarrow> server_event option \<Rightarrow> 'q server_state
     \<Rightarrow> ('q server_state \<times> server_event queue_out list) option" where
  "push_event r ev st = (case ev of
     None \<Rightarrow> Some (st, [])
   | Some ev \<Rightarrow> map_option (\<lambda>(q, out). ((Some q, snd st), out))
       (server_queue_push r ev (server_event_queue r (fst st))))"

definition server_loop ::
  "('q, server_event) rtos \<Rightarrow> 'q server_state \<Rightarrow> ('q server_state \<times> server_out list) option" where
  "server_loop r st = (case drain_queue r (server_event_queue r (fst st)) of
     None \<Rightarrow> None
   | Some (q, evs) \<Rightarrow> map_option (\<lambda>(s, out). ((Some q, s), out)) (server_drain evs (snd st)))"

end
