(* ===== verification/ListMaps.thy ===== *)
theory ListMaps
  imports Prelude
begin

text \<open>
  Lists used as arrays and as maps: removal by swapping with the last element, and what updating, removing
  or appending an entry of an association list does to the map it stands for.
\<close>

section \<open>Arrays\<close>

lemma nth_update_if: "xs[k := x] ! j = (if k = j \<and> j < length xs then x else xs ! j)"
  by (cases "k < length xs") (auto simp: nth_list_update list_update_beyond)

lemma swap_remove:
  assumes "distinct (take n xs)" and "k < n" and "n \<le> length xs"
  shows "distinct (take (n - 1) (xs[k := xs ! (n - 1)]))"
    and "set (take (n - 1) (xs[k := xs ! (n - 1)])) = set (take n xs) - {xs ! k}"
proof -
  define zs where "zs = take (n - 1) xs"
  have n: "n = Suc (n - 1)" "n - 1 < length xs" using assms(2,3) by auto
  have ys: "take n xs = zs @ [xs ! (n - 1)]"
    using take_Suc_conv_app_nth [OF n(2)] n(1) by (simp add: zs_def)
  have len: "length zs = n - 1" using n(2) by (simp add: zs_def)
  have upd: "take (n - 1) (xs[k := xs ! (n - 1)]) = zs[k := xs ! (n - 1)]"
    by (simp add: zs_def take_update_swap)
  have d: "distinct zs" "xs ! (n - 1) \<notin> set zs" using assms(1) ys by auto
  show "distinct (take (n - 1) (xs[k := xs ! (n - 1)]))"
    unfolding upd using d by (simp add: distinct_list_update)
  show "set (take (n - 1) (xs[k := xs ! (n - 1)])) = set (take n xs) - {xs ! k}"
  proof (cases "k < n - 1")
    case True
    then have "zs ! k = xs ! k" by (simp add: zs_def)
    moreover have "zs ! k \<in> set zs" using True len by (intro nth_mem) simp
    ultimately have "zs ! k = xs ! k" "xs ! k \<in> set zs" by simp_all
    then show ?thesis unfolding upd ys using d True len
      by (auto simp: set_update_distinct)
  next
    case False
    then have "k = n - 1" using assms(2) by simp
    then show ?thesis unfolding upd ys using d len by (simp add: list_update_beyond)
  qed
qed

section \<open>Association lists\<close>

lemma map_of_remove_nth:
  assumes "distinct (map fst xs)" and "k < length xs"
  shows "map_of (take k xs @ drop (Suc k) xs) = (map_of xs)(fst (xs ! k) := None)"
    and "distinct (map fst (take k xs @ drop (Suc k) xs))"
proof -
  have xs: "xs = take k xs @ xs ! k # drop (Suc k) xs" by (rule id_take_nth_drop [OF assms(2)])
  then have d: "distinct (map fst (take k xs) @ fst (xs ! k) # map fst (drop (Suc k) xs))"
    using assms(1) by (metis list.simps(9) map_append)
  then have "fst (xs ! k) \<notin> fst ` set (take k xs)" "fst (xs ! k) \<notin> fst ` set (drop (Suc k) xs)" by auto
  then have none: "map_of (take k xs) (fst (xs ! k)) = None" "map_of (drop (Suc k) xs) (fst (xs ! k)) = None"
    by (simp_all add: map_of_eq_None_iff)
  show "map_of (take k xs @ drop (Suc k) xs) = (map_of xs)(fst (xs ! k) := None)"
    apply (subst (3) xs)
    using none by (auto simp: map_add_def fun_eq_iff split: option.splits)
  show "distinct (map fst (take k xs @ drop (Suc k) xs))" using d by auto
qed

lemma map_of_update_nth:
  assumes "distinct (map fst xs)" and "k < length xs" and "fst (xs ! k) = a"
  shows "map_of (xs[k := (a, b)]) = (map_of xs)(a \<mapsto> b)" and "distinct (map fst (xs[k := (a, b)]))"
proof -
  have xs: "xs = take k xs @ xs ! k # drop (Suc k) xs" by (rule id_take_nth_drop [OF assms(2)])
  then have d: "distinct (map fst (take k xs) @ a # map fst (drop (Suc k) xs))"
    using assms(1,3) by (metis list.simps(9) map_append)
  then have "map_of (take k xs) a = None" by (auto simp: map_of_eq_None_iff)
  then show "map_of (xs[k := (a, b)]) = (map_of xs)(a \<mapsto> b)"
    unfolding upd_conv_take_nth_drop [OF assms(2)]
    using assms(3) by (subst (3) xs) (auto simp: map_add_def fun_eq_iff split: option.splits prod.splits)
  show "distinct (map fst (xs[k := (a, b)]))"
    unfolding upd_conv_take_nth_drop [OF assms(2)] using d by simp
qed

lemma map_of_snoc:
  "map_of xs a = None \<Longrightarrow> map_of (xs @ [(a, b)]) = (map_of xs)(a \<mapsto> b)"
  by (auto simp: map_add_def fun_eq_iff split: option.splits)

end
