(* ===== verification/ServerClients.thy ===== *)
theory ServerClients
  imports BleServer ListMaps
begin

text \<open>
  The clients and the subscribers of the server of \<open>BleServer\<close>: the array of connection handles
  implements a set of at most nine peers, the subscriber list of a characteristic a map, and a
  notification goes to exactly the keys of that map.
\<close>

section \<open>The clients\<close>

definition clients_ok :: "server \<Rightarrow> bool" where
  "clients_ok s \<longleftrightarrow> length (svr_clients s) = MAX_CLIENTS \<and> unat (client_count s) \<le> MAX_CLIENTS
     \<and> distinct (take (unat (client_count s)) (svr_clients s))"

definition connected :: "server \<Rightarrow> u16 set" where
  "connected s = set (take (unat (client_count s)) (svr_clients s))"

lemma clients_ok_init: "clients_ok server_init" "connected server_init = {}"
  by (simp_all add: clients_ok_def connected_def server_init_def MAX_CLIENTS_def)

lemma clients_ok_upd [simp]:
  "clients_ok (upd_chr i f s) = clients_ok s" "connected (upd_chr i f s) = connected s"
  by (simp_all add: clients_ok_def connected_def upd_chr_def)

lemma find_client_cases:
  assumes "clients_ok s"
  obtains (absent) "find_client_index conn s = -1" and "conn \<notin> connected s"
  | (present) k where "find_client_index conn s = int k" and "k < unat (client_count s)"
      and "svr_clients s ! k = conn" and "conn \<in> connected s"
proof (cases "List.find (\<lambda>k. svr_clients s ! k = conn) [0..<unat (client_count s)]")
  case None
  then have "\<forall>k < unat (client_count s). svr_clients s ! k \<noteq> conn" by (auto simp: find_None_iff)
  then have "conn \<notin> connected s"
    using assms by (auto simp: connected_def clients_ok_def in_set_conv_nth)
  then show thesis using absent None by (simp add: find_client_index_def)
next
  case (Some k)
  then have k: "k < unat (client_count s)" "svr_clients s ! k = conn"
    by (auto simp: find_Some_iff)
  then have "conn \<in> connected s"
    using assms by (force simp: connected_def clients_ok_def in_set_conv_nth)
  then show thesis using present [OF _ k] Some by (simp add: find_client_index_def)
qed

lemma card_connected: "clients_ok s \<Longrightarrow> card (connected s) = unat (client_count s)"
  by (simp add: clients_ok_def connected_def distinct_card)

text \<open>The specification: a set of at most nine peers.\<close>

definition client_spec :: "server_event \<Rightarrow> u16 set \<Rightarrow> u16 set" where
  "client_spec ev S = (case se_type ev of
     SE_CONNECT \<Rightarrow> if card S < MAX_CLIENTS then insert (se_conn_handle ev) S else S
   | SE_DISCONNECT \<Rightarrow> S - {se_conn_handle ev}
   | _ \<Rightarrow> S)"

definition callback_spec :: "server \<Rightarrow> server_event \<Rightarrow> server_out list" where
  "callback_spec s ev = (case se_type ev of
     SE_CONNECT \<Rightarrow> dispatch_callbacks CB_ON_CONNECT (se_conn_handle ev) s
   | SE_DISCONNECT \<Rightarrow> dispatch_callbacks CB_ON_DISCONNECT (se_conn_handle ev) s
   | _ \<Rightarrow> [])"

fun is_callback :: "server_out \<Rightarrow> bool" where
  "is_callback (On_connect _ _) \<longleftrightarrow> True"
| "is_callback (On_disconnect _ _) \<longleftrightarrow> True"
| "is_callback _ \<longleftrightarrow> False"

lemma dispatch_callbacks_cong: "svr_callbacks s = svr_callbacks t \<Longrightarrow> dispatch_callbacks ty conn s = dispatch_callbacks ty conn t"
  by (simp add: dispatch_callbacks_def)

lemma is_callback_dispatch [simp]: "filter is_callback (dispatch_callbacks ty conn s) = dispatch_callbacks ty conn s"
  by (auto simp: dispatch_callbacks_def filter_id_conv split: callback_type.splits)

lemma add_client:
  assumes "clients_ok s" and "conn \<notin> connected s" and "unat (client_count s) < MAX_CLIENTS"
    and "s' = s\<lparr>svr_clients := (svr_clients s)[unat (client_count s) := conn], client_count := client_count s + 1\<rparr>"
  shows "clients_ok s' \<and> connected s' = insert conn (connected s)"
proof -
  let ?n = "unat (client_count s)"
  have n: "unat (client_count s') = Suc ?n"
    using assms(3,4) by (simp add: MAX_CLIENTS_def unat_add_no_wrap)
  have l: "length (svr_clients s') = MAX_CLIENTS" using assms(1,4) by (simp add: clients_ok_def)
  have t: "take (Suc ?n) (svr_clients s') = take ?n (svr_clients s) @ [conn]"
    using assms(1,3,4) by (simp add: clients_ok_def take_Suc_conv_app_nth)
  show ?thesis using assms(1-3) l
    unfolding clients_ok_def connected_def n t by simp
qed

lemma remove_client:
  assumes "clients_ok s" and "k < unat (client_count s)"
    and "s' = s\<lparr>svr_clients := (svr_clients s)[k := svr_clients s ! (unat (client_count s) - 1)],
                client_count := client_count s - 1\<rparr>"
  shows "clients_ok s' \<and> connected s' = connected s - {svr_clients s ! k}"
proof -
  let ?n = "unat (client_count s)"
  have n: "unat (client_count s') = ?n - 1"
    using assms(2,3) unat_minus_one [of "client_count s"] by fastforce
  have l: "length (svr_clients s') = MAX_CLIENTS" using assms(1,3) by (simp add: clients_ok_def)
  have c: "svr_clients s' = (svr_clients s)[k := svr_clients s ! (?n - 1)]" using assms(3) by simp
  have b: "distinct (take ?n (svr_clients s))" "?n \<le> length (svr_clients s)" "?n \<le> MAX_CLIENTS"
    using assms(1) by (simp_all add: clients_ok_def)
  show ?thesis using swap_remove [OF b(1) assms(2) b(2)] l b(3)
    unfolding clients_ok_def connected_def n c by simp
qed

lemma handle_clients:
  assumes "clients_ok s" and "server_handle ev s = Some (s', out)"
  shows "clients_ok s'" and "connected s' = client_spec ev (connected s)"
    and "filter is_callback out = callback_spec s ev" and "svr_callbacks s' = svr_callbacks s"
proof -
  have card: "card (connected s) = unat (client_count s)" by (rule card_connected [OF assms(1)])
  have "clients_ok s' \<and> connected s' = client_spec ev (connected s)
      \<and> filter is_callback out = callback_spec s ev \<and> svr_callbacks s' = svr_callbacks s"
  proof (cases "se_type ev")
    case SE_CONNECT
    show ?thesis
    proof (cases rule: find_client_cases [OF assms(1), of "se_conn_handle ev", case_names absent present])
      case absent
      show ?thesis
      proof (cases "unat (client_count s) < MAX_CLIENTS")
        case True
        have s': "s' = s\<lparr>svr_clients := (svr_clients s)[unat (client_count s) := se_conn_handle ev],
            client_count := client_count s + 1\<rparr>"
          using assms(2) SE_CONNECT absent(1) True by (auto simp: server_handle_def Let_def)
        have "out = dispatch_callbacks CB_ON_CONNECT (se_conn_handle ev) s'"
          using assms(2) SE_CONNECT s' absent(1) True by (auto simp: server_handle_def Let_def)
        then have "out = dispatch_callbacks CB_ON_CONNECT (se_conn_handle ev) s"
          by (simp add: s' dispatch_callbacks_def)
        then show ?thesis using add_client [OF assms(1) absent(2) True s'] card SE_CONNECT True
          by (simp add: client_spec_def callback_spec_def s')
      next
        case False
        then show ?thesis using assms absent(1) card SE_CONNECT
          by (auto simp: server_handle_def client_spec_def callback_spec_def)
      qed
    next
      case (present k)
      then show ?thesis using assms SE_CONNECT
        by (auto simp: server_handle_def client_spec_def callback_spec_def insert_absorb)
    qed
  next
    case SE_DISCONNECT
    show ?thesis
    proof (cases rule: find_client_cases [OF assms(1), of "se_conn_handle ev", case_names absent present])
      case absent
      then show ?thesis using assms SE_DISCONNECT
        by (auto simp: server_handle_def client_spec_def callback_spec_def)
    next
      case (present k)
      have s': "s' = s\<lparr>svr_clients := (svr_clients s)[k := svr_clients s ! (unat (client_count s) - 1)],
          client_count := client_count s - 1\<rparr>"
        using assms(2) SE_DISCONNECT present(1) by (auto simp: server_handle_def Let_def)
      have "out = dispatch_callbacks CB_ON_DISCONNECT (se_conn_handle ev) s'"
        using assms(2) SE_DISCONNECT s' present(1) by (auto simp: server_handle_def Let_def)
      then have "out = dispatch_callbacks CB_ON_DISCONNECT (se_conn_handle ev) s"
        by (simp add: s' dispatch_callbacks_def)
      then show ?thesis using remove_client [OF assms(1) present(2) s'] present(3) SE_DISCONNECT
        by (simp add: client_spec_def callback_spec_def s')
    qed
  qed (use assms in \<open>auto simp: server_handle_def client_spec_def callback_spec_def upd_chr_def
        clients_ok_def connected_def chr_write_from_queue_def dsc_write_from_queue_def Let_def\<close>)
  then show "clients_ok s'" "connected s' = client_spec ev (connected s)"
    "filter is_callback out = callback_spec s ev" "svr_callbacks s' = svr_callbacks s" by auto
qed

lemma drain_clients:
  assumes "clients_ok s" and "server_drain evs s = Some (s', out)"
  shows "clients_ok s' \<and> connected s' = fold client_spec evs (connected s)
    \<and> filter is_callback out = concat (map (callback_spec s) evs)"
  using assms
proof (induction evs arbitrary: s out)
  case (Cons ev evs)
  obtain s1 out1 out2 where 1: "server_handle ev s = Some (s1, out1)"
    and 2: "server_drain evs s1 = Some (s', out2)" and out: "out = out1 @ out2"
    using Cons.prems(2) by (auto split: option.splits)
  note h = handle_clients [OF Cons.prems(1) 1]
  have "callback_spec s1 = callback_spec s"
    using h(4) by (intro ext) (auto simp: callback_spec_def dispatch_callbacks_def split: server_event_type.splits)
  then show ?case using Cons.IH [OF h(1) 2] h(2,3) out by simp
qed simp

section \<open>The subscribers\<close>

definition subscribed :: "ble_characteristic \<Rightarrow> u16 \<rightharpoonup> bool" where
  "subscribed c = map_of (sc_clients_to_notify c)"

definition subscribers_ok :: "ble_characteristic \<Rightarrow> bool" where
  "subscribers_ok c \<longleftrightarrow> distinct (map fst (sc_clients_to_notify c))"

lemma find_entry_cases:
  assumes "distinct (map fst entries)"
  obtains (absent) "List.find (\<lambda>k. fst (entries ! k) = conn) [0..<length entries] = None"
      and "map_of entries conn = None"
  | (present) k b where "List.find (\<lambda>k. fst (entries ! k) = conn) [0..<length entries] = Some k"
      and "k < length entries" and "entries ! k = (conn, b)" and "map_of entries conn = Some b"
proof (cases "List.find (\<lambda>k. fst (entries ! k) = conn) [0..<length entries]")
  case None
  then have "\<forall>k < length entries. fst (entries ! k) \<noteq> conn" by (auto simp: find_None_iff)
  then have "conn \<notin> fst ` set entries" by (auto simp: in_set_conv_nth image_iff) (metis fst_conv)
  then show thesis using absent None by (simp add: map_of_eq_None_iff)
next
  case (Some k)
  then have k: "k < length entries" "fst (entries ! k) = conn" by (auto simp: find_Some_iff)
  then have "(conn, snd (entries ! k)) \<in> set entries" by (metis nth_mem prod.collapse)
  then have "map_of entries conn = Some (snd (entries ! k))" using assms by simp
  then show thesis using present [OF Some k(1)] k(2) by (metis prod.collapse)
qed

text \<open>The specification: a map from connections to the kind of the subscription.\<close>

definition subscribe_spec :: "u16 \<Rightarrow> bool \<Rightarrow> bool \<Rightarrow> (u16 \<rightharpoonup> bool) \<Rightarrow> u16 \<rightharpoonup> bool" where
  "subscribe_spec conn cur_notify cur_indicate m =
     (if cur_notify \<or> cur_indicate then m(conn \<mapsto> cur_indicate) else m(conn := None))"

lemma handle_subscribe_spec:
  assumes "subscribers_ok c"
  shows "subscribers_ok (handle_subscribe conn n i c)"
    and "subscribed (handle_subscribe conn n i c) = subscribe_spec conn n i (subscribed c)"
proof -
  let ?xs = "sc_clients_to_notify c"
  have d: "distinct (map fst ?xs)" using assms by (simp add: subscribers_ok_def)
  have "subscribers_ok (handle_subscribe conn n i c)
      \<and> subscribed (handle_subscribe conn n i c) = subscribe_spec conn n i (subscribed c)"
  proof (cases rule: find_entry_cases [OF d, of conn, case_names absent present])
    case absent
    have new: "conn \<notin> fst ` set ?xs" using absent(2) by (simp add: map_of_eq_None_iff)
    have same: "(map_of ?xs)(conn := None) = map_of ?xs" using absent(2) by auto
    show ?thesis using d absent(1) new
      by (simp add: handle_subscribe_def subscribers_ok_def subscribed_def subscribe_spec_def
          map_of_snoc [OF absent(2)] same del: map_of_append)
  next
    case (present k b)
    have k: "fst (?xs ! k) = conn" by (simp add: present(3))
    note rem = map_of_remove_nth [OF d present(2), unfolded k]
    note upd = map_of_update_nth [OF d present(2) k]
    show ?thesis
      by (simp add: handle_subscribe_def subscribers_ok_def subscribed_def subscribe_spec_def present(1)
          rem upd Let_def del: map_of_append map_append)
  qed
  then show "subscribers_ok (handle_subscribe conn n i c)"
    "subscribed (handle_subscribe conn n i c) = subscribe_spec conn n i (subscribed c)" by auto
qed

text \<open>What the events of a drain do to one characteristic's subscribers.\<close>

definition subscribe_events :: "nat \<Rightarrow> server_event list \<Rightarrow> server_event list" where
  "subscribe_events i evs = filter (\<lambda>ev. se_type ev = SE_SUBSCRIBE \<and> se_target ev = Some i) evs"

definition apply_subscribe :: "server_event \<Rightarrow> (u16 \<rightharpoonup> bool) \<Rightarrow> u16 \<rightharpoonup> bool" where
  "apply_subscribe ev = subscribe_spec (se_conn_handle ev) (se_cur_notify ev) (se_cur_indicate ev)"

lemma handle_other_fields:
  assumes "server_handle ev s = Some (s', out)"
  shows "length (svr_chrs s') = length (svr_chrs s)"
    and "sc_val_handle (svr_chrs s' ! i) = sc_val_handle (svr_chrs s ! i)"
    and "se_type ev = SE_SUBSCRIBE \<and> se_target ev = Some i \<and> i < length (svr_chrs s) \<longrightarrow>
           svr_chrs s' ! i = handle_subscribe (se_conn_handle ev) (se_cur_notify ev) (se_cur_indicate ev) (svr_chrs s ! i)"
    and "\<not> (se_type ev = SE_SUBSCRIBE \<and> se_target ev = Some i) \<longrightarrow> svr_chrs s' ! i = svr_chrs s ! i"
proof -
  have v: "sc_val_handle (handle_subscribe c n j x) = sc_val_handle x" for c n j x
    by (auto simp: handle_subscribe_def Let_def split: option.splits)
  show "length (svr_chrs s') = length (svr_chrs s)"
    "sc_val_handle (svr_chrs s' ! i) = sc_val_handle (svr_chrs s ! i)"
    "se_type ev = SE_SUBSCRIBE \<and> se_target ev = Some i \<and> i < length (svr_chrs s) \<longrightarrow>
       svr_chrs s' ! i = handle_subscribe (se_conn_handle ev) (se_cur_notify ev) (se_cur_indicate ev) (svr_chrs s ! i)"
    "\<not> (se_type ev = SE_SUBSCRIBE \<and> se_target ev = Some i) \<longrightarrow> svr_chrs s' ! i = svr_chrs s ! i"
    using assms
    by (auto simp: server_handle_def upd_chr_def Let_def nth_update_if v
        split: server_event_type.splits if_splits)
qed

lemma drain_subscribers:
  assumes "i < length (svr_chrs s)" and "subscribers_ok (svr_chrs s ! i)"
    and "server_drain evs s = Some (s', out)"
  shows "subscribers_ok (svr_chrs s' ! i)
    \<and> subscribed (svr_chrs s' ! i) = fold apply_subscribe (subscribe_events i evs) (subscribed (svr_chrs s ! i))
    \<and> sc_val_handle (svr_chrs s' ! i) = sc_val_handle (svr_chrs s ! i)"
  using assms
proof (induction evs arbitrary: s out)
  case (Cons ev evs)
  obtain s1 out1 out2 where 1: "server_handle ev s = Some (s1, out1)"
    and 2: "server_drain evs s1 = Some (s', out2)"
    using Cons.prems(3) by (auto split: option.splits)
  note h = handle_other_fields [OF 1]
  have l: "i < length (svr_chrs s1)" using Cons.prems(1) h(1) by simp
  show ?case
  proof (cases "se_type ev = SE_SUBSCRIBE \<and> se_target ev = Some i")
    case True
    then have c: "svr_chrs s1 ! i
        = handle_subscribe (se_conn_handle ev) (se_cur_notify ev) (se_cur_indicate ev) (svr_chrs s ! i)"
      using h(3) [of i] Cons.prems(1) by simp
    note sp = handle_subscribe_spec [OF Cons.prems(2)]
    have ok: "subscribers_ok (svr_chrs s1 ! i)" unfolding c by (rule sp)
    from Cons.IH [OF l ok 2] show ?thesis
      using True h(2) [of i] unfolding c sp by (simp add: subscribe_events_def apply_subscribe_def)
  next
    case False
    then have c: "svr_chrs s1 ! i = svr_chrs s ! i" using h(4) [of i] by blast
    have ok: "subscribers_ok (svr_chrs s1 ! i)" using c Cons.prems(2) by simp
    from Cons.IH [OF l ok 2] show ?thesis using False c by (auto simp: subscribe_events_def)
  qed
qed (simp add: subscribe_events_def)

lemma notify_subscribed:
  assumes "subscribers_ok (svr_chrs s ! i)" and "sc_val_handle (svr_chrs s ! i) = h" and "h \<noteq> 0xFFFF"
  shows "distinct (notify i s)"
    and "set (notify i s) = {Gatts_indicate conn h | conn. subscribed (svr_chrs s ! i) conn = Some True}
           \<union> {Gatts_notify conn h | conn. subscribed (svr_chrs s ! i) conn = Some False}"
proof -
  let ?xs = "sc_clients_to_notify (svr_chrs s ! i)"
  let ?f = "\<lambda>(conn, indicate). (if indicate then Gatts_indicate else Gatts_notify) conn h"
  have d: "distinct (map fst ?xs)" using assms(1) by (simp add: subscribers_ok_def)
  have n: "notify i s = map ?f ?xs" using assms(2,3) by (simp add: notify_def)
  have "inj_on ?f (set ?xs)" by (auto simp: inj_on_def split: if_splits)
  then show "distinct (notify i s)" unfolding n using d by (simp add: distinct_map)
  have m: "subscribed (svr_chrs s ! i) conn = Some b \<longleftrightarrow> (conn, b) \<in> set ?xs" for conn b
    using d by (simp add: subscribed_def)
  show "set (notify i s) = {Gatts_indicate conn h | conn. subscribed (svr_chrs s ! i) conn = Some True}
           \<union> {Gatts_notify conn h | conn. subscribed (svr_chrs s ! i) conn = Some False}"
    unfolding n m by (auto simp: image_iff split: if_splits) force+
qed

end
