(* ===== verification/ServerTable.thy ===== *)
theory ServerTable
  imports BleServer ListMaps
begin

text \<open>
  The table of services the server of \<open>BleServer\<close> hands to the host: how the host reads it, the
  configuration it stands for, and that creating the native entries changes nothing else.
\<close>

section \<open>The registered table\<close>

text \<open>How the host reads a table: entries up to the terminator; off its end is \<open>None\<close>.\<close>

fun table_entries :: "'a option list \<Rightarrow> 'a list option" where
  "table_entries [] = None"
| "table_entries (None # _) = Some []"
| "table_entries (Some x # xs) = map_option ((#) x) (table_entries xs)"

lemma table_entries_terminated [simp]: "table_entries (map Some xs @ [None]) = Some xs"
  by (induction xs) auto

type_synonym chr_entry = "(u8 \<times> bytes) \<times> u32 \<times> nat \<times> ble_gatt_dsc_def list"

definition host_reads_chr :: "ble_gatt_chr_def \<Rightarrow> chr_entry option" where
  "host_reads_chr c = map_option (\<lambda>ds. (cd_uuid c, cd_flags c, cd_arg c, ds))
     (case cd_descriptors c of None \<Rightarrow> Some [] | Some t \<Rightarrow> table_entries t)"

definition host_reads_svc :: "ble_gatt_svc_def \<Rightarrow> ((u8 \<times> bytes) \<times> chr_entry list) option" where
  "host_reads_svc v = map_option (Pair (sd_uuid v))
     (case sd_characteristics v of None \<Rightarrow> Some []
      | Some t \<Rightarrow> Option.bind (table_entries t) (\<lambda>cs. those (map host_reads_chr cs)))"

definition host_reads :: "ble_gatt_svc_def option list \<Rightarrow> ((u8 \<times> bytes) \<times> chr_entry list) list option" where
  "host_reads t = Option.bind (table_entries t) (\<lambda>vs. those (map host_reads_svc vs))"

text \<open>The configuration, as services, characteristics and descriptors with their native flags.\<close>

definition dsc_config :: "server \<Rightarrow> nat \<Rightarrow> ble_gatt_dsc_def" where
  "dsc_config s d = \<lparr>dd_uuid = espbtuuid_to_nimble_uuid (ds_uuid (svr_dscs s ! d)),
     dd_att_flags = ds_att_flags (svr_dscs s ! d), dd_arg = d\<rparr>"

definition chr_config :: "server \<Rightarrow> nat \<Rightarrow> chr_entry" where
  "chr_config s i = (let c = svr_chrs s ! i in
     (espbtuuid_to_nimble_uuid (sc_uuid c), property_to_nimble_flags (sc_flags c), i,
      map (dsc_config s) (real_descriptors (sc_descriptors c) s)))"

definition config_table :: "server \<Rightarrow> ((u8 \<times> bytes) \<times> chr_entry list) list" where
  "config_table s = map (\<lambda>v. (espbtuuid_to_nimble_uuid (ss_uuid v),
     map (chr_config s) (ss_characteristics v))) (svr_services s)"

definition server_wf :: "server \<Rightarrow> bool" where
  "server_wf s \<longleftrightarrow>
     list_all (\<lambda>v. list_all (\<lambda>i. i < length (svr_chrs s)) (ss_characteristics v)) (svr_services s)
   \<and> list_all (\<lambda>c. list_all (\<lambda>d. d < length (svr_dscs s)) (sc_descriptors c)) (svr_chrs s)"

text \<open>Creation fills in the native entries and leaves the configuration as it was.\<close>

definition dsc_key :: "ble_descriptor \<Rightarrow> espbtuuid \<times> u8" where
  "dsc_key x = (ds_uuid x, ds_att_flags x)"

definition chr_key :: "ble_characteristic \<Rightarrow> espbtuuid \<times> u32 \<times> nat list" where
  "chr_key c = (sc_uuid c, sc_flags c, sc_descriptors c)"

definition svc_key :: "ble_service \<Rightarrow> espbtuuid \<times> nat list" where
  "svc_key v = (ss_uuid v, ss_characteristics v)"

definition same_config :: "server \<Rightarrow> server \<Rightarrow> bool" where
  "same_config s s' \<longleftrightarrow> map dsc_key (svr_dscs s') = map dsc_key (svr_dscs s)
     \<and> map chr_key (svr_chrs s') = map chr_key (svr_chrs s)
     \<and> map svc_key (svr_services s') = map svc_key (svr_services s)
     \<and> handle_to_characteristic s' = handle_to_characteristic s \<and> svr_started s' = svr_started s"

lemma same_config_refl [simp]: "same_config s s"
  by (simp add: same_config_def)

lemma same_config_trans: "same_config s t \<Longrightarrow> same_config t u \<Longrightarrow> same_config s u"
  by (simp add: same_config_def)

lemma same_config_upds:
  "(\<And>x. dsc_key (f x) = dsc_key x) \<Longrightarrow> same_config s (upd_dsc d f s)"
  "(\<And>c. chr_key (g c) = chr_key c) \<Longrightarrow> same_config s (upd_chr i g s)"
  by (auto simp: same_config_def upd_dsc_def upd_chr_def list_eq_iff_nth_eq nth_update_if)

lemma same_config_nth:
  assumes "same_config s s'"
  shows "length (svr_dscs s') = length (svr_dscs s)" "length (svr_chrs s') = length (svr_chrs s)"
    and "length (svr_services s') = length (svr_services s)"
    and "d < length (svr_dscs s) \<Longrightarrow> dsc_key (svr_dscs s' ! d) = dsc_key (svr_dscs s ! d)"
    and "i < length (svr_chrs s) \<Longrightarrow> chr_key (svr_chrs s' ! i) = chr_key (svr_chrs s ! i)"
    and "k < length (svr_services s) \<Longrightarrow> svc_key (svr_services s' ! k) = svc_key (svr_services s ! k)"
  using assms unfolding same_config_def
  by (metis length_map, metis length_map, metis length_map, metis length_map nth_map,
      metis length_map nth_map, metis length_map nth_map)

lemma server_wf_keys:
  "server_wf s \<longleftrightarrow> list_all (\<lambda>v. list_all (\<lambda>i. i < length (svr_chrs s)) (snd v)) (map svc_key (svr_services s))
     \<and> list_all (\<lambda>c. list_all (\<lambda>d. d < length (svr_dscs s)) (snd (snd c))) (map chr_key (svr_chrs s))"
  by (simp add: server_wf_def list.pred_map comp_def svc_key_def chr_key_def)

lemma same_config_wf: "same_config s s' \<Longrightarrow> server_wf s' = server_wf s"
  unfolding server_wf_keys using same_config_nth(1,2) [of s s'] by (simp add: same_config_def)

lemma real_descriptors_cong:
  assumes "same_config s s'" and "list_all (\<lambda>d. d < length (svr_dscs s)) ds"
  shows "real_descriptors ds s' = real_descriptors ds s"
    and "map (dsc_config s') ds = map (dsc_config s) ds"
proof -
  have k: "dsc_key (svr_dscs s' ! d) = dsc_key (svr_dscs s ! d)" if "d \<in> set ds" for d
    using same_config_nth(4) [OF assms(1)] assms(2) that by (simp add: list_all_iff)
  show "real_descriptors ds s' = real_descriptors ds s"
    unfolding real_descriptors_def using k
    by (intro filter_cong refl) (simp add: dsc_key_def get_uuid16_if_short_def)
  show "map (dsc_config s') ds = map (dsc_config s) ds"
    using k by (simp add: dsc_key_def dsc_config_def)
qed

lemma chr_wf: "server_wf s \<Longrightarrow> i < length (svr_chrs s) \<Longrightarrow>
    list_all (\<lambda>d. d < length (svr_dscs s)) (sc_descriptors (svr_chrs s ! i))"
  unfolding server_wf_def list_all_iff [of _ "svr_chrs s"] by (metis nth_mem)

lemma real_subset:
  "list_all P ds \<Longrightarrow> list_all P (real_descriptors ds s)"
  by (auto simp: list_all_iff real_descriptors_def)

lemma chr_config_cong:
  assumes "same_config s s'" and "server_wf s" and "i < length (svr_chrs s)"
  shows "chr_config s' i = chr_config s i"
proof -
  have "chr_key (svr_chrs s' ! i) = chr_key (svr_chrs s ! i)" by (rule same_config_nth(5) [OF assms(1,3)])
  then show ?thesis
    using real_descriptors_cong [OF assms(1) chr_wf [OF assms(2,3)]]
      real_descriptors_cong(2) [OF assms(1) real_subset [OF chr_wf [OF assms(2,3)]]]
    by (simp add: chr_config_def chr_key_def Let_def)
qed

lemma create_descriptors_both:
  assumes "create_descriptors i ds s = (s', defs)"
  shows "same_config s s'
    \<and> (list_all (\<lambda>d. d < length (svr_dscs s)) ds \<longrightarrow> defs = map Some (map (dsc_config s) ds))"
  using assms
proof (induction ds arbitrary: s defs)
  case (Cons d ds)
  let ?s = "dsc_do_create i d s"
  obtain defs' where c: "create_descriptors i ds ?s = (s', defs')" "defs = ds_def (svr_dscs ?s ! d) # defs'"
    using Cons.prems by (auto simp: Let_def split: prod.splits)
  have s: "same_config s ?s" unfolding dsc_do_create_def by (rule same_config_upds) (simp add: dsc_key_def)
  note IH = Cons.IH [OF c(1)]
  have "defs = map Some (map (dsc_config s) (d # ds))" if "list_all (\<lambda>d. d < length (svr_dscs s)) (d # ds)"
  proof -
    have "defs' = map Some (map (dsc_config ?s) ds)" using IH that same_config_nth(1) [OF s] by simp
    moreover have "map (dsc_config ?s) ds = map (dsc_config s) ds"
      by (rule real_descriptors_cong(2) [OF s]) (use that in simp)
    moreover have "ds_def (svr_dscs ?s ! d) = Some (dsc_config s d)"
      using that by (simp add: dsc_do_create_def upd_dsc_def dsc_config_def)
    ultimately show ?thesis using c(2) by simp
  qed
  then show ?case using same_config_trans [OF s] IH by blast
qed simp

lemma create_descriptors_ok:
  assumes "create_descriptors i ds s = (s', defs)"
  shows "same_config s s'"
    and "list_all (\<lambda>d. d < length (svr_dscs s)) ds \<Longrightarrow> defs = map Some (map (dsc_config s) ds)"
  using create_descriptors_both [OF assms] by blast+

lemma chr_do_create_ok:
  shows "same_config s (chr_do_create k i s)"
    and "server_wf s \<Longrightarrow> i < length (svr_chrs s) \<Longrightarrow>
           \<exists>c. sc_def (svr_chrs (chr_do_create k i s) ! i) = Some c \<and> host_reads_chr c = Some (chr_config s i)"
proof -
  let ?c = "svr_chrs s ! i"
  let ?real = "real_descriptors (sc_descriptors ?c) s"
  obtain s1 table where t: "(if ?real \<noteq> [] then
      let (s, defs) = create_descriptors i ?real s in (s, Some (defs @ [None]))
      else (fst (create_descriptors i (sc_descriptors ?c) s), None)) = (s1, table)" by fastforce
  define g where "g = (\<lambda>c :: ble_characteristic. c\<lparr>sc_service := Some k,
      sc_def := Some \<lparr>cd_uuid = espbtuuid_to_nimble_uuid (sc_uuid c), cd_arg = i, cd_descriptors = table,
        cd_flags = property_to_nimble_flags (sc_flags c)\<rparr>, sc_created := True\<rparr>)"
  have e: "chr_do_create k i s = upd_chr i g s1"
    using t by (simp add: chr_do_create_def g_def Let_def)
  have s1: "same_config s s1"
    using t create_descriptors_ok(1) by (auto split: if_splits prod.splits) (metis prod.collapse)
  have g: "same_config s1 (upd_chr i g s1)" by (rule same_config_upds) (simp add: g_def chr_key_def)
  show "same_config s (chr_do_create k i s)" unfolding e by (rule same_config_trans [OF s1 g])
  assume wf: "server_wf s" and i: "i < length (svr_chrs s)"
  have "chr_key (svr_chrs s1 ! i) = chr_key ?c" by (rule same_config_nth(5) [OF s1 i])
  then have key: "sc_uuid (svr_chrs s1 ! i) = sc_uuid ?c" "sc_flags (svr_chrs s1 ! i) = sc_flags ?c"
    by (simp_all add: chr_key_def)
  have d: "sc_def (svr_chrs (upd_chr i g s1) ! i)
      = Some \<lparr>cd_uuid = espbtuuid_to_nimble_uuid (sc_uuid ?c), cd_arg = i, cd_descriptors = table,
          cd_flags = property_to_nimble_flags (sc_flags ?c)\<rparr>"
    using i same_config_nth(2) [OF s1] key by (simp add: upd_chr_def g_def)
  have "(case table of None \<Rightarrow> Some [] | Some t \<Rightarrow> table_entries t) = Some (map (dsc_config s) ?real)"
  proof (cases "?real = []")
    case False
    obtain defs where "create_descriptors i ?real s = (s1, defs)" "table = Some (defs @ [None])"
      using t False by (auto split: prod.splits)
    then show ?thesis
      using create_descriptors_ok(2) real_subset [OF chr_wf [OF wf i]] by (metis option.simps(5) table_entries_terminated)
  qed (use t in auto)
  then show "\<exists>c. sc_def (svr_chrs (chr_do_create k i s) ! i) = Some c \<and> host_reads_chr c = Some (chr_config s i)"
    unfolding e d by (simp add: host_reads_chr_def chr_config_def Let_def)
qed

lemma create_chrs_ok:
  assumes "create_chrs k is s = (s', defs)" and "server_wf s" and "list_all (\<lambda>i. i < length (svr_chrs s)) is"
  shows "same_config s s'
    \<and> (\<exists>cs. defs = map Some cs \<and> those (map host_reads_chr cs) = Some (map (chr_config s) is))"
  using assms
proof (induction "is" arbitrary: s defs)
  case (Cons i ids)
  let ?s = "chr_do_create k i s"
  obtain defs' where c: "create_chrs k ids ?s = (s', defs')" "defs = sc_def (svr_chrs ?s ! i) # defs'"
    using Cons.prems(1) by (auto simp: Let_def split: prod.splits)
  have s: "same_config s ?s" by (rule chr_do_create_ok)
  have i: "i < length (svr_chrs s)" using Cons.prems(3) by simp
  obtain d where d: "sc_def (svr_chrs ?s ! i) = Some d" "host_reads_chr d = Some (chr_config s i)"
    using chr_do_create_ok(2) [OF Cons.prems(2) i] by blast
  have "list_all (\<lambda>i. i < length (svr_chrs ?s)) ids" using Cons.prems(3) same_config_nth(2) [OF s] by simp
  from Cons.IH [OF c(1) _ this] obtain cs where IH: "same_config ?s s'" "defs' = map Some cs"
    "those (map host_reads_chr cs) = Some (map (chr_config ?s) ids)"
    using same_config_wf [OF s] Cons.prems(2) by blast
  have "map (chr_config ?s) ids = map (chr_config s) ids"
    using chr_config_cong [OF s Cons.prems(2)] Cons.prems(3) by (simp add: list_all_iff)
  then have "those (map host_reads_chr (d # cs)) = Some (map (chr_config s) (i # ids))"
    using d(2) IH(3) by simp
  moreover have "defs = map Some (d # cs)" using c(2) d(1) IH(2) by simp
  ultimately show ?case using same_config_trans [OF s IH(1)] by blast
qed simp

text \<open>The configuration of one service.\<close>

definition svc_config :: "server \<Rightarrow> nat \<Rightarrow> (u8 \<times> bytes) \<times> chr_entry list" where
  "svc_config s k = (espbtuuid_to_nimble_uuid (ss_uuid (svr_services s ! k)),
     map (chr_config s) (ss_characteristics (svr_services s ! k)))"

lemma svc_wf: "server_wf s \<Longrightarrow> k < length (svr_services s) \<Longrightarrow>
    list_all (\<lambda>i. i < length (svr_chrs s)) (ss_characteristics (svr_services s ! k))"
  unfolding server_wf_def list_all_iff [of _ "svr_services s"] by (metis nth_mem)

lemma svc_config_cong:
  assumes "same_config s s'" and "server_wf s" and "k < length (svr_services s)"
  shows "svc_config s' k = svc_config s k"
proof -
  have "svc_key (svr_services s' ! k) = svc_key (svr_services s ! k)" by (rule same_config_nth(6) [OF assms(1,3)])
  then show ?thesis
    using chr_config_cong [OF assms(1,2)] svc_wf [OF assms(2,3)]
    by (simp add: svc_config_def svc_key_def list_all_iff)
qed

lemma svc_do_create_ok:
  assumes "server_wf s" and "k < length (svr_services s)"
  shows "same_config s (svc_do_create k s)"
    and "\<exists>v. ss_def (svr_services (svc_do_create k s) ! k) = Some v \<and> host_reads_svc v = Some (svc_config s k)"
proof -
  let ?v = "svr_services s ! k"
  obtain s1 table where t: "(if ss_characteristics ?v \<noteq> [] then
      let (s, defs) = create_chrs k (ss_characteristics ?v) s in (s, Some (defs @ [None]))
      else (s, None)) = (s1, table)" by fastforce
  have "same_config s s1 \<and> (case table of None \<Rightarrow> Some [] | Some t \<Rightarrow>
      Option.bind (table_entries t) (\<lambda>cs. those (map host_reads_chr cs))) = Some (map (chr_config s) (ss_characteristics ?v))"
  proof (cases "ss_characteristics ?v = []")
    case False
    obtain defs where c: "create_chrs k (ss_characteristics ?v) s = (s1, defs)" "table = Some (defs @ [None])"
      using t False by (auto split: prod.splits)
    from create_chrs_ok [OF c(1) assms(1) svc_wf [OF assms]] c(2) show ?thesis by auto
  qed (use t in auto)
  then have s1: "same_config s s1" and r: "(case table of None \<Rightarrow> Some [] | Some t \<Rightarrow>
      Option.bind (table_entries t) (\<lambda>cs. those (map host_reads_chr cs))) = Some (map (chr_config s) (ss_characteristics ?v))"
    by auto
  have e: "svc_do_create k s = s1\<lparr>svr_services := (svr_services s1)
      [k := ?v\<lparr>ss_def := Some \<lparr>sd_uuid = espbtuuid_to_nimble_uuid (ss_uuid ?v), sd_characteristics = table\<rparr>\<rparr>]\<rparr>"
    using t by (simp add: svc_do_create_def Let_def)
  have "svc_key (svr_services s1 ! k) = svc_key ?v" by (rule same_config_nth(6) [OF s1 assms(2)])
  then have "same_config s1 (svc_do_create k s)"
    unfolding e by (auto simp: same_config_def list_eq_iff_nth_eq nth_update_if svc_key_def)
  then show "same_config s (svc_do_create k s)" by (rule same_config_trans [OF s1])
  show "\<exists>v. ss_def (svr_services (svc_do_create k s) ! k) = Some v \<and> host_reads_svc v = Some (svc_config s k)"
    unfolding e using assms(2) same_config_nth(3) [OF s1] r
    by (simp add: host_reads_svc_def svc_config_def)
qed

lemma create_services_ok:
  assumes "create_services ks s = (s', defs)" and "server_wf s" and "list_all (\<lambda>k. k < length (svr_services s)) ks"
  shows "same_config s s'
    \<and> (\<exists>vs. defs = map Some vs \<and> those (map host_reads_svc vs) = Some (map (svc_config s) ks))"
  using assms
proof (induction ks arbitrary: s defs)
  case (Cons k ks)
  let ?s = "svc_do_create k s"
  obtain defs' where c: "create_services ks ?s = (s', defs')" "defs = ss_def (svr_services ?s ! k) # defs'"
    using Cons.prems(1) by (auto simp: Let_def split: prod.splits)
  have k: "k < length (svr_services s)" using Cons.prems(3) by simp
  have s: "same_config s ?s" by (rule svc_do_create_ok [OF Cons.prems(2) k])
  obtain v where v: "ss_def (svr_services ?s ! k) = Some v" "host_reads_svc v = Some (svc_config s k)"
    using svc_do_create_ok(2) [OF Cons.prems(2) k] by blast
  have "list_all (\<lambda>k. k < length (svr_services ?s)) ks" using Cons.prems(3) same_config_nth(3) [OF s] by simp
  from Cons.IH [OF c(1) _ this] obtain vs where IH: "same_config ?s s'" "defs' = map Some vs"
    "those (map host_reads_svc vs) = Some (map (svc_config ?s) ks)"
    using same_config_wf [OF s] Cons.prems(2) by blast
  have "map (svc_config ?s) ks = map (svc_config s) ks"
    using svc_config_cong [OF s Cons.prems(2)] Cons.prems(3) by (simp add: list_all_iff)
  then have "those (map host_reads_svc (v # vs)) = Some (map (svc_config s) (k # ks))"
    using v(2) IH(3) by simp
  moreover have "defs = map Some (v # vs)" using c(2) v(1) IH(2) by simp
  ultimately show ?case using same_config_trans [OF s IH(1)] by blast
qed simp

lemma config_table_svcs: "config_table s = map (svc_config s) [0..<length (svr_services s)]"
  by (rule nth_equalityI) (simp_all add: config_table_def svc_config_def)

lemma fold_route:
  "i \<in> set xs \<Longrightarrow> inj_on h (set xs) \<Longrightarrow> fold (\<lambda>i m. m(h i \<mapsto> i)) xs m (h i) = Some i"
proof (induction xs rule: rev_induct)
  case (snoc x xs)
  then show ?case by (cases "x = i") (auto simp: inj_on_def)
qed simp

definition registered :: "server \<Rightarrow> nat list" where
  "registered s = concat (map ss_characteristics (svr_services s))"

lemma registered_keys: "registered s = concat (map snd (map svc_key (svr_services s)))"
  by (simp add: registered_def svc_key_def comp_def)

lemma setup_ok:
  assumes "server_wf s" and "svr_services s \<noteq> []"
    and "count_cfg_rc env = 0" and "add_svcs_rc env = 0" and "gatts_start_rc env = 0"
  shows "\<exists>table s'. server_setup env s
             = (s', [Gatts_count_cfg table, Gatts_add_svcs table, Gatts_start, Start_advertising])
           \<and> host_reads table = Some (config_table s) \<and> svr_started s'
           \<and> (\<forall>i < length (svr_chrs s). sc_val_handle (svr_chrs s' ! i) = assigned_handle env i)
           \<and> handle_to_characteristic s' = fold (\<lambda>i m. m(assigned_handle env i \<mapsto> i)) (registered s)
                 (handle_to_characteristic s)"
proof -
  obtain s1 defs where c: "create_services [0..<length (svr_services s)] s = (s1, defs)" by fastforce
  have "list_all (\<lambda>k. k < length (svr_services s)) [0..<length (svr_services s)]" by (simp add: list_all_iff)
  from create_services_ok [OF c assms(1) this] obtain vs where s1: "same_config s s1"
    and vs: "defs = map Some vs" "those (map host_reads_svc vs) = Some (config_table s)"
    unfolding config_table_svcs by blast
  define s2 where "s2 = s1\<lparr>svr_defs := Some (defs @ [None]), svr_chrs := map (\<lambda>(i, c). c\<lparr>sc_val_handle := assigned_handle env i\<rparr>)
      (zip [0..<length (svr_chrs s1)] (svr_chrs s1))\<rparr>"
  have len: "length (svr_chrs s1) = length (svr_chrs s)" by (rule same_config_nth(2) [OF s1])
  have h: "sc_val_handle (svr_chrs s2 ! i) = assigned_handle env i" if "i < length (svr_chrs s)" for i
    using that len by (simp add: s2_def)
  have reg: "concat (map ss_characteristics (svr_services s1)) = registered s"
    using s1 unfolding same_config_def registered_keys [symmetric]
    by (metis registered_def registered_keys)
  have in_range: "i < length (svr_chrs s)" if "i \<in> set (registered s)" for i
    using assms(1) that by (auto simp: registered_def server_wf_def list_all_iff)
  have su: "setup_gatt_server env s = (s2\<lparr>handle_to_characteristic := route_handles s2, svr_started := True\<rparr>,
      [Gatts_count_cfg (defs @ [None]), Gatts_add_svcs (defs @ [None]), Gatts_start])"
    using assms(2-5) c by (simp add: setup_gatt_server_def s2_def Let_def)
  have "route_handles s2 = fold (\<lambda>i m. m(assigned_handle env i \<mapsto> i)) (registered s) (handle_to_characteristic s)"
  proof -
    have "route_handles s2 = fold (\<lambda>i m. m(sc_val_handle (svr_chrs s2 ! i) \<mapsto> i)) (registered s) (handle_to_characteristic s)"
      using s1 by (simp add: route_handles_def reg [symmetric] s2_def same_config_def)
    also have "\<dots> = fold (\<lambda>i m. m(assigned_handle env i \<mapsto> i)) (registered s) (handle_to_characteristic s)"
      using h in_range by (intro fold_cong) auto
    finally show ?thesis .
  qed
  moreover have "host_reads (defs @ [None]) = Some (config_table s)"
    using vs by (simp add: host_reads_def)
  ultimately show ?thesis using h
    by (intro exI [of _ "defs @ [None]"] exI [of _ "s2\<lparr>handle_to_characteristic := route_handles s2, svr_started := True\<rparr>"])
      (simp add: server_setup_def su)
qed

section \<open>The configuration, as GATT reads it\<close>

text \<open>
  The bits of a property in the configuration (the constants of ble_characteristic.h) and in the
  characteristic properties of GATT, which the host's flags are: read, write, notify, broadcast,
  indicate, write without response.
\<close>

definition property_bits :: "(nat \<times> nat) list" where
  "property_bits = [(0, 1), (1, 3), (2, 4), (3, 0), (4, 5), (5, 2)]"

definition declared_flags :: "u32 \<Rightarrow> u32" where
  "declared_flags props = of_nat (\<Sum>(i, j) \<leftarrow> property_bits. if bit props i then 2 ^ j else 0)"

text \<open>A UUID as the host takes it: its width in bits and its bytes, lowest first.\<close>

definition declared_uuid :: "espbtuuid \<Rightarrow> u8 \<times> bytes" where
  "declared_uuid u = (case u of
     UUID16 w \<Rightarrow> (16, [ucast w, ucast (w div 256)])
   | UUID32 w \<Rightarrow> (32, [ucast w, ucast (w div 256), ucast (w div 65536), ucast (w div 16777216)])
   | UUID128 bs \<Rightarrow> (128, take 16 bs)
   | UUID_UNSET \<Rightarrow> (128, replicate 16 0))"

definition declared_dsc :: "server \<Rightarrow> nat \<Rightarrow> ble_gatt_dsc_def" where
  "declared_dsc s d = \<lparr>dd_uuid = declared_uuid (ds_uuid (svr_dscs s ! d)),
     dd_att_flags = ds_att_flags (svr_dscs s ! d), dd_arg = d\<rparr>"

text \<open>The client configuration descriptors declared by their 16-bit UUID are the host's own.\<close>

definition declared_table :: "server \<Rightarrow> ((u8 \<times> bytes) \<times> chr_entry list) list" where
  "declared_table s =
     [(declared_uuid (ss_uuid v),
       [(declared_uuid (sc_uuid c), declared_flags (sc_flags c), i,
         [declared_dsc s d. d \<leftarrow> sc_descriptors c, ds_uuid (svr_dscs s ! d) \<noteq> UUID16 0x2902]).
        i \<leftarrow> ss_characteristics v, c \<leftarrow> [svr_chrs s ! i]]).
      v \<leftarrow> svr_services s]"

lemma declared_flags_eq: "property_to_nimble_flags props = declared_flags props"
proof -
  have "(props AND 1 \<noteq> 0) = bit props 0" "(props AND 2 \<noteq> 0) = bit props 1" "(props AND 4 \<noteq> 0) = bit props 2"
    "(props AND 8 \<noteq> 0) = bit props 3" "(props AND 0x10 \<noteq> 0) = bit props 4" "(props AND 0x20 \<noteq> 0) = bit props 5"
    using and_exp_eq_0_iff_not_bit [of props 0] and_exp_eq_0_iff_not_bit [of props 1]
      and_exp_eq_0_iff_not_bit [of props 2] and_exp_eq_0_iff_not_bit [of props 3]
      and_exp_eq_0_iff_not_bit [of props 4] and_exp_eq_0_iff_not_bit [of props 5] by simp_all
  then show ?thesis
    unfolding property_to_nimble_flags_def property_defs declared_flags_def property_bits_def
    by (simp add: BLE_GATT_CHR_F_READ_def BLE_GATT_CHR_F_WRITE_def BLE_GATT_CHR_F_NOTIFY_def
        BLE_GATT_CHR_F_INDICATE_def BLE_GATT_CHR_F_BROADCAST_def BLE_GATT_CHR_F_WRITE_NO_RSP_def)
qed

lemma declared_uuid_eq: "espbtuuid_to_nimble_uuid u = declared_uuid u"
  by (cases u) (simp_all add: espbtuuid_to_nimble_uuid_def declared_uuid_def BLE_UUID_TYPE_16_def
      BLE_UUID_TYPE_32_def BLE_UUID_TYPE_128_def le_bytes_def upt_rec drop_bit_eq_div)

lemma declared_table_eq: "config_table s = declared_table s"
proof -
  have d: "map (dsc_config s) (real_descriptors ds s)
      = [declared_dsc s d. d \<leftarrow> ds, ds_uuid (svr_dscs s ! d) \<noteq> UUID16 0x2902]" for ds
    by (induction ds) (auto simp: real_descriptors_def get_uuid16_if_short_def dsc_config_def declared_dsc_def
        declared_uuid_eq split: espbtuuid.splits)
  have "map (chr_config s) is = [(declared_uuid (sc_uuid c), declared_flags (sc_flags c), i,
         [declared_dsc s d. d \<leftarrow> sc_descriptors c, ds_uuid (svr_dscs s ! d) \<noteq> UUID16 0x2902]).
        i \<leftarrow> is, c \<leftarrow> [svr_chrs s ! i]]" for "is"
    by (induction "is") (simp_all add: chr_config_def d declared_flags_eq declared_uuid_eq Let_def)
  then show ?thesis by (simp add: config_table_def declared_table_def declared_uuid_eq)
qed

end
