(* ===== verification/ServerProperties.thy ===== *)
theory ServerProperties
  imports ServerClients ServerTable
begin

text \<open>
  What the GATT server of \<open>BleServer\<close> promises: the table it registers is the configuration, the client
  list is the set of connected peers, a notification reaches exactly the subscribers, and a write
  reaches its callback once and in order, through the queue.
\<close>

section \<open>The server as a machine\<close>

datatype server_op =
  Gap_op server_gap_event
| Chr_access_op "nat \<Rightarrow> bytes" int nat u16 access_op
| Dsc_access_op int nat u16 access_op
| Server_loop_op
| Notify_op "nat \<Rightarrow> bytes" nat
| Set_value_op "nat \<Rightarrow> bytes" nat nat

type_synonym srv_out = "server_event queue_out + server_out"

definition push_and ::
  "('q, server_event) rtos \<Rightarrow> server_event option \<Rightarrow> server_out list \<Rightarrow> 'q server_state
     \<Rightarrow> 'q server_state option \<times> srv_out list" where
  "push_and r ev out st = (case push_event r ev st of
     None \<Rightarrow> (None, [])
   | Some (st, qout) \<Rightarrow> (Some st, map Inl qout @ map Inr out))"

fun server_step ::
  "('q, server_event) rtos \<Rightarrow> server_op \<Rightarrow> 'q server_state option \<Rightarrow> 'q server_state option \<times> srv_out list" where
  "server_step r x None = (None, [])"
| "server_step r (Gap_op g) (Some (q, s)) =
     (let (ev, out) = handle_gap_event g s in push_and r ev out (q, s))"
| "server_step r (Chr_access_op eval rc i conn op) (Some (q, s)) =
     (let (s, res) = chr_access eval rc i conn op s in push_and r (ar_event res) (ar_out res) (q, s))"
| "server_step r (Dsc_access_op rc d conn op) (Some (q, s)) =
     (let (s, res) = dsc_access rc d conn op s in push_and r (ar_event res) (ar_out res) (q, s))"
| "server_step r Server_loop_op (Some st) = (case server_loop r st of
     None \<Rightarrow> (None, [])
   | Some (st, out) \<Rightarrow> (Some st, map Inr out))"
| "server_step r (Notify_op eval i) (Some (q, s)) =
     (let (s, out) = notify_action eval i s in (Some (q, s), map Inr out))"
| "server_step r (Set_value_op eval act i) (Some (q, s)) = (Some (q, set_value_action eval act i s), [])"

text \<open>What the configuration fixes: which objects have a write callback, how long a descriptor may be.\<close>

definition flags :: "server \<Rightarrow> bool list \<times> (bool \<times> u16) list" where
  "flags s = (map sc_on_write (svr_chrs s), map (\<lambda>d. (ds_on_write d, ds_max_len d)) (svr_dscs s))"

fun valid_op :: "bool list \<times> (bool \<times> u16) list \<Rightarrow> server_op \<Rightarrow> bool" where
  "valid_op fl (Chr_access_op _ _ i _ _) \<longleftrightarrow> i < length (fst fl)"
| "valid_op fl (Dsc_access_op _ d _ _) \<longleftrightarrow> d < length (snd fl)"
| "valid_op fl _ \<longleftrightarrow> True"

text \<open>The write callbacks an operation asks for, and the buffers it allocates.\<close>

fun op_calls :: "bool list \<times> (bool \<times> u16) list \<Rightarrow> server_op \<Rightarrow> server_out list" where
  "op_calls fl (Chr_access_op _ _ i conn (ACCESS_WRITE bs)) =
     (if fst fl ! i then [On_chr_write i (mbuf_copy (Some bs)) conn] else [])"
| "op_calls fl (Dsc_access_op _ d conn (ACCESS_WRITE bs)) =
     (if of_nat (length (mbuf_copy (Some bs))) \<le> snd (snd fl ! d) \<and> fst (snd fl ! d)
      then [On_dsc_write d (mbuf_copy (Some bs)) conn] else [])"
| "op_calls fl _ = []"

fun op_buffers :: "bool list \<times> (bool \<times> u16) list \<Rightarrow> server_op \<Rightarrow> bytes list" where
  "op_buffers fl (Chr_access_op _ _ i conn (ACCESS_WRITE bs)) = [mbuf_copy (Some bs)]"
| "op_buffers fl (Dsc_access_op _ d conn (ACCESS_WRITE bs)) =
     (if of_nat (length (mbuf_copy (Some bs))) \<le> snd (snd fl ! d) then [mbuf_copy (Some bs)] else [])"
| "op_buffers fl _ = []"

definition is_write_event :: "server_event \<Rightarrow> bool" where
  "is_write_event ev \<longleftrightarrow> se_type ev = SE_CHR_WRITE \<or> se_type ev = SE_DSC_WRITE"

definition event_calls :: "server_event \<Rightarrow> server_out list" where
  "event_calls ev = (case se_target ev of None \<Rightarrow> [] | Some i \<Rightarrow>
     if se_type ev = SE_CHR_WRITE then [On_chr_write i (se_data ev) (se_conn_handle ev)]
     else if se_type ev = SE_DSC_WRITE then [On_dsc_write i (se_data ev) (se_conn_handle ev)]
     else [])"

definition calls_of :: "server_event list \<Rightarrow> server_out list" where
  "calls_of evs = concat (map event_calls evs)"

definition payloads :: "server_event list \<Rightarrow> bytes list" where
  "payloads evs = map se_data (filter is_write_event evs)"

fun is_write_call :: "server_out \<Rightarrow> bool" where
  "is_write_call (On_chr_write _ _ _) \<longleftrightarrow> True"
| "is_write_call (On_dsc_write _ _ _) \<longleftrightarrow> True"
| "is_write_call _ \<longleftrightarrow> False"

fun frees :: "server_out list \<Rightarrow> bytes list" where
  "frees [] = []"
| "frees (Free_payload bs # out) = bs # frees out"
| "frees (_ # out) = frees out"

lemma frees_append [simp]: "frees (xs @ ys) = frees xs @ frees ys"
  by (induction xs rule: frees.induct) auto

lemma calls_payloads_simps [simp]:
  "calls_of [] = []" "calls_of (xs @ ys) = calls_of xs @ calls_of ys"
  "calls_of (ev # evs) = event_calls ev @ calls_of evs"
  "payloads [] = []" "payloads (xs @ ys) = payloads xs @ payloads ys"
  "payloads (ev # evs) = (if is_write_event ev then [se_data ev] else []) @ payloads evs"
  by (simp_all add: calls_of_def payloads_def)

text \<open>An event the loop can answer: it has its target, and a write event's target still its callback.\<close>

fun answerable :: "bool list \<times> (bool \<times> u16) list \<Rightarrow> server_event \<Rightarrow> bool" where
  "answerable fl ev \<longleftrightarrow> (case se_type ev of
     SE_CHR_WRITE \<Rightarrow> (case se_target ev of None \<Rightarrow> False | Some i \<Rightarrow> i < length (fst fl) \<and> fst fl ! i)
   | SE_DSC_WRITE \<Rightarrow> (case se_target ev of None \<Rightarrow> False | Some d \<Rightarrow> d < length (snd fl) \<and> fst (snd fl ! d))
   | SE_SUBSCRIBE \<Rightarrow> se_target ev \<noteq> None
   | _ \<Rightarrow> True)"

lemma flags_upd [simp]:
  "(\<And>c. sc_on_write (f c) = sc_on_write c) \<Longrightarrow> flags (upd_chr i f s) = flags s"
  "(\<And>x. ds_on_write (g x) = ds_on_write x \<and> ds_max_len (g x) = ds_max_len x) \<Longrightarrow> flags (upd_dsc d g s) = flags s"
  by (auto simp: flags_def upd_chr_def upd_dsc_def list_eq_iff_nth_eq nth_update_if)

lemma flags_nth:
  "flags s = fl \<Longrightarrow> i < length (fst fl) \<Longrightarrow> sc_on_write (svr_chrs s ! i) = fst fl ! i"
  "flags s = fl \<Longrightarrow> d < length (snd fl) \<Longrightarrow> ds_on_write (svr_dscs s ! d) = fst (snd fl ! d)
     \<and> ds_max_len (svr_dscs s ! d) = snd (snd fl ! d)"
  by (auto simp: flags_def)

lemma handle_subscribe_flags: "sc_on_write (handle_subscribe conn n i c) = sc_on_write c"
  by (auto simp: handle_subscribe_def Let_def split: option.splits)

lemma dispatch_no_write [simp]:
  "filter is_write_call (dispatch_callbacks ty conn s) = []" "frees (dispatch_callbacks ty conn s) = []"
proof -
  have "\<not> is_write_call x" "frees [x] = []" if "x \<in> set (dispatch_callbacks ty conn s)" for x
    using that by (auto simp: dispatch_callbacks_def split: callback_type.splits)
  then show "filter is_write_call (dispatch_callbacks ty conn s) = []" by (simp add: filter_empty_conv)
  have "frees (map (\<lambda>(_, cb). (case ty of CB_ON_CONNECT \<Rightarrow> On_connect | CB_ON_DISCONNECT \<Rightarrow> On_disconnect) cb conn) xs) = []"
    for xs :: "(callback_type \<times> nat) list"
    by (induction xs) (auto split: callback_type.splits)
  then show "frees (dispatch_callbacks ty conn s) = []" by (simp add: dispatch_callbacks_def)
qed

lemma handle_answerable:
  assumes "answerable fl ev" and "flags s = fl"
  shows "\<exists>s' out. server_handle ev s = Some (s', out) \<and> flags s' = fl
           \<and> filter is_write_call out = event_calls ev \<and> frees out = payloads [ev]"
proof (cases "se_type ev")
  case SE_CHR_WRITE
  then obtain i where "se_target ev = Some i" "sc_on_write (svr_chrs s ! i)"
    using assms flags_nth(1) [OF assms(2)] by (auto split: option.splits)
  then show ?thesis using assms(2) SE_CHR_WRITE
    by (simp add: server_handle_def chr_write_from_queue_def event_calls_def is_write_event_def)
next
  case SE_DSC_WRITE
  then obtain d where "se_target ev = Some d" "ds_on_write (svr_dscs s ! d)"
    using assms flags_nth(2) [OF assms(2)] by (auto split: option.splits)
  then show ?thesis using assms(2) SE_DSC_WRITE
    by (simp add: server_handle_def dsc_write_from_queue_def event_calls_def is_write_event_def)
next
  case SE_CONNECT
  then show ?thesis using assms(2)
    by (auto simp: server_handle_def event_calls_def is_write_event_def Let_def flags_def split: option.splits)
next
  case SE_DISCONNECT
  then show ?thesis using assms(2)
    by (auto simp: server_handle_def event_calls_def is_write_event_def Let_def flags_def split: option.splits)
next
  case SE_SUBSCRIBE
  then show ?thesis using assms
    by (auto simp: server_handle_def event_calls_def is_write_event_def handle_subscribe_flags)
qed

lemma drain_answerable:
  assumes "list_all (answerable fl) evs" and "flags s = fl"
  shows "\<exists>s' out. server_drain evs s = Some (s', out) \<and> flags s' = fl
           \<and> filter is_write_call out = calls_of evs \<and> frees out = payloads evs"
  using assms
proof (induction evs arbitrary: s)
  case (Cons ev evs)
  obtain s1 out1 where 1: "server_handle ev s = Some (s1, out1)" "flags s1 = fl"
    "filter is_write_call out1 = event_calls ev" "frees out1 = payloads [ev]"
    using handle_answerable [of fl ev s] Cons.prems by auto
  obtain s2 out2 where 2: "server_drain evs s1 = Some (s2, out2)" "flags s2 = fl"
    "filter is_write_call out2 = calls_of evs" "frees out2 = payloads evs"
    using Cons.IH [OF _ 1(2)] Cons.prems(1) by auto
  show ?case using 1 2 by simp
qed simp

text \<open>One step of the machine on a queue that holds \<open>xs\<close>.\<close>

definition moves ::
  "('q, server_event) rtos \<Rightarrow> nat \<Rightarrow> ('q \<Rightarrow> server_event list) \<Rightarrow> bool list \<times> (bool \<times> u16) list
     \<Rightarrow> server_event list \<Rightarrow> server_out list \<Rightarrow> bytes list \<Rightarrow> 'q event_queue
     \<Rightarrow> 'q server_state option \<times> srv_out list \<Rightarrow> bool" where
  "moves r cap items fl xs calls bufs q res \<longleftrightarrow> (\<exists>st' xs' kept.
     fst res = Some st' \<and> queue_ok cap items xs' (server_event_queue r (fst st'))
   \<and> list_all (answerable fl) xs' \<and> flags (snd st') = fl
   \<and> filter is_write_call (loop_outs (snd res)) @ calls_of xs' = calls_of xs @ kept
   \<and> kept @ calls_of (freed_events (queue_outs (snd res))) = calls
   \<and> mset (frees (loop_outs (snd res))) + mset (payloads (freed_events (queue_outs (snd res)))) + mset (payloads xs')
       = mset (payloads xs) + mset bufs
   \<and> dropped_count (server_event_queue r (fst st'))
       = dropped_count q + of_nat (length (freed_events (queue_outs (snd res)))))"

lemma moves_push:
  assumes "rtos_queue r cap items" and "queue_ok cap items xs (server_event_queue r q)"
    and "list_all (answerable fl) xs" and "flags s = fl"
    and "list_all (answerable fl) (case ev of None \<Rightarrow> [] | Some ev \<Rightarrow> [ev])"
    and "filter is_write_call out = []"
  shows "moves r cap items fl xs (case ev of None \<Rightarrow> [] | Some ev \<Rightarrow> event_calls ev)
           ((case ev of None \<Rightarrow> [] | Some ev \<Rightarrow> payloads [ev]) @ frees out) (server_event_queue r q)
           (push_and r ev out (q, s))"
proof (cases ev)
  case None
  then show ?thesis using assms
    by (auto simp: moves_def push_and_def push_event_def intro!: exI [of _ xs])
next
  case (Some e)
  show ?thesis
  proof (cases "length xs < cap")
    case True
    obtain q' where "push_from_host_task r e (server_event_queue r q) = Some (q', [])"
      "queue_ok cap items (xs @ [e]) q'" "dropped_count q' = dropped_count (server_event_queue r q)"
      using push_room [OF assms(1,2) True] .
    then show ?thesis using assms Some
      by (auto simp: moves_def push_and_def push_event_def server_queue_push_def server_event_queue_def
          intro!: exI [of _ "xs @ [e]"])
  next
    case False
    then have full: "length xs = cap" using assms(2) by (auto simp: queue_ok_def)
    obtain q' qout where "push_from_host_task r e (server_event_queue r q) = Some (q', qout)"
      "queue_ok cap items xs q'" "dropped_count q' = dropped_count (server_event_queue r q) + 1"
      "freed_events qout = [e]"
      using push_full [OF assms(1,2) full] .
    then show ?thesis using assms Some
      by (auto simp: moves_def push_and_def push_event_def server_queue_push_def server_event_queue_def
          intro!: exI [of _ xs])
  qed
qed

lemma flags_set_value [simp]:
  "flags (chr_set_value i bs s) = flags s" "flags (dsc_set_value d bs s) = flags s"
  "flags (chr_on_read i act s) = flags s"
  by (simp_all add: chr_set_value_def dsc_set_value_def chr_on_read_def)

lemma moves_same:
  assumes "queue_ok cap items xs (server_event_queue r q)" and "list_all (answerable fl) xs"
    and "flags s = fl" and "filter is_write_call out = []" and "frees out = []"
  shows "moves r cap items fl xs [] [] (server_event_queue r q) (Some (q, s), map Inr out)"
  using assms by (auto simp: moves_def intro!: exI [of _ xs])

lemma moves_loop:
  assumes "rtos_queue r cap items" and "queue_ok cap items xs (server_event_queue r q)"
    and "list_all (answerable fl) xs" and "flags s = fl"
  shows "moves r cap items fl xs [] [] (server_event_queue r q) (server_step r Server_loop_op (Some (q, s)))"
proof -
  obtain q' where q': "drain_queue r (server_event_queue r q) = Some (q', xs)" "queue_ok cap items [] q'"
    "dropped_count q' = dropped_count (server_event_queue r q)"
    using drain_queue_all [OF assms(1,2)] by blast
  obtain s' out where s': "server_drain xs s = Some (s', out)" "flags s' = fl"
    "filter is_write_call out = calls_of xs" "frees out = payloads xs"
    using drain_answerable [OF assms(3,4)] by blast
  have "server_loop r (q, s) = Some ((Some q', s'), out)"
    using q'(1) s'(1) by (simp add: server_loop_def)
  then show ?thesis using q' s' by (auto simp: moves_def server_event_queue_def)
qed

lemma chr_access_event:
  assumes "flags s = fl" and "i < length (fst fl)" and "chr_access eval rc i conn op s = (s', res)"
  shows "flags s' = fl" and "list_all (answerable fl) (case ar_event res of None \<Rightarrow> [] | Some ev \<Rightarrow> [ev])"
    and "filter is_write_call (ar_out res) = []"
    and "(case ar_event res of None \<Rightarrow> [] | Some ev \<Rightarrow> event_calls ev) = op_calls fl (Chr_access_op eval rc i conn op)"
    and "(case ar_event res of None \<Rightarrow> [] | Some ev \<Rightarrow> payloads [ev]) @ frees (ar_out res)
           = op_buffers fl (Chr_access_op eval rc i conn op)"
proof -
  have f: "flags s' = fl"
    using assms by (auto simp: chr_access_def Let_def split: access_op.splits if_splits option.splits)
  moreover have w: "sc_on_write (svr_chrs s' ! i) = fst fl ! i" by (rule flags_nth(1) [OF f assms(2)])
  ultimately show "flags s' = fl" "list_all (answerable fl) (case ar_event res of None \<Rightarrow> [] | Some ev \<Rightarrow> [ev])"
    "filter is_write_call (ar_out res) = []"
    "(case ar_event res of None \<Rightarrow> [] | Some ev \<Rightarrow> event_calls ev) = op_calls fl (Chr_access_op eval rc i conn op)"
    "(case ar_event res of None \<Rightarrow> [] | Some ev \<Rightarrow> payloads [ev]) @ frees (ar_out res)
       = op_buffers fl (Chr_access_op eval rc i conn op)"
    using assms
    by (auto simp: chr_access_def Let_def append_value_def access_result0_def server_event0_def event_calls_def
        is_write_event_def split: access_op.splits if_splits)
qed

lemma dsc_access_event:
  assumes "flags s = fl" and "d < length (snd fl)" and "dsc_access rc d conn op s = (s', res)"
  shows "flags s' = fl" and "list_all (answerable fl) (case ar_event res of None \<Rightarrow> [] | Some ev \<Rightarrow> [ev])"
    and "filter is_write_call (ar_out res) = []"
    and "(case ar_event res of None \<Rightarrow> [] | Some ev \<Rightarrow> event_calls ev) = op_calls fl (Dsc_access_op rc d conn op)"
    and "(case ar_event res of None \<Rightarrow> [] | Some ev \<Rightarrow> payloads [ev]) @ frees (ar_out res)
           = op_buffers fl (Dsc_access_op rc d conn op)"
proof -
  have w: "ds_on_write (svr_dscs t ! d) = fst (snd fl ! d)" "ds_max_len (svr_dscs t ! d) = snd (snd fl ! d)"
    if "flags t = fl" for t
    using flags_nth(2) [OF that assms(2)] by simp_all
  have w': "ds_on_write (svr_dscs (dsc_set_value d bs s) ! d) = fst (snd fl ! d)" for bs
    by (rule w) (simp add: assms(1))
  note simps = dsc_access_def Let_def append_value_def access_result0_def server_event0_def event_calls_def
    is_write_event_def w(2) [OF assms(1)] w'
  have "flags s' = fl \<and> list_all (answerable fl) (case ar_event res of None \<Rightarrow> [] | Some ev \<Rightarrow> [ev])
    \<and> filter is_write_call (ar_out res) = []
    \<and> (case ar_event res of None \<Rightarrow> [] | Some ev \<Rightarrow> event_calls ev) = op_calls fl (Dsc_access_op rc d conn op)
    \<and> (case ar_event res of None \<Rightarrow> [] | Some ev \<Rightarrow> payloads [ev]) @ frees (ar_out res)
        = op_buffers fl (Dsc_access_op rc d conn op)"
  proof (cases op)
    case (ACCESS_WRITE bs)
    consider (long) "snd (snd fl ! d) < of_nat (length (mbuf_copy (Some bs)))"
      | (call) "\<not> snd (snd fl ! d) < of_nat (length (mbuf_copy (Some bs)))" "of_nat (length (mbuf_copy (Some bs))) \<le> snd (snd fl ! d)" "fst (snd fl ! d)"
      | (no_call) "\<not> snd (snd fl ! d) < of_nat (length (mbuf_copy (Some bs)))" "of_nat (length (mbuf_copy (Some bs))) \<le> snd (snd fl ! d)" "\<not> fst (snd fl ! d)"
      by (metis not_less)
    then show ?thesis
    proof cases
      case long
      then have "s' = s" "res = access_result0 BLE_ATT_ERR_INVALID_ATTR_VALUE_LEN"
        using assms(3) ACCESS_WRITE by (simp_all add: simps)
      then show ?thesis using assms(1) ACCESS_WRITE long by (simp add: simps)
    next
      case call
      then have "s' = dsc_set_value d (mbuf_copy (Some bs)) s" "res = (access_result0 0)\<lparr>ar_event :=
          Some ((server_event0 SE_DSC_WRITE conn)\<lparr>se_target := Some d, se_data := mbuf_copy (Some bs)\<rparr>)\<rparr>"
        using assms(3) ACCESS_WRITE by (simp_all add: simps)
      then show ?thesis using assms(1,2) ACCESS_WRITE call by (simp add: simps)
    next
      case no_call
      then have "s' = dsc_set_value d (mbuf_copy (Some bs)) s"
        "res = (access_result0 0)\<lparr>ar_out := [Free_payload (mbuf_copy (Some bs))]\<rparr>"
        using assms(3) ACCESS_WRITE by (simp_all add: simps)
      then show ?thesis using assms(1,2) ACCESS_WRITE no_call by (simp add: simps)
    qed
  qed (use assms in \<open>auto simp: dsc_access_def append_value_def access_result0_def\<close>)
  then show "flags s' = fl" "list_all (answerable fl) (case ar_event res of None \<Rightarrow> [] | Some ev \<Rightarrow> [ev])"
    "filter is_write_call (ar_out res) = []"
    "(case ar_event res of None \<Rightarrow> [] | Some ev \<Rightarrow> event_calls ev) = op_calls fl (Dsc_access_op rc d conn op)"
    "(case ar_event res of None \<Rightarrow> [] | Some ev \<Rightarrow> payloads [ev]) @ frees (ar_out res)
       = op_buffers fl (Dsc_access_op rc d conn op)" by auto
qed

lemma gap_event_quiet:
  assumes "handle_gap_event g s = (ev, out)"
  shows "list_all (answerable fl) (case ev of None \<Rightarrow> [] | Some ev \<Rightarrow> [ev])"
    and "(case ev of None \<Rightarrow> [] | Some ev \<Rightarrow> event_calls ev) = []"
    and "(case ev of None \<Rightarrow> [] | Some ev \<Rightarrow> payloads [ev]) @ frees out = []"
    and "filter is_write_call out = []"
  using assms
  by (auto simp: handle_gap_event_def server_event0_def event_calls_def is_write_event_def
      split: server_gap_event.splits option.splits if_splits)

lemma notify_quiet: "filter is_write_call (notify i s) = []" "frees (notify i s) = []"
proof -
  have "filter is_write_call (map (\<lambda>(conn, ind). (if ind then Gatts_indicate else Gatts_notify) conn h) xs) = []
      \<and> frees (map (\<lambda>(conn, ind). (if ind then Gatts_indicate else Gatts_notify) conn h) xs) = []" for h xs
    by (induction xs) (auto split: if_splits)
  then show "filter is_write_call (notify i s) = []" "frees (notify i s) = []"
    by (simp_all add: notify_def Let_def)
qed

lemma set_value_flags: "flags (set_value_action eval act i s) = flags s" "flags (emit_pre_notify eval i s) = flags s"
proof -
  have l: "flags (set_listener_action i act s) = flags s" for s
    by (auto simp: set_listener_action_def remove_listener_def flags_def Let_def split: option.splits)
  show "flags (set_value_action eval act i s) = flags s" by (simp add: set_value_action_def l)
  show "flags (emit_pre_notify eval i s) = flags s" by (simp add: emit_pre_notify_def split: option.splits)
qed

lemma step_moves:
  assumes "rtos_queue r cap items" and "queue_ok cap items xs (server_event_queue r (fst st))"
    and "list_all (answerable fl) xs" and "flags (snd st) = fl" and "valid_op fl x"
  shows "moves r cap items fl xs (op_calls fl x) (op_buffers fl x) (server_event_queue r (fst st))
           (server_step r x (Some st))"
proof -
  obtain q s where st: "st = (q, s)" by fastforce
  note pre = assms(2-4) [unfolded st fst_conv snd_conv]
  show ?thesis
  proof (cases x)
    case (Gap_op g)
    obtain ev out where g: "handle_gap_event g s = (ev, out)" by fastforce
    from moves_push [OF assms(1) pre gap_event_quiet(1,4) [OF g]] gap_event_quiet [OF g] Gap_op g st
    show ?thesis by (auto split: option.splits)
  next
    case (Chr_access_op eval rc i conn op)
    obtain s' res where a: "chr_access eval rc i conn op s = (s', res)" by fastforce
    have i: "i < length (fst fl)" using assms(5) Chr_access_op by simp
    note ev = chr_access_event [OF pre(3) i a]
    from moves_push [OF assms(1) pre(1,2) ev(1-3)] show ?thesis
      unfolding ev(4,5) using Chr_access_op a st by simp
  next
    case (Dsc_access_op rc d conn op)
    obtain s' res where a: "dsc_access rc d conn op s = (s', res)" by fastforce
    have d: "d < length (snd fl)" using assms(5) Dsc_access_op by simp
    note ev = dsc_access_event [OF pre(3) d a]
    from moves_push [OF assms(1) pre(1,2) ev(1-3)] show ?thesis
      unfolding ev(4,5) using Dsc_access_op a st by simp
  next
    case Server_loop_op
    then show ?thesis using moves_loop [OF assms(1) pre] st by simp
  next
    case (Notify_op eval i)
    have "flags (emit_pre_notify eval i s) = fl" using pre(3) set_value_flags(2) by simp
    from moves_same [OF pre(1,2) this notify_quiet] show ?thesis
      using Notify_op st by (simp add: notify_action_def Let_def)
  next
    case (Set_value_op eval act i)
    have "flags (set_value_action eval act i s) = fl" using pre(3) set_value_flags(1) by simp
    from moves_same [OF pre(1,2) this, of "[]"] show ?thesis
      using Set_value_op st by simp
  qed
qed

lemma run_moves:
  assumes "rtos_queue r cap items" and "queue_ok cap items xs (server_event_queue r (fst st))"
    and "list_all (answerable fl) xs" and "flags (snd st) = fl" and "list_all (valid_op fl) ops"
  shows "\<exists>st' out xs' kept. run_ops (server_step r) ops (Some st) = (Some st', out)
   \<and> queue_ok cap items xs' (server_event_queue r (fst st'))
   \<and> filter is_write_call (loop_outs out) @ calls_of xs' = calls_of xs @ kept
   \<and> subseq kept (concat (map (op_calls fl) ops))
   \<and> mset kept + mset (calls_of (freed_events (queue_outs out))) = mset (concat (map (op_calls fl) ops))
   \<and> mset (frees (loop_outs out)) + mset (payloads (freed_events (queue_outs out))) + mset (payloads xs')
       = mset (payloads xs) + mset (concat (map (op_buffers fl) ops))
   \<and> dropped_count (server_event_queue r (fst st'))
       = dropped_count (server_event_queue r (fst st)) + of_nat (length (freed_events (queue_outs out)))"
  using assms(2-5)
proof (induction ops arbitrary: xs st)
  case Nil
  then show ?case by (intro exI [of _ st] exI [of _ "[]"] exI [of _ xs]) simp
next
  case (Cons x ops)
  obtain res where res: "server_step r x (Some st) = res" by simp
  obtain st1 xs1 kept1 where 1: "fst res = Some st1" "queue_ok cap items xs1 (server_event_queue r (fst st1))"
    "list_all (answerable fl) xs1" "flags (snd st1) = fl"
    "filter is_write_call (loop_outs (snd res)) @ calls_of xs1 = calls_of xs @ kept1"
    "kept1 @ calls_of (freed_events (queue_outs (snd res))) = op_calls fl x"
    "mset (frees (loop_outs (snd res))) + mset (payloads (freed_events (queue_outs (snd res)))) + mset (payloads xs1)
       = mset (payloads xs) + mset (op_buffers fl x)"
    "dropped_count (server_event_queue r (fst st1))
       = dropped_count (server_event_queue r (fst st)) + of_nat (length (freed_events (queue_outs (snd res))))"
    using step_moves [OF assms(1) Cons.prems(1-3), of x] Cons.prems(4) unfolding moves_def res by auto
  obtain st' out xs' kept where 2: "run_ops (server_step r) ops (Some st1) = (Some st', out)"
    "queue_ok cap items xs' (server_event_queue r (fst st'))"
    "filter is_write_call (loop_outs out) @ calls_of xs' = calls_of xs1 @ kept"
    "subseq kept (concat (map (op_calls fl) ops))"
    "mset kept + mset (calls_of (freed_events (queue_outs out))) = mset (concat (map (op_calls fl) ops))"
    "mset (frees (loop_outs out)) + mset (payloads (freed_events (queue_outs out))) + mset (payloads xs')
       = mset (payloads xs1) + mset (concat (map (op_buffers fl) ops))"
    "dropped_count (server_event_queue r (fst st'))
       = dropped_count (server_event_queue r (fst st1)) + of_nat (length (freed_events (queue_outs out)))"
    using Cons.IH [OF 1(2-4)] Cons.prems(4) by auto
  have run: "run_ops (server_step r) (x # ops) (Some st) = (Some st', snd res @ out)"
    using res 1(1) 2(1) by (cases res) simp
  have "filter is_write_call (loop_outs (snd res @ out)) @ calls_of xs' = calls_of xs @ (kept1 @ kept)"
    using 1(5) 2(3) by simp
  moreover have "subseq (kept1 @ kept) (concat (map (op_calls fl) (x # ops)))"
  proof -
    have "subseq kept1 (op_calls fl x)" unfolding 1(6) [symmetric] by (rule prefix_imp_subseq) simp
    then show ?thesis using list_emb_append_mono [OF _ 2(4)] by simp
  qed
  moreover have "mset (kept1 @ kept) + mset (calls_of (freed_events (queue_outs (snd res @ out))))
      = mset (concat (map (op_calls fl) (x # ops)))"
  proof -
    have "mset (kept1 @ kept) + mset (calls_of (freed_events (queue_outs (snd res @ out))))
      = mset (kept1 @ calls_of (freed_events (queue_outs (snd res))))
        + (mset kept + mset (calls_of (freed_events (queue_outs out))))"
      by (simp add: ac_simps)
    then show ?thesis unfolding 1(6) 2(5) by simp
  qed
  moreover have "mset (frees (loop_outs (snd res @ out))) + mset (payloads (freed_events (queue_outs (snd res @ out))))
      + mset (payloads xs') = mset (payloads xs) + mset (concat (map (op_buffers fl) (x # ops)))"
  proof -
    have "mset (frees (loop_outs (snd res @ out))) + mset (payloads (freed_events (queue_outs (snd res @ out))))
        + mset (payloads xs')
      = mset (frees (loop_outs (snd res))) + mset (payloads (freed_events (queue_outs (snd res))))
        + (mset (frees (loop_outs out)) + mset (payloads (freed_events (queue_outs out))) + mset (payloads xs'))"
      by (simp add: ac_simps)
    also have "\<dots> = mset (frees (loop_outs (snd res))) + mset (payloads (freed_events (queue_outs (snd res))))
        + mset (payloads xs1) + mset (concat (map (op_buffers fl) ops))"
      unfolding 2(6) by (simp add: ac_simps)
    also have "\<dots> = mset (payloads xs) + mset (concat (map (op_buffers fl) (x # ops)))"
      unfolding 1(7) by (simp add: ac_simps)
    finally show ?thesis .
  qed
  moreover have "dropped_count (server_event_queue r (fst st'))
      = dropped_count (server_event_queue r (fst st)) + of_nat (length (freed_events (queue_outs (snd res @ out))))"
    using 1(8) 2(7) by (simp add: ac_simps)
  ultimately show ?case using run 2(2) by blast
qed

section \<open>Properties\<close>

text \<open>A server with one service: a characteristic with a write callback, a description and a CCCD.\<close>

definition sample_server :: server where
  "sample_server =
     (let (s, k) = create_service (UUID16 0x180F) True 15 server_init;
          (s, i) = create_characteristic k (UUID16 0x2A19) (PROPERTY_READ OR PROPERTY_WRITE OR PROPERTY_NOTIFY) s;
          (s, d) = add_descriptor i (new_descriptor (UUID16 0x2901) 20 True False) s;
          (s, d) = add_descriptor i new_ble2902 s
      in chr_on_write i (server_on_connect 3 s))"

lemma sample_server_unfold:
  "sample_server = \<lparr>svr_services = [\<lparr>ss_characteristics = [0], ss_last_created = Some 0, ss_uuid = UUID16 0x180F,
       ss_num_handles = 15, ss_inst_id = 0, ss_advertise = True, ss_def = None\<rparr>],
     svr_chrs = [(new_characteristic (UUID16 0x2A19) 7)\<lparr>sc_descriptors := [0, 1], sc_on_write := True\<rparr>],
     svr_dscs = [new_descriptor (UUID16 0x2901) 20 True False, new_ble2902], svr_callbacks = [(CB_ON_CONNECT, 3)],
     svr_defs = None, handle_to_characteristic = Map.empty, svr_clients = replicate 9 0, client_count = 0,
     max_clients = 1, svr_started = False, svr_listeners = [], svr_manufacturer_data = []\<rparr>"
  by (simp add: sample_server_def create_service_def create_characteristic_def add_descriptor_def upd_chr_def
      chr_on_write_def server_on_connect_def server_init_def MAX_CLIENTS_def new_characteristic_def property_defs)

text \<open>
  C21. The table the server registers is the configuration. For a server whose services, characteristics
  and descriptors are its own, with at least one service, and a host that accepts the registration and
  gives different characteristics different value handles, \<open>setup\<close> makes one
  call of each registration function, in order, and starts advertising last; the table is
  terminated, and read up to its terminators it lists every service, characteristic and descriptor in
  order, with its UUID, the GATT properties it was declared with and the object its callbacks get.
  Only the descriptors declared with the 16-bit UUID 0x2902 are left out (a 128-bit one with the same meaning is
  not: \<open>long_cccd_registered\<close>); every value handle the host assigned leads back to its characteristic.
\<close>

theorem setup_registers_configuration:
  assumes "server_wf s" and "svr_services s \<noteq> []"
    and "count_cfg_rc env = 0" and "add_svcs_rc env = 0" and "gatts_start_rc env = 0"
    and "inj_on (assigned_handle env) (set (registered s))"
  shows "\<exists>table s'. server_setup env s
             = (s', [Gatts_count_cfg table, Gatts_add_svcs table, Gatts_start, Start_advertising])
           \<and> host_reads table = Some (declared_table s) \<and> svr_started s'
           \<and> (\<forall>i \<in> set (registered s). sc_val_handle (svr_chrs s' ! i) = assigned_handle env i
                \<and> handle_to_characteristic s' (assigned_handle env i) = Some i)"
proof -
  have "i < length (svr_chrs s)" if "i \<in> set (registered s)" for i
    using assms(1) that by (auto simp: registered_def server_wf_def list_all_iff)
  then show ?thesis
    using setup_ok [OF assms(1-5)] fold_route [OF _ assms(6)] unfolding declared_table_eq by fastforce
qed

definition sample_gatts :: gatts_env where
  "sample_gatts = \<lparr>count_cfg_rc = 0, add_svcs_rc = 0, gatts_start_rc = 0, assigned_handle = (\<lambda>i. 10 + of_nat i)\<rparr>"

theorem setup_registers_configuration_witness:
  "\<exists>table s'. server_setup sample_gatts sample_server
       = (s', [Gatts_count_cfg table, Gatts_add_svcs table, Gatts_start, Start_advertising])
     \<and> host_reads table = Some [((16, [0x0F, 0x18]), [((16, [0x19, 0x2A]), 0x1A, 0,
           [\<lparr>dd_uuid = (16, [0x01, 0x29]), dd_att_flags = 1, dd_arg = 0\<rparr>])])]
     \<and> handle_to_characteristic s' 10 = Some 0"
proof -
  have "bit (7 :: u32) n = (n < 3)" if "n < 6" for n using that by (simp add: numeral_eq_Suc less_Suc_eq) auto
  then have "declared_flags 7 = 0x1A" by (simp add: declared_flags_def property_bits_def)
  then have c: "declared_table sample_server = [((16, [0x0F, 0x18]), [((16, [0x19, 0x2A]), 0x1A, 0,
      [\<lparr>dd_uuid = (16, [0x01, 0x29]), dd_att_flags = 1, dd_arg = 0\<rparr>])])]"
    by (simp add: sample_server_unfold declared_table_def declared_uuid_def declared_dsc_def
        new_descriptor_def new_ble2902_def from_uint16_def new_characteristic_def BLE_ATT_F_READ_def)
  have "server_wf sample_server" "svr_services sample_server \<noteq> []" "set (registered sample_server) = {0}"
    by (simp_all add: sample_server_unfold server_wf_def registered_def)
  then show ?thesis
    using setup_registers_configuration [of sample_server sample_gatts] c
    by (auto simp: sample_gatts_def)
qed



text \<open>
  C19. A notification reaches exactly the subscribers. After the loop has taken any events, \<open>notify\<close>
  of a registered characteristic calls the host once for each connection whose last
  subscription change asked for it, with an indication where that change asked for indications,
  and for no other connection.
\<close>

theorem notify_reaches_subscribers:
  assumes "i < length (svr_chrs s)" and "sc_clients_to_notify (svr_chrs s ! i) = []"
    and "server_drain evs s = Some (s', out)"
    and "sc_val_handle (svr_chrs s ! i) = h" and "h \<noteq> 0xFFFF"
  shows "let m = fold apply_subscribe (subscribe_events i evs) Map.empty
         in distinct (notify i s')
          \<and> set (notify i s') = {Gatts_indicate conn h | conn. m conn = Some True}
              \<union> {Gatts_notify conn h | conn. m conn = Some False}"
proof -
  have ok: "subscribers_ok (svr_chrs s ! i)" and m: "subscribed (svr_chrs s ! i) = Map.empty"
    using assms(2) by (simp_all add: subscribers_ok_def subscribed_def)
  note d = drain_subscribers [OF assms(1) ok assms(3)]
  have h: "sc_val_handle (svr_chrs s' ! i) = h" using d assms(4) by simp
  from notify_subscribed [OF _ h assms(5)] d show ?thesis by (simp add: m)
qed

definition subscription :: "u16 \<Rightarrow> bool \<Rightarrow> bool \<Rightarrow> server_event" where
  "subscription conn n i = (server_event0 SE_SUBSCRIBE conn)\<lparr>se_target := Some 0, se_cur_notify := n, se_cur_indicate := i\<rparr>"

theorem notify_reaches_subscribers_witness:
  "\<exists>s' out. server_drain [subscription 1 True False, subscription 2 False True, subscription 1 False False]
        (upd_chr 0 (\<lambda>c. c\<lparr>sc_val_handle := 12\<rparr>) sample_server) = Some (s', out)
     \<and> set (notify 0 s') = {Gatts_indicate 2 12}"
proof -
  let ?evs = "[subscription 1 True False, subscription 2 False True, subscription 1 False False]"
  define s where "s = upd_chr 0 (\<lambda>c. c\<lparr>sc_val_handle := 12\<rparr>) sample_server"
  have "list_all (answerable (flags s)) ?evs" by (simp add: subscription_def server_event0_def)
  then obtain s' out where d: "server_drain ?evs s = Some (s', out)"
    using drain_answerable [OF _ refl] by blast
  have s: "0 < length (svr_chrs s)" "sc_clients_to_notify (svr_chrs s ! 0) = []" "sc_val_handle (svr_chrs s ! 0) = 12"
    by (simp_all add: s_def upd_chr_def sample_server_unfold new_characteristic_def)
  have "fold apply_subscribe (subscribe_events 0 ?evs) Map.empty = [2 \<mapsto> True]"
    by (simp add: subscribe_events_def subscription_def server_event0_def apply_subscribe_def subscribe_spec_def)
  then have "set (notify 0 s') = {Gatts_indicate 2 12}"
    using notify_reaches_subscribers [OF s(1,2) d s(3)] by (auto simp: Let_def split: if_splits)
  then show ?thesis using d s_def by blast
qed

text \<open>
  C9. A write reaches its callback. From the first access on, under any interleaving of the host's
  callbacks with the loop, notifications and actions, the device does not stop; the write callbacks
  called so far followed by those the queue still holds are, in the order of the writes, the
  accepted writes of objects that have a callback, except those the full queue dropped, each of which
  is counted; and of the buffers allocated for writes each is freed once or owned by a queued event.
\<close>

theorem writes_delivered:
  assumes "rtos_queue r 16 items" and "xQueueCreate r 16 = Some q0" and "list_all (valid_op (flags s)) ops"
  shows "\<exists>st out q kept. run_ops (server_step r) ops (Some (None, s)) = (Some st, out)
     \<and> queue_handle (server_event_queue r (fst st)) = Some q \<and> length (items q) \<le> 16
     \<and> filter is_write_call (loop_outs out) @ calls_of (items q) = kept
     \<and> subseq kept (concat (map (op_calls (flags s)) ops))
     \<and> mset kept + mset (calls_of (freed_events (queue_outs out))) = mset (concat (map (op_calls (flags s)) ops))
     \<and> mset (frees (loop_outs out)) + mset (payloads (freed_events (queue_outs out))) + mset (payloads (items q))
         = mset (concat (map (op_buffers (flags s)) ops))
     \<and> dropped_count (server_event_queue r (fst st)) = of_nat (length (freed_events (queue_outs out)))"
proof -
  have "queue_ok 16 items [] (server_event_queue r (fst (None, s)))"
    using queue_ok_init [of r 16 items q0 event_queue0] assms(1,2)
    by (simp add: server_event_queue_def server_queue_init_def)
  from run_moves [OF assms(1) this _ _ assms(3)] show ?thesis
    by (auto simp: queue_ok_def server_event_queue_def server_queue_init_def queue_init_def event_queue0_def)
qed

theorem writes_delivered_witness:
  "\<exists>st out q kept. run_ops (server_step (list_rtos 16))
       [Chr_access_op (\<lambda>_. []) 0 0 7 (ACCESS_WRITE [1, 2]), Gap_op (SG_DISCONNECT 7), Server_loop_op,
        Chr_access_op (\<lambda>_. []) 0 0 8 (ACCESS_WRITE [3])] (Some (None, sample_server)) = (Some st, out)
     \<and> queue_handle (server_event_queue (list_rtos 16) (fst st)) = Some q
     \<and> filter is_write_call (loop_outs out) @ calls_of (id q) = kept
     \<and> subseq kept [On_chr_write 0 [1, 2] 7, On_chr_write 0 [3] 8]"
proof -
  let ?ops = "[Chr_access_op (\<lambda>_. []) 0 0 7 (ACCESS_WRITE [1, 2]), Gap_op (SG_DISCONNECT 7), Server_loop_op,
      Chr_access_op (\<lambda>_. []) 0 0 8 (ACCESS_WRITE [3])]"
  have c: "xQueueCreate (list_rtos 16) 16 = Some []" by (simp add: list_rtos_def)
  have v: "list_all (valid_op (flags sample_server)) ?ops"
    by (simp add: flags_def sample_server_unfold)
  have m: "concat (map (op_calls (flags sample_server)) ?ops) = [On_chr_write 0 [1, 2] 7, On_chr_write 0 [3] 8]"
    by (simp add: flags_def sample_server_unfold mbuf_copy_def)
  from writes_delivered [OF list_rtos_queue c v] show ?thesis unfolding m by blast
qed

text \<open>
  Only a subscription change ends a subscription: a disconnect does not. A peer that was subscribed
  when its link went down and whose unsubscribe event was not queued is still notified, and so is
  whichever peer is next given its connection handle, although it never subscribed.
\<close>

theorem subscription_outlives_client:
  assumes "i < length (svr_chrs s)" and "subscribers_ok (svr_chrs s ! i)"
    and "subscribed (svr_chrs s ! i) conn = Some False"
    and "sc_val_handle (svr_chrs s ! i) \<noteq> 0xFFFF"
    and "\<forall>ev \<in> set evs. se_type ev = SE_SUBSCRIBE \<longrightarrow> se_conn_handle ev \<noteq> conn"
    and "server_drain evs s = Some (s', out)"
  shows "Gatts_notify conn (sc_val_handle (svr_chrs s ! i)) \<in> set (notify i s')"
proof -
  have keep: "fold apply_subscribe es m conn = m conn" if "\<forall>ev \<in> set es. se_conn_handle ev \<noteq> conn" for es m
    using that by (induction es arbitrary: m) (auto simp: apply_subscribe_def subscribe_spec_def)
  have "\<forall>ev \<in> set (subscribe_events i evs). se_conn_handle ev \<noteq> conn"
    using assms(5) by (auto simp: subscribe_events_def)
  then have "subscribed (svr_chrs s' ! i) conn = Some False"
    using drain_subscribers [OF assms(1,2,6)] keep assms(3) by metis
  then show ?thesis
    using notify_subscribed(2) [of s' i "sc_val_handle (svr_chrs s ! i)"]
      drain_subscribers [OF assms(1,2,6)] assms(4) by auto
qed

theorem subscription_outlives_client_witness:
  "\<exists>s' out. server_drain [server_event0 SE_DISCONNECT 5, server_event0 SE_CONNECT 5]
        (upd_chr 0 (\<lambda>c. c\<lparr>sc_val_handle := 12, sc_clients_to_notify := [(5, False)]\<rparr>) sample_server) = Some (s', out)
     \<and> Gatts_notify 5 12 \<in> set (notify 0 s')"
proof -
  let ?evs = "[server_event0 SE_DISCONNECT 5, server_event0 SE_CONNECT 5]"
  define s where "s = upd_chr 0 (\<lambda>c. c\<lparr>sc_val_handle := 12, sc_clients_to_notify := [(5, False)]\<rparr>) sample_server"
  have "list_all (answerable (flags s)) ?evs" by (simp add: server_event0_def)
  then obtain s' out where d: "server_drain ?evs s = Some (s', out)"
    using drain_answerable [OF _ refl] by blast
  have c: "svr_chrs s ! 0 = (svr_chrs sample_server ! 0)\<lparr>sc_val_handle := 12, sc_clients_to_notify := [(5, False)]\<rparr>"
    "0 < length (svr_chrs s)"
    by (simp_all add: s_def upd_chr_def sample_server_unfold)
  have "Gatts_notify 5 12 \<in> set (notify 0 s')"
    using subscription_outlives_client [OF c(2), of 5 ?evs s' out] c(1) d
    by (simp add: subscribers_ok_def subscribed_def server_event0_def)
  then show ?thesis using d s_def by blast
qed

text \<open>
  Two gaps in the exclusion of 0x2902: in its 128-bit form it is registered, a duplicate of the host's
  own; and next to a registered descriptor the excluded one is never created.
\<close>

lemma long_cccd_registered:
  "ds_uuid (svr_dscs s ! d) = UUID128 (to_128bit (UUID16 0x2902)) \<Longrightarrow> d \<in> set ds \<Longrightarrow>
     d \<in> set (real_descriptors ds s)"
  by (simp add: real_descriptors_def get_uuid16_if_short_def)

lemma excluded_cccd_not_created:
  "ds_created (svr_dscs (chr_do_create 0 0 sample_server) ! 1) = False"
  by (simp add: sample_server_unfold chr_do_create_def real_descriptors_def get_uuid16_if_short_def
      new_descriptor_def new_ble2902_def from_uint16_def new_characteristic_def dsc_do_create_def
      upd_dsc_def upd_chr_def)

end
