(* ===== verification/BleClient.thy ===== *)
theory BleClient
  imports NimbleEngine ConnectBackoff GattDiscovery ProxyConnection
begin

text \<open>
  The GATT client of the configuration: \<open>BLEClientBase\<close> (components/esp32_ble_client/) and \<open>BLEClient\<close>
  with its nodes, triggers and actions (components/ble_client/). It owns an engine of \<open>NimbleGattc\<close> and is its
  listener: an effect \<open>Listener c\<close> of an engine operation, always the last, runs the client's
  method on the state the operation returned.

  What an operation reads from outside is \<open>client_env\<close>: the host, \<open>millis()\<close> (one reading per operation)
  and \<open>random_uint32()\<close>. A
  node is its identity, its three methods are outputs. The events of a loop are those the drain of the
  shared queue delivers to this engine (\<open>EventQueues.drain_serves_owners\<close>).
\<close>

section \<open>State\<close>

record ble_client =
  bc_engine :: engine
  bc_address :: u64
  bc_address_str :: string
  bc_state :: client_state
  bc_auto_connect :: bool
  backoff_started_at :: u32
  current_backoff_delay_ms :: u32
  bc_nodes :: "nat list"

record client_env =
  ce_host :: host
  ce_now :: u32
  ce_random :: u32

datatype client_out =
  Engine_call stack_call
| Node_connected nat
| Node_disconnected nat
| Node_loop nat

definition client_init :: ble_client where
  "client_init = \<lparr>bc_engine = engine_init, bc_address = 0, bc_address_str = '''', bc_state = CS_IDLE,
     bc_auto_connect = False, backoff_started_at = 0, current_backoff_delay_ms = 0, bc_nodes = []\<rparr>"

definition register_ble_node :: "nat \<Rightarrow> ble_client \<Rightarrow> ble_client" where
  "register_ble_node n cl = cl\<lparr>bc_nodes := bc_nodes cl @ [n]\<rparr>"

definition set_auto_connect :: "bool \<Rightarrow> ble_client \<Rightarrow> ble_client" where
  "set_auto_connect b cl = cl\<lparr>bc_auto_connect := b\<rparr>"

definition set_client_connection_type :: "connection_type \<Rightarrow> ble_client \<Rightarrow> ble_client" where
  "set_client_connection_type ct cl = cl\<lparr>bc_engine := set_connection_type ct (bc_engine cl)\<rparr>"

definition client_connected :: "ble_client \<Rightarrow> bool" where
  "client_connected cl \<longleftrightarrow> bc_state cl = CS_ESTABLISHED"

definition client_services_discovered :: "ble_client \<Rightarrow> bool" where
  "client_services_discovered cl \<longleftrightarrow> bc_state cl = CS_ESTABLISHED"

text \<open>\<open>"%02X"\<close>, six times, with colons.\<close>

definition hex_02X :: "u8 \<Rightarrow> string" where
  "hex_02X b = [''0123456789ABCDEF'' ! unat (drop_bit 4 b), ''0123456789ABCDEF'' ! unat (b AND 15)]"

definition mac_text :: "bytes \<Rightarrow> string" where
  "mac_text mac = hex_02X (mac ! 0) @ concat (map (\<lambda>b. CHR '':'' # hex_02X b) (drop 1 mac))"

definition client_set_address :: "u64 \<Rightarrow> ble_client \<Rightarrow> ble_client" where
  "client_set_address address cl =
     (let cl = cl\<lparr>bc_address := address\<rparr>
      in if address = 0 then cl\<lparr>bc_address_str := ''''\<rparr>
         else cl\<lparr>bc_address_str := mac_text (uint64_to_mac_msb_first address)\<rparr>)"

section \<open>Operations\<close>

definition client_set_state :: "client_state \<Rightarrow> ble_client \<Rightarrow> ble_client \<times> client_out list" where
  "client_set_state st cl =
     (let prev = bc_state cl;
          cl = cl\<lparr>bc_state := st\<rparr>
      in (cl, if st = CS_ESTABLISHED \<and> prev \<noteq> CS_ESTABLISHED then map Node_connected (bc_nodes cl)
              else if st = CS_IDLE \<and> prev \<noteq> CS_IDLE then map Node_disconnected (bc_nodes cl)
              else []))"

definition on_client_connection_state ::
  "client_env \<Rightarrow> bool \<Rightarrow> u16 \<Rightarrow> int \<Rightarrow> ble_client \<Rightarrow> ble_client \<times> client_out list" where
  "on_client_connection_state env up m err cl =
     (if up then
        let (cl, out1) = client_set_state CS_CONNECTED cl;
            (rc, e, eff) = discover_services (ce_host env) (bc_engine cl);
            cl = cl\<lparr>bc_engine := e\<rparr>;
            out2 = map Engine_call (stack_calls eff)
        in if rc \<noteq> 0 then
             let (rc', e, eff) = gatt_disconnect (ce_host env) (ce_now env) (bc_engine cl)
             in (cl\<lparr>bc_engine := e\<rparr>, out1 @ out2 @ map Engine_call (stack_calls eff))
           else (cl, out1 @ out2)
      else client_set_state CS_IDLE cl)"

definition on_client_service_discovery_done :: "int \<Rightarrow> ble_client \<Rightarrow> ble_client \<times> client_out list" where
  "on_client_service_discovery_done err cl =
     (if err = 0 then client_set_state CS_ESTABLISHED cl else (cl, []))"

text \<open>The listener's other methods are the empty defaults of \<open>GattClientListener\<close>.\<close>

fun client_listen :: "client_env \<Rightarrow> listener_call \<Rightarrow> ble_client \<Rightarrow> ble_client \<times> client_out list" where
  "client_listen env (ON_CONNECTION_STATE c m err) cl = on_client_connection_state env c m err cl"
| "client_listen env (ON_SERVICE_DISCOVERY_DONE err) cl = on_client_service_discovery_done err cl"
| "client_listen env _ cl = (cl, [])"

fun client_effects :: "client_env \<Rightarrow> effect list \<Rightarrow> ble_client \<Rightarrow> ble_client \<times> client_out list" where
  "client_effects env [] cl = (cl, [])"
| "client_effects env (Stack c # effs) cl =
     (let (cl, out) = client_effects env effs cl in (cl, Engine_call c # out))"
| "client_effects env (Listener c # effs) cl =
     (let (cl, out) = client_listen env c cl;
          (cl, out') = client_effects env effs cl
      in (cl, out @ out'))"

definition client_connect :: "client_env \<Rightarrow> ble_client \<Rightarrow> ble_client \<times> client_out list" where
  "client_connect env cl =
     (let cl = cl\<lparr>backoff_started_at := 0\<rparr>;
          (cl, out1) = client_set_state CS_CONNECTING cl;
          (rc, e, eff) =
            (if fsm_state (fsm (bc_engine cl)) = BACKOFF
             then retry_connect (ce_host env) (ce_now env) (bc_address cl) BLE_ADDR_TYPE_PUBLIC (bc_engine cl)
             else connect (ce_host env) (ce_now env) (bc_address cl) BLE_ADDR_TYPE_PUBLIC (bc_engine cl));
          cl = cl\<lparr>bc_engine := e\<rparr>;
          out2 = map Engine_call (stack_calls eff)
      in if rc \<noteq> 0 then let (cl, out3) = client_set_state CS_IDLE cl in (cl, out1 @ out2 @ out3)
         else (cl, out1 @ out2))"

definition client_disconnect :: "client_env \<Rightarrow> ble_client \<Rightarrow> ble_client \<times> client_out list" where
  "client_disconnect env cl =
     (let (cl, out) = client_set_state CS_DISCONNECTING cl;
          (rc, e, eff) = gatt_disconnect (ce_host env) (ce_now env) (bc_engine cl)
      in (cl\<lparr>bc_engine := e\<rparr>, out @ map Engine_call (stack_calls eff)))"

definition unconditional_disconnect :: "client_env \<Rightarrow> ble_client \<Rightarrow> ble_client \<times> client_out list" where
  "unconditional_disconnect env cl = client_disconnect env cl"

definition client_setup :: "client_env \<Rightarrow> ble_client \<Rightarrow> ble_client \<times> client_out list" where
  "client_setup env cl =
     (let cl = cl\<lparr>bc_engine := set_listener True (bc_engine cl)\<rparr>
      in if bc_auto_connect cl then client_connect env cl else (cl, []))"

text \<open>The engine's loop: the events of the queue, then the poll of the deadline.\<close>

fun client_events :: "client_env \<Rightarrow> gatt_event list \<Rightarrow> ble_client \<Rightarrow> (ble_client \<times> client_out list) option" where
  "client_events env [] cl = Some (cl, [])"
| "client_events env (ev # evs) cl =
     (case handle_gatt_event (ce_host env) (ce_now env) ev (bc_engine cl) of
        None \<Rightarrow> None
      | Some (e, eff) \<Rightarrow>
          let (cl, out) = client_effects env eff (cl\<lparr>bc_engine := e\<rparr>)
          in map_option (apsnd ((@) out)) (client_events env evs cl))"

definition client_engine_loop ::
  "client_env \<Rightarrow> gatt_event list \<Rightarrow> ble_client \<Rightarrow> (ble_client \<times> client_out list) option" where
  "client_engine_loop env evs cl = (case client_events env evs cl of
     None \<Rightarrow> None
   | Some (cl, out) \<Rightarrow>
       let (e, eff) = poll_deadline (ce_now env) (bc_engine cl);
           (cl, out') = client_effects env eff (cl\<lparr>bc_engine := e\<rparr>)
       in Some (cl, out @ out'))"

definition client_backoff :: "client_env \<Rightarrow> ble_client \<Rightarrow> ble_client \<times> client_out list" where
  "client_backoff env cl =
     (if fsm_state (fsm (bc_engine cl)) \<noteq> BACKOFF then (cl\<lparr>backoff_started_at := 0\<rparr>, [])
      else if backoff_started_at cl = 0 then
        (cl\<lparr>backoff_started_at := ce_now env,
            current_backoff_delay_ms :=
              compute_connect_backoff_delay_ms (backoff_count (fsm (bc_engine cl))) (ce_random env mod 100)\<rparr>, [])
      else if bc_auto_connect cl \<and> current_backoff_delay_ms cl \<le> ce_now env - backoff_started_at cl then
        client_connect env (cl\<lparr>backoff_started_at := 0\<rparr>)
      else (cl, []))"

definition client_base_loop ::
  "client_env \<Rightarrow> gatt_event list \<Rightarrow> ble_client \<Rightarrow> (ble_client \<times> client_out list) option" where
  "client_base_loop env evs cl = (case client_engine_loop env evs cl of
     None \<Rightarrow> None
   | Some (cl, out) \<Rightarrow> let (cl, out') = client_backoff env cl in Some (cl, out @ out'))"

definition client_loop ::
  "client_env \<Rightarrow> gatt_event list \<Rightarrow> ble_client \<Rightarrow> (ble_client \<times> client_out list) option" where
  "client_loop env evs cl =
     map_option (\<lambda>(cl, out). (cl, out @ map Node_loop (bc_nodes cl))) (client_base_loop env evs cl)"

section \<open>Looking a characteristic up\<close>

record found_characteristic =
  fc_value_handle :: u16
  fc_properties :: u8
  fc_found :: bool

definition not_found :: found_characteristic where
  "not_found = \<lparr>fc_value_handle = 0, fc_properties = 0, fc_found = False\<rparr>"

text \<open>
  The inner loop: its variable has 16 bits, its limit, a sum of two 16-bit values, is an \<open>int\<close>, so it
  may never be reached. \<open>None\<close> is a read outside the array or a loop without end; \<open>Some None\<close> is a loop that
  ends without a match.
\<close>

partial_function (option) find_characteristic ::
  "gatt_characteristic list \<Rightarrow> espbtuuid \<Rightarrow> int \<Rightarrow> u16 \<Rightarrow> found_characteristic option option" where
  "find_characteristic chrs char_uuid limit c =
     (if uint c < limit then
        Option.bind (rd chrs (unat c)) (\<lambda>chr.
          if uuid_eq (chr_uuid chr) char_uuid
          then Some (Some \<lparr>fc_value_handle = value_handle chr, fc_properties = properties chr, fc_found = True\<rparr>)
          else find_characteristic chrs char_uuid limit (c + 1))
      else Some None)"

fun find_in_services ::
  "gatt_characteristic list \<Rightarrow> espbtuuid \<Rightarrow> espbtuuid \<Rightarrow> gatt_service list \<Rightarrow> found_characteristic option" where
  "find_in_services chrs service_uuid char_uuid [] = Some not_found"
| "find_in_services chrs service_uuid char_uuid (svc # svcs) =
     (if \<not> uuid_eq (svc_uuid svc) service_uuid then find_in_services chrs service_uuid char_uuid svcs
      else case find_characteristic chrs char_uuid
                  (uint (first_characteristic svc) + uint (characteristic_count svc)) (first_characteristic svc) of
             None \<Rightarrow> None
           | Some (Some r) \<Rightarrow> Some r
           | Some None \<Rightarrow> find_in_services chrs service_uuid char_uuid svcs)"

definition get_characteristic ::
  "espbtuuid \<Rightarrow> espbtuuid \<Rightarrow> ble_client \<Rightarrow> found_characteristic option" where
  "get_characteristic service_uuid char_uuid cl =
     (let table = get_service_table (bc_engine cl)
      in find_in_services (tbl_characteristics table) service_uuid char_uuid
           (take (unat (service_count table)) (tbl_services table)))"

section \<open>Actions and triggers\<close>

definition client_connect_action :: "client_env \<Rightarrow> ble_client \<Rightarrow> ble_client \<times> client_out list" where
  "client_connect_action env cl = client_connect env cl"

definition client_disconnect_action :: "client_env \<Rightarrow> ble_client \<Rightarrow> ble_client \<times> client_out list" where
  "client_disconnect_action env cl = client_disconnect env cl"

definition new_connect_trigger :: "nat \<Rightarrow> ble_client \<Rightarrow> ble_client" where
  "new_connect_trigger n cl = register_ble_node n cl"

definition new_disconnect_trigger :: "nat \<Rightarrow> ble_client \<Rightarrow> ble_client" where
  "new_disconnect_trigger n cl = register_ble_node n cl"

definition client_state_to_string :: "client_state \<Rightarrow> string" where
  "client_state_to_string st = (case st of
     CS_INIT \<Rightarrow> ''INIT'' | CS_DISCONNECTING \<Rightarrow> ''DISCONNECTING'' | CS_IDLE \<Rightarrow> ''IDLE''
   | CS_DISCOVERED \<Rightarrow> ''DISCOVERED'' | CS_CONNECTING \<Rightarrow> ''CONNECTING'' | CS_CONNECTED \<Rightarrow> ''CONNECTED''
   | CS_ESTABLISHED \<Rightarrow> ''ESTABLISHED'')"

end
