(* ===== verification/ClientProperties.thy ===== *)
theory ClientProperties
  imports BleClient
begin

text \<open>
  Properties of the client of \<open>BleClient\<close>: the reconnection it starts on its own and the cases it never
  starts one, what a lookup of a characteristic finds, and what its nodes are told.
\<close>

section \<open>Runs\<close>

fun client_run ::
  "(client_env \<times> gatt_event list) list \<Rightarrow> ble_client \<Rightarrow> (ble_client \<times> client_out list) option" where
  "client_run [] cl = Some (cl, [])"
| "client_run ((env, evs) # ticks) cl =
     Option.bind (client_loop env evs cl) (\<lambda>(cl, out). map_option (apsnd ((@) out)) (client_run ticks cl))"

fun engine_calls :: "client_out list \<Rightarrow> stack_call list" where
  "engine_calls [] = []"
| "engine_calls (Engine_call c # out) = c # engine_calls out"
| "engine_calls (_ # out) = engine_calls out"

definition quiet_loops :: "client_env list \<Rightarrow> (client_env \<times> gatt_event list) list" where
  "quiet_loops envs = map (\<lambda>env. (env, [])) envs"

definition node_loops :: "ble_client \<Rightarrow> client_out list" where
  "node_loops cl = map Node_loop (bc_nodes cl)"

lemma engine_calls_append [simp]: "engine_calls (out @ out') = engine_calls out @ engine_calls out'"
  by (induction out rule: engine_calls.induct) simp_all

lemma engine_calls_map [simp]:
  "engine_calls (map Engine_call cs) = cs"
  "engine_calls (map Node_connected ns) = []"
  "engine_calls (map Node_disconnected ns) = []"
  "engine_calls (map Node_loop ns) = []"
  by (induction cs) (simp_all, (induction ns, simp_all)+)

lemma engine_calls_loops [simp]: "engine_calls (node_loops cl) = []"
  by (simp add: node_loops_def)

lemma client_run_append:
  "client_run (xs @ ys) cl =
     Option.bind (client_run xs cl) (\<lambda>(cl, out). map_option (apsnd ((@) out)) (client_run ys cl))"
proof (induction xs arbitrary: cl)
  case Nil
  show ?case by (cases "client_run ys cl") auto
next
  case (Cons x xs)
  obtain env evs where x: "x = (env, evs)" by (cases x)
  show ?case
  proof (cases "client_loop env evs cl")
    case (Some r)
    obtain cl1 out1 where r: "r = (cl1, out1)" by (cases r)
    show ?thesis
      by (cases "client_run xs cl1"; cases "client_run ys (fst (the (client_run xs cl1)))")
        (auto simp: x Some r Cons.IH split_def)
  qed (simp add: x)
qed

text \<open>A loop without events on an engine that waits for none: only the backoff is looked at.\<close>

lemma idle_poll: "\<not> has_deadline (fsm e) \<Longrightarrow> poll_deadline now e = (e, [])"
  by (simp add: poll_deadline_def poll_timeout_def)

lemma quiet_loop:
  "\<not> has_deadline (fsm (bc_engine cl)) \<Longrightarrow>
   client_loop env [] cl
     = Some (let (cl', out) = client_backoff env cl in (cl', out @ node_loops cl'))"
  by (simp add: client_loop_def client_base_loop_def client_engine_loop_def idle_poll node_loops_def split_def Let_def)

lemma quiet_no_backoff:
  assumes "fsm_state (fsm (bc_engine cl)) \<notin> {CONNECTING, DISCOVERING, BACKOFF}"
  shows "client_loop env [] cl = Some (cl\<lparr>backoff_started_at := 0\<rparr>, node_loops cl)"
  using assms by (simp add: quiet_loop has_deadline_def client_backoff_def node_loops_def)

lemma quiet_latch:
  assumes "fsm_state (fsm (bc_engine cl)) = BACKOFF" "backoff_started_at cl = 0"
  shows "client_loop env [] cl
    = Some (cl\<lparr>backoff_started_at := ce_now env,
        current_backoff_delay_ms :=
          compute_connect_backoff_delay_ms (backoff_count (fsm (bc_engine cl))) (ce_random env mod 100)\<rparr>,
      node_loops cl)"
  using assms by (simp add: quiet_loop has_deadline_def client_backoff_def node_loops_def)

lemma quiet_wait:
  assumes "fsm_state (fsm (bc_engine cl)) = BACKOFF" "backoff_started_at cl \<noteq> 0"
    and "ce_now env - backoff_started_at cl < current_backoff_delay_ms cl"
  shows "client_loop env [] cl = Some (cl, node_loops cl)"
  using assms by (auto simp: quiet_loop has_deadline_def client_backoff_def dest: leD)

lemma quiet_retry:
  assumes "fsm_state (fsm (bc_engine cl)) = BACKOFF" "backoff_started_at cl \<noteq> 0" "bc_auto_connect cl"
    and "current_backoff_delay_ms cl \<le> ce_now env - backoff_started_at cl"
  shows "client_loop env [] cl
    = Some (let (cl', out) = client_connect env (cl\<lparr>backoff_started_at := 0\<rparr>) in (cl', out @ node_loops cl'))"
  using assms by (simp add: quiet_loop has_deadline_def client_backoff_def)

lemma quiet_waits:
  assumes "fsm_state (fsm (bc_engine cl)) = BACKOFF" "backoff_started_at cl \<noteq> 0"
    and "\<forall>w \<in> set ws. ce_now w - backoff_started_at cl < current_backoff_delay_ms cl"
  shows "client_run (quiet_loops ws) cl = Some (cl, concat (map (\<lambda>_. node_loops cl) ws))"
  using assms(3) by (induction ws) (simp_all add: quiet_loops_def quiet_wait assms(1,2))

lemma engine_calls_idle: "engine_calls (concat (map (\<lambda>_. node_loops cl) ws)) = []"
  by (induction ws) simp_all

text \<open>An engine in \<open>Idle\<close>, \<open>Ready\<close> or \<open>Disconnecting\<close> is left alone by every later loop without events.\<close>

lemma settled_engine:
  assumes "fsm_state (fsm (bc_engine cl)) \<notin> {CONNECTING, DISCOVERING, BACKOFF}"
    and "client_run (quiet_loops ws) cl = Some (cl', out)"
  shows "bc_engine cl' = bc_engine cl \<and> bc_state cl' = bc_state cl \<and> engine_calls out = []"
  using assms
proof (induction ws arbitrary: cl out)
  case (Cons w ws)
  then obtain out' where
    "client_run (quiet_loops ws) (cl\<lparr>backoff_started_at := 0\<rparr>) = Some (cl', out')" "out = node_loops cl @ out'"
    by (auto simp: quiet_loops_def quiet_no_backoff)
  with Cons.IH [of "cl\<lparr>backoff_started_at := 0\<rparr>" out'] Cons.prems(1) show ?case by simp
qed (simp add: quiet_loops_def)

lemma settled_runs:
  assumes "fsm_state (fsm (bc_engine cl)) \<notin> {CONNECTING, DISCOVERING, BACKOFF}"
  shows "\<exists>cl' out. client_run (quiet_loops ws) cl = Some (cl', out)"
  using assms
proof (induction ws arbitrary: cl)
  case (Cons w ws)
  from Cons.IH [of "cl\<lparr>backoff_started_at := 0\<rparr>"] Cons.prems show ?case
    by (auto simp: quiet_loops_def quiet_no_backoff)
qed (simp add: quiet_loops_def)

section \<open>Reconnection\<close>

lemma backoff_delay_range:
  "4000 \<le> compute_connect_backoff_delay_ms c j \<and> compute_connect_backoff_delay_ms c j \<le> 72000"
proof -
  let ?D = "backoff_curve (eff_count c)"
  have d: "5000 \<le> int ?D" "int ?D \<le> 60000"
    using backoff_curve_bounds [of "eff_count c"] by linarith+
  have "4000 \<le> delay_int ?D (unat j mod 41)" "delay_int ?D (unat j mod 41) \<le> 72000"
    using d delay_int_bounds [of "unat j mod 41" ?D] by auto
  then have "4000 \<le> unat (compute_connect_backoff_delay_ms c j)"
    "unat (compute_connect_backoff_delay_ms c j) \<le> 72000"
    unfolding compute_delay_nat by linarith+
  then show ?thesis by (simp add: word_le_nat_alt)
qed

definition client_gap_connect :: "ble_client \<Rightarrow> stack_call" where
  "client_gap_connect cl = BLE_GAP_CONNECT BLE_OWN_ADDR_PUBLIC BLE_ADDR_TYPE_PUBLIC
     (uint64_to_mac_lsb_first (bc_address cl)) 10000 connect_params"

lemma retry_accepted:
  assumes "fsm_state (fsm (bc_engine cl)) = BACKOFF" "conn_handle (bc_engine cl) = BLE_HS_CONN_HANDLE_NONE"
    and "ce_host env (client_gap_connect cl) = 0" "client_connect env cl = (cl', out)"
  shows "bc_state cl' = CS_CONNECTING \<and> fsm_state (fsm (bc_engine cl')) = CONNECTING
    \<and> deadline_ms (fsm (bc_engine cl')) = ce_now env + 5000
    \<and> engine_calls out = [BLE_GAP_DISC_CANCEL, client_gap_connect cl]"
  using assms
  by (auto simp: client_connect_def client_set_state_def retry_connect_def connect_def fsm_fire_def
      step_simps client_gap_connect_def stack_calls_def Let_def)

lemma retry_refused:
  assumes "fsm_state (fsm (bc_engine cl)) = BACKOFF"
    and "conn_handle (bc_engine cl) \<noteq> BLE_HS_CONN_HANDLE_NONE \<or> ce_host env (client_gap_connect cl) \<noteq> 0"
    and "client_connect env cl = (cl', out)"
  shows "bc_state cl' = CS_IDLE \<and> fsm_state (fsm (bc_engine cl')) = IDLE
    \<and> engine_calls out = (if conn_handle (bc_engine cl) = BLE_HS_CONN_HANDLE_NONE
        then [BLE_GAP_DISC_CANCEL, client_gap_connect cl] else [])"
  using assms
  by (auto simp: client_connect_def client_set_state_def retry_connect_def connect_def fsm_fire_def
      step_simps client_gap_connect_def stack_calls_def BLE_HS_EALREADY_def Let_def split: if_splits)

section \<open>Properties\<close>

text \<open>While the clock reads 0 the latch does not take: the delay is drawn again at the next loop.\<close>

lemma quiet_clock_zero:
  assumes "fsm_state (fsm (bc_engine cl)) = BACKOFF" "backoff_started_at cl = 0" "\<forall>w \<in> set zs. ce_now w = 0"
  shows "\<exists>d. client_run (quiet_loops zs) cl
    = Some (cl\<lparr>current_backoff_delay_ms := d\<rparr>, concat (map (\<lambda>_. node_loops cl) zs))"
  using assms(3)
proof (induction zs arbitrary: rule: rev_induct)
  case Nil
  show ?case by (intro exI [of _ "current_backoff_delay_ms cl"]) (simp add: quiet_loops_def)
next
  case (snoc z zs)
  then obtain d where d: "client_run (quiet_loops zs) cl
      = Some (cl\<lparr>current_backoff_delay_ms := d\<rparr>, concat (map (\<lambda>_. node_loops cl) zs))" by auto
  define d' where "d' = compute_connect_backoff_delay_ms (backoff_count (fsm (bc_engine cl))) (ce_random z mod 100)"
  have "cl\<lparr>backoff_started_at := 0\<rparr> = cl" using assms(2) by (cases cl) simp
  then have same: "cl\<lparr>backoff_started_at := 0, current_backoff_delay_ms := d'\<rparr> = cl\<lparr>current_backoff_delay_ms := d'\<rparr>"
    by simp
  have "client_loop z [] (cl\<lparr>current_backoff_delay_ms := d\<rparr>) = Some (cl\<lparr>current_backoff_delay_ms := d'\<rparr>, node_loops cl)"
    using quiet_latch [of "cl\<lparr>current_backoff_delay_ms := d\<rparr>" z] assms(1,2) snoc.prems same
    by (simp add: d'_def node_loops_def)
  then show ?case using d by (intro exI [of _ d']) (simp add: quiet_loops_def client_run_append)
qed

lemma retry_outcome:
  assumes "fsm_state (fsm (bc_engine cl)) = BACKOFF" and "client_connect env cl = (cl', out)"
  shows "let free = (conn_handle (bc_engine cl) = BLE_HS_CONN_HANDLE_NONE) in
     engine_calls out = (if free then [BLE_GAP_DISC_CANCEL, client_gap_connect cl] else [])
     \<and> (if free \<and> ce_host env (client_gap_connect cl) = 0
        then bc_state cl' = CS_CONNECTING \<and> fsm_state (fsm (bc_engine cl')) = CONNECTING
             \<and> deadline_ms (fsm (bc_engine cl')) = ce_now env + 5000
        else bc_state cl' = CS_IDLE \<and> fsm_state (fsm (bc_engine cl')) = IDLE)"
  using retry_accepted [OF assms(1) _ _ assms(2)] retry_refused [OF assms(1) _ assms(2)] by (auto simp: Let_def)

text \<open>
  C13. A lost peer is called back once the delay is over. A client with \<open>auto_connect\<close> whose engine is
  in \<open>Backoff\<close>, looping without events, draws its delay, between 4 and 72 seconds, at the first loop
  whose clock is not 0 (until then it draws again at each), lets every loop inside it pass without a
  call to the host, and the first loop after it ends the backoff, whatever the clock wraps: if no link
  occupies the engine's handle it makes one connection attempt to its address, which is supervised by
  the machine's deadline if the host accepts it; if a link does, or the host refuses, the engine is
  left in \<open>Idle\<close>, and with the handle occupied the host is not called.
\<close>
theorem auto_reconnect:
  assumes "fsm_state (fsm (bc_engine cl)) = BACKOFF" "bc_auto_connect cl" "backoff_started_at cl = 0"
    and "\<forall>z \<in> set zs. ce_now z = 0" "ce_now w0 \<noteq> 0"
    and "d = compute_connect_backoff_delay_ms (backoff_count (fsm (bc_engine cl))) (ce_random w0 mod 100)"
    and "\<forall>w \<in> set ws. ce_now w - ce_now w0 < d" "d \<le> ce_now w1 - ce_now w0"
    and "free = (conn_handle (bc_engine cl) = BLE_HS_CONN_HANDLE_NONE)"
  shows "4000 \<le> d \<and> d \<le> 72000 \<and> (\<exists>cl' out.
    client_run (quiet_loops (zs @ w0 # ws @ [w1])) cl = Some (cl', out)
    \<and> engine_calls out = (if free then [BLE_GAP_DISC_CANCEL, client_gap_connect cl] else [])
    \<and> (if free \<and> ce_host w1 (client_gap_connect cl) = 0
       then bc_state cl' = CS_CONNECTING \<and> fsm_state (fsm (bc_engine cl')) = CONNECTING
            \<and> deadline_ms (fsm (bc_engine cl')) = ce_now w1 + 5000
       else bc_state cl' = CS_IDLE \<and> fsm_state (fsm (bc_engine cl')) = IDLE))"
proof -
  obtain d0 where z: "client_run (quiet_loops zs) cl
      = Some (cl\<lparr>current_backoff_delay_ms := d0\<rparr>, concat (map (\<lambda>_. node_loops cl) zs))"
    using quiet_clock_zero [OF assms(1,3,4)] by blast
  let ?cl = "cl\<lparr>backoff_started_at := ce_now w0, current_backoff_delay_ms := d\<rparr>"
  obtain cl' out where c: "client_connect w1 (?cl\<lparr>backoff_started_at := 0\<rparr>) = (cl', out)" by fastforce
  have "client_gap_connect (?cl\<lparr>backoff_started_at := 0\<rparr>) = client_gap_connect cl"
    by (simp add: client_gap_connect_def)
  with retry_outcome [OF _ c] assms(1,9) have r:
    "engine_calls out = (if free then [BLE_GAP_DISC_CANCEL, client_gap_connect cl] else [])"
    "if free \<and> ce_host w1 (client_gap_connect cl) = 0
     then bc_state cl' = CS_CONNECTING \<and> fsm_state (fsm (bc_engine cl')) = CONNECTING
          \<and> deadline_ms (fsm (bc_engine cl')) = ce_now w1 + 5000
     else bc_state cl' = CS_IDLE \<and> fsm_state (fsm (bc_engine cl')) = IDLE"
    by (simp_all add: Let_def)
  have "client_run (quiet_loops ws) ?cl = Some (?cl, concat (map (\<lambda>_. node_loops ?cl) ws))"
    using assms by (intro quiet_waits) simp_all
  moreover have "client_loop w0 [] (cl\<lparr>current_backoff_delay_ms := d0\<rparr>) = Some (?cl, node_loops cl)"
    using quiet_latch [of "cl\<lparr>current_backoff_delay_ms := d0\<rparr>" w0] assms(1,3,6) by (simp add: node_loops_def)
  moreover have "client_loop w1 [] ?cl = Some (cl', out @ node_loops cl')"
    using quiet_retry [of ?cl w1] assms c by simp
  ultimately have "client_run (quiet_loops (zs @ w0 # ws @ [w1])) cl
      = Some (cl', concat (map (\<lambda>_. node_loops cl) zs) @ node_loops cl @ concat (map (\<lambda>_. node_loops ?cl) ws)
          @ out @ node_loops cl')"
    using z by (simp add: quiet_loops_def client_run_append)
  then show ?thesis
    using r backoff_delay_range assms(6) by (simp add: engine_calls_idle)
qed

definition sample_client :: ble_client where
  "sample_client = client_init\<lparr>bc_address := 0x112233445566, bc_auto_connect := True, bc_nodes := [7, 8],
     bc_engine := engine_init\<lparr>listener := True,
       fsm := \<lparr>fsm_state = BACKOFF, deadline_ms = 0, backoff_count = 1\<rparr>\<rparr>\<rparr>"

definition sample_env :: "u32 \<Rightarrow> client_env" where
  "sample_env now = \<lparr>ce_host = \<lambda>_. 0, ce_now = now, ce_random = 20\<rparr>"

lemma sample_delay: "compute_connect_backoff_delay_ms 1 20 = 5000"
  by (simp add: word_unat_eq_iff compute_delay_nat delay_int_def backoff_curve_def eff_count_def)

theorem auto_reconnect_witness:
  "\<exists>cl' out. client_run (quiet_loops [sample_env 0, sample_env 100, sample_env 3000, sample_env 5100]) sample_client
      = Some (cl', out)
    \<and> engine_calls out = [BLE_GAP_DISC_CANCEL, client_gap_connect sample_client]
    \<and> fsm_state (fsm (bc_engine cl')) = CONNECTING"
  using auto_reconnect [of sample_client "[sample_env 0]" "sample_env 100" 5000 "[sample_env 3000]" "sample_env 5100" True]
  by (auto simp: sample_client_def sample_env_def client_init_def engine_init_def sample_delay)

text \<open>
  C39. A retry the host refuses is the last one. When the attempt that ends the backoff cannot be
  started, because the host returns an error or because a link that the peer never confirmed closed
  still occupies the handle, the machine is left in \<open>Idle\<close>, which no loop leaves: whatever time
  passes, a client with \<open>auto_connect\<close> makes no further attempt.
\<close>
theorem refused_retry_is_last:
  assumes "fsm_state (fsm (bc_engine cl)) = BACKOFF" "backoff_started_at cl \<noteq> 0" "bc_auto_connect cl"
    and "current_backoff_delay_ms cl \<le> ce_now w - backoff_started_at cl"
    and "conn_handle (bc_engine cl) \<noteq> BLE_HS_CONN_HANDLE_NONE \<or> ce_host w (client_gap_connect cl) \<noteq> 0"
  shows "\<exists>cl' out. client_run (quiet_loops (w # ws)) cl = Some (cl', out)
    \<and> bc_state cl' = CS_IDLE \<and> fsm_state (fsm (bc_engine cl')) = IDLE
    \<and> engine_calls out = (if conn_handle (bc_engine cl) = BLE_HS_CONN_HANDLE_NONE
        then [BLE_GAP_DISC_CANCEL, client_gap_connect cl] else [])"
proof -
  obtain cl1 out1 where c: "client_connect w (cl\<lparr>backoff_started_at := 0\<rparr>) = (cl1, out1)" by fastforce
  have "client_gap_connect (cl\<lparr>backoff_started_at := 0\<rparr>) = client_gap_connect cl"
    by (simp add: client_gap_connect_def)
  with retry_refused [OF _ _ c] assms(1,5) have r:
    "bc_state cl1 = CS_IDLE" "fsm_state (fsm (bc_engine cl1)) = IDLE"
    "engine_calls out1 = (if conn_handle (bc_engine cl) = BLE_HS_CONN_HANDLE_NONE
        then [BLE_GAP_DISC_CANCEL, client_gap_connect cl] else [])"
    by simp_all
  have i: "fsm_state (fsm (bc_engine cl1)) \<notin> {CONNECTING, DISCOVERING, BACKOFF}" using r(2) by simp
  from settled_runs [OF i, of ws] obtain cl' out2 where
    q: "client_run (quiet_loops ws) cl1 = Some (cl', out2)" by blast
  with settled_engine [OF i q] r c quiet_retry [OF assms(1-4)] show ?thesis
    by (simp add: quiet_loops_def)
qed

theorem refused_retry_is_last_witness:
  "\<exists>cl' out. client_run (quiet_loops [(sample_env 5100)\<lparr>ce_host := \<lambda>_. BLE_HS_EBUSY\<rparr>, sample_env 60000])
      (sample_client\<lparr>backoff_started_at := 100, current_backoff_delay_ms := 5000\<rparr>) = Some (cl', out)
    \<and> fsm_state (fsm (bc_engine cl')) = IDLE"
  using refused_retry_is_last [of "sample_client\<lparr>backoff_started_at := 100, current_backoff_delay_ms := 5000\<rparr>"
      "(sample_env 5100)\<lparr>ce_host := \<lambda>_. BLE_HS_EBUSY\<rparr>" "[sample_env 60000]"]
  by (auto simp: sample_client_def sample_env_def client_init_def engine_init_def BLE_HS_EBUSY_def)

text \<open>
  \<open>connect()\<close> on an established client loses it: the engine refuses with \<open>EALREADY\<close> and keeps the
  link, but the client takes the refusal for a failed attempt, tells every node it is disconnected
  and stays \<open>IDLE\<close> in every later loop, above a link that is up.
\<close>
theorem connect_when_established:
  assumes "conn_handle (bc_engine cl) \<noteq> BLE_HS_CONN_HANDLE_NONE" "fsm_state (fsm (bc_engine cl)) = READY"
  shows "\<exists>cl1 cl2 out. client_connect env cl = (cl1, map Node_disconnected (bc_nodes cl))
    \<and> client_run (quiet_loops ws) cl1 = Some (cl2, out)
    \<and> bc_state cl2 = CS_IDLE \<and> bc_engine cl2 = bc_engine cl"
proof -
  obtain cl1 out1 where c: "client_connect env cl = (cl1, out1)" by fastforce
  then have r: "out1 = map Node_disconnected (bc_nodes cl)" "bc_state cl1 = CS_IDLE" "bc_engine cl1 = bc_engine cl"
    using assms by (auto simp: client_connect_def client_set_state_def connect_def stack_calls_def
        BLE_HS_EALREADY_def Let_def)
  have i: "fsm_state (fsm (bc_engine cl1)) \<notin> {CONNECTING, DISCOVERING, BACKOFF}" using r assms by simp
  from settled_runs [OF i, of ws] obtain cl2 out where
    "client_run (quiet_loops ws) cl1 = Some (cl2, out)" by blast
  with settled_engine [OF i this] c r show ?thesis by auto
qed

theorem connect_when_established_witness:
  "\<exists>cl1 cl2 out. client_connect (sample_env 100) (sample_client\<lparr>bc_state := CS_ESTABLISHED,
      bc_engine := engine_init\<lparr>conn_handle := 1, fsm := fsm_init\<lparr>fsm_state := READY\<rparr>\<rparr>\<rparr>)
        = (cl1, [Node_disconnected 7, Node_disconnected 8])
    \<and> client_run (quiet_loops [sample_env 200]) cl1 = Some (cl2, out) \<and> bc_state cl2 = CS_IDLE
    \<and> conn_handle (bc_engine cl2) = 1"
  using connect_when_established [of "sample_client\<lparr>bc_state := CS_ESTABLISHED,
      bc_engine := engine_init\<lparr>conn_handle := 1, fsm := fsm_init\<lparr>fsm_state := READY\<rparr>\<rparr>\<rparr>"
      "sample_env 100" "[sample_env 200]"]
  by (auto simp: sample_client_def client_init_def BLE_HS_CONN_HANDLE_NONE_def)

section \<open>Lookup\<close>

text \<open>
  The lookup of the code's callers: the first characteristic with the UUID, in the services with the
  service's UUID, in the tree that the table denotes.
\<close>

definition lookup_characteristic ::
  "espbtuuid \<Rightarrow> espbtuuid \<Rightarrow> svc_view list \<Rightarrow> found_characteristic" where
  "lookup_characteristic su cu view =
     (case find (\<lambda>v. uuid_eq (fst v) cu)
             (concat (map (\<lambda>(_, _, _, cs). cs) (filter (\<lambda>v. uuid_eq (fst v) su) view))) of
        None \<Rightarrow> not_found
      | Some (_, h, _, props, _) \<Rightarrow> \<lparr>fc_value_handle = h, fc_properties = props, fc_found = True\<rparr>)"

lemma find_append:
  "find P (xs @ ys) = (case find P xs of None \<Rightarrow> find P ys | Some x \<Rightarrow> Some x)"
  by (induction xs) auto

definition found_row :: "gatt_characteristic \<Rightarrow> found_characteristic" where
  "found_row r = \<lparr>fc_value_handle = value_handle r, fc_properties = properties r, fc_found = True\<rparr>"

definition found_view :: "chr_view \<Rightarrow> found_characteristic" where
  "found_view v = (case v of (_, h, _, props, _) \<Rightarrow>
     \<lparr>fc_value_handle = h, fc_properties = props, fc_found = True\<rparr>)"

lemma uint_less_int: "uint (w :: u16) < int n \<longleftrightarrow> unat w < n"
  unfolding uint_nat by (rule of_nat_less_iff)

lemma find_characteristic_range:
  assumes "length chrs < 65536" "unat c \<le> l" "l \<le> length chrs"
  shows "find_characteristic chrs cu (int l) c
    = Some (map_option found_row (find (\<lambda>r. uuid_eq (chr_uuid r) cu) (take (l - unat c) (drop (unat c) chrs))))"
  using assms(2)
proof (induction "l - unat c" arbitrary: c)
  case 0
  then show ?case by (subst find_characteristic.simps) (simp add: uint_less_int)
next
  case (Suc n)
  then have c: "unat c < l" "unat (c + 1) = unat c + 1"
    using assms(1,3) by (simp_all add: unat_add_no_wrap)
  then have "drop (unat c) chrs = chrs ! unat c # drop (unat (c + 1)) chrs"
    using assms(3) by (simp add: Cons_nth_drop_Suc)
  moreover have "l - unat c = Suc (l - unat (c + 1))" using c by simp
  moreover have "find_characteristic chrs cu (int l) (c + 1)
    = Some (map_option found_row (find (\<lambda>r. uuid_eq (chr_uuid r) cu)
        (take (l - unat (c + 1)) (drop (unat (c + 1)) chrs))))"
    using Suc c by (intro Suc.hyps(1)) simp_all
  ultimately show ?case
    using c assms(3) by (subst find_characteristic.simps) (simp add: uint_less_int rd_in found_row_def)
qed

lemma read_chrs_find:
  "sequence_opt (map (read_chr t) cs) = Some vs \<Longrightarrow>
   map_option found_row (find (\<lambda>r. uuid_eq (chr_uuid r) cu) cs)
     = map_option found_view (find (\<lambda>v. uuid_eq (fst v) cu) vs)"
proof (induction cs arbitrary: vs)
  case (Cons c cs)
  then obtain v vs' where v: "read_chr t c = Some v" "sequence_opt (map (read_chr t) cs) = Some vs'" "vs = v # vs'"
    by (cases "read_chr t c") auto
  then have "fst v = chr_uuid c" "found_view v = found_row c"
    by (auto simp: read_chr_def found_view_def found_row_def)
  with Cons.IH v show ?case by auto
qed simp

lemma find_in_services_view:
  assumes "length (tbl_characteristics t) < 65536" "sequence_opt (map (read_svc t) svcs) = Some view"
  shows "find_in_services (tbl_characteristics t) su cu svcs = Some (lookup_characteristic su cu view)"
  using assms(2)
proof (induction svcs arbitrary: view)
  case Nil
  then show ?case by (simp add: lookup_characteristic_def)
next
  case (Cons s svcs)
  let ?chrs = "tbl_characteristics t" and ?f = "unat (first_characteristic s)" and ?n = "unat (characteristic_count s)"
  from Cons.prems obtain v view' where v: "read_svc t s = Some v"
    "sequence_opt (map (read_svc t) svcs) = Some view'" "view = v # view'"
    by (cases "read_svc t s") auto
  from v(1) obtain vs where vs: "v = (svc_uuid s, start_handle s, end_handle s, vs)"
    "?f + ?n \<le> length ?chrs" "sequence_opt (map (read_chr t) (take ?n (drop ?f ?chrs))) = Some vs"
    by (auto simp: read_svc_def slice_def split: option.splits)
  have "find_characteristic ?chrs cu (uint (first_characteristic s) + uint (characteristic_count s)) (first_characteristic s)
      = Some (map_option found_view (find (\<lambda>v. uuid_eq (fst v) cu) vs))"
    using find_characteristic_range [OF assms(1), of "first_characteristic s" "?f + ?n" cu] vs read_chrs_find [OF vs(3)]
    by simp
  with Cons.IH [OF v(2)] v(3) vs(1) show ?case
    by (auto simp: lookup_characteristic_def find_append found_view_def split: option.splits)
qed

lemma get_characteristic_view:
  assumes "read_table (get_service_table (bc_engine cl)) = Some view"
    and "length (services (bc_engine cl)) < 65536" "length (characteristics (bc_engine cl)) < 65536"
  shows "get_characteristic su cu cl = Some (lookup_characteristic su cu view)"
  using assms find_in_services_view [of "get_service_table (bc_engine cl)" "services (bc_engine cl)" view su cu]
  by (simp add: get_characteristic_def get_service_table_def read_table_def Let_def unat_of_nat take_bit_eq_mod)

text \<open>
  C6. A node finds what the peer has. After a discovery of a peer whose database is laid out as the
  specification prescribes, \<open>get_characteristic\<close> returns, for every pair of UUIDs, the value
  handle and the properties of the first matching characteristic of the peer, or \<open>found = false\<close> when there
  is none; its loops stay inside the tables and end, though their counters have 16 bits.
\<close>
theorem characteristic_found_on_peer:
  assumes "wf_db 0 db" "length db < 65536"
    and "fsm_state (fsm e) = DISCOVERING" "conn_handle e \<noteq> BLE_HS_CONN_HANDLE_NONE"
    and "listener e" "\<And>c. h c = 0" "discovery_events db \<le> fuel"
  shows "\<exists>e' out. discover_all fuel h ck (host_reports own db) e = Some (e', out)
    \<and> get_characteristic su cu (cl\<lparr>bc_engine := e'\<rparr>) = Some (lookup_characteristic su cu (db_view db))"
proof -
  obtain e' out where "discover_all fuel h ck (host_reports own db) e = Some (e', out)"
    "read_table (get_service_table e') = Some (db_view db)"
    "length (services e') = length db" "length (characteristics e') < 65536"
    using discovery_exact [where stk = h and clk = ck and own = own, OF assms(1,3-7)] by auto
  then show ?thesis
    using get_characteristic_view [of "cl\<lparr>bc_engine := e'\<rparr>" "db_view db" su cu] assms(2) by simp
qed

theorem characteristic_found_on_peer_witness:
  "\<exists>e' out. discover_all 40 (\<lambda>_. 0) (\<lambda>_. 100) (host_reports (Some 0) battery_peer)
      (engine_init\<lparr>listener := True, conn_handle := 1,
         fsm := \<lparr>fsm_state = DISCOVERING, deadline_ms = 8000, backoff_count = 0\<rparr>\<rparr>) = Some (e', out)
    \<and> get_characteristic (from_uint16 0x180F) (from_uint16 0x2A19) (client_init\<lparr>bc_engine := e'\<rparr>)
      = Some \<lparr>fc_value_handle = 3, fc_properties = 0x12, fc_found = True\<rparr>"
proof -
  have "wf_db 0 battery_peer" by (simp add: battery_peer_def)
  moreover have "discovery_events battery_peer \<le> 40" "length battery_peer < 65536"
    by (simp_all add: battery_peer_def discovery_events_def all_chrs_def all_dscs_def)
  moreover have "lookup_characteristic (from_uint16 0x180F) (from_uint16 0x2A19) (db_view battery_peer)
      = \<lparr>fc_value_handle = 3, fc_properties = 0x12, fc_found = True\<rparr>"
    by code_simp
  ultimately show ?thesis
    using characteristic_found_on_peer [of battery_peer
        "engine_init\<lparr>listener := True, conn_handle := 1,
           fsm := \<lparr>fsm_state = DISCOVERING, deadline_ms = 8000, backoff_count = 0\<rparr>\<rparr>"
        "\<lambda>_. 0" 40 "\<lambda>_. 100" "Some 0" "from_uint16 0x180F" "from_uint16 0x2A19" client_init]
    by (auto simp: BLE_HS_CONN_HANDLE_NONE_def)
qed

section \<open>What the nodes are told\<close>

datatype client_op = Setup_client | Connect_client | Disconnect_client | Loop_client "gatt_event list"

fun client_op_step ::
  "client_env \<Rightarrow> client_op \<Rightarrow> ble_client \<Rightarrow> (ble_client \<times> client_out list) option" where
  "client_op_step env Setup_client cl = Some (client_setup env cl)"
| "client_op_step env Connect_client cl = Some (client_connect env cl)"
| "client_op_step env Disconnect_client cl = Some (client_disconnect env cl)"
| "client_op_step env (Loop_client evs) cl = client_loop env evs cl"

fun client_ops_run ::
  "(client_env \<times> client_op) list \<Rightarrow> ble_client \<Rightarrow> (ble_client \<times> client_out list) option" where
  "client_ops_run [] cl = Some (cl, [])"
| "client_ops_run ((env, op) # ops) cl =
     (case client_op_step env op cl of
        None \<Rightarrow> None
      | Some (cl, out) \<Rightarrow> map_option (apsnd ((@) out)) (client_ops_run ops cl))"

text \<open>The last thing a node was told, \<open>b\<close> before the outputs.\<close>

fun last_told :: "nat \<Rightarrow> bool option \<Rightarrow> client_out list \<Rightarrow> bool option" where
  "last_told n b [] = b"
| "last_told n b (Node_connected m # out) = last_told n (if m = n then Some True else b) out"
| "last_told n b (Node_disconnected m # out) = last_told n (if m = n then Some False else b) out"
| "last_told n b (_ # out) = last_told n b out"

lemma last_told_append [simp]: "last_told n b (out @ out') = last_told n (last_told n b out) out'"
  by (induction n b out rule: last_told.induct) simp_all

lemma last_told_silent [simp]:
  "last_told n b (map Engine_call cs) = b" "last_told n b (map Node_loop ns) = b"
  by (induction cs) (simp_all, (induction ns, simp_all)+)

lemma last_told_stay: "last_told n (Some True) (map Node_connected ns) = Some True"
  "last_told n (Some False) (map Node_disconnected ns) = Some False"
  by (induction ns) simp_all

lemma last_told_all [simp]:
  "n \<in> set ns \<Longrightarrow> last_told n b (map Node_connected ns) = Some True"
  "n \<in> set ns \<Longrightarrow> last_told n b (map Node_disconnected ns) = Some False"
  by (induction ns arbitrary: b) (auto simp: last_told_stay)

text \<open>\<open>agrees\<close>: the state a node was last told fits the client's.\<close>

definition agrees :: "ble_client \<Rightarrow> bool option \<Rightarrow> bool" where
  "agrees cl b \<longleftrightarrow> (bc_state cl = CS_ESTABLISHED \<longrightarrow> b = Some True)
     \<and> (bc_state cl = CS_IDLE \<longrightarrow> b \<noteq> Some True)"

definition told :: "nat \<Rightarrow> ble_client \<Rightarrow> ble_client \<times> client_out list \<Rightarrow> bool" where
  "told n cl r \<longleftrightarrow> bc_nodes (fst r) = bc_nodes cl
     \<and> (n \<in> set (bc_nodes cl) \<longrightarrow> (\<forall>b. agrees cl b \<longrightarrow> agrees (fst r) (last_told n b (snd r))))"

lemma told_silent:
  "bc_nodes cl' = bc_nodes cl \<Longrightarrow> bc_state cl' = bc_state cl \<Longrightarrow> (\<And>b. last_told n b out = b) \<Longrightarrow> told n cl (cl', out)"
  by (simp add: told_def agrees_def)

lemma told_trans: "told n cl (cl1, out1) \<Longrightarrow> told n cl1 (cl2, out2) \<Longrightarrow> told n cl (cl2, out1 @ out2)"
  by (simp add: told_def)

lemma told_from: "told n cl1 r \<Longrightarrow> bc_nodes cl1 = bc_nodes cl \<Longrightarrow> bc_state cl1 = bc_state cl \<Longrightarrow> told n cl r"
  by (simp add: told_def agrees_def)

lemma told_into:
  "told n cl (cl1, out) \<Longrightarrow> bc_nodes cl2 = bc_nodes cl1 \<Longrightarrow> bc_state cl2 = bc_state cl1 \<Longrightarrow>
   (\<And>b. last_told n b out2 = b) \<Longrightarrow> told n cl (cl2, out @ out2)"
  by (simp add: told_def agrees_def)

lemma told_set_state: "told n cl (client_set_state st cl)"
  by (auto simp: told_def client_set_state_def agrees_def Let_def)

lemma told_connect: "told n cl (client_connect env cl)"
  unfolding client_connect_def
  by (auto simp: client_set_state_def told_def agrees_def Let_def split: prod.splits)

lemma told_disconnect: "told n cl (client_disconnect env cl)"
  unfolding client_disconnect_def
  by (auto simp: client_set_state_def told_def agrees_def Let_def split: prod.splits)

lemma told_connection_state: "told n cl (on_client_connection_state env up m err cl)"
  unfolding on_client_connection_state_def
  by (auto simp: client_set_state_def told_def agrees_def Let_def split: prod.splits)

lemma told_listen: "told n cl (client_listen env c cl)"
  by (cases c) (auto simp: told_connection_state on_client_service_discovery_done_def told_set_state intro: told_silent)

lemma told_effects: "told n cl (client_effects env effs cl)"
proof (induction effs arbitrary: cl)
  case Nil
  show ?case by (simp add: told_silent)
next
  case (Cons x effs)
  show ?case
  proof (cases x)
    case (Stack c)
    with Cons.IH [of cl] show ?thesis by (auto simp: told_def split: prod.splits)
  next
    case (Listener c)
    obtain cl1 out1 where 1: "client_listen env c cl = (cl1, out1)" by fastforce
    obtain cl2 out2 where 2: "client_effects env effs cl1 = (cl2, out2)" by fastforce
    show ?thesis
      using told_trans [of n cl cl1 out1 cl2 out2] told_listen [of n cl env c] Cons.IH [of cl1] Listener 1 2 by simp
  qed
qed

lemma told_effects_engine: "told n cl (client_effects env effs (cl\<lparr>bc_engine := e\<rparr>))"
  by (rule told_from [OF told_effects]) simp_all

lemma told_events: "client_events env evs cl = Some r \<Longrightarrow> told n cl r"
proof (induction evs arbitrary: cl r)
  case Nil
  then show ?case by (auto intro: told_silent)
next
  case (Cons ev evs)
  then obtain e eff where ev: "handle_gatt_event (ce_host env) (ce_now env) ev (bc_engine cl) = Some (e, eff)"
    by (auto split: option.splits)
  obtain cl1 out1 where 1: "client_effects env eff (cl\<lparr>bc_engine := e\<rparr>) = (cl1, out1)" by fastforce
  from Cons.prems ev 1 obtain cl2 out2 where 2: "client_events env evs cl1 = Some (cl2, out2)" "r = (cl2, out1 @ out2)"
    by auto
  show ?case
    unfolding 2(2) using told_trans told_effects_engine Cons.IH 1 2(1) by metis
qed

lemma told_engine_loop:
  assumes "client_engine_loop env evs cl = Some r"
  shows "told n cl r"
proof -
  obtain cl1 out1 where 1: "client_events env evs cl = Some (cl1, out1)"
    using assms by (auto simp: client_engine_loop_def split: option.splits)
  obtain e eff where p: "poll_deadline (ce_now env) (bc_engine cl1) = (e, eff)" by fastforce
  obtain cl2 out2 where 2: "client_effects env eff (cl1\<lparr>bc_engine := e\<rparr>) = (cl2, out2)" by fastforce
  have "r = (cl2, out1 @ out2)" using assms 1 p 2 by (simp add: client_engine_loop_def)
  then show ?thesis using told_trans told_effects_engine told_events 1 2 by metis
qed

lemma told_backoff: "told n cl (client_backoff env cl)"
  by (auto simp: client_backoff_def intro: told_silent told_from [OF told_connect])

lemma told_loop:
  assumes "client_loop env evs cl = Some r"
  shows "told n cl r"
proof -
  obtain cl1 out1 where 1: "client_engine_loop env evs cl = Some (cl1, out1)"
    using assms by (auto simp: client_loop_def client_base_loop_def split: option.splits)
  obtain cl2 out2 where 2: "client_backoff env cl1 = (cl2, out2)" by fastforce
  have r: "r = (cl2, (out1 @ out2) @ map Node_loop (bc_nodes cl2))"
    using assms 1 2 by (simp add: client_loop_def client_base_loop_def)
  have "told n cl (cl2, out1 @ out2)"
    using told_trans told_engine_loop told_backoff 1 2 by metis
  then show ?thesis unfolding r by (rule told_into) simp_all
qed

lemma told_setup: "told n cl (client_setup env cl)"
proof (cases "bc_auto_connect cl")
  case True
  then show ?thesis
    using told_from [OF told_connect, of "cl\<lparr>bc_engine := set_listener True (bc_engine cl)\<rparr>" cl]
    by (simp add: client_setup_def)
next
  case False
  then show ?thesis by (simp add: client_setup_def told_silent)
qed

lemma told_step: "client_op_step env op cl = Some r \<Longrightarrow> told n cl r"
  by (cases op) (auto simp: told_connect told_disconnect told_setup intro: told_loop)

lemma told_run: "client_ops_run ops cl = Some r \<Longrightarrow> told n cl r"
proof (induction ops arbitrary: cl r)
  case Nil
  then show ?case by (auto intro: told_silent)
next
  case (Cons x ops)
  obtain env op where x: "x = (env, op)" by (cases x)
  from Cons.prems x obtain cl1 out1 cl2 out2 where
    1: "client_op_step env op cl = Some (cl1, out1)" and
    2: "client_ops_run ops cl1 = Some (cl2, out2)" "r = (cl2, out1 @ out2)"
    by (auto split: option.splits)
  show ?case unfolding 2(2) using told_trans told_step Cons.IH 1 2(1) by metis
qed

text \<open>
  C24. Every node knows the state. Over any sequence of setups, calls, events, deadlines and retries that
  starts with an idle client and nodes told nothing, a registered node of an established client was
  last told \<open>on_ble_client_connected\<close>, and one of an idle client was not: its last call, if it got any, was
  \<open>on_ble_client_disconnected\<close>.
\<close>
theorem nodes_know_state:
  assumes "bc_state cl = CS_IDLE" "client_ops_run ops cl = Some (cl', out)" "n \<in> set (bc_nodes cl)"
  shows "(client_connected cl' \<longrightarrow> last_told n None out = Some True)
    \<and> (bc_state cl' = CS_IDLE \<longrightarrow> last_told n None out \<noteq> Some True)"
  using told_run [OF assms(2), of n] assms(1,3)
  by (simp add: told_def agrees_def client_connected_def)

text \<open>A client is set up, the peer answers, and its database is empty.\<close>

definition sample_session :: "(client_env \<times> client_op) list" where
  "sample_session =
     [(sample_env 100, Setup_client),
      (sample_env 200, Loop_client [gatt_event0 (Some 0) EV_CONNECT 1]),
      (sample_env 300, Loop_client [disc_svc_cb 1 BLE_HS_EDONE None (Some 0)])]"

theorem nodes_know_state_witness:
  "\<exists>cl' out. client_ops_run sample_session (sample_client\<lparr>bc_engine := engine_init\<rparr>) = Some (cl', out)
    \<and> client_connected cl' \<and> last_told 8 None out = Some True"
proof -
  have "map_option (\<lambda>r. client_connected (fst r))
      (client_ops_run sample_session (sample_client\<lparr>bc_engine := engine_init\<rparr>)) = Some True"
    by code_simp
  then obtain cl' out where
    "client_ops_run sample_session (sample_client\<lparr>bc_engine := engine_init\<rparr>) = Some (cl', out)" "client_connected cl'"
    by auto
  moreover have "bc_state (sample_client\<lparr>bc_engine := engine_init\<rparr>) = CS_IDLE"
    "8 \<in> set (bc_nodes (sample_client\<lparr>bc_engine := engine_init\<rparr>))"
    by (simp_all add: sample_client_def client_init_def)
  ultimately show ?thesis
    using nodes_know_state [of "sample_client\<lparr>bc_engine := engine_init\<rparr>" sample_session cl' out 8] by blast
qed

end
