(* ===== verification/Aes.thy ===== *)
theory Aes
  imports Prelude
begin

text \<open>
  The AES-128 cipher of components/ble_device_base/ble_aes_ccm.cpp, in the encrypt direction only. An
  \<open>Aes128\<close> object is its round keys, 176 bytes; a block is 16 bytes. Every index is a constant, a loop
  counter or a byte, so that all reads are inside their arrays (\<open>length_key_schedule\<close>, \<open>length_SBOX\<close>).
\<close>

section \<open>Tables\<close>

definition SBOX :: bytes where
  "SBOX = [
     0x63, 0x7c, 0x77, 0x7b, 0xf2, 0x6b, 0x6f, 0xc5, 0x30, 0x01, 0x67, 0x2b, 0xfe, 0xd7, 0xab, 0x76,
     0xca, 0x82, 0xc9, 0x7d, 0xfa, 0x59, 0x47, 0xf0, 0xad, 0xd4, 0xa2, 0xaf, 0x9c, 0xa4, 0x72, 0xc0,
     0xb7, 0xfd, 0x93, 0x26, 0x36, 0x3f, 0xf7, 0xcc, 0x34, 0xa5, 0xe5, 0xf1, 0x71, 0xd8, 0x31, 0x15,
     0x04, 0xc7, 0x23, 0xc3, 0x18, 0x96, 0x05, 0x9a, 0x07, 0x12, 0x80, 0xe2, 0xeb, 0x27, 0xb2, 0x75,
     0x09, 0x83, 0x2c, 0x1a, 0x1b, 0x6e, 0x5a, 0xa0, 0x52, 0x3b, 0xd6, 0xb3, 0x29, 0xe3, 0x2f, 0x84,
     0x53, 0xd1, 0x00, 0xed, 0x20, 0xfc, 0xb1, 0x5b, 0x6a, 0xcb, 0xbe, 0x39, 0x4a, 0x4c, 0x58, 0xcf,
     0xd0, 0xef, 0xaa, 0xfb, 0x43, 0x4d, 0x33, 0x85, 0x45, 0xf9, 0x02, 0x7f, 0x50, 0x3c, 0x9f, 0xa8,
     0x51, 0xa3, 0x40, 0x8f, 0x92, 0x9d, 0x38, 0xf5, 0xbc, 0xb6, 0xda, 0x21, 0x10, 0xff, 0xf3, 0xd2,
     0xcd, 0x0c, 0x13, 0xec, 0x5f, 0x97, 0x44, 0x17, 0xc4, 0xa7, 0x7e, 0x3d, 0x64, 0x5d, 0x19, 0x73,
     0x60, 0x81, 0x4f, 0xdc, 0x22, 0x2a, 0x90, 0x88, 0x46, 0xee, 0xb8, 0x14, 0xde, 0x5e, 0x0b, 0xdb,
     0xe0, 0x32, 0x3a, 0x0a, 0x49, 0x06, 0x24, 0x5c, 0xc2, 0xd3, 0xac, 0x62, 0x91, 0x95, 0xe4, 0x79,
     0xe7, 0xc8, 0x37, 0x6d, 0x8d, 0xd5, 0x4e, 0xa9, 0x6c, 0x56, 0xf4, 0xea, 0x65, 0x7a, 0xae, 0x08,
     0xba, 0x78, 0x25, 0x2e, 0x1c, 0xa6, 0xb4, 0xc6, 0xe8, 0xdd, 0x74, 0x1f, 0x4b, 0xbd, 0x8b, 0x8a,
     0x70, 0x3e, 0xb5, 0x66, 0x48, 0x03, 0xf6, 0x0e, 0x61, 0x35, 0x57, 0xb9, 0x86, 0xc1, 0x1d, 0x9e,
     0xe1, 0xf8, 0x98, 0x11, 0x69, 0xd9, 0x8e, 0x94, 0x9b, 0x1e, 0x87, 0xe9, 0xce, 0x55, 0x28, 0xdf,
     0x8c, 0xa1, 0x89, 0x0d, 0xbf, 0xe6, 0x42, 0x68, 0x41, 0x99, 0x2d, 0x0f, 0xb0, 0x54, 0xbb, 0x16]"

definition RCON :: bytes where
  "RCON = [0x00, 0x01, 0x02, 0x04, 0x08, 0x10, 0x20, 0x40, 0x80, 0x1b, 0x36]"

definition xtime :: "u8 \<Rightarrow> u8" where
  "xtime x = push_bit 1 x XOR (if x AND 0x80 \<noteq> 0 then 0x1b else 0x00)"

definition sbox :: "u8 \<Rightarrow> u8" where
  "sbox b = SBOX ! unat b"

section \<open>Round keys\<close>

text \<open>
  One turn of the loop of the constructor, which fills \<open>rk_\<close> from the left: \<open>i\<close> is the length of the part
  filled so far.
\<close>

definition expand_word :: "bytes \<Rightarrow> bytes" where
  "expand_word rk =
     (let i = length rk;
          t = [rk ! (i - 4), rk ! (i - 3), rk ! (i - 2), rk ! (i - 1)];
          t = (if i mod 16 = 0
               then [sbox (t ! 1) XOR RCON ! (i div 16), sbox (t ! 2), sbox (t ! 3), sbox (t ! 0)]
               else t)
      in rk @ map (\<lambda>j. rk ! (i - 16 + j) XOR t ! j) [0..<4])"

definition key_schedule :: "bytes \<Rightarrow> bytes" where
  "key_schedule key = (expand_word ^^ 40) key"

section \<open>The rounds\<close>

definition add_round_key :: "bytes \<Rightarrow> nat \<Rightarrow> bytes \<Rightarrow> bytes" where
  "add_round_key rk round s = map (\<lambda>i. s ! i XOR rk ! (round * 16 + i)) [0..<16]"

definition sub_bytes :: "bytes \<Rightarrow> bytes" where
  "sub_bytes s = map sbox s"

text \<open>The code's assignments, in order; \<open>t\<close> is saved before the row is overwritten.\<close>

definition shift_rows :: "bytes \<Rightarrow> bytes" where
  "shift_rows s =
     (let t = s ! 1;
          s = s[1 := s ! 5]; s = s[5 := s ! 9]; s = s[9 := s ! 13]; s = s[13 := t];
          t = s ! 2;
          s = s[2 := s ! 10]; s = s[10 := t];
          t = s ! 6;
          s = s[6 := s ! 14]; s = s[14 := t];
          t = s ! 3;
          s = s[3 := s ! 15]; s = s[15 := s ! 11]; s = s[11 := s ! 7]; s = s[7 := t]
      in s)"

definition mix_column :: "bytes \<Rightarrow> nat \<Rightarrow> bytes" where
  "mix_column s c =
     (let a0 = s ! (c * 4); a1 = s ! (c * 4 + 1); a2 = s ! (c * 4 + 2); a3 = s ! (c * 4 + 3);
          h = a0 XOR a1 XOR a2 XOR a3
      in s[c * 4 := a0 XOR (h XOR xtime (a0 XOR a1)),
           c * 4 + 1 := a1 XOR (h XOR xtime (a1 XOR a2)),
           c * 4 + 2 := a2 XOR (h XOR xtime (a2 XOR a3)),
           c * 4 + 3 := a3 XOR (h XOR xtime (a3 XOR a0))])"

definition mix_columns :: "bytes \<Rightarrow> bytes" where
  "mix_columns s = foldl mix_column s [0..<4]"

definition aes_round :: "bytes \<Rightarrow> bytes \<Rightarrow> nat \<Rightarrow> bytes" where
  "aes_round rk s round = add_round_key rk round (mix_columns (shift_rows (sub_bytes s)))"

definition encrypt :: "bytes \<Rightarrow> bytes \<Rightarrow> bytes" where
  "encrypt rk block =
     (let s = add_round_key rk 0 block;
          s = foldl (aes_round rk) s [1..<10]
      in add_round_key rk 10 (shift_rows (sub_bytes s)))"

definition aes128_encrypt_block :: "bytes \<Rightarrow> bytes \<Rightarrow> bytes" where
  "aes128_encrypt_block key block = encrypt (key_schedule key) block"

end
