(* ===== verification/AesField.thy ===== *)
theory AesField
  imports Aes
begin

text \<open>
  The S-box of \<open>Aes\<close> is the one FIPS 197 defines, the affine image of the inverse in the field with
  256 elements. The field is written after the standard; its laws are proved from the linearity of
  \<open>xtimes\<close>, so that an inverse is unique, and the table is checked entry by entry.
\<close>

section \<open>The field\<close>

text \<open>Multiplication of polynomials over bits modulo \<open>x^8 + x^4 + x^3 + x + 1\<close>, by repeated \<open>xtimes\<close>.\<close>

definition xtimes :: "u8 \<Rightarrow> u8" where
  "xtimes a = (if bit a 7 then push_bit 1 a XOR 0x1b else push_bit 1 a)"

fun gf_acc :: "nat \<Rightarrow> u8 \<Rightarrow> u8 \<Rightarrow> u8" where
  "gf_acc 0 a b = 0"
| "gf_acc (Suc n) a b = (if odd b then a else 0) XOR gf_acc n (xtimes a) (drop_bit 1 b)"

definition gf_mul :: "u8 \<Rightarrow> u8 \<Rightarrow> u8" where
  "gf_mul a b = gf_acc 8 a b"

lemma gf_mul_unfold: "gf_mul a b = gf_acc (Suc (Suc (Suc (Suc (Suc (Suc (Suc (Suc 0)))))))) a b"
  unfolding gf_mul_def by (simp add: eval_nat_numeral)

lemma xtime_xtimes: "xtime = xtimes"
proof
  fix a :: u8
  have "(a AND 0x80 \<noteq> 0) = bit a 7"
  proof -
    have "(0x80 :: u8) = push_bit 7 1" by simp
    then show ?thesis by (metis bit_iff_and_push_bit_not_eq_0)
  qed
  then show "xtime a = xtimes a" by (simp add: xtime_def xtimes_def)
qed

lemma xtimes_xor: "xtimes (a XOR b) = xtimes a XOR xtimes b"
proof -
  have "push_bit 1 (a XOR b) = push_bit 1 a XOR push_bit 1 b" by (rule push_bit_xor)
  then show ?thesis
    by (auto simp: xtimes_def bit_xor_iff ac_simps xor.left_commute)
qed

lemma xtimes_0 [simp]: "xtimes 0 = 0"
  by (simp add: xtimes_def)

lemma gf_acc_xor: "gf_acc n (a XOR b) c = gf_acc n a c XOR gf_acc n b c"
  by (induction n arbitrary: a b c) (auto simp: xtimes_xor ac_simps xor.left_commute)

lemma gf_acc_0 [simp]: "gf_acc n 0 c = 0"
  by (induction n arbitrary: c) simp_all

lemma gf_acc_xtimes: "gf_acc n (xtimes a) b = xtimes (gf_acc n a b)"
  by (induction n arbitrary: a b) (simp_all add: xtimes_xor)

text \<open>\<open>(a b) c = (a c) b\<close>: both are the sum of the \<open>xtimes^i (xtimes^j a)\<close> over the bits of \<open>b\<close> and \<open>c\<close>.\<close>

lemma gf_acc_swap: "gf_acc n (gf_acc m a b) c = gf_acc m (gf_acc n a c) b"
proof (induction n arbitrary: a c)
  case (Suc n)
  have "gf_acc n (xtimes (gf_acc m a b)) (drop_bit 1 c) = gf_acc m (gf_acc n (xtimes a) (drop_bit 1 c)) b"
    using Suc.IH [of "xtimes a"] by (simp add: gf_acc_xtimes)
  then show ?case by (simp add: gf_acc_xor)
qed simp

lemma gf_mul_swap: "gf_mul (gf_mul a b) c = gf_mul (gf_mul a c) b"
  unfolding gf_mul_def by (rule gf_acc_swap)

lemma gf_mul_0 [simp]: "gf_mul 0 b = 0" "gf_mul a 0 = 0"
  by (simp_all add: gf_mul_unfold)

text \<open>The powers of \<open>x\<close> below the eighth are the bits.\<close>

lemma gf_mul_1_left: "gf_mul 1 b = b"
proof (rule bit_word_eqI)
  have eq: "gf_mul 1 b = (if odd b then 1 else 0) XOR (if bit b 1 then 2 else 0) XOR (if bit b 2 then 4 else 0)
    XOR (if bit b 3 then 8 else 0) XOR (if bit b 4 then 16 else 0) XOR (if bit b 5 then 32 else 0)
    XOR (if bit b 6 then 64 else 0) XOR (if bit b 7 then 128 else 0)"
    by (simp add: gf_mul_unfold xtimes_def split del: if_split)
      (simp add: bit_iff_odd_drop_bit eval_nat_numeral split del: if_split)
  fix i assume "i < LENGTH(8)"
  then have "i \<in> {0, 1, 2, 3, 4, 5, 6, 7}" by auto
  then show "bit (gf_mul 1 b) i = bit b i"
    unfolding eq by (elim insertE emptyE) (simp_all add: bit_xor_iff bit_0 if_distrib [where f = "\<lambda>x. bit x _"])
qed

lemma gf_mul_commute: "gf_mul a b = gf_mul b a"
proof -
  have "gf_mul a b = gf_mul (gf_mul 1 a) b" by (simp only: gf_mul_1_left)
  also have "\<dots> = gf_mul (gf_mul 1 b) a" by (rule gf_mul_swap)
  finally show ?thesis by (simp only: gf_mul_1_left)
qed

lemma gf_mul_assoc: "gf_mul (gf_mul a b) c = gf_mul a (gf_mul b c)"
  by (metis gf_mul_commute gf_mul_swap)

section \<open>Inverses\<close>

definition all_bytes :: bytes where
  "all_bytes = map of_nat [0..<256]"

text \<open>The inverse, found by search; 0 has none and is mapped to itself.\<close>

definition gf_inv :: "u8 \<Rightarrow> u8" where
  "gf_inv a = (case find (\<lambda>b. gf_mul a b = 1) all_bytes of Some b \<Rightarrow> b | None \<Rightarrow> 0)"

lemma in_all_bytes: "b \<in> set all_bytes"
proof -
  have "b = of_nat (unat b)" by simp
  moreover have "unat b \<in> set [0..<256]" by simp
  ultimately show ?thesis unfolding all_bytes_def set_map by (rule image_eqI)
qed

lemma gf_inv_unique:
  assumes "gf_mul a b = 1"
  shows "gf_inv a = b"
proof -
  have "\<exists>c. find (\<lambda>b. gf_mul a b = 1) all_bytes = Some c"
    using assms in_all_bytes [of b] by (auto simp: find_None_iff simp flip: not_None_eq)
  then obtain c where c: "find (\<lambda>b. gf_mul a b = 1) all_bytes = Some c" by blast
  then have "gf_mul a c = 1" by (auto simp: find_Some_iff)
  then have "b = gf_mul (gf_mul a c) b" by (simp add: gf_mul_1_left)
  also have "\<dots> = gf_mul (gf_mul a b) c" by (rule gf_mul_swap)
  also have "\<dots> = c" using assms by (simp add: gf_mul_1_left)
  finally show ?thesis using c by (simp add: gf_inv_def)
qed

lemma gf_inv_0: "gf_inv 0 = 0"
proof -
  have "find (\<lambda>b. gf_mul 0 b = 1) all_bytes = None" by (simp add: find_None_iff)
  then show ?thesis by (simp add: gf_inv_def)
qed

section \<open>The S-box\<close>

definition affine :: "u8 \<Rightarrow> u8" where
  "affine b = b XOR word_rotl 1 b XOR word_rotl 2 b XOR word_rotl 3 b XOR word_rotl 4 b XOR 0x63"

definition s_box :: "u8 \<Rightarrow> u8" where
  "s_box b = affine (gf_inv b)"

lemma rotl_shifts:
  assumes "k < 8"
  shows "word_rotl k (b :: u8) = push_bit k b OR drop_bit (8 - k) b"
proof (rule bit_word_eqI)
  fix i assume "i < LENGTH(8)"
  then have i: "i < 8" by simp
  have m: "(i + (8 - k)) mod 8 = (if k \<le> i then i - k else i + (8 - k))"
  proof (cases "k \<le> i")
    case True
    then have "(i + (8 - k)) mod 8 = ((i - k) + 8) mod 8" using assms by simp
    also have "\<dots> = (i - k) mod 8" by (rule mod_add_self2)
    finally show ?thesis using True i by simp
  qed (use i assms in simp)
  have "bit (word_rotl k b) i = bit b ((i + (8 - k)) mod 8)"
    using i assms by (simp add: bit_word_rotl_iff)
  moreover have "bit (drop_bit (8 - k) b) i = bit b (i + (8 - k))"
    by (simp only: bit_drop_bit_eq comp_def add.commute)
  moreover have "bit (push_bit k b) i \<longleftrightarrow> k \<le> i \<and> bit b (i - k)"
    using i by (simp add: bit_push_bit_iff)
  moreover have "k \<le> i \<Longrightarrow> \<not> bit b (i + (8 - k))"
    using assms bit_imp_le_length [of b "i + (8 - k)"] by auto
  ultimately show "bit (word_rotl k b) i = bit (push_bit k b OR drop_bit (8 - k) b) i"
    unfolding m bit_or_iff by (auto split: if_splits)
qed

lemma rotl_numeral:
  "word_rotl (Suc 0) (b :: u8) = push_bit 1 b OR drop_bit 7 b"
  "word_rotl 2 (b :: u8) = push_bit 2 b OR drop_bit 6 b"
  "word_rotl 3 (b :: u8) = push_bit 3 b OR drop_bit 5 b"
  "word_rotl 4 (b :: u8) = push_bit 4 b OR drop_bit 4 b"
  using rotl_shifts [of 1 b] rotl_shifts [of 2 b] rotl_shifts [of 3 b] rotl_shifts [of 4 b] by simp_all

text \<open>The formula of the standard, bit by bit.\<close>

lemma affine_bits:
  assumes "i < 8"
  shows "bit (affine b) i \<longleftrightarrow> (((((bit b i \<noteq> bit b ((i + 4) mod 8)) \<noteq> bit b ((i + 5) mod 8))
    \<noteq> bit b ((i + 6) mod 8)) \<noteq> bit b ((i + 7) mod 8)) \<noteq> bit (0x63 :: u8) i)"
  using assms by (simp add: affine_def bit_xor_iff bit_word_rotl_iff) blast

lemma inverses_0: "list_all2 (\<lambda>a b. gf_mul a b = 1)
    [0x01, 0x02, 0x03, 0x04, 0x05, 0x06, 0x07, 0x08, 0x09, 0x0a, 0x0b, 0x0c, 0x0d, 0x0e, 0x0f]
    [0x01, 0x8d, 0xf6, 0xcb, 0x52, 0x7b, 0xd1, 0xe8, 0x4f, 0x29, 0xc0, 0xb0, 0xe1, 0xe5, 0xc7]"
  by (simp add: gf_mul_unfold xtimes_def)

lemma inverses_1: "list_all2 (\<lambda>a b. gf_mul a b = 1)
    [0x10, 0x11, 0x12, 0x13, 0x14, 0x15, 0x16, 0x17, 0x18, 0x19, 0x1a, 0x1b, 0x1c, 0x1d, 0x1e, 0x1f]
    [0x74, 0xb4, 0xaa, 0x4b, 0x99, 0x2b, 0x60, 0x5f, 0x58, 0x3f, 0xfd, 0xcc, 0xff, 0x40, 0xee, 0xb2]"
  by (simp add: gf_mul_unfold xtimes_def)

lemma inverses_2: "list_all2 (\<lambda>a b. gf_mul a b = 1)
    [0x20, 0x21, 0x22, 0x23, 0x24, 0x25, 0x26, 0x27, 0x28, 0x29, 0x2a, 0x2b, 0x2c, 0x2d, 0x2e, 0x2f]
    [0x3a, 0x6e, 0x5a, 0xf1, 0x55, 0x4d, 0xa8, 0xc9, 0xc1, 0x0a, 0x98, 0x15, 0x30, 0x44, 0xa2, 0xc2]"
  by (simp add: gf_mul_unfold xtimes_def)

lemma inverses_3: "list_all2 (\<lambda>a b. gf_mul a b = 1)
    [0x30, 0x31, 0x32, 0x33, 0x34, 0x35, 0x36, 0x37, 0x38, 0x39, 0x3a, 0x3b, 0x3c, 0x3d, 0x3e, 0x3f]
    [0x2c, 0x45, 0x92, 0x6c, 0xf3, 0x39, 0x66, 0x42, 0xf2, 0x35, 0x20, 0x6f, 0x77, 0xbb, 0x59, 0x19]"
  by (simp add: gf_mul_unfold xtimes_def)

lemma inverses_4: "list_all2 (\<lambda>a b. gf_mul a b = 1)
    [0x40, 0x41, 0x42, 0x43, 0x44, 0x45, 0x46, 0x47, 0x48, 0x49, 0x4a, 0x4b, 0x4c, 0x4d, 0x4e, 0x4f]
    [0x1d, 0xfe, 0x37, 0x67, 0x2d, 0x31, 0xf5, 0x69, 0xa7, 0x64, 0xab, 0x13, 0x54, 0x25, 0xe9, 0x09]"
  by (simp add: gf_mul_unfold xtimes_def)

lemma inverses_5: "list_all2 (\<lambda>a b. gf_mul a b = 1)
    [0x50, 0x51, 0x52, 0x53, 0x54, 0x55, 0x56, 0x57, 0x58, 0x59, 0x5a, 0x5b, 0x5c, 0x5d, 0x5e, 0x5f]
    [0xed, 0x5c, 0x05, 0xca, 0x4c, 0x24, 0x87, 0xbf, 0x18, 0x3e, 0x22, 0xf0, 0x51, 0xec, 0x61, 0x17]"
  by (simp add: gf_mul_unfold xtimes_def)

lemma inverses_6: "list_all2 (\<lambda>a b. gf_mul a b = 1)
    [0x60, 0x61, 0x62, 0x63, 0x64, 0x65, 0x66, 0x67, 0x68, 0x69, 0x6a, 0x6b, 0x6c, 0x6d, 0x6e, 0x6f]
    [0x16, 0x5e, 0xaf, 0xd3, 0x49, 0xa6, 0x36, 0x43, 0xf4, 0x47, 0x91, 0xdf, 0x33, 0x93, 0x21, 0x3b]"
  by (simp add: gf_mul_unfold xtimes_def)

lemma inverses_7: "list_all2 (\<lambda>a b. gf_mul a b = 1)
    [0x70, 0x71, 0x72, 0x73, 0x74, 0x75, 0x76, 0x77, 0x78, 0x79, 0x7a, 0x7b, 0x7c, 0x7d, 0x7e, 0x7f]
    [0x79, 0xb7, 0x97, 0x85, 0x10, 0xb5, 0xba, 0x3c, 0xb6, 0x70, 0xd0, 0x06, 0xa1, 0xfa, 0x81, 0x82]"
  by (simp add: gf_mul_unfold xtimes_def)

lemma inverses_8: "list_all2 (\<lambda>a b. gf_mul a b = 1)
    [0x80, 0x81, 0x82, 0x83, 0x84, 0x85, 0x86, 0x87, 0x88, 0x89, 0x8a, 0x8b, 0x8c, 0x8d, 0x8e, 0x8f]
    [0x83, 0x7e, 0x7f, 0x80, 0x96, 0x73, 0xbe, 0x56, 0x9b, 0x9e, 0x95, 0xd9, 0xf7, 0x02, 0xb9, 0xa4]"
  by (simp add: gf_mul_unfold xtimes_def)

lemma inverses_9: "list_all2 (\<lambda>a b. gf_mul a b = 1)
    [0x90, 0x91, 0x92, 0x93, 0x94, 0x95, 0x96, 0x97, 0x98, 0x99, 0x9a, 0x9b, 0x9c, 0x9d, 0x9e, 0x9f]
    [0xde, 0x6a, 0x32, 0x6d, 0xd8, 0x8a, 0x84, 0x72, 0x2a, 0x14, 0x9f, 0x88, 0xf9, 0xdc, 0x89, 0x9a]"
  by (simp add: gf_mul_unfold xtimes_def)

lemma inverses_a: "list_all2 (\<lambda>a b. gf_mul a b = 1)
    [0xa0, 0xa1, 0xa2, 0xa3, 0xa4, 0xa5, 0xa6, 0xa7, 0xa8, 0xa9, 0xaa, 0xab, 0xac, 0xad, 0xae, 0xaf]
    [0xfb, 0x7c, 0x2e, 0xc3, 0x8f, 0xb8, 0x65, 0x48, 0x26, 0xc8, 0x12, 0x4a, 0xce, 0xe7, 0xd2, 0x62]"
  by (simp add: gf_mul_unfold xtimes_def)

lemma inverses_b: "list_all2 (\<lambda>a b. gf_mul a b = 1)
    [0xb0, 0xb1, 0xb2, 0xb3, 0xb4, 0xb5, 0xb6, 0xb7, 0xb8, 0xb9, 0xba, 0xbb, 0xbc, 0xbd, 0xbe, 0xbf]
    [0x0c, 0xe0, 0x1f, 0xef, 0x11, 0x75, 0x78, 0x71, 0xa5, 0x8e, 0x76, 0x3d, 0xbd, 0xbc, 0x86, 0x57]"
  by (simp add: gf_mul_unfold xtimes_def)

lemma inverses_c: "list_all2 (\<lambda>a b. gf_mul a b = 1)
    [0xc0, 0xc1, 0xc2, 0xc3, 0xc4, 0xc5, 0xc6, 0xc7, 0xc8, 0xc9, 0xca, 0xcb, 0xcc, 0xcd, 0xce, 0xcf]
    [0x0b, 0x28, 0x2f, 0xa3, 0xda, 0xd4, 0xe4, 0x0f, 0xa9, 0x27, 0x53, 0x04, 0x1b, 0xfc, 0xac, 0xe6]"
  by (simp add: gf_mul_unfold xtimes_def)

lemma inverses_d: "list_all2 (\<lambda>a b. gf_mul a b = 1)
    [0xd0, 0xd1, 0xd2, 0xd3, 0xd4, 0xd5, 0xd6, 0xd7, 0xd8, 0xd9, 0xda, 0xdb, 0xdc, 0xdd, 0xde, 0xdf]
    [0x7a, 0x07, 0xae, 0x63, 0xc5, 0xdb, 0xe2, 0xea, 0x94, 0x8b, 0xc4, 0xd5, 0x9d, 0xf8, 0x90, 0x6b]"
  by (simp add: gf_mul_unfold xtimes_def)

lemma inverses_e: "list_all2 (\<lambda>a b. gf_mul a b = 1)
    [0xe0, 0xe1, 0xe2, 0xe3, 0xe4, 0xe5, 0xe6, 0xe7, 0xe8, 0xe9, 0xea, 0xeb, 0xec, 0xed, 0xee, 0xef]
    [0xb1, 0x0d, 0xd6, 0xeb, 0xc6, 0x0e, 0xcf, 0xad, 0x08, 0x4e, 0xd7, 0xe3, 0x5d, 0x50, 0x1e, 0xb3]"
  by (simp add: gf_mul_unfold xtimes_def)

lemma inverses_f: "list_all2 (\<lambda>a b. gf_mul a b = 1)
    [0xf0, 0xf1, 0xf2, 0xf3, 0xf4, 0xf5, 0xf6, 0xf7, 0xf8, 0xf9, 0xfa, 0xfb, 0xfc, 0xfd, 0xfe, 0xff]
    [0x5b, 0x23, 0x38, 0x34, 0x68, 0x46, 0x03, 0x8c, 0xdd, 0x9c, 0x7d, 0xa0, 0xcd, 0x1a, 0x41, 0x1c]"
  by (simp add: gf_mul_unfold xtimes_def)

lemma affine_0: "map affine [0, 0x01, 0x8d, 0xf6, 0xcb, 0x52, 0x7b, 0xd1, 0xe8, 0x4f, 0x29, 0xc0, 0xb0, 0xe1, 0xe5, 0xc7]
    = [0x63, 0x7c, 0x77, 0x7b, 0xf2, 0x6b, 0x6f, 0xc5, 0x30, 0x01, 0x67, 0x2b, 0xfe, 0xd7, 0xab, 0x76]"
  by (simp add: affine_def rotl_numeral)

lemma affine_1: "map affine [0x74, 0xb4, 0xaa, 0x4b, 0x99, 0x2b, 0x60, 0x5f, 0x58, 0x3f, 0xfd, 0xcc, 0xff, 0x40, 0xee, 0xb2]
    = [0xca, 0x82, 0xc9, 0x7d, 0xfa, 0x59, 0x47, 0xf0, 0xad, 0xd4, 0xa2, 0xaf, 0x9c, 0xa4, 0x72, 0xc0]"
  by (simp add: affine_def rotl_numeral)

lemma affine_2: "map affine [0x3a, 0x6e, 0x5a, 0xf1, 0x55, 0x4d, 0xa8, 0xc9, 0xc1, 0x0a, 0x98, 0x15, 0x30, 0x44, 0xa2, 0xc2]
    = [0xb7, 0xfd, 0x93, 0x26, 0x36, 0x3f, 0xf7, 0xcc, 0x34, 0xa5, 0xe5, 0xf1, 0x71, 0xd8, 0x31, 0x15]"
  by (simp add: affine_def rotl_numeral)

lemma affine_3: "map affine [0x2c, 0x45, 0x92, 0x6c, 0xf3, 0x39, 0x66, 0x42, 0xf2, 0x35, 0x20, 0x6f, 0x77, 0xbb, 0x59, 0x19]
    = [0x04, 0xc7, 0x23, 0xc3, 0x18, 0x96, 0x05, 0x9a, 0x07, 0x12, 0x80, 0xe2, 0xeb, 0x27, 0xb2, 0x75]"
  by (simp add: affine_def rotl_numeral)

lemma affine_4: "map affine [0x1d, 0xfe, 0x37, 0x67, 0x2d, 0x31, 0xf5, 0x69, 0xa7, 0x64, 0xab, 0x13, 0x54, 0x25, 0xe9, 0x09]
    = [0x09, 0x83, 0x2c, 0x1a, 0x1b, 0x6e, 0x5a, 0xa0, 0x52, 0x3b, 0xd6, 0xb3, 0x29, 0xe3, 0x2f, 0x84]"
  by (simp add: affine_def rotl_numeral)

lemma affine_5: "map affine [0xed, 0x5c, 0x05, 0xca, 0x4c, 0x24, 0x87, 0xbf, 0x18, 0x3e, 0x22, 0xf0, 0x51, 0xec, 0x61, 0x17]
    = [0x53, 0xd1, 0x00, 0xed, 0x20, 0xfc, 0xb1, 0x5b, 0x6a, 0xcb, 0xbe, 0x39, 0x4a, 0x4c, 0x58, 0xcf]"
  by (simp add: affine_def rotl_numeral)

lemma affine_6: "map affine [0x16, 0x5e, 0xaf, 0xd3, 0x49, 0xa6, 0x36, 0x43, 0xf4, 0x47, 0x91, 0xdf, 0x33, 0x93, 0x21, 0x3b]
    = [0xd0, 0xef, 0xaa, 0xfb, 0x43, 0x4d, 0x33, 0x85, 0x45, 0xf9, 0x02, 0x7f, 0x50, 0x3c, 0x9f, 0xa8]"
  by (simp add: affine_def rotl_numeral)

lemma affine_7: "map affine [0x79, 0xb7, 0x97, 0x85, 0x10, 0xb5, 0xba, 0x3c, 0xb6, 0x70, 0xd0, 0x06, 0xa1, 0xfa, 0x81, 0x82]
    = [0x51, 0xa3, 0x40, 0x8f, 0x92, 0x9d, 0x38, 0xf5, 0xbc, 0xb6, 0xda, 0x21, 0x10, 0xff, 0xf3, 0xd2]"
  by (simp add: affine_def rotl_numeral)

lemma affine_8: "map affine [0x83, 0x7e, 0x7f, 0x80, 0x96, 0x73, 0xbe, 0x56, 0x9b, 0x9e, 0x95, 0xd9, 0xf7, 0x02, 0xb9, 0xa4]
    = [0xcd, 0x0c, 0x13, 0xec, 0x5f, 0x97, 0x44, 0x17, 0xc4, 0xa7, 0x7e, 0x3d, 0x64, 0x5d, 0x19, 0x73]"
  by (simp add: affine_def rotl_numeral)

lemma affine_9: "map affine [0xde, 0x6a, 0x32, 0x6d, 0xd8, 0x8a, 0x84, 0x72, 0x2a, 0x14, 0x9f, 0x88, 0xf9, 0xdc, 0x89, 0x9a]
    = [0x60, 0x81, 0x4f, 0xdc, 0x22, 0x2a, 0x90, 0x88, 0x46, 0xee, 0xb8, 0x14, 0xde, 0x5e, 0x0b, 0xdb]"
  by (simp add: affine_def rotl_numeral)

lemma affine_a: "map affine [0xfb, 0x7c, 0x2e, 0xc3, 0x8f, 0xb8, 0x65, 0x48, 0x26, 0xc8, 0x12, 0x4a, 0xce, 0xe7, 0xd2, 0x62]
    = [0xe0, 0x32, 0x3a, 0x0a, 0x49, 0x06, 0x24, 0x5c, 0xc2, 0xd3, 0xac, 0x62, 0x91, 0x95, 0xe4, 0x79]"
  by (simp add: affine_def rotl_numeral)

lemma affine_b: "map affine [0x0c, 0xe0, 0x1f, 0xef, 0x11, 0x75, 0x78, 0x71, 0xa5, 0x8e, 0x76, 0x3d, 0xbd, 0xbc, 0x86, 0x57]
    = [0xe7, 0xc8, 0x37, 0x6d, 0x8d, 0xd5, 0x4e, 0xa9, 0x6c, 0x56, 0xf4, 0xea, 0x65, 0x7a, 0xae, 0x08]"
  by (simp add: affine_def rotl_numeral)

lemma affine_c: "map affine [0x0b, 0x28, 0x2f, 0xa3, 0xda, 0xd4, 0xe4, 0x0f, 0xa9, 0x27, 0x53, 0x04, 0x1b, 0xfc, 0xac, 0xe6]
    = [0xba, 0x78, 0x25, 0x2e, 0x1c, 0xa6, 0xb4, 0xc6, 0xe8, 0xdd, 0x74, 0x1f, 0x4b, 0xbd, 0x8b, 0x8a]"
  by (simp add: affine_def rotl_numeral)

lemma affine_d: "map affine [0x7a, 0x07, 0xae, 0x63, 0xc5, 0xdb, 0xe2, 0xea, 0x94, 0x8b, 0xc4, 0xd5, 0x9d, 0xf8, 0x90, 0x6b]
    = [0x70, 0x3e, 0xb5, 0x66, 0x48, 0x03, 0xf6, 0x0e, 0x61, 0x35, 0x57, 0xb9, 0x86, 0xc1, 0x1d, 0x9e]"
  by (simp add: affine_def rotl_numeral)

lemma affine_e: "map affine [0xb1, 0x0d, 0xd6, 0xeb, 0xc6, 0x0e, 0xcf, 0xad, 0x08, 0x4e, 0xd7, 0xe3, 0x5d, 0x50, 0x1e, 0xb3]
    = [0xe1, 0xf8, 0x98, 0x11, 0x69, 0xd9, 0x8e, 0x94, 0x9b, 0x1e, 0x87, 0xe9, 0xce, 0x55, 0x28, 0xdf]"
  by (simp add: affine_def rotl_numeral)

lemma affine_f: "map affine [0x5b, 0x23, 0x38, 0x34, 0x68, 0x46, 0x03, 0x8c, 0xdd, 0x9c, 0x7d, 0xa0, 0xcd, 0x1a, 0x41, 0x1c]
    = [0x8c, 0xa1, 0x89, 0x0d, 0xbf, 0xe6, 0x42, 0x68, 0x41, 0x99, 0x2d, 0x0f, 0xb0, 0x54, 0xbb, 0x16]"
  by (simp add: affine_def rotl_numeral)

lemma inverse_table: "list_all2 (\<lambda>a b. gf_mul a b = 1) xs ys \<Longrightarrow> map gf_inv xs = ys"
  by (induction rule: list_all2_induct) (simp_all add: gf_inv_unique)

lemma s_box_table:
  assumes "list_all2 (\<lambda>a b. gf_mul a b = 1) xs ys" "map affine ys = zs"
  shows "map s_box xs = zs"
  using inverse_table [OF assms(1)] assms(2) by (auto simp: s_box_def)

lemma s_box_table_0:
  assumes "list_all2 (\<lambda>a b. gf_mul a b = 1) xs ys" "map affine (0 # ys) = zs"
  shows "map s_box (0 # xs) = zs"
  using inverse_table [OF assms(1)] assms(2) by (auto simp: s_box_def gf_inv_0)

lemma all_bytes_rows: "all_bytes =
    [0, 0x01, 0x02, 0x03, 0x04, 0x05, 0x06, 0x07, 0x08, 0x09, 0x0a, 0x0b, 0x0c, 0x0d, 0x0e, 0x0f] @
    [0x10, 0x11, 0x12, 0x13, 0x14, 0x15, 0x16, 0x17, 0x18, 0x19, 0x1a, 0x1b, 0x1c, 0x1d, 0x1e, 0x1f] @
    [0x20, 0x21, 0x22, 0x23, 0x24, 0x25, 0x26, 0x27, 0x28, 0x29, 0x2a, 0x2b, 0x2c, 0x2d, 0x2e, 0x2f] @
    [0x30, 0x31, 0x32, 0x33, 0x34, 0x35, 0x36, 0x37, 0x38, 0x39, 0x3a, 0x3b, 0x3c, 0x3d, 0x3e, 0x3f] @
    [0x40, 0x41, 0x42, 0x43, 0x44, 0x45, 0x46, 0x47, 0x48, 0x49, 0x4a, 0x4b, 0x4c, 0x4d, 0x4e, 0x4f] @
    [0x50, 0x51, 0x52, 0x53, 0x54, 0x55, 0x56, 0x57, 0x58, 0x59, 0x5a, 0x5b, 0x5c, 0x5d, 0x5e, 0x5f] @
    [0x60, 0x61, 0x62, 0x63, 0x64, 0x65, 0x66, 0x67, 0x68, 0x69, 0x6a, 0x6b, 0x6c, 0x6d, 0x6e, 0x6f] @
    [0x70, 0x71, 0x72, 0x73, 0x74, 0x75, 0x76, 0x77, 0x78, 0x79, 0x7a, 0x7b, 0x7c, 0x7d, 0x7e, 0x7f] @
    [0x80, 0x81, 0x82, 0x83, 0x84, 0x85, 0x86, 0x87, 0x88, 0x89, 0x8a, 0x8b, 0x8c, 0x8d, 0x8e, 0x8f] @
    [0x90, 0x91, 0x92, 0x93, 0x94, 0x95, 0x96, 0x97, 0x98, 0x99, 0x9a, 0x9b, 0x9c, 0x9d, 0x9e, 0x9f] @
    [0xa0, 0xa1, 0xa2, 0xa3, 0xa4, 0xa5, 0xa6, 0xa7, 0xa8, 0xa9, 0xaa, 0xab, 0xac, 0xad, 0xae, 0xaf] @
    [0xb0, 0xb1, 0xb2, 0xb3, 0xb4, 0xb5, 0xb6, 0xb7, 0xb8, 0xb9, 0xba, 0xbb, 0xbc, 0xbd, 0xbe, 0xbf] @
    [0xc0, 0xc1, 0xc2, 0xc3, 0xc4, 0xc5, 0xc6, 0xc7, 0xc8, 0xc9, 0xca, 0xcb, 0xcc, 0xcd, 0xce, 0xcf] @
    [0xd0, 0xd1, 0xd2, 0xd3, 0xd4, 0xd5, 0xd6, 0xd7, 0xd8, 0xd9, 0xda, 0xdb, 0xdc, 0xdd, 0xde, 0xdf] @
    [0xe0, 0xe1, 0xe2, 0xe3, 0xe4, 0xe5, 0xe6, 0xe7, 0xe8, 0xe9, 0xea, 0xeb, 0xec, 0xed, 0xee, 0xef] @
    [0xf0, 0xf1, 0xf2, 0xf3, 0xf4, 0xf5, 0xf6, 0xf7, 0xf8, 0xf9, 0xfa, 0xfb, 0xfc, 0xfd, 0xfe, 0xff]"
  by code_simp

lemma SBOX_is_s_box: "SBOX = map s_box all_bytes"
  unfolding SBOX_def all_bytes_rows map_append
    s_box_table_0 [OF inverses_0 affine_0]
    s_box_table [OF inverses_1 affine_1]
    s_box_table [OF inverses_2 affine_2]
    s_box_table [OF inverses_3 affine_3]
    s_box_table [OF inverses_4 affine_4]
    s_box_table [OF inverses_5 affine_5]
    s_box_table [OF inverses_6 affine_6]
    s_box_table [OF inverses_7 affine_7]
    s_box_table [OF inverses_8 affine_8]
    s_box_table [OF inverses_9 affine_9]
    s_box_table [OF inverses_a affine_a]
    s_box_table [OF inverses_b affine_b]
    s_box_table [OF inverses_c affine_c]
    s_box_table [OF inverses_d affine_d]
    s_box_table [OF inverses_e affine_e]
    s_box_table [OF inverses_f affine_f]
  by simp

lemma sbox_is_s_box: "sbox = s_box"
proof
  fix b :: u8
  have "sbox b = map s_box all_bytes ! unat b" by (simp add: sbox_def SBOX_is_s_box)
  also have "\<dots> = s_box (all_bytes ! unat b)" by (rule nth_map) (simp add: all_bytes_def)
  also have "\<dots> = s_box b" by (simp add: all_bytes_def)
  finally show "sbox b = s_box b" .
qed

end
