(* ===== verification/AesSpec.thy ===== *)
theory AesSpec
  imports AesField
begin

text \<open>
  The cipher of \<open>Aes\<close> is AES-128 as FIPS 197 defines it. The standard's transformations are written
  here by row and column of the state, its key expansion by words, with the field and the S-box of
  \<open>AesField\<close>; the code works in place on 16 bytes, saves multiplications by adding the column up
  first, and has its round constants in a table.
\<close>

section \<open>The standard\<close>

text \<open>The state: byte \<open>r + 4 * c\<close> of a block is row \<open>r\<close>, column \<open>c\<close>.\<close>

definition at :: "bytes \<Rightarrow> nat \<Rightarrow> nat \<Rightarrow> u8" where
  "at s r c = s ! (r + 4 * c)"

definition block :: "(nat \<Rightarrow> nat \<Rightarrow> u8) \<Rightarrow> bytes" where
  "block f = map (\<lambda>i. f (i mod 4) (i div 4)) [0..<16]"

definition SubBytes :: "bytes \<Rightarrow> bytes" where
  "SubBytes s = block (\<lambda>r c. s_box (at s r c))"

definition ShiftRows :: "bytes \<Rightarrow> bytes" where
  "ShiftRows s = block (\<lambda>r c. at s r ((c + r) mod 4))"

definition MixColumns :: "bytes \<Rightarrow> bytes" where
  "MixColumns s = block (\<lambda>r c. gf_mul 0x02 (at s r c) XOR gf_mul 0x03 (at s ((r + 1) mod 4) c)
     XOR at s ((r + 2) mod 4) c XOR at s ((r + 3) mod 4) c)"

text \<open>The words of the key expansion, four bytes each.\<close>

definition SubWord :: "bytes \<Rightarrow> bytes" where
  "SubWord w = map s_box w"

definition RotWord :: "bytes \<Rightarrow> bytes" where
  "RotWord w = tl w @ [hd w]"

definition Rcon :: "nat \<Rightarrow> bytes" where
  "Rcon i = [(xtimes ^^ (i - 1)) 1, 0, 0, 0]"

definition xor_bytes :: "bytes \<Rightarrow> bytes \<Rightarrow> bytes" where
  "xor_bytes = map2 (XOR)"

fun key_words :: "bytes \<Rightarrow> nat \<Rightarrow> bytes list" where
  "key_words key 0 = map (\<lambda>i. take 4 (drop (4 * i) key)) [0..<4]"
| "key_words key (Suc n) =
     (let ws = key_words key n;
          i = n + 4;
          temp = (if i mod 4 = 0 then xor_bytes (SubWord (RotWord (ws ! (i - 1)))) (Rcon (i div 4)) else ws ! (i - 1))
      in ws @ [xor_bytes (ws ! (i - 4)) temp])"

definition AddRoundKey :: "bytes list \<Rightarrow> nat \<Rightarrow> bytes \<Rightarrow> bytes" where
  "AddRoundKey w round s = block (\<lambda>r c. at s r c XOR w ! (4 * round + c) ! r)"

definition Round :: "bytes list \<Rightarrow> bytes \<Rightarrow> nat \<Rightarrow> bytes" where
  "Round w s round = AddRoundKey w round (MixColumns (ShiftRows (SubBytes s)))"

definition Cipher :: "bytes \<Rightarrow> bytes \<Rightarrow> bytes" where
  "Cipher key inp =
     (let w = key_words key 40;
          s = foldl (Round w) (AddRoundKey w 0 inp) [1..<10]
      in AddRoundKey w 10 (ShiftRows (SubBytes s)))"

section \<open>The transformations\<close>

lemma block_simp: "block f = [f 0 0, f 1 0, f 2 0, f 3 0, f 0 1, f 1 1, f 2 1, f 3 1,
    f 0 2, f 1 2, f 2 2, f 3 2, f 0 3, f 1 3, f 2 3, f 3 3]"
  by (simp add: block_def upt_rec flip: numeral_2_eq_2)

lemma length_block [simp]: "length (block f) = 16"
  by (simp add: block_def)

lemma block_cases:
  assumes "length s = 16"
  obtains a0 a1 a2 a3 a4 a5 a6 a7 a8 a9 a10 a11 a12 a13 a14 a15
  where "s = [a0, a1, a2, a3, a4, a5, a6, a7, a8, a9, a10, a11, a12, a13, a14, a15]"
  using assms by (auto simp: eval_nat_numeral length_Suc_conv)

lemma sub_bytes_standard: "length s = 16 \<Longrightarrow> sub_bytes s = SubBytes s"
  by (erule block_cases) (simp add: sub_bytes_def SubBytes_def block_simp at_def sbox_is_s_box)

lemma shift_rows_standard: "length s = 16 \<Longrightarrow> shift_rows s = ShiftRows s"
  by (erule block_cases) (simp add: shift_rows_def ShiftRows_def block_simp at_def Let_def)

lemma gf_mul_2: "gf_mul 2 a = xtimes a"
  unfolding gf_mul_commute [of 2] by (simp add: gf_mul_unfold)

lemma gf_mul_3: "gf_mul 3 a = xtimes a XOR a"
  unfolding gf_mul_commute [of 3] by (simp add: gf_mul_unfold xor.commute)

text \<open>The code adds the column up once: \<open>a + (h + 2 (a + b)) = 2 a + 3 b + c + d\<close>.\<close>

lemma mix_columns_standard: "length s = 16 \<Longrightarrow> mix_columns s = MixColumns s"
  by (erule block_cases) (simp add: mix_columns_def MixColumns_def block_simp at_def mix_column_def upt_rec
      Let_def xtime_xtimes xtimes_xor gf_mul_2 gf_mul_3 ac_simps)

section \<open>The key expansion\<close>

lemma RCON_powers: "1 \<le> i \<Longrightarrow> i \<le> 10 \<Longrightarrow> RCON ! i = (xtimes ^^ (i - 1)) 1"
proof -
  assume "1 \<le> i" "i \<le> 10"
  then have "i \<in> {1, 2, 3, 4, 5, 6, 7, 8, 9, 10}" unfolding insert_iff empty_iff by presburger
  moreover have "map (\<lambda>n. (xtimes ^^ n) 1) [0, 1, 2, 3, 4, 5, 6, 7, 8, 9] = tl RCON"
    by (simp add: RCON_def eval_nat_numeral) (simp add: xtimes_def)
  ultimately show ?thesis by (auto simp: RCON_def)
qed

lemma length_key_words: "length (key_words key n) = n + 4"
  by (induction n) (simp_all add: Let_def)

lemma key_words_widths:
  assumes "length key = 16"
  shows "w \<in> set (key_words key n) \<Longrightarrow> length w = 4"
proof (induction n arbitrary: w)
  case 0
  with assms show ?case by auto
next
  case (Suc n)
  have l: "key_words key n ! (3 + n) \<in> set (key_words key n)" "key_words key n ! n \<in> set (key_words key n)"
    by (simp_all add: length_key_words)
  from Suc.prems show ?case
    using Suc.IH Suc.IH [OF l(1)] Suc.IH [OF l(2)]
    by (auto simp: Let_def xor_bytes_def SubWord_def RotWord_def Rcon_def)
qed

text \<open>The bytes of a word inside the concatenation of the words before it.\<close>

lemma nth_concat_4:
  assumes "\<forall>w \<in> set ws. length w = 4" "k < length ws" "j < 4"
  shows "concat ws ! (4 * k + j) = ws ! k ! j"
  using assms
proof (induction ws arbitrary: k)
  case (Cons w ws)
  then show ?case by (cases k) (auto simp: nth_append)
qed simp

lemma length_concat_4: "\<forall>w \<in> set ws. length w = 4 \<Longrightarrow> length (concat ws) = 4 * length ws"
  by (induction ws) simp_all

lemma four_bytes: "length w = 4 \<Longrightarrow> w = [w ! 0, w ! 1, w ! 2, w ! 3]"
  by (auto simp: eval_nat_numeral length_Suc_conv)

lemma expand_word_standard:
  assumes "length key = 16" "n < 40"
  shows "expand_word (concat (key_words key n)) = concat (key_words key (Suc n))"
proof -
  let ?ws = "key_words key n"
  let ?rk = "concat ?ws" and ?a = "?ws ! n" and ?t = "?ws ! (3 + n)"
  have w: "\<forall>w \<in> set ?ws. length w = 4" using key_words_widths [OF assms(1)] by blast
  have l: "length ?rk = 4 * n + 16" using length_concat_4 [OF w] by (simp add: length_key_words)
  have m: "(4 * n + 16) mod 16 = 0 \<longleftrightarrow> (n + 4) mod 4 = 0" "(4 * n + 16) div 16 = (n + 4) div 4" by presburger+
  have r: "1 \<le> (n + 4) div 4" "(n + 4) div 4 \<le> 10" using assms(2) by linarith+
  have t: "?rk ! (4 * n + 16 - 4) = ?t ! 0" "?rk ! (4 * n + 16 - 3) = ?t ! 1"
    "?rk ! (4 * n + 16 - 2) = ?t ! 2" "?rk ! (4 * n + 16 - 1) = ?t ! 3"
    using nth_concat_4 [OF w, of "3 + n" 0] nth_concat_4 [OF w, of "3 + n" 1]
      nth_concat_4 [OF w, of "3 + n" 2] nth_concat_4 [OF w, of "3 + n" 3]
    by (simp_all add: length_key_words add.commute)
  have a: "?rk ! (4 * n + 16 - 16 + j) = ?a ! j" if "j < 4" for j
    using nth_concat_4 [OF w _ that, of n] by (simp add: length_key_words)
  have la: "length ?a = 4" "length ?t = 4" using w by (simp_all add: length_key_words)
  have lt: "?t = [?t ! 0, ?t ! 1, ?t ! 2, ?t ! 3]" by (rule four_bytes [OF la(2)])
  have rot: "xor_bytes (SubWord (RotWord ?t)) (Rcon ((n + 4) div 4))
      = [s_box (?t ! 1) XOR RCON ! ((n + 4) div 4), s_box (?t ! 2), s_box (?t ! 3), s_box (?t ! 0)]"
    by (subst lt) (simp add: xor_bytes_def SubWord_def RotWord_def Rcon_def RCON_powers [OF r])
  have x: "map (\<lambda>j. ?a ! j XOR b ! j) [0..<4] = xor_bytes ?a b" if "length b = 4" for b
    using la that by (intro nth_equalityI) (simp_all add: xor_bytes_def)
  have "map (\<lambda>j. ?rk ! (4 * n + 16 - 16 + j) XOR b ! j) [0..<4] = xor_bytes ?a b" if "length b = 4" for b
    using a by (simp add: x [OF that, symmetric] cong: map_cong)
  then show ?thesis
    unfolding expand_word_def l t m Let_def sbox_is_s_box
    using rot la lt by (auto simp: Let_def)
qed

lemma key_schedule_standard:
  assumes "length key = 16"
  shows "key_schedule key = concat (key_words key 40)"
proof -
  have "(expand_word ^^ n) key = concat (key_words key n)" if "n \<le> 40" for n
    using that
  proof (induction n)
    case 0
    from assms show ?case by (auto elim!: block_cases simp: upt_rec)
  next
    case (Suc n)
    then show ?case using expand_word_standard [OF assms, of n] by simp
  qed
  then show ?thesis by (simp add: key_schedule_def)
qed

lemma length_key_schedule: "length key = 16 \<Longrightarrow> length (key_schedule key) = 176"
  using length_concat_4 [of "key_words key 40"] key_words_widths [of key _ 40]
  by (simp only: key_schedule_standard length_key_words) simp

section \<open>The rounds\<close>

lemma add_round_key_standard:
  assumes "length key = 16" "length s = 16" "round \<le> 10"
  shows "add_round_key (key_schedule key) round s = AddRoundKey (key_words key 40) round s"
proof -
  have "key_schedule key ! (round * 16 + i) = key_words key 40 ! (4 * round + i div 4) ! (i mod 4)" if "i < 16" for i
  proof -
    have "4 * round + i div 4 < 44" using assms(3) that by linarith
    moreover have "round * 16 + i = 4 * (4 * round + i div 4) + i mod 4" by presburger
    ultimately show ?thesis
      using nth_concat_4 [of "key_words key 40" "4 * round + i div 4" "i mod 4"] key_words_widths [OF assms(1)]
      by (simp add: key_schedule_standard [OF assms(1)] length_key_words ac_simps)
  qed
  then show ?thesis
    by (simp add: add_round_key_def AddRoundKey_def block_def at_def cong: map_cong)
qed

lemma aes_round_standard:
  assumes "length key = 16" "length s = 16" "round \<le> 10"
  shows "aes_round (key_schedule key) s round = Round (key_words key 40) s round"
  using assms
  by (simp add: aes_round_def Round_def sub_bytes_standard shift_rows_standard mix_columns_standard
      add_round_key_standard SubBytes_def ShiftRows_def MixColumns_def)

lemma length_Round: "length (Round w s round) = 16"
  by (simp add: Round_def AddRoundKey_def)

lemma rounds_standard:
  assumes "length key = 16" "length s = 16" "\<forall>r \<in> set rs. r \<le> 10"
  shows "foldl (aes_round (key_schedule key)) s rs = foldl (Round (key_words key 40)) s rs
    \<and> length (foldl (Round (key_words key 40)) s rs) = 16"
  using assms(2,3)
  by (induction rs arbitrary: s) (simp_all add: aes_round_standard [OF assms(1)] length_Round)

lemma encrypt_standard:
  assumes "length key = 16" "length inp = 16"
  shows "encrypt (key_schedule key) inp = Cipher key inp"
proof -
  have "length (AddRoundKey (key_words key 40) 0 inp) = 16" by (simp add: AddRoundKey_def)
  from rounds_standard [OF assms(1) this, of "[1..<10]"] show ?thesis
    using assms
    by (simp add: encrypt_def Cipher_def Let_def add_round_key_standard sub_bytes_standard
        shift_rows_standard SubBytes_def ShiftRows_def)
qed

lemma length_Cipher [simp]: "length (Cipher key inp) = 16"
  by (simp add: Cipher_def AddRoundKey_def Let_def)

text \<open>
  C11. The cipher is AES-128. For every key and block of 16 bytes, \<open>aes128_encrypt_block\<close>, with its S-box
  table, its table of round constants, its in-place rotations and its column trick, returns what the
  cipher of FIPS 197 returns: the S-box from inverses in the field, the rows, the columns as a matrix
  over the field, and the expanded key.
\<close>
theorem aes_is_fips_197:
  assumes "length key = 16" "length inp = 16"
  shows "aes128_encrypt_block key inp = Cipher key inp"
  using encrypt_standard [OF assms] by (simp add: aes128_encrypt_block_def)

theorem aes_is_fips_197_witness:
  "aes128_encrypt_block [0x2b, 0x7e, 0x15, 0x16, 0x28, 0xae, 0xd2, 0xa6, 0xab, 0xf7, 0x15, 0x88, 0x09, 0xcf, 0x4f, 0x3c]
      (replicate 16 0)
    = Cipher [0x2b, 0x7e, 0x15, 0x16, 0x28, 0xae, 0xd2, 0xa6, 0xab, 0xf7, 0x15, 0x88, 0x09, 0xcf, 0x4f, 0x3c]
      (replicate 16 0)"
  by (rule aes_is_fips_197) simp_all

end
