(* ===== verification/AesCcm.thy ===== *)
theory AesCcm
  imports AesSpec BleAdvert
begin

text \<open>
  \<open>aes_ccm_auth_decrypt\<close> (components/ble_device_base/ble_aes_ccm.cpp) and the resolution of private
  addresses (\<open>ESPBTDevice::resolve_irk\<close>, ble_device.cpp). The object \<open>aes\<close> is its function \<open>encrypt\<close>. \<open>size_t\<close> and
  the counter have 32 bits on the targets; a shift by 32 or more is undefined behaviour, the value
  \<open>None\<close>. The result is the code's \<open>bool\<close> with the bytes written to \<open>plaintext\<close>.
\<close>

section \<open>The code\<close>

text \<open>\<open>for (i = 0; i < l; i++) a[15 - i] = (v >> (8 * i)) & 0xff\<close>.\<close>

definition store_be_byte :: "u32 \<Rightarrow> bytes option \<Rightarrow> nat \<Rightarrow> bytes option" where
  "store_be_byte v a i = Option.bind a (\<lambda>a.
     if 8 * i < 32 then Some (a[15 - i := ucast (drop_bit (8 * i) v AND 0xff)]) else None)"

definition store_be :: "nat \<Rightarrow> u32 \<Rightarrow> bytes \<Rightarrow> bytes option" where
  "store_be l v a = foldl (store_be_byte v) (Some a) [0..<l]"

definition build_ctr :: "bytes \<Rightarrow> nat \<Rightarrow> u32 \<Rightarrow> bytes option" where
  "build_ctr nonce l counter = store_be l counter (of_nat (l - 1) # nonce @ replicate l 0)"

text \<open>
  The counter loop. Its offset, a \<open>size_t\<close>, is a natural number here: on the 32-bit targets it would wrap
  only for a ciphertext of more than 2 ^ 32 - 16 bytes, which they cannot hold.
\<close>

function ctr_loop ::
  "(bytes \<Rightarrow> bytes) \<Rightarrow> bytes \<Rightarrow> nat \<Rightarrow> bytes \<Rightarrow> nat \<Rightarrow> bytes \<Rightarrow> bytes option" where
  "ctr_loop aes nonce l ciphertext off plaintext =
     (if off < length ciphertext then
        Option.bind (build_ctr nonce l (of_nat (off div 16) + 1)) (\<lambda>a.
          let ks = aes a;
              n = min 16 (length ciphertext - off)
          in ctr_loop aes nonce l ciphertext (off + 16)
               (plaintext @ map (\<lambda>i. ciphertext ! (off + i) XOR ks ! i) [0..<n]))
      else Some plaintext)"
  by pat_completeness auto
termination
  by (relation "measure (\<lambda>(aes, nonce, l, ct, off, pt). length ct - off)") auto

declare ctr_loop.simps [simp del]

text \<open>\<open>x ^= blk; aes.encrypt(x, x)\<close>, with a block of up to 16 bytes of \<open>data\<close> from \<open>off\<close>.\<close>

definition mac_block :: "(bytes \<Rightarrow> bytes) \<Rightarrow> bytes \<Rightarrow> bytes \<Rightarrow> bytes" where
  "mac_block aes blk x = aes (map (\<lambda>i. x ! i XOR blk ! i) [0..<16])"

definition copy_block :: "bytes \<Rightarrow> nat \<Rightarrow> nat \<Rightarrow> bytes" where
  "copy_block data off n = take n (drop off data) @ replicate (16 - n) 0"

function aad_fill :: "bytes \<Rightarrow> bytes \<Rightarrow> nat \<Rightarrow> nat \<Rightarrow> bytes \<times> nat" where
  "aad_fill aad blk pos ai =
     (if pos < 16 \<and> ai < length aad then aad_fill aad (blk[pos := aad ! ai]) (pos + 1) (ai + 1) else (blk, ai))"
  by pat_completeness auto
termination
  by (relation "measure (\<lambda>(aad, blk, pos, ai). 16 - pos)") auto

declare aad_fill.simps [simp del]

function aad_loop :: "(bytes \<Rightarrow> bytes) \<Rightarrow> bytes \<Rightarrow> nat \<Rightarrow> bytes \<Rightarrow> bytes" where
  "aad_loop aes aad ai x =
     (if ai < length aad then
        let n = min 16 (length aad - ai)
        in aad_loop aes aad (ai + n) (mac_block aes (copy_block aad ai n) x)
      else x)"
  by pat_completeness auto
termination
  by (relation "measure (\<lambda>(aes, aad, ai, x). length aad - ai)") auto

declare aad_loop.simps [simp del]

function mac_loop :: "(bytes \<Rightarrow> bytes) \<Rightarrow> bytes \<Rightarrow> nat \<Rightarrow> bytes \<Rightarrow> bytes" where
  "mac_loop aes plaintext off x =
     (if off < length plaintext then
        mac_loop aes plaintext (off + 16)
          (mac_block aes (copy_block plaintext off (min 16 (length plaintext - off))) x)
      else x)"
  by pat_completeness auto
termination
  by (relation "measure (\<lambda>(aes, pt, off, x). length pt - off)") auto

declare mac_loop.simps [simp del]

definition mac_aad :: "(bytes \<Rightarrow> bytes) \<Rightarrow> bytes \<Rightarrow> bytes \<Rightarrow> bytes" where
  "mac_aad aes aad x =
     (if 0 < length aad then
        let blk = replicate 16 0;
            blk = blk[0 := ucast (drop_bit 8 (of_nat (length aad) :: u32) AND 0xff)];
            blk = blk[1 := ucast ((of_nat (length aad) :: u32) AND 0xff)];
            (blk, ai) = aad_fill aad blk 2 0
        in aad_loop aes aad ai (mac_block aes blk x)
      else x)"

definition mac_flags :: "nat \<Rightarrow> nat \<Rightarrow> nat \<Rightarrow> u8" where
  "mac_flags aad_len m l =
     (if 0 < aad_len then 0x40 else 0x00) OR push_bit 3 (of_nat ((m - 2) div 2)) OR of_nat (l - 1)"

definition tag_diff :: "bytes \<Rightarrow> bytes \<Rightarrow> bytes \<Rightarrow> u8" where
  "tag_diff x s0 tag = foldl (\<lambda>diff i. diff OR ((x ! i XOR s0 ! i) XOR tag ! i)) 0 [0..<length tag]"

text \<open>The function after its parameter check and the construction of \<open>aes\<close>.\<close>

definition ccm_open ::
  "(bytes \<Rightarrow> bytes) \<Rightarrow> bytes \<Rightarrow> bytes \<Rightarrow> bytes \<Rightarrow> bytes \<Rightarrow> (bool \<times> bytes) option" where
  "ccm_open aes nonce aad ciphertext tag =
     (let l = 15 - length nonce;
          m = length tag
      in Option.bind (build_ctr nonce l 0) (\<lambda>a.
         let s0 = aes a
         in Option.bind (ctr_loop aes nonce l ciphertext 0 []) (\<lambda>plaintext.
            Option.bind (store_be l (of_nat (length ciphertext))
              (mac_flags (length aad) m l # nonce @ replicate l 0)) (\<lambda>b0.
            let x = aes b0;
                x = mac_aad aes aad x;
                x = mac_loop aes plaintext 0 x
            in Some (tag_diff x s0 tag = 0, plaintext)))))"

definition aes_ccm_auth_decrypt ::
  "bytes \<Rightarrow> bytes \<Rightarrow> bytes \<Rightarrow> bytes \<Rightarrow> bytes \<Rightarrow> (bool \<times> bytes) option" where
  "aes_ccm_auth_decrypt key nonce aad ciphertext tag =
     (if length nonce < 7 \<or> 13 < length nonce \<or> length tag < 4 \<or> 16 < length tag then Some (False, [])
      else ccm_open (encrypt (key_schedule key)) nonce aad ciphertext tag)"

text \<open>\<open>irk\<close>: the 16 bytes the pointer points to; \<open>None\<close>: the build without \<open>USE_BLE_DEVICE_IRK\<close>.\<close>

definition resolve_irk :: "bool \<Rightarrow> bytes \<Rightarrow> espbt_device \<Rightarrow> bool" where
  "resolve_irk use_irk irk dev =
     (if \<not> use_irk then False
      else
        let addr64 = address_uint64 (dev_address dev);
            ecb_plaintext = (replicate 16 0)
              [13 := ucast (drop_bit 40 addr64 AND 0xff), 14 := ucast (drop_bit 32 addr64 AND 0xff),
               15 := ucast (drop_bit 24 addr64 AND 0xff)];
            ecb_ciphertext = aes128_encrypt_block irk ecb_plaintext
        in ucast (ecb_ciphertext ! 15) = (addr64 AND 0xff)
           \<and> ucast (ecb_ciphertext ! 14) = (drop_bit 8 addr64 AND 0xff)
           \<and> ucast (ecb_ciphertext ! 13) = (drop_bit 16 addr64 AND 0xff))"

section \<open>RFC 3610\<close>

definition be_bytes :: "nat \<Rightarrow> nat \<Rightarrow> bytes" where
  "be_bytes w n = map (\<lambda>i. of_nat (n div 256 ^ (w - 1 - i))) [0..<w]"

definition pad16 :: "bytes \<Rightarrow> bytes" where
  "pad16 xs = xs @ replicate ((16 - length xs mod 16) mod 16) 0"

function blocks16 :: "bytes \<Rightarrow> bytes list" where
  "blocks16 xs = (if xs = [] then [] else take 16 xs # blocks16 (drop 16 xs))"
  by pat_completeness auto
termination by (relation "measure length") auto

declare blocks16.simps [simp del]

text \<open>\<open>L\<close>, the width of the length field, is what the nonce leaves of 15 bytes; \<open>M\<close> is the length of the tag.\<close>

definition ccm_params :: "nat \<Rightarrow> bytes \<Rightarrow> bytes \<Rightarrow> nat \<Rightarrow> bool" where
  "ccm_params M nonce aad n \<longleftrightarrow> M \<in> {4, 6, 8, 10, 12, 14, 16} \<and> 7 \<le> length nonce \<and> length nonce \<le> 13
     \<and> n < 256 ^ (15 - length nonce) \<and> length aad < 0xFF00"

definition ccm_B0 :: "nat \<Rightarrow> bytes \<Rightarrow> bytes \<Rightarrow> nat \<Rightarrow> bytes" where
  "ccm_B0 M nonce aad n =
     (let L = 15 - length nonce
      in of_nat ((if aad = [] then 0 else 64) + 8 * ((M - 2) div 2) + (L - 1)) # nonce @ be_bytes L n)"

definition ccm_blocks :: "nat \<Rightarrow> bytes \<Rightarrow> bytes \<Rightarrow> bytes \<Rightarrow> bytes list" where
  "ccm_blocks M nonce aad msg =
     ccm_B0 M nonce aad (length msg)
     # blocks16 (if aad = [] then [] else pad16 (be_bytes 2 (length aad) @ aad))
     @ blocks16 (pad16 msg)"

definition cbc_mac :: "(bytes \<Rightarrow> bytes) \<Rightarrow> bytes list \<Rightarrow> bytes" where
  "cbc_mac E bs = foldl (\<lambda>x b. E (xor_bytes x b)) (replicate 16 0) bs"

definition ccm_A :: "bytes \<Rightarrow> nat \<Rightarrow> bytes" where
  "ccm_A nonce i = (let L = 15 - length nonce in of_nat (L - 1) # nonce @ be_bytes L i)"

definition ccm_stream :: "(bytes \<Rightarrow> bytes) \<Rightarrow> bytes \<Rightarrow> nat \<Rightarrow> bytes" where
  "ccm_stream E nonce n = concat (map (\<lambda>i. E (ccm_A nonce (i + 1))) [0..<(n + 15) div 16])"

definition ccm_crypt :: "(bytes \<Rightarrow> bytes) \<Rightarrow> bytes \<Rightarrow> bytes \<Rightarrow> bytes" where
  "ccm_crypt E nonce msg = xor_bytes msg (ccm_stream E nonce (length msg))"

definition ccm_tag :: "(bytes \<Rightarrow> bytes) \<Rightarrow> nat \<Rightarrow> bytes \<Rightarrow> bytes \<Rightarrow> bytes \<Rightarrow> bytes" where
  "ccm_tag E M nonce aad msg =
     xor_bytes (take M (cbc_mac E (ccm_blocks M nonce aad msg))) (take M (E (ccm_A nonce 0)))"

definition ccm_encrypt ::
  "(bytes \<Rightarrow> bytes) \<Rightarrow> nat \<Rightarrow> bytes \<Rightarrow> bytes \<Rightarrow> bytes \<Rightarrow> bytes \<times> bytes" where
  "ccm_encrypt E M nonce aad msg = (ccm_crypt E nonce msg, ccm_tag E M nonce aad msg)"

section \<open>Fields and blocks\<close>

lemma low_byte: "ucast (w AND 0xff :: u32) = (of_nat (unat w) :: u8)"
proof -
  have "(0xff :: u32) = mask 8" by (simp add: mask_eq_exp_minus_1)
  then have "ucast (w AND 0xff) = (ucast (take_bit 8 w) :: u8)" by (simp add: take_bit_eq_mask)
  also have "\<dots> = ucast w" by (rule bit_word_eqI) (auto simp: bit_ucast_iff bit_take_bit_iff)
  also have "\<dots> = of_nat (unat w)" by simp
  finally show ?thesis .
qed

lemma be_byte: "ucast (drop_bit (8 * i) (v :: u32) AND 0xff) = (of_nat (unat v div 256 ^ i) :: u8)"
proof -
  have "unat (drop_bit (8 * i) v) = unat v div 256 ^ i"
    by (subst unat_drop_bit_eq) (simp add: drop_bit_eq_div power_mult)
  then show ?thesis unfolding low_byte by (simp only:)
qed

text \<open>
  For a nonce of 11 to 13 bytes the field of the length is 4 to 2 bytes wide, and the stores stay
  inside the 32 bits; for a shorter one the code shifts a 32-bit value by 32 bits or more.
\<close>

lemma store_be_fits:
  assumes "length pre + l = 16" "2 \<le> l" "l \<le> 4"
  shows "store_be l v (pre @ replicate l 0) = Some (pre @ be_bytes l (unat v))"
proof -
  have b: "[0..<2] = [0, 1]" "[0..<3] = [0, 1, 2]" "[0..<4] = [0, 1, 2, 3 :: nat]"
    by (simp_all add: upt_rec flip: numeral_2_eq_2)
  have r: "replicate 2 x = [x, x]" "replicate 3 x = [x, x, x]" "replicate 4 x = [x, x, x, x]" for x :: u8
    by (simp_all add: eval_nat_numeral)
  have byte: "ucast (v AND 0xff) = (of_nat (unat v) :: u8)" "ucast (drop_bit 8 v AND 0xff) = (of_nat (unat v div 256) :: u8)"
    "ucast (drop_bit 16 v AND 0xff) = (of_nat (unat v div 65536) :: u8)"
    "ucast (drop_bit 24 v AND 0xff) = (of_nat (unat v div 16777216) :: u8)"
    using be_byte [of 0 v] be_byte [of 1 v] be_byte [of 2 v] be_byte [of 3 v] by simp_all
  from assms(2,3) consider "l = 2" | "l = 3" | "l = 4" by linarith
  then show ?thesis
    using assms(1)
    by cases (simp_all add: store_be_def store_be_byte_def be_bytes_def b r byte list_update_append)
qed

lemma store_be_overflow:
  assumes "5 \<le> l"
  shows "store_be l v a = None"
proof -
  have none: "foldl (store_be_byte v) None is = None" for "is"
    by (induction "is") (simp_all add: store_be_byte_def)
  have "[0..<l] = [0..<4] @ [4..<l]" using upt_add_eq_append [of 0 4 "l - 4"] assms by simp
  moreover have "[4..<l] = 4 # [5..<l]" using assms by (simp add: upt_conv_Cons)
  moreover have "store_be_byte v x 4 = None" for x
    by (cases x) (simp_all add: store_be_byte_def)
  ultimately show ?thesis by (simp add: store_be_def none)
qed

lemma length_be_bytes [simp]: "length (be_bytes w n) = w"
  by (simp add: be_bytes_def)

lemma build_ctr_fits:
  assumes "11 \<le> length nonce" "length nonce \<le> 13"
  shows "build_ctr nonce (15 - length nonce) c = Some (ccm_A nonce (unat c))"
  using store_be_fits [of "of_nat (14 - length nonce) # nonce" "15 - length nonce" c] assms
  by (auto simp: build_ctr_def ccm_A_def Let_def)

lemma length_xor_bytes [simp]: "length (xor_bytes xs ys) = min (length xs) (length ys)"
  by (simp add: xor_bytes_def)

lemma xor_bytes_append:
  "xor_bytes xs (ys @ zs) = xor_bytes (take (length ys) xs) ys @ xor_bytes (drop (length ys) xs) zs"
  by (simp add: xor_bytes_def zip_append2)

lemma xor_bytes_nth:
  "length ys = 16 \<Longrightarrow> length xs \<le> 16 \<Longrightarrow> xor_bytes xs ys = map (\<lambda>i. xs ! i XOR ys ! i) [0..<length xs]"
  by (rule nth_equalityI) (simp_all add: xor_bytes_def)

lemma xor_bytes_twice:
  "length xs \<le> length ys \<Longrightarrow> xor_bytes (xor_bytes xs ys) ys = xs"
  by (rule nth_equalityI) (simp_all add: xor_bytes_def xor.assoc)

lemma replicate_16_split: "replicate 16 x = x # x # replicate 14 x"
  by (simp add: eval_nat_numeral)

lemma pad16_step:
  assumes "xs \<noteq> []"
  shows "blocks16 (pad16 xs) = copy_block xs 0 (min 16 (length xs)) # blocks16 (pad16 (drop 16 xs))"
proof -
  have ne: "pad16 xs \<noteq> []" using assms by (simp add: pad16_def)
  show ?thesis
  proof (cases "16 \<le> length xs")
    case True
    then have "(16 - (length xs - 16) mod 16) mod 16 = (16 - length xs mod 16) mod 16"
      by (metis le_add_diff_inverse2 mod_add_self2)
    with True have "drop 16 (pad16 xs) = pad16 (drop 16 xs)" "take 16 (pad16 xs) = copy_block xs 0 16"
      by (simp_all add: pad16_def copy_block_def)
    with ne True show ?thesis by (subst blocks16.simps) (simp add: min_def)
  next
    case False
    have "0 < length xs" using assms by simp
    with False have "(16 - length xs mod 16) mod 16 = 16 - length xs" by simp
    with False have "pad16 xs = copy_block xs 0 (length xs)" "length (pad16 xs) = 16"
      by (simp_all add: pad16_def copy_block_def)
    moreover from this have "blocks16 (pad16 xs) = [pad16 xs]"
      using ne by (subst blocks16.simps) (simp add: blocks16.simps [of "[]"])
    ultimately show ?thesis
      using False by (simp add: pad16_def blocks16.simps [of "[]"] min_def)
  qed
qed

lemma copy_block_drop: "copy_block (drop k xs) 0 n = copy_block xs k n"
  by (simp add: copy_block_def)

lemma blocks16_Nil [simp]: "blocks16 [] = []"
  by (subst blocks16.simps) simp

lemma length_copy_block: "n \<le> 16 \<Longrightarrow> k + n \<le> length xs \<Longrightarrow> length (copy_block xs k n) = 16"
  by (simp add: copy_block_def)

section \<open>CCM over any block cipher\<close>

locale block_cipher =
  fixes E :: "bytes \<Rightarrow> bytes"
  assumes length_E: "length (E b) = 16"
begin

abbreviation absorb :: "bytes \<Rightarrow> bytes \<Rightarrow> bytes" where
  "absorb x b \<equiv> E (xor_bytes x b)"

lemma mac_block_absorb: "length x = 16 \<Longrightarrow> length b = 16 \<Longrightarrow> mac_block E b x = absorb x b"
  by (simp add: mac_block_def xor_bytes_nth)

lemma mac_block_at:
  "length x = 16 \<Longrightarrow> off < length xs \<Longrightarrow>
   mac_block E (copy_block xs off (min 16 (length xs - off))) x
     = absorb x (copy_block (drop off xs) 0 (min 16 (length (drop off xs))))"
  by (simp add: mac_block_absorb copy_block_drop length_copy_block)

lemma mac_loop_blocks:
  "length x = 16 \<Longrightarrow> mac_loop E pt off x = foldl absorb x (blocks16 (pad16 (drop off pt)))"
proof (induction "length pt - off" arbitrary: off x rule: less_induct)
  case less
  show ?case
  proof (cases "off < length pt")
    case True
    let ?b = "copy_block (drop off pt) 0 (min 16 (length (drop off pt)))"
    have "mac_loop E pt off x = mac_loop E pt (off + 16) (absorb x ?b)"
      using True less.prems by (subst mac_loop.simps) (simp add: mac_block_at)
    also have "\<dots> = foldl absorb (absorb x ?b) (blocks16 (pad16 (drop (off + 16) pt)))"
      using True by (intro less.hyps) (simp_all add: length_E)
    also have "\<dots> = foldl absorb x (blocks16 (pad16 (drop off pt)))"
      using True pad16_step [of "drop off pt"] by (simp add: add.commute)
    finally show ?thesis .
  qed (subst mac_loop.simps, simp add: pad16_def)
qed

lemma aad_loop_blocks:
  "length x = 16 \<Longrightarrow> aad_loop E aad ai x = foldl absorb x (blocks16 (pad16 (drop ai aad)))"
proof (induction "length aad - ai" arbitrary: ai x rule: less_induct)
  case less
  show ?case
  proof (cases "ai < length aad")
    case True
    let ?n = "min 16 (length aad - ai)"
    let ?b = "copy_block (drop ai aad) 0 (min 16 (length (drop ai aad)))"
    have "aad_loop E aad ai x = aad_loop E aad (ai + ?n) (absorb x ?b)"
      using True less.prems by (subst aad_loop.simps) (simp add: mac_block_at Let_def)
    also have "\<dots> = foldl absorb (absorb x ?b) (blocks16 (pad16 (drop (ai + ?n) aad)))"
      using True by (intro less.hyps) (simp_all add: length_E)
    also have "drop (ai + ?n) aad = drop (ai + 16) aad" by (simp add: min_def)
    also have "foldl absorb (absorb x ?b) (blocks16 (pad16 (drop (ai + 16) aad)))
        = foldl absorb x (blocks16 (pad16 (drop ai aad)))"
      using True pad16_step [of "drop ai aad"] by (simp add: add.commute)
    finally show ?thesis .
  qed (subst aad_loop.simps, simp add: pad16_def)
qed

text \<open>The first block of the associated data: its length in two bytes, then up to 14 bytes.\<close>

lemma mac_aad_blocks:
  assumes "length x = 16" "length aad < 0xFF00"
  shows "mac_aad E aad x
    = foldl absorb x (blocks16 (if aad = [] then [] else pad16 (be_bytes 2 (length aad) @ aad)))"
proof (cases "aad = []")
  case False
  let ?h = "be_bytes 2 (length aad)" and ?n = "min 14 (length aad)"
  have fill: "aad_fill aad (pre @ replicate (16 - pos) 0) pos ai
      = (pre @ take k (drop ai aad) @ replicate (16 - pos - k) 0, ai + k)"
    if "length pre = pos" "k = min (16 - pos) (length aad - ai)" for pre :: bytes and pos ai k
    using that
  proof (induction k arbitrary: pre pos ai)
    case 0
    then show ?case by (subst aad_fill.simps) auto
  next
    case (Suc k)
    then have c: "pos < 16" "ai < length aad" by linarith+
    then have "replicate (16 - pos) 0 = 0 # replicate (16 - (pos + 1)) (0 :: u8)"
      by (metis Suc_diff_Suc Suc_eq_plus1 replicate_Suc)
    then have "(pre @ replicate (16 - pos) 0)[pos := aad ! ai] = (pre @ [aad ! ai]) @ replicate (16 - (pos + 1)) 0"
      using Suc.prems(1) by (simp add: list_update_append)
    with c have "aad_fill aad (pre @ replicate (16 - pos) 0) pos ai
        = aad_fill aad ((pre @ [aad ! ai]) @ replicate (16 - (pos + 1)) 0) (pos + 1) (ai + 1)"
      by (subst aad_fill.simps) simp
    also have "\<dots> = ((pre @ [aad ! ai]) @ take k (drop (ai + 1) aad) @ replicate (16 - (pos + 1) - k) 0, ai + 1 + k)"
      using Suc.prems by (intro Suc.IH) auto
    finally show ?case using c by (simp add: Cons_nth_drop_Suc [symmetric])
  qed
  have u: "unat (of_nat (length aad) :: u32) = length aad" using assms(2) by (simp add: unat_of_nat_u32)
  have "(replicate 16 0)[0 := ucast (drop_bit 8 (of_nat (length aad) :: u32) AND 0xff),
      1 := ucast ((of_nat (length aad) :: u32) AND 0xff)] = ?h @ replicate 14 0"
    using be_byte [of 1 "of_nat (length aad)"] be_byte [of 0 "of_nat (length aad)"]
    by (simp add: u be_bytes_def upt_rec replicate_16_split)
  then have "mac_aad E aad x = aad_loop E aad ?n (mac_block E (?h @ take ?n aad @ replicate (14 - ?n) 0) x)"
    using False fill [of ?h 2 ?n 0] by (simp add: mac_aad_def Let_def)
  also have "?h @ take ?n aad @ replicate (14 - ?n) 0
      = copy_block (?h @ aad) 0 (min 16 (length (?h @ aad)))"
    by (auto simp: copy_block_def min_def)
  also have "aad_loop E aad ?n (mac_block E \<dots> x)
      = foldl absorb (absorb x (copy_block (?h @ aad) 0 (min 16 (length (?h @ aad)))))
          (blocks16 (pad16 (drop ?n aad)))"
    using assms(1) by (simp add: aad_loop_blocks mac_block_absorb length_copy_block length_E)
  also have "drop ?n aad = drop 16 (?h @ aad)" by (simp add: min_def)
  finally show ?thesis using False pad16_step [of "?h @ aad"] by simp
qed (simp add: mac_aad_def)

lemma ctr_loop_stream:
  assumes "11 \<le> length nonce" "length nonce \<le> 13" "length ct < 2 ^ 32"
  shows "ctr_loop E nonce (15 - length nonce) ct (16 * k) pt
    = Some (pt @ xor_bytes (drop (16 * k) ct)
        (concat (map (\<lambda>i. E (ccm_A nonce (i + 1))) [k..<(length ct + 15) div 16])))"
proof (induction "length ct - 16 * k" arbitrary: k pt rule: less_induct)
  case less
  show ?case
  proof (cases "16 * k < length ct")
    case True
    let ?ks = "E (ccm_A nonce (k + 1))" and ?n = "min 16 (length ct - 16 * k)"
    have "k + 1 < 2 ^ 32" using True assms(3) by simp
    then have "unat (of_nat k + 1 :: u32) = k + 1"
      using unat_of_nat_u32 [of "k + 1"] by (simp add: add.commute)
    then have ctr: "build_ctr nonce (15 - length nonce) (of_nat k + 1) = Some (ccm_A nonce (k + 1))"
      using build_ctr_fits [OF assms(1,2)] by simp
    have off: "16 * k + 16 = 16 * (k + 1)" by simp
    have x: "xor_bytes (take 16 (drop (16 * k) ct)) ?ks = map (\<lambda>i. ct ! (16 * k + i) XOR ?ks ! i) [0..<?n]"
      using True by (subst xor_bytes_nth) (auto simp: length_E min.commute)
    have "ctr_loop E nonce (15 - length nonce) ct (16 * k) pt
        = ctr_loop E nonce (15 - length nonce) ct (16 * (k + 1)) (pt @ xor_bytes (take 16 (drop (16 * k) ct)) ?ks)"
      using True unfolding x by (subst ctr_loop.simps) (simp add: ctr Let_def off del: upt_Suc)
    also have "\<dots> = Some ((pt @ xor_bytes (take 16 (drop (16 * k) ct)) ?ks) @ xor_bytes (drop (16 * (k + 1)) ct)
        (concat (map (\<lambda>i. E (ccm_A nonce (i + 1))) [k + 1..<(length ct + 15) div 16])))"
      using True by (intro less.hyps) simp
    also have "\<dots> = Some (pt @ xor_bytes (drop (16 * k) ct)
        (concat (map (\<lambda>i. E (ccm_A nonce (i + 1))) (k # [k + 1..<(length ct + 15) div 16]))))"
      by (simp add: xor_bytes_append length_E add.commute)
    also have "k # [k + 1..<(length ct + 15) div 16] = [k..<(length ct + 15) div 16]"
      using True by (simp add: upt_conv_Cons)
    finally show ?thesis .
  next
    case False
    then show ?thesis by (subst ctr_loop.simps) (simp add: xor_bytes_def)
  qed
qed

lemma ctr_loop_crypt:
  assumes "11 \<le> length nonce" "length nonce \<le> 13" "length ct < 2 ^ 32"
  shows "ctr_loop E nonce (15 - length nonce) ct 0 [] = Some (ccm_crypt E nonce ct)"
  using ctr_loop_stream [OF assms, of 0 "[]"] by (simp add: ccm_crypt_def ccm_stream_def)

lemma length_stream: "length (ccm_stream E nonce n) = 16 * ((n + 15) div 16)"
proof -
  have "length (concat (map (\<lambda>i. E (ccm_A nonce (i + 1))) is)) = 16 * length is" for "is"
    by (induction "is") (simp_all add: length_E)
  then show ?thesis by (simp add: ccm_stream_def)
qed

lemma length_crypt [simp]: "length (ccm_crypt E nonce msg) = length msg"
proof -
  have "length msg \<le> 16 * ((length msg + 15) div 16)" by linarith
  then show ?thesis by (simp add: ccm_crypt_def length_stream)
qed

lemma crypt_twice [simp]: "ccm_crypt E nonce (ccm_crypt E nonce msg) = msg"
proof -
  have "length msg \<le> 16 * ((length msg + 15) div 16)" by linarith
  then show ?thesis
    using length_crypt by (simp add: ccm_crypt_def xor_bytes_twice length_stream)
qed

lemma xor_zero: "(a :: u8) XOR b = 0 \<longleftrightarrow> b = a"
  by (auto simp: bit_eq_iff bit_xor_iff)

lemma tag_diff_zero:
  assumes "length x = 16" "length s0 = 16" "length tag \<le> 16"
  shows "tag_diff x s0 tag = 0 \<longleftrightarrow> tag = xor_bytes (take (length tag) x) (take (length tag) s0)"
proof -
  have or: "a OR b = 0 \<longleftrightarrow> a = 0 \<and> b = 0" for a b :: u8
    by (auto simp: bit_eq_iff bit_or_iff)
  have f: "foldl (\<lambda>diff i. diff OR g i) d is = 0 \<longleftrightarrow> d = 0 \<and> (\<forall>i \<in> set is. g i = 0)"
    for d "is" and g :: "nat \<Rightarrow> u8"
    by (induction "is" arbitrary: d) (auto simp: or)
  have "tag_diff x s0 tag = 0 \<longleftrightarrow> (\<forall>i < length tag. tag ! i = x ! i XOR s0 ! i)"
    unfolding tag_diff_def f by (auto simp: xor_zero)
  also have "\<dots> \<longleftrightarrow> tag = xor_bytes (take (length tag) x) (take (length tag) s0)"
    using assms by (auto simp: list_eq_iff_nth_eq xor_bytes_def)
  finally show ?thesis .
qed

lemma mac_flags_standard:
  assumes "M \<in> {4, 6, 8, 10, 12, 14, 16}" "2 \<le> l" "l \<le> 4"
  shows "mac_flags n M l = of_nat ((if n = 0 then 0 else 64) + 8 * ((M - 2) div 2) + (l - 1))"
proof -
  from assms(2,3) consider "l = 2" | "l = 3" | "l = 4" by linarith
  then show ?thesis using assms(1) by cases (auto simp: mac_flags_def)
qed

lemma length_mac: "length x = 16 \<Longrightarrow> length (foldl absorb x bs) = 16"
  by (induction bs arbitrary: x) (simp_all add: length_E)

lemma xor_zeros: "length b = 16 \<Longrightarrow> xor_bytes (replicate 16 0) b = b"
  by (rule nth_equalityI) (simp_all add: xor_bytes_def)

lemma ccm_open_standard:
  assumes "11 \<le> length nonce" "ccm_params (length tag) nonce aad (length ct)" "length ct < 2 ^ 32"
  shows "ccm_open E nonce aad ct tag
    = Some (tag = ccm_tag E (length tag) nonce aad (ccm_crypt E nonce ct), ccm_crypt E nonce ct)"
proof -
  let ?l = "15 - length nonce" and ?m = "length tag" and ?pt = "ccm_crypt E nonce ct"
  from assms(2) have n: "length nonce \<le> 13" and m: "?m \<in> {4, 6, 8, 10, 12, 14, 16}"
    and a: "length aad < 0xFF00" by (simp_all add: ccm_params_def)
  have l: "2 \<le> ?l" "?l \<le> 4" using assms(1) n by linarith+
  have u: "unat (of_nat (length ct) :: u32) = length ct" using assms(3) by (rule unat_of_nat_u32)
  let ?B0 = "ccm_B0 ?m nonce aad (length ct)"
  have "store_be ?l (of_nat (length ct)) (mac_flags (length aad) ?m ?l # nonce @ replicate ?l 0) = Some ?B0"
    using store_be_fits [of "mac_flags (length aad) ?m ?l # nonce" ?l "of_nat (length ct)"] l n
    by (simp add: mac_flags_standard [OF m l] ccm_B0_def Let_def u)
  moreover have "length ?B0 = 16" using n by (simp add: ccm_B0_def Let_def)
  moreover have "E ?B0 = absorb (replicate 16 0) ?B0" using \<open>length ?B0 = 16\<close> by (simp add: xor_zeros)
  ultimately have b0: "store_be ?l (of_nat (length ct)) (mac_flags (length aad) ?m ?l # nonce @ replicate ?l 0) = Some ?B0"
    and x: "mac_loop E ?pt 0 (mac_aad E aad (E ?B0)) = cbc_mac E (ccm_blocks ?m nonce aad ?pt)"
    by (simp_all add: mac_loop_blocks mac_aad_blocks length_E a length_mac cbc_mac_def ccm_blocks_def)
  have len: "length (cbc_mac E (ccm_blocks ?m nonce aad ?pt)) = 16"
    by (simp add: cbc_mac_def length_mac)
  have c0: "build_ctr nonce ?l 0 = Some (ccm_A nonce 0)"
    using build_ctr_fits [OF assms(1) n, of 0] by simp
  have "tag_diff (cbc_mac E (ccm_blocks ?m nonce aad ?pt)) (E (ccm_A nonce 0)) tag = 0
      \<longleftrightarrow> tag = ccm_tag E ?m nonce aad ?pt"
    using tag_diff_zero [OF len length_E] m by (auto simp: ccm_tag_def)
  then show ?thesis
    by (simp add: ccm_open_def Let_def c0 b0 x ctr_loop_crypt [OF assms(1) n assms(3)])
qed

end

section \<open>CCM with AES\<close>

lemma length_encrypt: "length (encrypt rk b) = 16"
  by (simp add: encrypt_def add_round_key_def Let_def)

interpretation aes: block_cipher "encrypt rk" for rk
  by unfold_locales (rule length_encrypt)

interpretation fips: block_cipher "Cipher key" for key
  by unfold_locales (rule length_Cipher)

text \<open>CCM looks at the cipher on whole blocks only.\<close>

lemma blocks16_widths: "\<forall>b \<in> set (blocks16 (pad16 xs)). length b = 16"
proof (induction "length xs" arbitrary: xs rule: less_induct)
  case less
  show ?case
  proof (cases "xs = []")
    case False
    then show ?thesis
      using less.hyps [of "drop 16 xs"] by (simp add: pad16_step [OF False] length_copy_block)
  qed (simp add: pad16_def)
qed

lemma ccm_encrypt_cong:
  assumes "\<And>b. length b = 16 \<Longrightarrow> E b = F b" "\<And>b. length (E b) = 16" "length nonce \<le> 13"
  shows "ccm_crypt E nonce msg = ccm_crypt F nonce msg \<and> ccm_tag E M nonce aad msg = ccm_tag F M nonce aad msg"
proof -
  have A: "length (ccm_A nonce i) = 16" for i using assms(3) by (simp add: ccm_A_def Let_def)
  have "\<forall>b \<in> set (ccm_blocks M nonce aad msg). length b = 16"
    using assms(3) blocks16_widths by (auto simp: ccm_blocks_def ccm_B0_def Let_def)
  moreover have "foldl (\<lambda>x b. E (xor_bytes x b)) x bs = foldl (\<lambda>x b. F (xor_bytes x b)) x bs"
    if "length x = 16" "\<forall>b \<in> set bs. length b = 16" for x bs
    using that
  proof (induction bs arbitrary: x)
    case (Cons b bs)
    have "E (xor_bytes x b) = F (xor_bytes x b)" using Cons.prems by (intro assms(1)) simp
    moreover have "length (E (xor_bytes x b)) = 16" by (rule assms(2))
    ultimately show ?case using Cons.IH [of "E (xor_bytes x b)"] Cons.prems by simp
  qed simp
  ultimately have "cbc_mac E (ccm_blocks M nonce aad msg) = cbc_mac F (ccm_blocks M nonce aad msg)"
    by (simp add: cbc_mac_def)
  then show ?thesis
    using A assms(1) by (simp add: ccm_crypt_def ccm_stream_def ccm_tag_def)
qed

lemma ccm_cipher:
  assumes "length key = 16" "length nonce \<le> 13"
  shows "ccm_crypt (encrypt (key_schedule key)) nonce msg = ccm_crypt (Cipher key) nonce msg"
    "ccm_tag (encrypt (key_schedule key)) M nonce aad msg = ccm_tag (Cipher key) M nonce aad msg"
  using ccm_encrypt_cong [OF encrypt_standard [OF assms(1)] length_encrypt assms(2)] by simp_all

section \<open>Properties\<close>

lemma decrypt_standard:
  assumes "length key = 16" "11 \<le> length nonce" "ccm_params (length tag) nonce aad (length ct)" "length ct < 2 ^ 32"
  shows "aes_ccm_auth_decrypt key nonce aad ct tag
    = Some (tag = ccm_tag (Cipher key) (length tag) nonce aad (ccm_crypt (Cipher key) nonce ct),
        ccm_crypt (Cipher key) nonce ct)"
proof -
  have "length nonce \<le> 13" "4 \<le> length tag" "length tag \<le> 16"
    using assms(3) by (auto simp: ccm_params_def)
  then show ?thesis
    using aes.ccm_open_standard [OF assms(2-4), of "key_schedule key"] assms(2)
    by (simp add: aes_ccm_auth_decrypt_def ccm_cipher [OF assms(1)])
qed

text \<open>
  C10. Decryption authenticates. For a nonce of 11 to 13 bytes and parameters RFC 3610 allows,
  \<open>aes_ccm_auth_decrypt\<close> writes as many bytes as the ciphertext has, and returns true if and only if the
  ciphertext and the tag are exactly what CCM over the AES-128 of FIPS 197 makes of these bytes: no
  other tag, and no other ciphertext under the same tag and plaintext, is accepted.
\<close>
theorem ccm_decrypts_exactly:
  assumes "length key = 16" "11 \<le> length nonce" "ccm_params (length tag) nonce aad (length ct)" "length ct < 2 ^ 32"
  shows "\<exists>ok pt. aes_ccm_auth_decrypt key nonce aad ct tag = Some (ok, pt) \<and> length pt = length ct
    \<and> (ok \<longleftrightarrow> ccm_encrypt (Cipher key) (length tag) nonce aad pt = (ct, tag))"
  using decrypt_standard [OF assms] by (auto simp: ccm_encrypt_def)

definition sample_key :: bytes where
  "sample_key = map of_nat [0..<16]"

theorem ccm_decrypts_exactly_witness:
  "\<exists>ok pt. aes_ccm_auth_decrypt sample_key (replicate 13 1) [] [2, 3, 4] [5, 6, 7, 8] = Some (ok, pt) \<and> length pt = 3
    \<and> (ok \<longleftrightarrow> ccm_encrypt (Cipher sample_key) 4 (replicate 13 1) [] pt = ([2, 3, 4], [5, 6, 7, 8]))"
proof -
  have l: "length [5, 6, 7, 8 :: u8] = 4" "length [2, 3, 4 :: u8] = 3" by simp_all
  show ?thesis
    using ccm_decrypts_exactly [of sample_key "replicate 13 1" "[5, 6, 7, 8]" "[]" "[2, 3, 4]"]
    unfolding l by (simp add: sample_key_def ccm_params_def)
qed

text \<open>
  What CCM encrypts is decrypted. The ciphertext and tag that RFC 3610 prescribes for a message are
  accepted, and the message comes back, for every key, every nonce of 11 to 13 bytes, every associated
  data and message within the limits of the standard.
\<close>
theorem ccm_roundtrip:
  assumes "length key = 16" "11 \<le> length nonce" "ccm_params M nonce aad (length msg)" "length msg < 2 ^ 32"
    and "ccm_encrypt (Cipher key) M nonce aad msg = (ct, tag)"
  shows "aes_ccm_auth_decrypt key nonce aad ct tag = Some (True, msg)"
proof -
  from assms(5) have ct: "ct = ccm_crypt (Cipher key) nonce msg" "tag = ccm_tag (Cipher key) M nonce aad msg"
    by (simp_all add: ccm_encrypt_def)
  have "length (cbc_mac (Cipher key) bs) = 16" for bs
    by (simp add: cbc_mac_def fips.length_mac)
  then have "length tag = M" "length ct = length msg"
    using assms(3) by (auto simp: ct ccm_tag_def ccm_params_def)
  then show ?thesis
    using decrypt_standard [OF assms(1,2), of tag aad ct] assms(3,4) ct by simp
qed

theorem ccm_roundtrip_witness:
  "case ccm_encrypt (Cipher sample_key) 8 (replicate 13 1) [9, 9] [2, 3, 4] of
     (ct, tag) \<Rightarrow> aes_ccm_auth_decrypt sample_key (replicate 13 1) [9, 9] ct tag = Some (True, [2, 3, 4])"
  using ccm_roundtrip [of sample_key "replicate 13 1" 8 "[9, 9]" "[2, 3, 4]"]
  by (simp add: sample_key_def ccm_params_def split: prod.splits)

text \<open>
  A shorter nonce is undefined behaviour. The guard lets nonces of 7 to 10 bytes through, as RFC 3610
  does, but their length field has 5 to 8 bytes, and the first counter block already shifts a 32-bit
  value by 32 bits or more.
\<close>
theorem ccm_short_nonce_undefined:
  assumes "7 \<le> length nonce" "length nonce \<le> 10" "4 \<le> length tag" "length tag \<le> 16"
  shows "aes_ccm_auth_decrypt key nonce aad ct tag = None"
  using assms by (simp add: aes_ccm_auth_decrypt_def ccm_open_def build_ctr_def store_be_overflow Let_def)

theorem ccm_short_nonce_undefined_witness:
  "aes_ccm_auth_decrypt sample_key (replicate 10 1) [] [] [5, 6, 7, 8] = None"
  using ccm_short_nonce_undefined [of "replicate 10 1" "[5, 6, 7, 8]"] by simp

text \<open>The function \<open>ah\<close> of the Bluetooth specification: the last 24 bits of the cipher of the padded random part.\<close>

definition ah :: "bytes \<Rightarrow> bytes \<Rightarrow> bytes" where
  "ah k r = drop 13 (Cipher k (replicate 13 0 @ r))"

lemma byte_eq_64: "ucast (a :: u8) = (w AND 0xff :: u64) \<longleftrightarrow> a = ucast w"
proof -
  have m: "(0xff :: u64) = mask 8" by (simp add: mask_eq_exp_minus_1)
  have "(w AND 0xff) = ucast (ucast w :: u8)"
    unfolding m by (rule bit_word_eqI) (auto simp: bit_and_iff bit_mask_iff bit_ucast_iff)
  moreover have "ucast (ucast b :: u64) = b" for b :: u8
    by (rule bit_word_eqI) (auto simp: bit_ucast_iff)
  ultimately show ?thesis by metis
qed

lemma address_bytes:
  assumes "length a = 6"
  shows "uint64_to_mac_msb_first (address_uint64 a) = a"
proof -
  have "address_uint64 a = le_word (rev a)" using address_uint64_rev [of "rev a"] assms by simp
  moreover have "le_bytes 6 (le_word (rev a) :: u64) = rev a"
    using le_bytes_le_word [of "rev a", where 'a = 64] assms by simp
  ultimately show ?thesis by (simp add: uint64_to_mac_msb_first_rev)
qed

text \<open>
  C22. An identity key resolves exactly the addresses derived from it: for an address whose bytes, most
  significant first, are the random part \<open>r\<close> and the hash \<open>h\<close>, \<open>resolve_irk\<close> is true if and only if \<open>h\<close>
  is the Bluetooth function \<open>ah\<close>, over AES-128, of the key and \<open>r\<close>.
\<close>
theorem irk_resolves_exactly:
  assumes "length irk = 16" "length r = 3" "length h = 3" "dev_address dev = r @ h"
  shows "resolve_irk True irk dev \<longleftrightarrow> h = ah irk r"
proof -
  obtain r0 r1 r2 h0 h1 h2 where rh: "r = [r0, r1, r2]" "h = [h0, h1, h2]"
    using assms(2,3) by (auto simp: eval_nat_numeral length_Suc_conv)
  let ?a = "address_uint64 (dev_address dev)"
  have b: "ucast (drop_bit 40 ?a) = r0" "ucast (drop_bit 32 ?a) = r1" "ucast (drop_bit 24 ?a) = r2"
    "ucast (drop_bit 16 ?a) = h0" "ucast (drop_bit 8 ?a) = h1" "ucast ?a = h2"
    using address_bytes [of "dev_address dev"]
    by (simp_all add: assms(4) rh uint64_to_mac_msb_first_def upt_0_6 ucast_and_FF)
  have pad: "(replicate 16 0) [13 := r0, 14 := r1, 15 := r2] = replicate 13 0 @ r"
    by (simp add: rh eval_nat_numeral)
  have d: "drop 13 c = [c ! 13, c ! 14, c ! 15]" if "length c = 16" for c :: bytes
    by (rule block_cases [OF that]) simp
  let ?c = "Cipher irk (replicate 13 0 @ r)"
  have "resolve_irk True irk dev \<longleftrightarrow> ?c ! 15 = h2 \<and> ?c ! 14 = h1 \<and> ?c ! 13 = h0"
    using encrypt_standard [OF assms(1), of "replicate 13 0 @ r"] assms(2)
    by (simp add: resolve_irk_def Let_def byte_eq_64 b ucast_and_FF pad aes128_encrypt_block_def)
  also have "\<dots> \<longleftrightarrow> h = drop 13 ?c"
    using d [OF length_Cipher [of irk "replicate 13 0 @ r"]] by (auto simp: rh)
  finally show ?thesis by (simp add: ah_def)
qed

theorem irk_resolves_exactly_witness:
  "resolve_irk True sample_key (device0\<lparr>dev_address := [1, 2, 3] @ ah sample_key [1, 2, 3]\<rparr>)"
  using irk_resolves_exactly [of sample_key "[1, 2, 3]" "ah sample_key [1, 2, 3]"
      "device0\<lparr>dev_address := [1, 2, 3] @ ah sample_key [1, 2, 3]\<rparr>"]
  by (simp add: sample_key_def ah_def)

end
