(* ===== verification/AdvertTypes.thy ===== *)
theory AdvertTypes
  imports BleAdvert
begin

text \<open>
  The parser of \<open>BleAdvert\<close> as a typed program: on any payload it gets to an end inside its buffers, and
  the device it leaves is well-formed, so that what reads the device (UUID comparison, the iBeacon
  view) finds arrays of the lengths it relies on.
\<close>

section \<open>Well-formed devices\<close>

definition uuid_ok :: "espbtuuid \<Rightarrow> bool" where
  "uuid_ok u \<longleftrightarrow> is_set u \<and> uuid_wf u"

definition device_wf :: "espbt_device \<Rightarrow> bool" where
  "device_wf d \<longleftrightarrow> length (dev_address d) = 6 \<and> length (dev_name d) \<le> MAX_ADV_NAME_LEN
     \<and> (\<forall>u \<in> set (service_uuids d). uuid_ok u)
     \<and> (\<forall>sd \<in> set (manufacturer_datas d). \<exists>m. sd_uuid sd = UUID16 m)
     \<and> (\<forall>sd \<in> set (service_datas d). uuid_ok (sd_uuid sd))"

lemma mk_uuid_ok:
  "uuid_ok (mk_uuid16 bs)" "uuid_ok (mk_uuid32 bs)" "length bs = 16 \<Longrightarrow> uuid_ok (mk_uuid128 bs)"
  by (simp_all add: uuid_ok_def is_set_def mk_uuid16_def mk_uuid32_def mk_uuid128_def from_uint16_def from_uint32_def)

lemma uuid_list_typed:
  assumes "\<And>bs. length bs = unat w \<Longrightarrow> P (mk bs)"
  shows "uuid_list w mk ad_data i = Some us \<Longrightarrow> u \<in> set us \<Longrightarrow> P u"
  using assms
proof (induction w mk ad_data i arbitrary: us rule: uuid_list.induct)
  case (1 w mk ad_data i)
  show ?case
  proof (cases "0 < unat w \<and> unat i + (unat w - 1) < unat (of_nat (length ad_data) :: u8)")
    case True
    then obtain bs us' where bs: "rd_slice ad_data (unat i) (unat w) = Some bs"
      "uuid_list w mk ad_data (i + w) = Some us'" "us = mk bs # us'"
      using 1(2) by (subst (asm) uuid_list.simps) (auto split: option.splits)
    have "P (mk bs)" using rd_slice_length [OF bs(1)] by (rule 1(4))
    moreover have "u \<in> set us' \<Longrightarrow> P u" using 1(1) [OF True bs(1,2)] 1(4) by blast
    ultimately show ?thesis using 1(3) bs(3) by auto
  next
    case False
    then show ?thesis using 1(2,3) by (subst (asm) uuid_list.simps) auto
  qed
qed

lemma tagged_data_typed:
  assumes "tagged_data w mk ad_data = Some (Some sd)" "\<And>bs. length bs = w \<Longrightarrow> P (mk bs)"
  shows "P (sd_uuid sd)"
  using assms by (auto simp: tagged_data_def split: if_splits)

lemma handle_ad_typed:
  assumes "handle_ad t bs d = Some d'" "device_wf d"
  shows "device_wf d'"
proof -
  have uuids: "device_wf (d\<lparr>service_uuids := service_uuids d @ us\<rparr>)" if "\<forall>u \<in> set us. uuid_ok u" for us
    using assms(2) that by (auto simp: device_wf_def)
  have lists: "\<forall>u \<in> set us. uuid_ok u"
    if "uuid_list 2 mk_uuid16 bs 0 = Some us \<or> uuid_list 4 mk_uuid32 bs 0 = Some us
      \<or> uuid_list 16 mk_uuid128 bs 0 = Some us" for us
    using that uuid_list_typed [of 2 uuid_ok mk_uuid16 bs 0 us] uuid_list_typed [of 4 uuid_ok mk_uuid32 bs 0 us]
      uuid_list_typed [of 16 uuid_ok mk_uuid128 bs 0 us] by (auto simp: mk_uuid_ok)
  note ulist = uuids [OF lists]
  have m: "\<exists>m. sd_uuid sd = UUID16 m" if "tagged_data 2 mk_uuid16 bs = Some (Some sd)" for sd
    using tagged_data_typed [OF that, of "\<lambda>u. \<exists>m. u = UUID16 m"] by (simp add: mk_uuid16_def from_uint16_def)
  have sd: "uuid_ok (sd_uuid sd)"
    if "tagged_data 2 mk_uuid16 bs = Some (Some sd) \<or> tagged_data 4 mk_uuid32 bs = Some (Some sd)
      \<or> tagged_data 16 mk_uuid128 bs = Some (Some sd)" for sd
    using that tagged_data_typed [of 2 mk_uuid16 bs sd uuid_ok] tagged_data_typed [of 4 mk_uuid32 bs sd uuid_ok]
      tagged_data_typed [of 16 mk_uuid128 bs sd uuid_ok] by (auto simp: mk_uuid_ok)
  have same: "device_wf (d\<lparr>ad_flag := f\<rparr>)" "device_wf (d\<lparr>tx_powers := ts\<rparr>)" "device_wf (d\<lparr>appearance := a\<rparr>)"
    "device_wf (set_name bs d)" for f ts a
    using assms(2) by (auto simp: device_wf_def set_name_def MAX_ADV_NAME_LEN_def)
  have data: "device_wf (add_service_data None d)" "device_wf (add_manufacturer_data None d)"
    "uuid_ok (sd_uuid x) \<Longrightarrow> device_wf (add_service_data (Some x) d)"
    "\<exists>m. sd_uuid x = UUID16 m \<Longrightarrow> device_wf (add_manufacturer_data (Some x) d)" for x
    using assms(2) by (auto simp: device_wf_def add_service_data_def add_manufacturer_data_def)
  have opt: "device_wf (add_service_data so d)"
    if "tagged_data 2 mk_uuid16 bs = Some so \<or> tagged_data 4 mk_uuid32 bs = Some so
      \<or> tagged_data 16 mk_uuid128 bs = Some so" for so
    using that sd data(1,3) by (cases so) auto
  have mopt: "device_wf (add_manufacturer_data so d)" if "tagged_data 2 mk_uuid16 bs = Some so" for so
    using that m data(2,4) by (cases so) auto
  show ?thesis
    using assms same ulist opt mopt
    by (auto simp: handle_ad_def add_service_uuids_def split: if_splits)
qed

lemma parse_adv_typed:
  "parse_adv payload len offset d = Some d' \<Longrightarrow> device_wf d \<Longrightarrow> device_wf d'"
proof (induction "unat len - offset" arbitrary: offset d rule: less_induct)
  case less
  have rest: "device_wf d'"
    if "parse_adv payload len off d1 = Some d'" "device_wf d1" "offset < off" "offset < unat len" for off d1
    using less.hyps [OF _ that(1,2)] that(3,4) by linarith
  from less.prems show ?case
    by (subst (asm) parse_adv.simps) (auto split: if_splits option.splits dest: handle_ad_typed elim: rest)
qed

lemma from_manufacturer_data_total: "\<exists>r. from_manufacturer_data sd = Some r"
proof (cases "length (sd_data sd) = 23")
  case True
  then have "\<exists>b. espbleibeacon (sd_data sd) = Some b" by (simp add: espbleibeacon_def rd_slice_def)
  with True show ?thesis by (auto simp: from_manufacturer_data_def rd_def split: option.splits)
next
  case False
  then show ?thesis by (cases "uuid_contains (sd_uuid sd) 0x4C 0x00") (auto simp: from_manufacturer_data_def intro: exI [of _ False])
qed

lemma scan_beacons_total: "\<exists>r. scan_beacons rej sds = Some r"
proof (induction sds arbitrary: rej)
  case (Cons sd sds)
  obtain r where "from_manufacturer_data sd = Some r" using from_manufacturer_data_total by blast
  with Cons show ?case by (cases r; cases "fst r") auto
qed simp

lemma get_ibeacon_total: "\<exists>r. get_ibeacon now d st = Some r"
proof -
  obtain r where "scan_beacons False (manufacturer_datas d) = Some r" using scan_beacons_total by blast
  then show ?thesis by (cases r; cases "fst r") (auto simp: get_ibeacon_def Let_def)
qed

text \<open>
  C23. The parser is type safe. Whatever bytes a controller delivers, parsing them ends inside the payload
  with a device whose address has 6 bytes, whose name fits its 30-byte buffer with the terminator, whose
  UUIDs are set and have arrays of 16 bytes where they have one, and whose manufacturer data carry 16-bit
  company ids; and the iBeacon view of it reads inside its data.
\<close>
theorem adv_parser_type_safe:
  assumes "unat data_len \<le> length data" "length mac = 6"
  shows "\<exists>d' r. from_scan_result mac rssi addr_type data data_len d = Some d' \<and> device_wf d'
    \<and> get_ibeacon now d' st = Some r"
proof -
  obtain d' where d': "from_scan_result mac rssi addr_type data data_len d = Some d'"
    using from_scan_result_total [OF assms(1)] by blast
  then have "device_wf d'"
    unfolding from_scan_result_def by (rule parse_adv_typed) (simp add: device_wf_def)
  with d' get_ibeacon_total show ?thesis by blast
qed

theorem adv_parser_type_safe_witness:
  "\<exists>d' r. from_scan_result [1, 2, 3, 4, 5, 6] (- 60) 0 [2, 1, 6, 0, 3, 3, 0x0F, 0x18, 9, 9, 65] 11 device0 = Some d'
    \<and> device_wf d' \<and> get_ibeacon 5 d' \<lparr>last_log = 0, last_addr = 0\<rparr> = Some r"
  using adv_parser_type_safe [of 11 "[2, 1, 6, 0, 3, 3, 0x0F, 0x18, 9, 9, 65]" "[1, 2, 3, 4, 5, 6]"] by simp

end
