(* ===== verification/NimbleController.thy ===== *)
theory NimbleController
  imports BleAddress
begin

text \<open>
  Bring-up of the host and advertising: \<open>NimbleController\<close> (components/nimble_ble/nimble_controller.h and
  .cpp) and the component \<open>ESP32BLE\<close> that owns it (components/esp32_ble/ble.h and .cpp).

  A call of NimBLE, FreeRTOS or the flash is a value of \<open>ctrl_call\<close>, appended to the trace in the state;
  what it returns is a function of the calls before it. \<open>synced_\<close> is written by the host's task: a
  setup reads it at most 101 times, and \<open>sync_read i\<close> is what the \<open>i\<close>-th reading finds. The writes of
  the pairing policy to \<open>ble_hs_cfg\<close> are the call \<open>HS_CFG_NO_PAIRING\<close>. Log lines and \<open>dump_config\<close> are left out.
\<close>

section \<open>Calls and state\<close>

record adv_fields =
  adv_flags :: u8
  tx_pwr_lvl_is_present :: bool
  adv_name :: "bytes option"
  adv_name_len :: u8
  name_is_complete :: bool

datatype ctrl_call =
  NVS_FLASH_INIT
| NIMBLE_PORT_INIT
| HS_CFG_NO_PAIRING
| DEVICE_NAME_SET bytes
| FREERTOS_INIT
| TASK_DELAY nat
| PORT_RUN
| FREERTOS_DEINIT
| ENSURE_ADDR
| ADV_SET_FIELDS adv_fields
| ADV_START "nat option"
| ADV_STOP

definition HS_EMSGSIZE :: int where "HS_EMSGSIZE = 4"
definition HS_EALREADY :: int where "HS_EALREADY = 2"
definition ADV_F_DISC_GEN :: u8 where "ADV_F_DISC_GEN = 0x02"
definition ADV_F_BREDR_UNSUP :: u8 where "ADV_F_BREDR_UNSUP = 0x04"
definition ADV_MAX_SZ :: nat where "ADV_MAX_SZ = 31"

record ctrl_env =
  answer :: "ctrl_call list \<Rightarrow> ctrl_call \<Rightarrow> int"
  sync_read :: "nat \<Rightarrow> bool"
  own_addr :: "bytes option"
  app_name :: bytes

record controller =
  nc_synced :: bool
  nc_advertising :: bool
  nc_device_name :: "bytes option"
  nc_trace :: "ctrl_call list"

definition controller_init :: controller where
  "controller_init = \<lparr>nc_synced = False, nc_advertising = False, nc_device_name = None, nc_trace = []\<rparr>"

definition issue :: "ctrl_env \<Rightarrow> ctrl_call \<Rightarrow> controller \<Rightarrow> int \<times> controller" where
  "issue env c n = (answer env (nc_trace n) c, n\<lparr>nc_trace := nc_trace n @ [c]\<rparr>)"

section \<open>The controller\<close>

definition on_reset :: "int \<Rightarrow> controller \<Rightarrow> controller" where
  "on_reset reason n = n\<lparr>nc_synced := False\<rparr>"

definition on_sync :: "ctrl_env \<Rightarrow> controller \<Rightarrow> controller" where
  "on_sync env n = (let (rc, n) = issue env ENSURE_ADDR n in if rc \<noteq> 0 then n else n\<lparr>nc_synced := True\<rparr>)"

definition host_task :: "ctrl_env \<Rightarrow> controller \<Rightarrow> controller" where
  "host_task env n = snd (issue env FREERTOS_DEINIT (snd (issue env PORT_RUN n)))"

text \<open>
  \<open>for (waited_ms = 0; waited_ms < 2000 && !synced_; waited_ms += 20)\<close>, from reading \<open>i\<close> on; the result is
  the number of the next reading.
\<close>

function wait_sync :: "ctrl_env \<Rightarrow> nat \<Rightarrow> nat \<Rightarrow> controller \<Rightarrow> nat \<times> controller" where
  "wait_sync env i waited_ms n =
     (if waited_ms < 2000 then
        (if \<not> sync_read env i then wait_sync env (i + 1) (waited_ms + 20) (snd (issue env (TASK_DELAY 20) n))
         else (i + 1, n))
      else (i, n))"
  by pat_completeness auto
termination
  by (relation "measure (\<lambda>(env, i, waited, n). 2000 - waited)") auto

declare wait_sync.simps [simp del]

definition controller_setup :: "ctrl_env \<Rightarrow> bytes \<Rightarrow> controller \<Rightarrow> bool \<times> controller" where
  "controller_setup env name n =
     (let n = n\<lparr>nc_device_name := Some name\<rparr>;
          (err, n) = issue env NIMBLE_PORT_INIT n
      in if err \<noteq> 0 then (False, n)
         else
           let (_, n) = issue env HS_CFG_NO_PAIRING n;
               (rc, n) = issue env (DEVICE_NAME_SET name) n
           in if rc \<noteq> 0 then (False, n)
              else
                let (_, n) = issue env FREERTOS_INIT n;
                    (i, n) = wait_sync env 0 0 n;
                    n = n\<lparr>nc_synced := sync_read env i\<rparr>
                in (nc_synced n, n))"

definition adv_fields_of :: "bytes option \<Rightarrow> adv_fields" where
  "adv_fields_of name =
     \<lparr>adv_flags = ADV_F_DISC_GEN OR ADV_F_BREDR_UNSUP, tx_pwr_lvl_is_present = True, adv_name = name,
      adv_name_len = (case name of None \<Rightarrow> 0 | Some bs \<Rightarrow> of_nat (length bs)), name_is_complete = True\<rparr>"

text \<open>The callback is its identity, \<open>None\<close> the null pointer.\<close>

definition start_advertising :: "ctrl_env \<Rightarrow> nat option \<Rightarrow> controller \<Rightarrow> bool \<times> controller" where
  "start_advertising env cb n =
     (if \<not> nc_synced n then (False, n)
      else
        let fields = adv_fields_of (nc_device_name n);
            (rc, n) = issue env (ADV_SET_FIELDS fields) n;
            (rc, fields, n) =
              (if rc = HS_EMSGSIZE then
                 let fields = fields\<lparr>tx_pwr_lvl_is_present := False\<rparr>;
                     (rc, n) = issue env (ADV_SET_FIELDS fields) n
                 in (rc, fields, n)
               else (rc, fields, n));
            (rc, fields, n) =
              (if rc = HS_EMSGSIZE then
                 let kMaxNameLen = ADV_MAX_SZ - 3 - 2;
                     fields = fields\<lparr>adv_name_len := of_nat (min (unat (adv_name_len fields)) kMaxNameLen),
                                     name_is_complete := False\<rparr>;
                     (rc, n) = issue env (ADV_SET_FIELDS fields) n
                 in (rc, fields, n)
               else (rc, fields, n))
        in if rc \<noteq> 0 then (False, n)
           else
             let (rc, n) = issue env (ADV_START cb) n
             in if rc \<noteq> 0 then (False, n) else (True, n\<lparr>nc_advertising := True\<rparr>))"

definition stop_advertising :: "ctrl_env \<Rightarrow> controller \<Rightarrow> bool \<times> controller" where
  "stop_advertising env n =
     (if \<not> nc_advertising n then (True, n)
      else
        let (rc, n) = issue env ADV_STOP n
        in if rc \<noteq> 0 \<and> rc \<noteq> HS_EALREADY then (False, n) else (True, n\<lparr>nc_advertising := False\<rparr>))"

definition get_mac_msb_first :: "ctrl_env \<Rightarrow> bytes" where
  "get_mac_msb_first env =
     (case own_addr env of None \<Rightarrow> replicate 6 0 | Some addr \<Rightarrow> map (\<lambda>i. addr ! (5 - i)) [0..<6])"

section \<open>The component\<close>

record esp32_ble =
  eb_controller :: controller
  eb_name :: "bytes option"
  eb_enable_on_boot :: bool
  eb_advertising_wanted :: bool
  eb_active :: bool
  eb_failed :: bool

definition esp32_ble_init :: esp32_ble where
  "esp32_ble_init = \<lparr>eb_controller = controller_init, eb_name = None, eb_enable_on_boot = True,
     eb_advertising_wanted = False, eb_active = False, eb_failed = False\<rparr>"

definition ble_enable :: "ctrl_env \<Rightarrow> esp32_ble \<Rightarrow> esp32_ble" where
  "ble_enable env b =
     (if eb_active b then b
      else
        let device_name = (case eb_name b of Some nm \<Rightarrow> nm | None \<Rightarrow> app_name env);
            (ok, n) = controller_setup env device_name (eb_controller b);
            b = b\<lparr>eb_controller := n\<rparr>
        in if \<not> ok then b\<lparr>eb_failed := True\<rparr>
           else
             let b = b\<lparr>eb_active := True\<rparr>
             in if eb_advertising_wanted b
                then b\<lparr>eb_controller := snd (start_advertising env None (eb_controller b))\<rparr> else b)"

definition ble_disable :: "ctrl_env \<Rightarrow> esp32_ble \<Rightarrow> esp32_ble" where
  "ble_disable env b =
     (if \<not> eb_active b then b
      else b\<lparr>eb_controller := snd (stop_advertising env (eb_controller b)), eb_active := False\<rparr>)"

definition ble_setup :: "ctrl_env \<Rightarrow> esp32_ble \<Rightarrow> esp32_ble" where
  "ble_setup env b =
     (let (err, n) = issue env NVS_FLASH_INIT (eb_controller b);
          b = b\<lparr>eb_controller := n\<rparr>
      in if err \<noteq> 0 then b\<lparr>eb_failed := True\<rparr>
         else if eb_enable_on_boot b then ble_enable env b else b)"

definition start_advertising_with_callback :: "ctrl_env \<Rightarrow> nat \<Rightarrow> esp32_ble \<Rightarrow> bool \<times> esp32_ble" where
  "start_advertising_with_callback env cb b =
     (let (ok, n) = start_advertising env (Some cb) (eb_controller b) in (ok, b\<lparr>eb_controller := n\<rparr>))"

definition set_ble_name :: "bytes \<Rightarrow> esp32_ble \<Rightarrow> esp32_ble" where
  "set_ble_name nm b = b\<lparr>eb_name := Some nm\<rparr>"

definition set_enable_on_boot :: "bool \<Rightarrow> esp32_ble \<Rightarrow> esp32_ble" where
  "set_enable_on_boot v b = b\<lparr>eb_enable_on_boot := v\<rparr>"

definition set_advertising :: "bool \<Rightarrow> esp32_ble \<Rightarrow> esp32_ble" where
  "set_advertising v b = b\<lparr>eb_advertising_wanted := v\<rparr>"

text \<open>The condition and the actions; \<open>None\<close>: \<open>global_ble\<close> is not set yet.\<close>

definition ble_enabled_condition :: "esp32_ble option \<Rightarrow> bool" where
  "ble_enabled_condition g = (case g of None \<Rightarrow> False | Some b \<Rightarrow> eb_active b)"

definition ble_enable_action :: "ctrl_env \<Rightarrow> esp32_ble option \<Rightarrow> esp32_ble option" where
  "ble_enable_action env g = map_option (ble_enable env) g"

definition ble_disable_action :: "ctrl_env \<Rightarrow> esp32_ble option \<Rightarrow> esp32_ble option" where
  "ble_disable_action env g = map_option (ble_disable env) g"

section \<open>Bring-up\<close>

text \<open>The wait ends after at most 100 delays of 20 ms.\<close>

lemma wait_sync_delays:
  assumes "waited_ms = 20 * i" "i \<le> 100" "wait_sync env i waited_ms n = (j, n')"
  shows "\<exists>k. i + k \<le> 100 \<and> n' = n\<lparr>nc_trace := nc_trace n @ replicate k (TASK_DELAY 20)\<rparr>
    \<and> (\<forall>m. i \<le> m \<and> m < i + k \<longrightarrow> \<not> sync_read env m)
    \<and> (if i + k = 100 then j = 100 else j = i + k + 1 \<and> sync_read env (i + k))"
  using assms
proof (induction env i waited_ms n rule: wait_sync.induct)
  case (1 env i waited_ms n)
  show ?case
  proof (cases "waited_ms < 2000")
    case wait: True
    show ?thesis
    proof (cases "sync_read env i")
      case True
      with wait 1(2-4) have "j = i + 1" "n' = n" "i < 100" by (auto simp: wait_sync.simps [of env i])
      with True show ?thesis by (intro exI [of _ 0]) auto
    next
      case False
      let ?n = "snd (issue env (TASK_DELAY 20) n)"
      have i: "i < 100" using wait 1(2) by simp
      have "wait_sync env (i + 1) (waited_ms + 20) ?n = (j, n')"
        using 1(4) wait False by (simp add: wait_sync.simps [of env i])
      from 1(1) [OF wait False _ _ this] i 1(2) obtain k where k: "i + 1 + k \<le> 100"
        "n' = ?n\<lparr>nc_trace := nc_trace ?n @ replicate k (TASK_DELAY 20)\<rparr>"
        "\<forall>m. i + 1 \<le> m \<and> m < i + 1 + k \<longrightarrow> \<not> sync_read env m"
        "if i + 1 + k = 100 then j = 100 else j = i + 1 + k + 1 \<and> sync_read env (i + 1 + k)"
        by auto
      have "\<not> sync_read env m" if "i \<le> m" "m < i + Suc k" for m
        using k(3) False that by (cases "m = i") auto
      with k show ?thesis
        by (intro exI [of _ "Suc k"]) (auto simp: issue_def split: if_splits)
    qed
  next
    case False
    with 1(2-4) have "i = 100" "j = 100" "n' = n" by (auto simp: wait_sync.simps [of env i])
    then show ?thesis by (intro exI [of _ 0]) auto
  qed
qed

lemma setup_calls:
  assumes "controller_setup env nm n = (ok, n')"
  shows "\<exists>calls. nc_trace n' = nc_trace n @ calls \<and> nc_advertising n' = nc_advertising n
    \<and> nc_device_name n' = Some nm
    \<and> (calls = [NIMBLE_PORT_INIT] \<and> \<not> ok
       \<or> calls = [NIMBLE_PORT_INIT, HS_CFG_NO_PAIRING, DEVICE_NAME_SET nm] \<and> \<not> ok
       \<or> (\<exists>k \<le> 100. calls = [NIMBLE_PORT_INIT, HS_CFG_NO_PAIRING, DEVICE_NAME_SET nm, FREERTOS_INIT]
            @ replicate k (TASK_DELAY 20) \<and> ok = nc_synced n'
            \<and> ok = sync_read env (if k = 100 then 100 else k + 1)))"
proof -
  obtain j n2 where w: "wait_sync env 0 0 n1 = (j, n2)"
    if "n1 = n\<lparr>nc_device_name := Some nm,
      nc_trace := nc_trace n @ [NIMBLE_PORT_INIT, HS_CFG_NO_PAIRING, DEVICE_NAME_SET nm, FREERTOS_INIT]\<rparr>" for n1
    by (metis surj_pair)
  from wait_sync_delays [OF _ _ w [OF refl]] obtain k where
    "k \<le> 100" "nc_trace n2 = nc_trace n @ [NIMBLE_PORT_INIT, HS_CFG_NO_PAIRING, DEVICE_NAME_SET nm, FREERTOS_INIT]
      @ replicate k (TASK_DELAY 20)" "nc_advertising n2 = nc_advertising n" "nc_device_name n2 = Some nm"
    "j = (if k = 100 then 100 else k + 1)"
    by (auto split: if_splits)
  with assms w [OF refl] show ?thesis
    by (auto simp: controller_setup_def issue_def Let_def split: if_splits)
qed

text \<open>
  Bring-up is ordered and bounded. A setup starts the host's task only after the controller came up
  and the configuration that rules out passkeys and bonding was written, then waits at most
  100 delays of 20 ms; it succeeds if and only if the reading of \<open>synced_\<close> that ends it finds the host
  synced, and the first thing it does is \<open>nimble_port_init\<close>.
\<close>
theorem bring_up_ordered:
  assumes "controller_setup env nm n = (ok, n')" "nc_trace n' = nc_trace n @ calls"
  shows "length calls \<le> 104 \<and> hd calls = NIMBLE_PORT_INIT \<and> (ok \<longrightarrow> nc_synced n')
    \<and> (ok \<or> FREERTOS_INIT \<in> set calls \<longrightarrow>
        take 4 calls = [NIMBLE_PORT_INIT, HS_CFG_NO_PAIRING, DEVICE_NAME_SET nm, FREERTOS_INIT]
        \<and> set (drop 4 calls) \<subseteq> {TASK_DELAY 20} \<and> (ok \<longleftrightarrow> nc_synced n'))"
  using setup_calls [OF assms(1)] assms(2) by (auto simp: set_replicate_conv_if split: if_splits)

definition willing_env :: ctrl_env where
  "willing_env = \<lparr>answer = \<lambda>tr c. 0, sync_read = \<lambda>i. 3 \<le> i, own_addr = Some [6, 5, 4, 3, 2, 1], app_name = [110]\<rparr>"

theorem bring_up_ordered_witness:
  "case controller_setup willing_env [110] controller_init of
     (ok, n') \<Rightarrow> length (nc_trace n') \<le> 104 \<and> hd (nc_trace n') = NIMBLE_PORT_INIT \<and> (ok \<longrightarrow> nc_synced n')"
proof -
  obtain ok n' where s: "controller_setup willing_env [110] controller_init = (ok, n')" by fastforce
  have "nc_trace n' = nc_trace controller_init @ nc_trace n'" by (simp add: controller_init_def)
  from bring_up_ordered [OF s this] s show ?thesis by simp
qed

section \<open>Advertising\<close>

text \<open>
  The bytes the host's encoding of the fields takes: three for the flags, three for the power level,
  two and the name; the host refuses what does not fit 31 bytes.
\<close>

definition adv_size :: "adv_fields \<Rightarrow> nat" where
  "adv_size f = (if adv_flags f \<noteq> 0 then 3 else 0) + (if tx_pwr_lvl_is_present f then 3 else 0)
     + (if adv_name f \<noteq> None \<and> adv_name_len f \<noteq> 0 then 2 + unat (adv_name_len f) else 0)"

definition limits_payload :: "ctrl_env \<Rightarrow> bool" where
  "limits_payload env \<longleftrightarrow> (\<forall>tr f. answer env tr (ADV_SET_FIELDS f) = (if adv_size f \<le> 31 then 0 else HS_EMSGSIZE))"

lemma unat_name_len: "k < 256 \<Longrightarrow> unat (of_nat k :: u8) = k"
  by (simp add: unat_of_nat take_bit_eq_mod)

lemma adv_size_of:
  assumes "length nm < 256"
  shows "adv_size (adv_fields_of (Some nm)) = (if nm = [] then 6 else 8 + length nm)"
    "adv_size ((adv_fields_of (Some nm))\<lparr>tx_pwr_lvl_is_present := False\<rparr>) = (if nm = [] then 3 else 5 + length nm)"
    "26 \<le> length nm \<Longrightarrow>
      adv_size ((adv_fields_of (Some nm))\<lparr>tx_pwr_lvl_is_present := False, adv_name_len := 26, name_is_complete := c\<rparr>) = 31"
proof -
  have "(of_nat (length nm) :: u8) = 0 \<longleftrightarrow> nm = []"
    using unat_name_len [OF assms] by (auto simp: unat_eq_zero [symmetric] simp del: unat_eq_zero)
  then show "adv_size (adv_fields_of (Some nm)) = (if nm = [] then 6 else 8 + length nm)"
    "adv_size ((adv_fields_of (Some nm))\<lparr>tx_pwr_lvl_is_present := False\<rparr>) = (if nm = [] then 3 else 5 + length nm)"
    "26 \<le> length nm \<Longrightarrow>
      adv_size ((adv_fields_of (Some nm))\<lparr>tx_pwr_lvl_is_present := False, adv_name_len := 26, name_is_complete := c\<rparr>) = 31"
    using unat_name_len [OF assms]
    by (simp_all add: adv_size_def adv_fields_of_def ADV_F_DISC_GEN_def ADV_F_BREDR_UNSUP_def)
qed

text \<open>
  C36. A device is always discoverable, with as much of its name as fits. On a synced host that refuses
  only payloads over 31 bytes, \<open>start_advertising\<close> succeeds for every name of up to 255 bytes, after at
  most three attempts at the fields: the ones it advertises carry the flags, the first 26 bytes of the
  name, marked complete exactly if they are all of it, and the power level exactly if there is room.
\<close>
theorem advertises_longest_name:
  assumes "nc_synced n" "nc_device_name n = Some nm" "length nm < 256" "limits_payload env"
    and "\<And>tr. answer env tr (ADV_START cb) = 0"
  shows "\<exists>tries f. start_advertising env cb n
      = (True, n\<lparr>nc_advertising := True, nc_trace := nc_trace n @ tries @ [ADV_SET_FIELDS f, ADV_START cb]\<rparr>)
    \<and> length tries \<le> 2 \<and> adv_size f \<le> 31 \<and> adv_flags f = 6 \<and> adv_name f = Some nm
    \<and> take (unat (adv_name_len f)) nm = take 26 nm
    \<and> (name_is_complete f \<longleftrightarrow> length nm \<le> 26) \<and> (tx_pwr_lvl_is_present f \<longleftrightarrow> length nm \<le> 23)"
proof -
  let ?f1 = "adv_fields_of (Some nm)"
  let ?f2 = "?f1\<lparr>tx_pwr_lvl_is_present := False\<rparr>"
  let ?f3 = "?f2\<lparr>adv_name_len := 26, name_is_complete := False\<rparr>"
  have set_fields: "answer env tr (ADV_SET_FIELDS f) = (if adv_size f \<le> 31 then 0 else HS_EMSGSIZE)" for tr f
    using assms(4) by (simp add: limits_payload_def)
  have l: "unat (adv_name_len ?f1) = length nm" "adv_flags ?f1 = 6" "adv_name ?f1 = Some nm"
    "name_is_complete ?f1" "tx_pwr_lvl_is_present ?f1"
    using unat_name_len [OF assms(3)]
    by (simp_all add: adv_fields_of_def ADV_F_DISC_GEN_def ADV_F_BREDR_UNSUP_def)
  have k: "of_nat (min (length nm) 26) = (26 :: u8)" if "26 < length nm" using that by simp
  note start = start_advertising_def issue_def Let_def HS_EMSGSIZE_def ADV_MAX_SZ_def assms(1,2,5) set_fields
  consider "length nm \<le> 23" | "23 < length nm" "length nm \<le> 26" | "26 < length nm" by linarith
  then show ?thesis
  proof cases
    case 1
    then have "start_advertising env cb n = (True, n\<lparr>nc_advertising := True,
        nc_trace := nc_trace n @ [] @ [ADV_SET_FIELDS ?f1, ADV_START cb]\<rparr>)"
      using adv_size_of(1) [OF assms(3)] by (simp add: start)
    with 1 l adv_size_of [OF assms(3)] show ?thesis by (intro exI [of _ "[]"] exI [of _ ?f1]) simp
  next
    case 2
    then have "start_advertising env cb n = (True, n\<lparr>nc_advertising := True,
        nc_trace := nc_trace n @ [ADV_SET_FIELDS ?f1] @ [ADV_SET_FIELDS ?f2, ADV_START cb]\<rparr>)"
      using adv_size_of [OF assms(3)] by (auto simp: start)
    with 2 l adv_size_of [OF assms(3)] show ?thesis
      by (intro exI [of _ "[ADV_SET_FIELDS ?f1]"] exI [of _ ?f2]) auto
  next
    case 3
    then have "start_advertising env cb n = (True, n\<lparr>nc_advertising := True,
        nc_trace := nc_trace n @ [ADV_SET_FIELDS ?f1, ADV_SET_FIELDS ?f2] @ [ADV_SET_FIELDS ?f3, ADV_START cb]\<rparr>)"
      using adv_size_of [OF assms(3)] k l(1) by (auto simp: start)
    with 3 l adv_size_of [OF assms(3)] show ?thesis
      by (intro exI [of _ "[ADV_SET_FIELDS ?f1, ADV_SET_FIELDS ?f2]"] exI [of _ ?f3]) auto
  qed
qed

definition limiting_env :: ctrl_env where
  "limiting_env = willing_env\<lparr>answer :=
     \<lambda>tr c. case c of ADV_SET_FIELDS f \<Rightarrow> if adv_size f \<le> 31 then 0 else HS_EMSGSIZE | _ \<Rightarrow> 0\<rparr>"

theorem advertises_longest_name_witness:
  "\<exists>n'. start_advertising limiting_env None
      (controller_init\<lparr>nc_synced := True, nc_device_name := Some (replicate 30 110)\<rparr>) = (True, n') \<and> nc_advertising n'"
  using advertises_longest_name [of "controller_init\<lparr>nc_synced := True, nc_device_name := Some (replicate 30 110)\<rparr>"
      "replicate 30 110" limiting_env None]
  by (auto simp: limits_payload_def limiting_env_def)

section \<open>Enabling again\<close>

text \<open>
  C40. BLE cannot be enabled again. \<open>disable()\<close> stops the advertising and leaves the port, the host and
  its task running; the next \<open>enable()\<close> initialises the port once more. With a port that refuses a
  second initialisation, the component is marked failed and inactive, and stays so at every later enable.
\<close>
theorem reenable_fails:
  assumes "eb_active b" "NIMBLE_PORT_INIT \<in> set (nc_trace (eb_controller b))"
    and "\<And>tr. NIMBLE_PORT_INIT \<in> set tr \<Longrightarrow> answer env tr NIMBLE_PORT_INIT \<noteq> 0"
  shows "let b' = (ble_enable env ^^ Suc k) (ble_disable env b) in \<not> eb_active b' \<and> eb_failed b'"
proof -
  have stop: "NIMBLE_PORT_INIT \<in> set (nc_trace (snd (stop_advertising env n)))"
    if "NIMBLE_PORT_INIT \<in> set (nc_trace n)" for n
    using that by (auto simp: stop_advertising_def issue_def Let_def split: prod.splits)
  have step: "\<not> eb_active (ble_enable env b) \<and> eb_failed (ble_enable env b)
      \<and> NIMBLE_PORT_INIT \<in> set (nc_trace (eb_controller (ble_enable env b)))"
    if "\<not> eb_active b" "NIMBLE_PORT_INIT \<in> set (nc_trace (eb_controller b))" for b
    using that assms(3) by (auto simp: ble_enable_def controller_setup_def issue_def Let_def)
  have "\<not> eb_active ((ble_enable env ^^ Suc k) (ble_disable env b))
      \<and> eb_failed ((ble_enable env ^^ Suc k) (ble_disable env b))
      \<and> NIMBLE_PORT_INIT \<in> set (nc_trace (eb_controller ((ble_enable env ^^ Suc k) (ble_disable env b))))"
    by (induction k) (use step stop assms(1,2) in \<open>simp_all add: ble_disable_def\<close>)
  then show ?thesis by (simp add: Let_def)
qed

definition once_env :: ctrl_env where
  "once_env = willing_env\<lparr>answer := \<lambda>tr c. if c = NIMBLE_PORT_INIT \<and> NIMBLE_PORT_INIT \<in> set tr then -1 else 0\<rparr>"

theorem reenable_fails_witness:
  "let b' = ble_enable once_env (ble_disable once_env (ble_setup once_env esp32_ble_init))
   in \<not> eb_active b' \<and> eb_failed b'"
proof -
  let ?b = "ble_setup once_env esp32_ble_init"
  have "eb_active ?b \<and> NIMBLE_PORT_INIT \<in> set (nc_trace (eb_controller ?b))"
    by code_simp
  then show ?thesis
    using reenable_fails [of ?b once_env 0] by (auto simp: once_env_def)
qed

end
