(* ===== verification/UnitTests.thy ===== *)
theory UnitTests
  imports BleFsm ConnectBackoff ProxyReplies
begin

text \<open>
  The repository's own unit tests (tests/unit/test_ble_connection_fsm.cpp and test_connect_backoff.cpp) and the
  compile-time checks of bluetooth_proxy.h, run on the model: a test is the list of its checks, in order.
\<close>

section \<open>The connection state machine\<close>

definition fire :: "ble_conn_event \<Rightarrow> u32 \<Rightarrow> ble_fsm \<Rightarrow> ble_fsm" where
  "fire e now f = fst (handle_event e now f)"

definition test_bounded_discovery_timeout :: "bool list" where
  "test_bounded_discovery_timeout =
     (let f0 = fsm_init;
          f1 = fire CONNECT_REQUEST 0 f0;
          f2 = fire GAP_CONNECT_OK 1000 f1;
          (f3, early) = poll_timeout 5000 f2;
          (f4, late) = poll_timeout 9000 f3
      in [fsm_state f0 = IDLE,
          fsm_state f1 = CONNECTING, has_deadline f1, deadline_ms f1 = 5000,
          fsm_state f2 = DISCOVERING, deadline_ms f2 = 1000 + 8000,
          \<not> early, fsm_state f3 = DISCOVERING,
          late, fsm_state f4 = BACKOFF, backoff_count f4 = 1])"

definition test_connect_timeout_before_gap_ok :: "bool list" where
  "test_connect_timeout_before_gap_ok =
     (let (f, fired) = poll_timeout 5000 (fire CONNECT_REQUEST 0 fsm_init)
      in [fired, fsm_state f = BACKOFF, backoff_count f = 1])"

definition test_successful_path_resets_backoff :: "bool list" where
  "test_successful_path_resets_backoff =
     (let f1 = fire BACKOFF_ELAPSED 5000 (fst (poll_timeout 5000 (fire CONNECT_REQUEST 0 fsm_init)));
          f2 = fire DISCOVER_DONE 5200 (fire GAP_CONNECT_OK 5100 (fire CONNECT_REQUEST 5000 f1));
          f3 = fire DISCONNECT_REQUEST 6000 f2;
          f4 = fire GAP_DISCONNECT_EVT 6100 f3
      in [fsm_state f1 = IDLE,
          fsm_state f2 = READY, \<not> has_deadline f2, backoff_count f2 = 0,
          fsm_state f3 = DISCONNECTING, fsm_state f4 = IDLE])"

definition test_unsolicited_pairing_dropped_in_connecting :: "bool list" where
  "test_unsolicited_pairing_dropped_in_connecting =
     (let (f, taken) = handle_event DROP_UNSOLICITED_PAIRING 100 (fire CONNECT_REQUEST 0 fsm_init)
      in [taken, fsm_state f = BACKOFF])"

definition test_mismatched_event_is_noop :: "bool list" where
  "test_mismatched_event_is_noop =
     (let (f, taken) = handle_event DISCOVER_DONE 0 fsm_init in [\<not> taken, fsm_state f = IDLE])"

definition test_tlc_trace_happy_path :: "bool list" where
  "test_tlc_trace_happy_path =
     (let f0 = fsm_init; f1 = fire CONNECT_REQUEST 0 f0; f2 = fire GAP_CONNECT_OK 100 f1;
          f3 = fire DISCOVER_DONE 200 f2
      in [fsm_state f0 = IDLE, fsm_state f1 = CONNECTING, fsm_state f2 = DISCOVERING, fsm_state f3 = READY])"

definition test_tlc_trace_connect_timeout :: "bool list" where
  "test_tlc_trace_connect_timeout =
     (let f1 = fire CONNECT_REQUEST 0 fsm_init;
          (f2, early) = poll_timeout 4999 f1;
          (f3, late) = poll_timeout 5000 f2
      in [fsm_state f1 = CONNECTING, deadline_ms f1 = 5000, \<not> early, fsm_state f2 = CONNECTING,
          late, fsm_state f3 = BACKOFF, backoff_count f3 = 1])"

definition failures :: "bool list list \<Rightarrow> nat" where
  "failures tests = length (filter Not (concat tests))"

definition fsm_tests_main :: int where
  "fsm_tests_main =
     (if failures [test_bounded_discovery_timeout, test_connect_timeout_before_gap_ok,
         test_successful_path_resets_backoff, test_unsolicited_pairing_dropped_in_connecting,
         test_mismatched_event_is_noop, test_tlc_trace_happy_path, test_tlc_trace_connect_timeout] = 0
      then 0 else 1)"

lemma fsm_tests_pass: "fsm_tests_main = 0"
  by code_simp

section \<open>The reconnect delay\<close>

definition test_exponential_curve_no_jitter :: "bool list" where
  "test_exponential_curve_no_jitter =
     (let m = 20
      in [compute_connect_backoff_delay_ms 1 m = CONNECT_BACKOFF_BASE_MS,
          compute_connect_backoff_delay_ms 2 m = CONNECT_BACKOFF_BASE_MS * 2,
          compute_connect_backoff_delay_ms 3 m = CONNECT_BACKOFF_BASE_MS * 4,
          compute_connect_backoff_delay_ms 4 m = CONNECT_BACKOFF_BASE_MS * 8,
          compute_connect_backoff_delay_ms 5 m = CONNECT_BACKOFF_MAX_MS,
          compute_connect_backoff_delay_ms 20 m = CONNECT_BACKOFF_MAX_MS])"

definition test_zero_backoff_count_is_base_delay :: "bool list" where
  "test_zero_backoff_count_is_base_delay = [compute_connect_backoff_delay_ms 0 20 = CONNECT_BACKOFF_BASE_MS]"

definition test_jitter_stays_within_bounds :: "bool list" where
  "test_jitter_stays_within_bounds =
     concat (map (\<lambda>draw. let d = compute_connect_backoff_delay_ms 1 (of_nat draw)
                         in [CONNECT_BACKOFF_BASE_MS * 80 div 100 \<le> d, d \<le> CONNECT_BACKOFF_BASE_MS * 120 div 100])
              [0..<100])"

definition test_capped_value_plus_jitter_never_exceeds_reasonable_bound :: "bool list" where
  "test_capped_value_plus_jitter_never_exceeds_reasonable_bound =
     map (\<lambda>draw. compute_connect_backoff_delay_ms 10 (of_nat draw) \<le> CONNECT_BACKOFF_MAX_MS * 120 div 100) [0..<100]"

definition backoff_tests_main :: int where
  "backoff_tests_main =
     (if failures [test_exponential_curve_no_jitter, test_zero_backoff_count_is_base_delay,
         test_jitter_stays_within_bounds, test_capped_value_plus_jitter_never_exceeds_reasonable_bound] = 0
      then 0 else 1)"

lemma backoff_tests_pass: "backoff_tests_main = 0"
  by code_simp

section \<open>Compile-time checks\<close>

definition pending_reply_round_trips :: "u64 \<Rightarrow> u64 \<Rightarrow> int \<Rightarrow> bool" where
  "pending_reply_round_trips address expected_address error =
     (let p = reply_set address error
      in reply_address p = expected_address \<and> reply_error p = error \<and> \<not> reply_empty p \<and> reply_matches address p)"

definition pending_reply_static_asserts :: "bool list" where
  "pending_reply_static_asserts =
     [pending_reply_round_trips 0x0000112233445566 0x0000112233445566 (- 1),
      pending_reply_round_trips 0x0000FFFFFFFFFFFF 0x0000FFFFFFFFFFFF 0x8F,
      pending_reply_round_trips 0xABCD112233445566 0x0000112233445566 0x110,
      reply_empty reply_clear]"

lemma pending_reply_static_asserts_hold: "list_all id pending_reply_static_asserts"
  by code_simp

text \<open>What the checks sample, for every address and every error of 16 bits.\<close>

lemma pending_reply_round_trips_all:
  assumes "- 32768 \<le> err" "err < 32768" "addr AND ADDRESS_MASK \<noteq> 0 \<or> err \<noteq> 0"
  shows "pending_reply_round_trips addr (addr AND ADDRESS_MASK) err"
proof -
  have "reply_set addr err \<noteq> 0"
  proof
    assume z: "reply_set addr err = 0"
    have "addr AND ADDRESS_MASK = 0" using reply_address_set [of addr err] unfolding z by (simp add: reply_address_def)
    moreover have "err = 0" using reply_error_set [OF assms(1,2), of addr] unfolding z by (simp add: reply_error_def)
    ultimately show False using assms(3) by simp
  qed
  then show ?thesis
    using reply_error_set [OF assms(1,2)] by (simp add: pending_reply_round_trips_def reply_empty_def Let_def)
qed

end
