(* ===== verification/Spec2Isabelle.thy ===== *)
theory Spec2Isabelle
  imports BleFsmSpec ConnectBackoff GattDiscovery ScanToApi ScannerReports GattContract PolledHub ServerProperties ClientProperties
    AesCcm AdvertTypes NimbleController UnitTests
begin

text \<open>
  A model of NimbleBLE-Esphome: the ESPHome Bluetooth components of ESP32 on the NimBLE host
  (components/ of the repository), with the theorems that make them correct. Every definition is
  executable and follows the C++ function or class named in the comments of its theory.

  The parts and how they work together.

  \<^item> A scanner: \<open>ESP32BLETracker\<close> takes the controller's reports from a queue, merges each
    advertisement with its scan response (\<open>ScanResponseMerger\<close>) and hands the frame to \<open>AdvDispatcher\<close>,
    which gives it raw to one subscriber and parsed (\<open>ESPBTDevice\<close>) to the listeners.
  \<^item> A GATT client: \<open>NimbleGattEngine\<close> issues the host's procedures, collects their completions and
    keeps a connection state machine with deadlines (\<open>BleConnectionFsm\<close>).
  \<^item> A proxy: \<open>BluetoothProxy\<close> answers the requests of one API client; each of its slots is a
    \<open>BluetoothConnection\<close>, which drives one engine and turns its events into API messages. A message the
    API refuses is owed and offered again.
  \<^item> A GATT server: \<open>BLEServer\<close> builds one table of services for the host, answers accesses on the host task
    and runs the user's callbacks on the main loop.

  \<^item> The client of the configuration: \<open>BLEClient\<close> owns one engine for one peer, reconnects to it and
    tells its nodes.

  \<^item> Under all of them \<open>ESP32BLE\<close> brings the host up and advertises; beside them, sensors decrypt
    advertisements with a software AES-CCM and resolve private addresses.

  The host's task and the main loop meet only in event queues: callbacks push, a loop pops.

  Theories, in the order of the code's layers.

  \<^item> \<open>Prelude\<close>: widths, checked reads of buffers, lemmas on lists and words. \<open>Ledger\<close>: runs of operations,
    the interfaces \<open>kept\<close> (an invariant every operation keeps) and \<open>ledger\<close> (what comes in is held or
    settled, once). They are interpreted on the merger, the tracker and the proxy.
  \<^item> \<open>BleUuid\<close>, \<open>BleAddress\<close>: UUIDs and addresses (ble_device_base/ble_device.h and .cpp,
    nimble_ble/nimble_uuid.h, the wire form of bluetooth_connection/bluetooth_connection.h); round trips and
    equality by expansion.
  \<^item> \<open>BleAdvert\<close>: the parser of advertisements, iBeacons, the log of discovered devices and the
    triggers (ble_device.cpp, automation.h); memory safety and the round trip with an encoder.
  \<^item> \<open>ScanMerger\<close>, \<open>BleTracker\<close>: scan_response_merger.h and .cpp, esp32_ble_tracker/; nothing is lost or
    delivered twice, the scan cycle.
  \<^item> \<open>BleFsm\<close>, \<open>BleFsmSpec\<close>: ble_connection_fsm.cpp and its refinement of spec/ble_state_machine.tla;
    bounded attempts. \<open>ConnectBackoff\<close>: connect_backoff.cpp.
  \<^item> \<open>NimbleGattc\<close>, \<open>NimbleEngine\<close>, \<open>GattDiscovery\<close>: nimble_gattc.cpp; outcomes are reported once and in
    bounded time, discovery against a peer builds the peer's table.
  \<^item> \<open>ProxyReplies\<close>: the proxy's messages, senders, owed replies and slot accounting.
    \<open>ProxyConnection\<close>: one slot (bluetooth_connection_hub.h and .cpp). \<open>ServiceStream\<close>: the batching of
    a service table. \<open>StreamSafety\<close>: what a client can conclude from the stream. \<open>OwedReplies\<close>: the retry
    budgets. \<open>BluetoothProxy\<close>: the requests, the subscription and the loop. \<open>ProxySlots\<close>: the invariant of
    the slots under every operation. \<open>ProxyProperties\<close>: the properties of the proxy as a whole.
    \<open>SlotWatch\<close>, \<open>ProxyLiveness\<close>: the proxy with its engines and the clock; every connect request is
    answered in bounded time, and a connection with cached services is torn down by the engine's deadline.
    \<open>GattContract\<close>: the contract of ble_gatt_client.h between a slot and its backend, a locale interpreted on
    the engine and on the do-nothing backend; the outcomes of a request. \<open>PolledHub\<close>: the proxy's build for hubs
    that push no scanner state.
  \<^item> \<open>EventQueues\<close>: nimble_event.cpp, adv_queue.cpp, the drains; bounded FIFOs that lose only what they
    count, the shared queue of the GATT clients, and the tracker with its queue from report to dispatcher.
    \<open>ScanToApi\<close>: the queue, the tracker and the proxy together; what the client is offered is what the
    controller reported. \<open>ScannerReports\<close>: the client's last scanner report is the tracker's state, or is owed.
  \<^item> \<open>BleServer\<close>: esp32_ble_server/. \<open>ServerTable\<close>: the registered table is the configuration.
    \<open>ServerClients\<close>: clients and subscribers refine a set and a map. \<open>ServerProperties\<close>: the server with its
    queue under any interleaving. \<open>ListMaps\<close>: lists as arrays and as maps.

  \<^item> \<open>BleClient\<close>: esp32_ble_client/ and ble_client/. \<open>ClientProperties\<close>: reconnection, the lookup of
    characteristics on a discovered peer, what the nodes are told.

  \<^item> \<open>NimbleController\<close>: nimble_controller.cpp and esp32_ble/; bring-up in order and bounded, the advertised
    name, and why BLE cannot be enabled twice.
  \<^item> \<open>Aes\<close>: the cipher of ble_aes_ccm.cpp. \<open>AesField\<close>: the field of FIPS 197 and its S-box; \<open>AesSpec\<close>: the
    standard's cipher, equal to the code's. \<open>AesCcm\<close>: the decryption, RFC 3610 and their equivalence, proved
    in the locale \<open>block_cipher\<close> for any cipher and interpreted on the code's and on the standard's;
    resolve_irk of ble_device.cpp. \<open>AdvertTypes\<close>: the parser leaves well-formed devices.

  \<^item> \<open>UnitTests\<close>: tests/unit/ and the compile-time checks of bluetooth_proxy.h, run on the model.

  Conventions. State is a record, passed and returned. A call of the environment (a NimBLE function, a
  call of the listener, a message for the API) is an element of an output list or of a trace in the
  state; what the environment answers is a parameter (\<open>host\<close>, \<open>env\<close>, \<open>tracker_env\<close>): NimBLE, FreeRTOS and the
  API server are not in the repository. A read outside a buffer is \<open>None\<close>. Integers keep their width
  where the code can reach a wrap-around. The loops of the code are recursive functions with a
  termination proof; no fuel is used. The one loop nothing in the code bounds, popping until a queue is
  empty, is a partial function, proved to end. In the theories of the components the queue is the list of
  events a loop takes from it; \<open>EventQueues\<close> says which list that is.

  Not modelled: log lines and \<open>dump_config\<close>; the code generation in Python; of the builds for other
  platforms only the proxy's scanner state (\<open>PolledHub\<close>). The critical sections of the server are atomic
  steps; NimBLE and FreeRTOS are parameters.
\<close>

end
